(* ===== verification/Js_Prelude.thy ===== *)
theory Js_Prelude
  imports Main "HOL-Library.AList"
begin

text \<open>
  The parts of the JavaScript language and of its standard library that the modelled code
  uses, and the generic lemmas the components share.

  Strings.  A JavaScript string is modelled by the \<^typ>\<open>char\<close> list of its UTF-8 bytes.
  Every separator the code looks for (slash, question mark, hash, percent sign and so on) is
  ASCII, so splitting, prefix tests and slicing at a separator mean the same on bytes as on
  UTF-16 code units.  Case folding is modelled for ASCII letters.

  Errors.  A function that may throw returns \<open>'e + 'a\<close>, \<open>Inl\<close> for the thrown error.
\<close>

named_theorems js_str \<open>unfolding equations of the string library\<close>
named_theorems js_eval \<open>definitions to unfold when a closed term is evaluated\<close>

type_synonym ('e, 'a) res = "'e + 'a"

definition bindR :: "('e, 'a) res \<Rightarrow> ('a \<Rightarrow> ('e, 'b) res) \<Rightarrow> ('e, 'b) res" where
  "bindR m f = (case m of Inl e \<Rightarrow> Inl e | Inr x \<Rightarrow> f x)"

text \<open>A missing value replaced by a default: \<open>??\<close> and default parameters.\<close>

definition dflt :: "'a \<Rightarrow> 'a option \<Rightarrow> 'a" where
  "dflt d x = (case x of None \<Rightarrow> d | Some v \<Rightarrow> v)"

lemma dflt_simps [simp]: "dflt d None = d" "dflt d (Some v) = v"
  by (simp_all add: dflt_def)

lemma bindR_simps [simp]:
  "bindR (Inl e) f = Inl e"
  "bindR (Inr x) f = f x"
  by (simp_all add: bindR_def)

lemma bindR_eq_Inr: "bindR m f = Inr y \<longleftrightarrow> (\<exists>x. m = Inr x \<and> f x = Inr y)"
  by (cases m) auto

lemma bindR_ok: "(\<exists>x. m = Inr x) \<Longrightarrow> (\<And>x. \<exists>y. f x = Inr y) \<Longrightarrow> \<exists>y. bindR m f = Inr y"
  by auto

lemma bindR_eq_Inl: "bindR m f = Inl e \<longleftrightarrow> m = Inl e \<or> (\<exists>x. m = Inr x \<and> f x = Inl e)"
  by (cases m) auto


section \<open>String methods\<close>

abbreviation slash :: char where "slash \<equiv> CHR ''/''"
abbreviation qmark :: char where "qmark \<equiv> CHR ''?''"
abbreviation hash_c :: char where "hash_c \<equiv> CHR ''#''"

text \<open>\<open>s.startsWith(p)\<close> and \<open>s.endsWith(p)\<close>.\<close>

fun startsWith :: "'a list \<Rightarrow> 'a list \<Rightarrow> bool" where
  "startsWith s [] = True"
| "startsWith [] (p # ps) = False"
| "startsWith (c # cs) (p # ps) = (c = p \<and> startsWith cs ps)"

definition endsWith :: "'a list \<Rightarrow> 'a list \<Rightarrow> bool" where
  "endsWith s p = startsWith (rev s) (rev p)"

text \<open>\<open>s.charAt(i)\<close>: the empty string out of range, here \<open>None\<close>.\<close>

definition charAt :: "string \<Rightarrow> nat \<Rightarrow> char option" where
  "charAt s i = (if i < length s then Some (s ! i) else None)"

text \<open>\<open>s.indexOf(c)\<close> for a one-character needle, \<open>None\<close> for \<open>-1\<close>.\<close>

fun indexOf :: "string \<Rightarrow> char \<Rightarrow> nat option" where
  "indexOf [] c = None"
| "indexOf (x # xs) c = (if x = c then Some 0 else map_option Suc (indexOf xs c))"

text \<open>\<open>s.split(c)\<close> for a one-character separator and \<open>xs.join(c)\<close>.\<close>

fun js_split :: "char \<Rightarrow> string \<Rightarrow> string list" where
  "js_split c [] = [[]]"
| "js_split c (x # xs) =
     (if x = c then [] # js_split c xs
      else (case js_split c xs of [] \<Rightarrow> [[x]] | y # ys \<Rightarrow> (x # y) # ys))"

fun js_join :: "char \<Rightarrow> string list \<Rightarrow> string" where
  "js_join c [] = []"
| "js_join c [x] = x"
| "js_join c (x # y # ys) = x @ c # js_join c (y # ys)"

text \<open>\<open>s.toLowerCase()\<close>, on ASCII letters.\<close>

definition lower_char :: "char \<Rightarrow> char" where
  "lower_char c = (let n = of_char c :: nat in if 65 \<le> n \<and> n \<le> 90 then char_of (n + 32) else c)"

definition toLowerCase :: "string \<Rightarrow> string" where
  "toLowerCase s = map lower_char s"

text \<open>\<open>s.replace(/\/\/+/g, "/")\<close>: every run of slashes becomes one slash.\<close>

fun collapse_slashes :: "string \<Rightarrow> string" where
  "collapse_slashes [] = []"
| "collapse_slashes [x] = [x]"
| "collapse_slashes (x # y # ys) =
     (if x = slash \<and> y = slash then collapse_slashes (y # ys)
      else x # collapse_slashes (y # ys))"

text \<open>\<open>s.replace(/\/+$/, "")\<close> and \<open>s.replace(/^\/*/, "/")\<close>.\<close>

definition strip_trailing :: "string \<Rightarrow> string" where
  "strip_trailing s = rev (dropWhile (\<lambda>c. c = slash) (rev s))"

definition one_leading :: "string \<Rightarrow> string" where
  "one_leading s = slash # dropWhile (\<lambda>c. c = slash) s"


text \<open>\<open>String(n)\<close> of a non-negative integer.\<close>

fun nat_str :: "nat \<Rightarrow> string" where
  "nat_str n = (if n < 10 then [char_of (48 + n)] else nat_str (n div 10) @ [char_of (48 + n mod 10)])"

declare nat_str.simps [simp del]

definition int_str :: "int \<Rightarrow> string" where
  "int_str i = (if i < 0 then CHR ''-'' # nat_str (nat (- i)) else nat_str (nat i))"


subsection \<open>Prefixes and suffixes\<close>

lemma startsWith_iff: "startsWith s p \<longleftrightarrow> (\<exists>t. s = p @ t)"
  by (induction s p rule: startsWith.induct) auto

lemma startsWith_append [simp]: "startsWith (p @ t) p"
  by (auto simp: startsWith_iff)

lemma startsWith_drop: "startsWith s p \<Longrightarrow> p @ drop (length p) s = s"
  by (auto simp: startsWith_iff)

lemma startsWith_length: "startsWith s p \<Longrightarrow> length p \<le> length s"
  by (auto simp: startsWith_iff)

lemma endsWith_iff: "endsWith s p \<longleftrightarrow> (\<exists>t. s = t @ p)"
proof -
  have "(\<exists>t. rev s = rev p @ t) \<longleftrightarrow> (\<exists>t. s = t @ p)"
    by (metis rev_append rev_rev_ident)
  then show ?thesis by (simp add: endsWith_def startsWith_iff)
qed

lemma endsWith_single: "endsWith s [c] \<longleftrightarrow> s \<noteq> [] \<and> last s = c"
  by (auto simp: endsWith_iff) (metis append_butlast_last_id)

lemma endsWith_append_single [simp]: "endsWith (s @ [c]) [d] \<longleftrightarrow> c = d"
  by (simp add: endsWith_single)


subsection \<open>Finding and cutting\<close>

lemma indexOf_None_iff: "indexOf s c = None \<longleftrightarrow> c \<notin> set s"
  by (induction s) auto

lemma indexOf_Some_split:
  "indexOf s c = Some i \<Longrightarrow> s = take i s @ c # drop (Suc i) s \<and> c \<notin> set (take i s) \<and> i < length s"
  by (induction s arbitrary: i) (auto split: if_splits)

lemma indexOf_append: "c \<notin> set a \<Longrightarrow> indexOf (a @ c # b) c = Some (length a)"
  by (induction a) auto

lemma indexOf_append_None: "c \<notin> set a \<Longrightarrow> indexOf (a @ b) c = map_option ((+) (length a)) (indexOf b c)"
  by (induction a) (auto simp: option.map_comp comp_def option.map_ident cong: option.map_cong)


subsection \<open>Splitting and joining\<close>

lemma js_split_not_Nil [simp]: "js_split c s \<noteq> []"
  by (cases s) (auto split: list.splits)

lemma js_split_no_sep: "x \<in> set (js_split c s) \<Longrightarrow> c \<notin> set x"
proof (induction s arbitrary: x)
  case Nil
  then show ?case by simp
next
  case (Cons a s)
  then show ?case
    by (cases "js_split c s") (auto split: if_splits)
qed

lemma js_join_split [simp]: "js_join c (js_split c s) = s"
proof (induction s)
  case Nil
  then show ?case by simp
next
  case (Cons a s)
  show ?case
  proof (cases "js_split c s")
    case Nil
    then show ?thesis by simp
  next
    case (Cons y ys)
    then show ?thesis using Cons.IH by (cases ys) auto
  qed
qed

lemma js_split_no_occ: "c \<notin> set s \<Longrightarrow> js_split c s = [s]"
  by (induction s) auto

lemma js_split_append: "js_split c (a @ c # b) = js_split c a @ js_split c b"
  by (induction a) (auto split: list.splits)

lemma js_split_join:
  "xs \<noteq> [] \<Longrightarrow> (\<And>x. x \<in> set xs \<Longrightarrow> c \<notin> set x) \<Longrightarrow> js_split c (js_join c xs) = xs"
proof (induction c xs rule: js_join.induct)
  case (1 c)
  then show ?case by simp
next
  case (2 c x)
  then show ?case by (simp add: js_split_no_occ)
next
  case (3 c x y ys)
  then show ?case by (simp add: js_split_append js_split_no_occ)
qed

lemma js_split_inject: "js_split c s = js_split c t \<longleftrightarrow> s = t"
  by (metis js_join_split)

lemma js_join_Cons: "xs \<noteq> [] \<Longrightarrow> js_join c (x # xs) = x @ c # js_join c xs"
  by (cases xs) auto

lemma js_join_append: "xs \<noteq> [] \<Longrightarrow> ys \<noteq> [] \<Longrightarrow> js_join c (xs @ ys) = js_join c xs @ c # js_join c ys"
proof (induction xs)
  case Nil
  then show ?case by simp
next
  case (Cons x xs)
  then show ?case by (cases xs) (auto simp: js_join_Cons)
qed

lemma js_split_slash_Cons: "js_split c (c # s) = [] # js_split c s"
  by simp

lemma length_join_tl_split: "length (js_split c e) \<noteq> 1 \<Longrightarrow> length (js_join c (tl (js_split c e))) < length e"
proof -
  assume ne: "length (js_split c e) \<noteq> 1"
  obtain x xs where x: "js_split c e = x # xs"
    using js_split_not_Nil by (metis list.exhaust)
  with ne have "xs \<noteq> []" by auto
  then have "e = x @ c # js_join c xs"
    by (metis js_join_Cons js_join_split x)
  then show ?thesis using x by (metis add_Suc_right le_add2 length_Cons length_append list.sel(3) not_less_eq order_le_less_trans lessI less_add_Suc2)
qed


subsection \<open>Runs of slashes\<close>

lemma collapse_slashes_hd: "s \<noteq> [] \<Longrightarrow> collapse_slashes s \<noteq> [] \<and> hd (collapse_slashes s) = hd s"
  by (induction s rule: collapse_slashes.induct) auto

lemma collapse_slashes_Nil_iff [simp]: "collapse_slashes s = [] \<longleftrightarrow> s = []"
  using collapse_slashes_hd by (cases s) auto

text \<open>No two slashes in a row.\<close>

fun no_double_slash :: "string \<Rightarrow> bool" where
  "no_double_slash [] = True"
| "no_double_slash [x] = True"
| "no_double_slash (x # y # ys) = (\<not> (x = slash \<and> y = slash) \<and> no_double_slash (y # ys))"

lemma no_double_slash_Cons:
  "no_double_slash (x # ys) \<longleftrightarrow> no_double_slash ys \<and> (ys \<noteq> [] \<longrightarrow> \<not> (x = slash \<and> hd ys = slash))"
  by (cases ys) auto

lemma no_double_slash_collapse [simp]: "no_double_slash (collapse_slashes s)"
proof (induction s rule: collapse_slashes.induct)
  case (3 x y ys)
  then show ?case
    using collapse_slashes_hd [of "y # ys"] by (auto simp: no_double_slash_Cons)
qed auto

lemma collapse_slashes_id: "no_double_slash s \<Longrightarrow> collapse_slashes s = s"
  by (induction s rule: collapse_slashes.induct) auto

lemma collapse_slashes_idem [simp]: "collapse_slashes (collapse_slashes s) = collapse_slashes s"
  by (simp add: collapse_slashes_id)

lemma no_double_slash_append:
  "no_double_slash (a @ b) \<longleftrightarrow>
     no_double_slash a \<and> no_double_slash b \<and> (a \<noteq> [] \<and> b \<noteq> [] \<longrightarrow> \<not> (last a = slash \<and> hd b = slash))"
  by (induction a rule: no_double_slash.induct) (auto simp: no_double_slash_Cons)

lemma strip_trailing_snoc: "strip_trailing (s @ [c]) = (if c = slash then strip_trailing s else s @ [c])"
  by (simp add: strip_trailing_def)

lemma strip_trailing_last: "strip_trailing s \<noteq> [] \<Longrightarrow> last (strip_trailing s) \<noteq> slash"
  using hd_dropWhile [of "\<lambda>c. c = slash" "rev s"] by (auto simp: strip_trailing_def last_rev)

lemma strip_trailing_id: "\<not> endsWith s [slash] \<Longrightarrow> strip_trailing s = s"
  by (cases s rule: rev_cases) (auto simp: strip_trailing_snoc strip_trailing_def)

lemma strip_trailing_decomp: "\<exists>n. s = strip_trailing s @ replicate n slash"
proof (induction s rule: rev_induct)
  case Nil
  show ?case by (simp add: strip_trailing_def)
next
  case (snoc c s)
  then obtain n where n: "s = strip_trailing s @ replicate n slash" by blast
  show ?case
  proof (cases "c = slash")
    case True
    have "s @ [c] = strip_trailing (s @ [c]) @ replicate (Suc n) slash"
      using n True by (simp add: strip_trailing_snoc replicate_append_same)
         (metis append.assoc replicate_append_same)
    then show ?thesis by blast
  next
    case False
    then have "s @ [c] = strip_trailing (s @ [c]) @ replicate 0 slash"
      by (simp add: strip_trailing_snoc)
    then show ?thesis by blast
  qed
qed

end
