(* ===== verification/Router_Paths.thy ===== *)
theory Router_Paths
  imports Js_Prelude
begin

text \<open>
  The path algebra of the router (\<open>src/internal/admin/dist/index-DxrWcVFD.js\<close>, the
  react-router section): building and parsing a path, stripping the basename under which the
  dashboard is mounted, resolving a relative link target against the matched routes, and the
  decisions that \<open>Link\<close> and \<open>NavLink\<close> take from paths.  Each definition carries the name
  of the minified function it translates as a prefix.
\<close>

section \<open>Paths and locations\<close>

text \<open>A partial path object: a missing (undefined) field is \<open>None\<close>.\<close>

record part_path =
  pp_pathname :: "string option"
  pp_search :: "string option"
  pp_hash :: "string option"

record full_path =
  fp_pathname :: string
  fp_search :: string
  fp_hash :: string

record 'st location =
  loc_pathname :: string
  loc_search :: string
  loc_hash :: string
  loc_state :: "'st option"
  loc_key :: string

definition empty_path :: part_path where
  "empty_path = \<lparr>pp_pathname = None, pp_search = None, pp_hash = None\<rparr>"

text \<open>\<open>createPath\<close>.\<close>

definition Pb_createPath :: "part_path \<Rightarrow> string" where
  "Pb_createPath p =
     (let e = dflt ''/'' (pp_pathname p); t = dflt '''' (pp_search p); a = dflt '''' (pp_hash p);
          e1 = (if t \<noteq> [] \<and> t \<noteq> ''?'' then e @ (if hd t = qmark then t else qmark # t) else e);
          e2 = (if a \<noteq> [] \<and> a \<noteq> ''#'' then e1 @ (if hd a = hash_c then a else hash_c # a) else e1)
      in e2)"

text \<open>\<open>parsePath\<close>: cut at the first \<open>#\<close>, then at the first \<open>?\<close>.\<close>

definition cut_at :: "char \<Rightarrow> string \<Rightarrow> string \<times> string option" where
  "cut_at c e = (case indexOf e c of None \<Rightarrow> (e, None) | Some a \<Rightarrow> (take a e, Some (drop a e)))"

definition dv_parsePath :: "string \<Rightarrow> part_path" where
  "dv_parsePath e =
     (if e = [] then empty_path
      else
        let (e1, hash) = cut_at hash_c e;
            (e2, search) = cut_at qmark e1
        in \<lparr>pp_pathname = (if e2 = [] then None else Some e2), pp_search = search, pp_hash = hash\<rparr>)"

datatype to_arg = ToStr string | ToObj part_path

definition to_path :: "to_arg \<Rightarrow> part_path" where
  "to_path t = (case t of ToStr s \<Rightarrow> dv_parsePath s | ToObj p \<Rightarrow> p)"

text \<open>
  \<open>createLocation\<close>.  \<open>cur\<close> is the current pathname, \<open>tkey\<close> the key of the target object
  when it has one, \<open>key\<close> the optional default key and \<open>fresh\<close> the random key that
  \<open>createKey\<close> would draw.  An empty key is falsy.
\<close>

definition YR_createLocation ::
  "string \<Rightarrow> to_arg \<Rightarrow> string option \<Rightarrow> 'st option \<Rightarrow> string option \<Rightarrow> string \<Rightarrow> 'st location" where
  "YR_createLocation cur t tkey st key fresh =
     (let p = to_path t in
      \<lparr>loc_pathname = dflt cur (pp_pathname p),
       loc_search = dflt '''' (pp_search p),
       loc_hash = dflt '''' (pp_hash p),
       loc_state = st,
       loc_key = (if dflt '''' tkey \<noteq> [] then dflt '''' tkey
                  else if dflt '''' key \<noteq> [] then dflt '''' key else fresh)\<rparr>)"


section \<open>Joining and normalising\<close>

definition Wc_joinPaths :: "string list \<Rightarrow> string" where
  "Wc_joinPaths e = collapse_slashes (js_join slash e)"

definition g7_normalizePathname :: "string \<Rightarrow> string" where
  "g7_normalizePathname e = one_leading (strip_trailing e)"

definition b7_normalizeSearch :: "string \<Rightarrow> string" where
  "b7_normalizeSearch e =
     (if e = [] \<or> e = ''?'' then '''' else if startsWith e ''?'' then e else qmark # e)"

definition S7_normalizeHash :: "string \<Rightarrow> string" where
  "S7_normalizeHash e =
     (if e = [] \<or> e = ''#'' then '''' else if startsWith e ''#'' then e else hash_c # e)"

text \<open>\<open>stripBasename\<close>: \<open>None\<close> when the path is not below the basename.\<close>

definition rs_stripBasename :: "string \<Rightarrow> string \<Rightarrow> string option" where
  "rs_stripBasename e t =
     (if t = ''/'' then Some e
      else if \<not> startsWith (toLowerCase e) (toLowerCase t) then None
      else
        let a = (if endsWith t ''/'' then length t - 1 else length t) in
        (case charAt e a of
           Some i \<Rightarrow> if i \<noteq> slash then None
                     else Some (if drop a e = [] then ''/'' else drop a e)
         | None \<Rightarrow> Some (if drop a e = [] then ''/'' else drop a e)))"


section \<open>Resolving a link target\<close>

text \<open>\<open>resolvePathname\<close>: the segment stack, whose bottom element is never popped.\<close>

fun Y3_step :: "string list \<Rightarrow> string \<Rightarrow> string list" where
  "Y3_step a c = (if c = ''..'' then (if 1 < length a then butlast a else a)
                  else if c = ''.'' then a else a @ [c])"

definition Y3_resolvePathname :: "string \<Rightarrow> string \<Rightarrow> string" where
  "Y3_resolvePathname e t =
     (let a = foldl Y3_step (js_split slash (strip_trailing t)) (js_split slash e)
      in if 1 < length a then js_join slash a else ''/'')"

text \<open>\<open>resolvePath\<close>.\<close>

definition m7_resolvePath :: "part_path \<Rightarrow> string \<Rightarrow> full_path" where
  "m7_resolvePath p t =
     (let a = dflt '''' (pp_pathname p); a' = collapse_slashes a in
      \<lparr>fp_pathname = (if a = [] then t
                      else if startsWith a' ''/'' then Y3_resolvePathname (drop 1 a') ''/''
                      else Y3_resolvePathname a' t),
       fp_search = b7_normalizeSearch (dflt '''' (pp_search p)),
       fp_hash = S7_normalizeHash (dflt '''' (pp_hash p))\<rparr>)"

text \<open>The error of \<open>getInvalidPathError\<close>: the character, the field and the field it belongs in.\<close>

datatype path_error = InvalidPath char string string

fun shift_dotdots :: "string list \<Rightarrow> int \<Rightarrow> string list \<times> int" where
  "shift_dotdots [] n = ([], n)"
| "shift_dotdots (x # xs) n = (if x = ''..'' then shift_dotdots xs (n - 1) else (x # xs, n))"

definition check_to :: "part_path \<Rightarrow> (path_error, part_path) res" where
  "check_to c =
     (if qmark \<in> set (dflt '''' (pp_pathname c)) then Inl (InvalidPath qmark ''pathname'' ''search'')
      else if hash_c \<in> set (dflt '''' (pp_pathname c)) then Inl (InvalidPath hash_c ''pathname'' ''hash'')
      else if hash_c \<in> set (dflt '''' (pp_search c)) then Inl (InvalidPath hash_c ''search'' ''hash'')
      else Inr c)"

text \<open>
  \<open>resolveTo\<close> (the source's \<open>$q\<close>): \<open>t\<close> are the pathnames of the matched routes, \<open>a\<close> the
  current pathname, \<open>i\<close> whether the link is relative to the path rather than to the route.
\<close>

definition dq_base :: "part_path \<Rightarrow> string option \<Rightarrow> string list \<Rightarrow> string \<Rightarrow> bool \<Rightarrow> part_path \<times> string" where
  "dq_base c h t a i =
     (case h of
        None \<Rightarrow> (c, a)
      | Some h' \<Rightarrow>
          let S = int (length t) - 1;
              (c', S') =
                (if \<not> i \<and> startsWith h' ''..''
                 then (let (E, S1) = shift_dotdots (js_split slash h') S
                       in (c\<lparr>pp_pathname := Some (js_join slash E)\<rparr>, S1))
                 else (c, S))
          in (c', if 0 \<le> S' then t ! nat S' else ''/''))"

definition dq_resolveTo :: "to_arg \<Rightarrow> string list \<Rightarrow> string \<Rightarrow> bool \<Rightarrow> (path_error, full_path) res" where
  "dq_resolveTo e t a i =
     bindR (case e of ToStr s \<Rightarrow> Inr (dv_parsePath s) | ToObj p \<Rightarrow> check_to p) (\<lambda>c.
       let s = (e = ToStr '''' \<or> pp_pathname c = Some '''');
           h = (if s then Some ''/'' else pp_pathname c);
           (c', y) = dq_base c h t a i;
           g = m7_resolvePath c' y;
           b = (case h of None \<Rightarrow> False | Some h' \<Rightarrow> h' \<noteq> [] \<and> h' \<noteq> ''/'' \<and> endsWith h' ''/'');
           O' = ((s \<or> h = Some ''.'') \<and> endsWith a ''/'')
       in Inr (if \<not> endsWith (fp_pathname g) ''/'' \<and> (b \<or> O')
               then g\<lparr>fp_pathname := fp_pathname g @ ''/''\<rparr> else g))"

section \<open>Links\<close>

text \<open>
  The pathname part of \<open>useHref\<close>, of \<open>useNavigate\<close> outside a data router and of
  \<open>useFormAction\<close>: prefix the basename.
\<close>

definition D7_withBasename :: "string \<Rightarrow> string \<Rightarrow> string" where
  "D7_withBasename basename s =
     (if basename \<noteq> ''/'' then (if s = ''/'' then basename else Wc_joinPaths [basename, s]) else s)"

definition D7_useHref ::
  "string \<Rightarrow> to_arg \<Rightarrow> string list \<Rightarrow> string \<Rightarrow> bool \<Rightarrow> (path_error, string) res" where
  "D7_useHref basename to ms cur rel =
     bindR (dq_resolveTo to ms cur rel) (\<lambda>g.
       Inr (Pb_createPath \<lparr>pp_pathname = Some (D7_withBasename basename (fp_pathname g)),
                           pp_search = Some (fp_search g), pp_hash = Some (fp_hash g)\<rparr>))"

text \<open>The mouse event fields that \<open>shouldProcessLinkClick\<close> reads.\<close>

record click =
  ck_button :: nat
  ck_meta :: bool
  ck_alt :: bool
  ck_ctrl :: bool
  ck_shift :: bool

definition nP_isModifiedEvent :: "click \<Rightarrow> bool" where
  "nP_isModifiedEvent e = (ck_meta e \<or> ck_alt e \<or> ck_ctrl e \<or> ck_shift e)"

definition rP_shouldProcessLinkClick :: "click \<Rightarrow> string option \<Rightarrow> bool" where
  "rP_shouldProcessLinkClick e t =
     (ck_button e = 0 \<and> (dflt '''' t = [] \<or> t = Some ''_self'') \<and> \<not> nP_isModifiedEvent e)"

datatype nav_action = NavPush | NavReplace

text \<open>
  \<open>useLinkClickHandler\<close>: \<open>None\<close> leaves the click to the browser; otherwise the default
  action is prevented and the router navigates.  A link to the current path replaces the
  entry unless the caller says otherwise.
\<close>

definition AP_linkClick ::
  "click \<Rightarrow> string option \<Rightarrow> bool option \<Rightarrow> full_path \<Rightarrow> full_path \<Rightarrow> nav_action option" where
  "AP_linkClick E t a cur tgt =
     (if rP_shouldProcessLinkClick E t
      then (let path = (\<lambda>g. Pb_createPath \<lparr>pp_pathname = Some (fp_pathname g),
                              pp_search = Some (fp_search g), pp_hash = Some (fp_hash g)\<rparr>);
                w = (case a of Some r \<Rightarrow> r | None \<Rightarrow> path cur = path tgt)
            in Some (if w then NavReplace else NavPush))
      else None)"

record nav_flags =
  isActive :: bool
  isPending :: bool
  isTransitioning :: bool

text \<open>
  \<open>NavLink\<close>: \<open>N0\<close> is the (encoded) target pathname, \<open>L0\<close> the current pathname, \<open>U0\<close> the
  pathname of a pending navigation, \<open>C\<close> the basename, \<open>cs\<close> the case-sensitive flag, \<open>end'\<close> the
  \<open>end\<close> prop and \<open>R\<close> the view-transition flag.
\<close>

definition e8_NavLink_flags ::
  "bool \<Rightarrow> bool \<Rightarrow> string \<Rightarrow> string \<Rightarrow> string \<Rightarrow> string option \<Rightarrow> bool \<Rightarrow> nav_flags" where
  "e8_NavLink_flags cs end' C N0 L0 U0 R =
     (let L = (if cs then L0 else toLowerCase L0);
          U1 = (if cs then U0 else (case U0 of None \<Rightarrow> None | Some u \<Rightarrow> if u = [] then None else Some (toLowerCase u)));
          N = (if cs then N0 else toLowerCase N0);
          U = (if dflt '''' U1 \<noteq> [] \<and> C \<noteq> []
               then (case rs_stripBasename (dflt '''' U1) C of
                       Some u \<Rightarrow> if u = [] then U1 else Some u | None \<Rightarrow> U1)
               else U1);
          k = (if N \<noteq> ''/'' \<and> endsWith N ''/'' then length N - 1 else length N);
          M = (L = N \<or> \<not> end' \<and> startsWith L N \<and> charAt L k = Some slash);
          B = (case U of None \<Rightarrow> False
               | Some u \<Rightarrow> u = N \<or> \<not> end' \<and> startsWith u N \<and> charAt u (length N) = Some slash)
      in \<lparr>isActive = M, isPending = B, isTransitioning = R\<rparr>)"

text \<open>The class attribute when \<open>className\<close> is a string.\<close>

definition e8_NavLink_class :: "string \<Rightarrow> nav_flags \<Rightarrow> string" where
  "e8_NavLink_class i k =
     js_join CHR '' '' (filter (\<lambda>s. s \<noteq> [])
       [i, if isActive k then ''active'' else [], if isPending k then ''pending'' else [],
        if isTransitioning k then ''transitioning'' else []])"


section \<open>Lemmas\<close>

lemma cut_at_append: "c \<notin> set a \<Longrightarrow> cut_at c (a @ c # b) = (a, Some (c # b))"
  by (simp add: cut_at_def indexOf_append)

lemma cut_at_none: "c \<notin> set a \<Longrightarrow> cut_at c a = (a, None)"
  by (simp add: cut_at_def indexOf_None_iff [symmetric])

lemma cut_at_cases:
  obtains (none) "cut_at c e = (e, None)" "c \<notin> set e"
  | (some) a b where "e = a @ c # b" "c \<notin> set a" "cut_at c e = (a, Some (c # b))"
proof (cases "indexOf e c")
  case None
  then show ?thesis using none cut_at_none by (simp add: indexOf_None_iff)
next
  case (Some i)
  from indexOf_Some_split [OF this]
  have "e = take i e @ c # drop (Suc i) e" "c \<notin> set (take i e)" by auto
  then show ?thesis using some by (metis cut_at_append)
qed

text \<open>A path object in the form \<open>parsePath\<close> produces when nothing is degenerate.\<close>

definition proper_path :: "part_path \<Rightarrow> bool" where
  "proper_path p \<longleftrightarrow>
     (case pp_pathname p of None \<Rightarrow> False | Some n \<Rightarrow> n \<noteq> [] \<and> qmark \<notin> set n \<and> hash_c \<notin> set n) \<and>
     (case pp_search p of None \<Rightarrow> True
      | Some q \<Rightarrow> 1 < length q \<and> hd q = qmark \<and> hash_c \<notin> set q) \<and>
     (case pp_hash p of None \<Rightarrow> True | Some h \<Rightarrow> 1 < length h \<and> hd h = hash_c)"

text \<open>The two halves of printing and parsing.\<close>

lemma parse_parts:
  assumes "n \<noteq> []" "qmark \<notin> set n" "hash_c \<notin> set n"
    and "q = [] \<or> hd q = qmark \<and> hash_c \<notin> set q" and "h = [] \<or> hd h = hash_c"
  shows "dv_parsePath (n @ q @ h) =
    \<lparr>pp_pathname = Some n, pp_search = (if q = [] then None else Some q),
     pp_hash = (if h = [] then None else Some h)\<rparr>"
proof -
  have hq: "hash_c \<notin> set (n @ q)" using assms(3,4) by auto
  have c1: "cut_at hash_c (n @ q @ h) = (n @ q, if h = [] then None else Some h)"
    using assms(5) cut_at_append [OF hq, of "tl h"] cut_at_none [OF hq] by (cases h) auto
  have c2: "cut_at qmark (n @ q) = (n, if q = [] then None else Some q)"
    using assms(2,4) cut_at_append [of qmark n "tl q"] cut_at_none by (cases q) auto
  show ?thesis using assms(1) c1 c2 by (simp add: dv_parsePath_def)
qed

lemma create_parts:
  "Pb_createPath \<lparr>pp_pathname = Some n, pp_search = q, pp_hash = h\<rparr> =
     n @ (let t = dflt '''' q in if t \<noteq> [] \<and> t \<noteq> ''?'' then (if hd t = qmark then t else qmark # t) else [])
       @ (let a = dflt '''' h in if a \<noteq> [] \<and> a \<noteq> ''#'' then (if hd a = hash_c then a else hash_c # a) else [])"
  by (simp add: Pb_createPath_def Let_def)

text \<open>Case folding.\<close>

lemma lower_char_slash: "lower_char c = slash \<longleftrightarrow> c = slash"
proof -
  have "lower_char c = slash \<Longrightarrow> c = slash"
  proof (rule ccontr)
    assume a: "lower_char c = slash" "c \<noteq> slash"
    then have r: "65 \<le> (of_char c :: nat)" "(of_char c :: nat) \<le> 90"
      and e: "char_of (of_char c + 32 :: nat) = slash"
      by (auto simp: lower_char_def Let_def split: if_splits)
    have "of_char (char_of (of_char c + 32 :: nat)) = (of_char c + 32 :: nat)"
      using r by (simp add: of_char_of)
    with e have "(of_char c + 32 :: nat) = 47" by simp
    then show False using r by simp
  qed
  moreover have "lower_char slash = slash" by (simp add: lower_char_def)
  ultimately show ?thesis by blast
qed

lemma toLowerCase_simps [simp]:
  "toLowerCase [] = []" "toLowerCase (c # s) = lower_char c # toLowerCase s"
  "toLowerCase (s @ t) = toLowerCase s @ toLowerCase t"
  "length (toLowerCase s) = length s"
  by (simp_all add: toLowerCase_def)

lemma lower_char_idem [simp]: "lower_char (lower_char c) = lower_char c"
proof -
  have "(65::nat) \<le> n \<Longrightarrow> n \<le> 90 \<Longrightarrow> of_char (char_of (n + 32) :: char) = n + 32" for n
    by (simp add: of_char_of)
  then show ?thesis by (auto simp: lower_char_def Let_def)
qed

lemma toLowerCase_idem [simp]: "toLowerCase (toLowerCase s) = toLowerCase s"
  by (simp add: toLowerCase_def)

lemma toLowerCase_eq_append:
  "toLowerCase e = p @ t \<longleftrightarrow> (\<exists>a b. e = a @ b \<and> toLowerCase a = p \<and> toLowerCase b = t)"
  by (auto simp: toLowerCase_def map_eq_append_conv)

section \<open>Properties of parsing and printing\<close>

text \<open>
  Printing a path object and parsing the result gives the object back, for every object
  whose pathname is present and whose search and hash, when present, carry more than their
  leading mark.
\<close>

theorem parsePath_createPath:
  assumes "proper_path p"
  shows "dv_parsePath (Pb_createPath p) = p"
proof (cases p)
  case (fields n q h)
  then obtain n' where n: "n = Some n'" "n' \<noteq> []" "qmark \<notin> set n'" "hash_c \<notin> set n'"
    using assms by (auto simp: proper_path_def split: option.splits)
  have q: "dflt '''' q = [] \<or> hd (dflt '''' q) = qmark \<and> hash_c \<notin> set (dflt '''' q)"
    and q': "q = Some x \<Longrightarrow> x \<noteq> [] \<and> x \<noteq> ''?''" for x
    using assms fields by (auto simp: proper_path_def split: option.splits)
  have h: "dflt '''' h = [] \<or> hd (dflt '''' h) = hash_c"
    and h': "h = Some x \<Longrightarrow> x \<noteq> [] \<and> x \<noteq> ''#''" for x
    using assms fields by (auto simp: proper_path_def split: option.splits)
  have "Pb_createPath p = n' @ dflt '''' q @ dflt '''' h"
    using q q' h h' unfolding fields n(1) create_parts
    by (cases q; cases h) (auto simp: Let_def)
  moreover have "dv_parsePath (n' @ dflt '''' q @ dflt '''' h) = p"
    using q' h' unfolding parse_parts [OF n(2-4) q h] fields n(1) by (cases q; cases h) auto
  ultimately show ?thesis by simp
qed

theorem parsePath_createPath_witness:
  "dv_parsePath (Pb_createPath
     \<lparr>pp_pathname = Some ''/jobs'', pp_search = Some ''?state=active'', pp_hash = None\<rparr>) =
   \<lparr>pp_pathname = Some ''/jobs'', pp_search = Some ''?state=active'', pp_hash = None\<rparr>"
  by (rule parsePath_createPath) (simp add: proper_path_def)

text \<open>
  Parsing a string and printing the result gives the string back, unless a part of it is
  degenerate (no pathname, or a bare question mark or hash, which printing drops).
\<close>

theorem createPath_parsePath:
  assumes "pp_pathname (dv_parsePath s) \<noteq> None"
    and "pp_search (dv_parsePath s) \<noteq> Some ''?''" and "pp_hash (dv_parsePath s) \<noteq> Some ''#''"
  shows "Pb_createPath (dv_parsePath s) = s"
proof -
  have s: "s \<noteq> []" using assms(1) by (auto simp: dv_parsePath_def empty_path_def)
  show ?thesis
  proof (cases rule: cut_at_cases [of hash_c s])
    case none
    then show ?thesis
      using assms s by (cases rule: cut_at_cases [of qmark s])
        (auto simp: dv_parsePath_def Pb_createPath_def Let_def split: if_splits)
  next
    case (some a b)
    then show ?thesis
      using assms s by (cases rule: cut_at_cases [of qmark a])
        (auto simp: dv_parsePath_def Pb_createPath_def Let_def split: if_splits)
  qed
qed

theorem createPath_parsePath_witness:
  "Pb_createPath (dv_parsePath ''/queues?name=a#top'') = ''/queues?name=a#top''"
  by (rule createPath_parsePath) (simp_all add: dv_parsePath_def cut_at_def)


section \<open>Properties of the basename\<close>

text \<open>What a basename looks like once \<open>Router\<close> has normalised it.\<close>

definition plain_basename :: "string \<Rightarrow> bool" where
  "plain_basename b \<longleftrightarrow> startsWith b ''/'' \<and> no_double_slash b \<and> \<not> endsWith b ''/''"

definition plain_pathname :: "string \<Rightarrow> bool" where
  "plain_pathname p \<longleftrightarrow> startsWith p ''/'' \<and> no_double_slash p"

lemma stripBasename_char:
  assumes "plain_basename b"
  shows "rs_stripBasename p b = Some q \<longleftrightarrow>
    (\<exists>b' r. p = b' @ r \<and> toLowerCase b' = toLowerCase b \<and>
            (r = [] \<and> q = ''/'' \<or> startsWith r ''/'' \<and> q = r))"
proof -
  have b: "b \<noteq> ''/''" "\<not> endsWith b ''/''"
    using assms by (auto simp: plain_basename_def endsWith_single)
  have pre: "startsWith (toLowerCase p) (toLowerCase b) \<longleftrightarrow>
    (\<exists>b' r. p = b' @ r \<and> toLowerCase b' = toLowerCase b)"
    by (auto simp: startsWith_iff toLowerCase_eq_append)
  have len: "toLowerCase b' = toLowerCase b \<Longrightarrow> length b' = length b" for b'
    by (metis toLowerCase_simps(4))
  show ?thesis
  proof (cases "\<exists>b' r. p = b' @ r \<and> toLowerCase b' = toLowerCase b")
    case True
    then obtain b' r where p: "p = b' @ r" and lb: "toLowerCase b' = toLowerCase b" by blast
    have l: "length b' = length b" using lb by (rule len)
    have uniq: "p = b'' @ r' \<Longrightarrow> toLowerCase b'' = toLowerCase b \<Longrightarrow> r' = r" for b'' r'
      using p l len [of b''] by auto
    have "rs_stripBasename p b = (case r of [] \<Rightarrow> Some ''/'' | i # _ \<Rightarrow> if i \<noteq> slash then None else Some r)"
      using b True pre p l by (cases r) (auto simp: rs_stripBasename_def charAt_def Let_def nth_append)
    moreover have "(\<exists>b' r. p = b' @ r \<and> toLowerCase b' = toLowerCase b \<and>
        (r = [] \<and> q = ''/'' \<or> startsWith r ''/'' \<and> q = r)) \<longleftrightarrow>
      (r = [] \<and> q = ''/'' \<or> startsWith r ''/'' \<and> q = r)"
      using uniq p lb by blast
    ultimately show ?thesis by (cases r) auto
  next
    case False
    then show ?thesis using b pre by (auto simp: rs_stripBasename_def)
  qed
qed

text \<open>
  \<open>stripBasename\<close> succeeds exactly when the path is the basename up to case, alone or
  followed by a slash, and returns the remainder.  A path that merely starts with the same
  characters, such as \<open>/ojs/administrator\<close> for the basename \<open>/ojs/admin\<close>, is refused.
\<close>

theorem stripBasename_iff:
  assumes "plain_basename b"
  shows "rs_stripBasename p b = Some q \<longleftrightarrow>
    (\<exists>b' r. p = b' @ r \<and> toLowerCase b' = toLowerCase b \<and>
            (r = [] \<and> q = ''/'' \<or> startsWith r ''/'' \<and> q = r))"
  by (rule stripBasename_char [OF assms])

theorem stripBasename_iff_witness:
  "rs_stripBasename ''/OJS/admin/jobs'' ''/ojs/admin'' = Some ''/jobs''"
proof -
  have "plain_basename ''/ojs/admin''"
    by (simp add: plain_basename_def endsWith_single)
  moreover have "''/OJS/admin/jobs'' = ''/OJS/admin'' @ ''/jobs'' \<and>
      toLowerCase ''/OJS/admin'' = toLowerCase ''/ojs/admin'' \<and> startsWith ''/jobs'' ''/''"
    by code_simp
  ultimately show ?thesis by (blast intro: stripBasename_iff [THEN iffD2])
qed

lemma collapse_join2:
  assumes "plain_basename b" "plain_pathname p" "p \<noteq> ''/''"
  shows "Wc_joinPaths [b, p] = b @ p"
proof -
  obtain p' where p: "p = slash # p'"
    using assms(2) by (auto simp: plain_pathname_def startsWith_iff)
  have bn: "b \<noteq> []" "last b \<noteq> slash"
    using assms(1) by (auto simp: plain_basename_def endsWith_single startsWith_iff)
  have "no_double_slash (b @ p)"
    using assms p bn by (auto simp: no_double_slash_append plain_basename_def plain_pathname_def)
  moreover have "collapse_slashes (a @ slash # slash # c) = collapse_slashes (a @ slash # c)" for a c
    by (induction a rule: collapse_slashes.induct) auto
  ultimately show ?thesis
    by (simp add: Wc_joinPaths_def p collapse_slashes_id)
qed

lemma strip_withBasename_id:
  assumes "plain_basename b \<or> b = ''/''" and "plain_pathname p"
  shows "rs_stripBasename (D7_withBasename b p) b = Some p"
proof (cases "b = ''/''")
  case True
  then show ?thesis by (simp add: rs_stripBasename_def D7_withBasename_def)
next
  case False
  then have pb: "plain_basename b" using assms(1) by blast
  show ?thesis
  proof (cases "p = ''/''")
    case True
    then show ?thesis
      using False stripBasename_char [OF pb, of b p] by (auto simp: D7_withBasename_def)
  next
    case False
    have "D7_withBasename b p = b @ p"
      using \<open>b \<noteq> ''/''\<close> False collapse_join2 [OF pb assms(2) False]
      by (simp add: D7_withBasename_def)
    then show ?thesis
      using assms(2) stripBasename_char [OF pb, of "b @ p" p] by (auto simp: plain_pathname_def)
  qed
qed

text \<open>
  The two directions of the mount point cancel: the path a link puts under the basename
  is, when the router reads it back from the address bar, the path the link asked for.
\<close>

theorem stripBasename_withBasename:
  assumes "plain_basename b \<or> b = ''/''" and "plain_pathname p"
  shows "rs_stripBasename (D7_withBasename b p) b = Some p"
  by (rule strip_withBasename_id [OF assms])

theorem stripBasename_withBasename_witness:
  "rs_stripBasename (D7_withBasename ''/ojs/admin'' ''/dead-letter'') ''/ojs/admin'' = Some ''/dead-letter''"
  by (rule stripBasename_withBasename)
    (simp_all add: plain_basename_def plain_pathname_def endsWith_single)

section \<open>Properties of resolution\<close>

definition clean_seg :: "string \<Rightarrow> bool" where
  "clean_seg s \<longleftrightarrow> s \<noteq> ''..'' \<and> s \<noteq> ''.''"

text \<open>An absolute path with single slashes and no dot segment.\<close>

definition navigable :: "string \<Rightarrow> bool" where
  "navigable p \<longleftrightarrow> plain_pathname p \<and> list_all clean_seg (js_split slash p)"

text \<open>The segment stack of \<open>resolvePathname\<close>: an empty bottom and proper segments above it.\<close>

definition good_seg :: "string \<Rightarrow> bool" where
  "good_seg s \<longleftrightarrow> s \<noteq> [] \<and> slash \<notin> set s \<and> clean_seg s"

definition stack_ok :: "string list \<Rightarrow> bool" where
  "stack_ok a \<longleftrightarrow> (\<exists>bs. a = [] # bs \<and> list_all good_seg bs)"

lemma hd_js_split_Nil: "hd (js_split c s) = [] \<longleftrightarrow> s = [] \<or> hd s = c"
  by (cases s) (auto split: list.splits)

lemma tl_split_nonempty:
  "no_double_slash s \<Longrightarrow> s = [] \<or> last s \<noteq> slash \<Longrightarrow> y \<in> set (tl (js_split slash s)) \<Longrightarrow> y \<noteq> []"
proof (induction s arbitrary: y)
  case Nil
  then show ?case by simp
next
  case (Cons x s)
  have IH: "z \<in> set (tl (js_split slash s)) \<Longrightarrow> z \<noteq> []" for z
    using Cons.IH [of z] Cons.prems(1,2) by (auto simp: no_double_slash_Cons split: if_splits)
  show ?case
  proof (cases "x = slash")
    case True
    then have "s \<noteq> []" "hd s \<noteq> slash"
      using Cons.prems(1,2) by (auto simp: no_double_slash_Cons)
    then have "hd (js_split slash s) \<noteq> []" by (simp add: hd_js_split_Nil)
    moreover have "y \<in> set (js_split slash s)" using Cons.prems(3) True by simp
    ultimately show ?thesis using IH by (cases "js_split slash s") auto
  next
    case False
    then show ?thesis using Cons.prems(3) IH by (cases "js_split slash s") auto
  qed
qed

lemma all_split_nonempty:
  "no_double_slash s \<Longrightarrow> s \<noteq> [] \<Longrightarrow> last s \<noteq> slash \<Longrightarrow> hd s \<noteq> slash \<Longrightarrow> y \<in> set (js_split slash s) \<Longrightarrow> y \<noteq> []"
  using tl_split_nonempty [of s y] hd_js_split_Nil [of slash s]
  by (cases "js_split slash s") auto

lemma segs_collapsed:
  assumes "no_double_slash e" "e = [] \<or> hd e \<noteq> slash"
  shows "\<exists>ys z. js_split slash e = ys @ [z] \<and> [] \<notin> set ys"
proof (cases e rule: rev_cases)
  case Nil
  then show ?thesis by auto
next
  case (snoc w x)
  show ?thesis
  proof (cases "x = slash")
    case True
    have w: "no_double_slash w" "w \<noteq> []" "last w \<noteq> slash" "hd w \<noteq> slash"
      using assms snoc True by (auto simp: no_double_slash_append hd_append split: if_splits)
    have "js_split slash e = js_split slash w @ [[]]"
      using snoc True js_split_append [of slash w "[]"] by simp
    then show ?thesis using all_split_nonempty [OF w] by blast
  next
    case False
    then have "[] \<notin> set (js_split slash e)"
      using all_split_nonempty [of e "[]"] assms snoc by auto
    then show ?thesis
      by (metis append_butlast_last_id in_set_butlastD js_split_not_Nil)
  qed
qed

lemma stack_ok_step: "stack_ok a \<Longrightarrow> c \<noteq> [] \<Longrightarrow> slash \<notin> set c \<Longrightarrow> stack_ok (Y3_step a c)"
  by (auto simp: stack_ok_def good_seg_def clean_seg_def list_all_iff dest!: in_set_butlastD)

lemma stack_ok_foldl:
  "stack_ok a \<Longrightarrow> [] \<notin> set cs \<Longrightarrow> (\<And>c. c \<in> set cs \<Longrightarrow> slash \<notin> set c) \<Longrightarrow> stack_ok (foldl Y3_step a cs)"
proof (induction cs arbitrary: a)
  case (Cons c cs)
  then have "stack_ok (Y3_step a c)" by (intro stack_ok_step) auto
  with Cons show ?case by (simp del: Y3_step.simps)
qed simp

lemma no_double_join:
  "bs \<noteq> [] \<Longrightarrow> list_all good_seg bs \<Longrightarrow>
     no_double_slash (js_join slash bs) \<and> js_join slash bs \<noteq> [] \<and>
     hd (js_join slash bs) \<noteq> slash \<and> last (js_join slash bs) \<noteq> slash"
proof (induction slash bs rule: js_join.induct)
  case 1
  then show ?case by simp
next
  case (2 x)
  have "slash \<notin> set x \<Longrightarrow> no_double_slash x" by (induction x rule: no_double_slash.induct) auto
  with 2 show ?case by (auto simp: good_seg_def dest: hd_in_set last_in_set)
next
  case (3 x y ys)
  have "slash \<notin> set x \<Longrightarrow> no_double_slash x" by (induction x rule: no_double_slash.induct) auto
  with 3 show ?case
    by (auto simp: good_seg_def no_double_slash_append no_double_slash_Cons dest: hd_in_set last_in_set)
qed

lemma split_join_stack: "list_all good_seg bs \<Longrightarrow> js_split slash (js_join slash ([] # bs)) = [] # bs"
  by (rule js_split_join) (auto simp: list_all_iff good_seg_def)

lemma navigable_join:
  assumes "list_all good_seg bs" "bs \<noteq> []"
  shows "navigable (js_join slash ([] # bs))" and "navigable (js_join slash ([] # bs @ [[]]))"
proof -
  let ?j = "js_join slash bs"
  note nd = no_double_join [OF assms(2,1)]
  have e: "js_join slash ([] # bs) = slash # ?j" using assms(2) by (simp add: js_join_Cons)
  have cl: "list_all clean_seg bs" using assms(1) by (auto simp: list_all_iff good_seg_def)
  show "navigable (js_join slash ([] # bs))"
    using nd cl split_join_stack [OF assms(1)]
    by (auto simp: navigable_def plain_pathname_def e no_double_slash_Cons clean_seg_def)
  have e2: "js_join slash ([] # bs @ [[]]) = slash # ?j @ [slash]"
    using js_join_append [of bs "[[]]" slash] assms(2) by (simp add: js_join_Cons)
  have "js_split slash (slash # ?j @ [slash]) = [] # bs @ [[]]"
    using split_join_stack [OF assms(1)] e js_split_append [of slash "slash # ?j" "[]"] by simp
  then show "navigable (js_join slash ([] # bs @ [[]]))"
    using nd cl unfolding e2
    by (auto simp: navigable_def plain_pathname_def no_double_slash_Cons no_double_slash_append clean_seg_def)
qed

lemma navigable_root [simp]: "navigable ''/''"
  by (simp add: navigable_def plain_pathname_def clean_seg_def)

lemma navigable_base_stack:
  assumes "navigable t"
  shows "stack_ok (js_split slash (strip_trailing t))"
proof -
  obtain n where n: "t = strip_trailing t @ replicate n slash" using strip_trailing_decomp by blast
  show ?thesis
  proof (cases "strip_trailing t")
    case Nil
    then show ?thesis by (simp add: stack_ok_def)
  next
    case (Cons x s)
    have x: "x = slash" and nd: "no_double_slash (x # s)"
      using assms n Cons no_double_slash_append [of "x # s" "replicate n slash"]
      by (auto simp: navigable_def plain_pathname_def startsWith_iff)
    have ls: "last (x # s) \<noteq> slash" using strip_trailing_last [of t] Cons by simp
    then have s: "s \<noteq> []" "hd s \<noteq> slash" "last s \<noteq> slash" "no_double_slash s"
      using x nd by (auto simp: no_double_slash_Cons split: if_splits)
    have sub: "set (js_split slash (x # s)) \<subseteq> set (js_split slash t)"
    proof (cases n)
      case 0
      then show ?thesis using n Cons by simp
    next
      case (Suc m)
      then have "t = (x # s) @ slash # replicate m slash" using n Cons by simp
      then show ?thesis by (metis Un_upper1 js_split_append set_append)
    qed
    have "list_all good_seg (js_split slash s)"
      using sub assms x all_split_nonempty [OF s(4,1,3,2)]
      by (auto simp: list_all_iff good_seg_def navigable_def dest: js_split_no_sep)
    then show ?thesis using Cons x by (simp add: stack_ok_def)
  qed
qed

lemma navigable_resolvePathname:
  assumes "navigable t" "no_double_slash e" "e = [] \<or> hd e \<noteq> slash"
  shows "navigable (Y3_resolvePathname e t)"
proof -
  obtain ys z where yz: "js_split slash e = ys @ [z]" "[] \<notin> set ys"
    using segs_collapsed [OF assms(2,3)] by blast
  have ns: "c \<in> set (ys @ [z]) \<Longrightarrow> slash \<notin> set c" for c
    using yz(1) js_split_no_sep [of c slash e] by simp
  define a where "a = foldl Y3_step (js_split slash (strip_trailing t)) ys"
  have a: "stack_ok a"
    unfolding a_def using navigable_base_stack [OF assms(1)] yz(2) ns by (intro stack_ok_foldl) auto
  then obtain bs where bs: "a = [] # bs" "list_all good_seg bs" by (auto simp: stack_ok_def)
  have r: "Y3_resolvePathname e t =
      (let b = Y3_step a z in if 1 < length b then js_join slash b else ''/'')"
    by (simp add: Y3_resolvePathname_def yz(1) a_def)
  show ?thesis
  proof (cases "z = []")
    case True
    then show ?thesis
      unfolding r using navigable_join(2) [OF bs(2)] bs by (cases "bs = []") auto
  next
    case False
    then have "stack_ok (Y3_step a z)" using a ns by (intro stack_ok_step) auto
    then obtain cs where "Y3_step a z = [] # cs" "list_all good_seg cs" by (auto simp: stack_ok_def)
    then show ?thesis unfolding r using navigable_join(1) [of cs] by (auto simp: Let_def)
  qed
qed

lemma navigable_resolvePath: "navigable t \<Longrightarrow> navigable (fp_pathname (m7_resolvePath p t))"
proof -
  assume t: "navigable t"
  define a where "a = collapse_slashes (dflt '''' (pp_pathname p))"
  have nd: "no_double_slash a" by (simp add: a_def)
  show ?thesis
  proof (cases "startsWith a ''/''")
    case True
    then have "no_double_slash (drop 1 a)" "drop 1 a = [] \<or> hd (drop 1 a) \<noteq> slash"
      using nd by (auto simp: startsWith_iff no_double_slash_Cons)
    then show ?thesis
      using True t navigable_resolvePathname [OF navigable_root, of "drop 1 a"]
      by (auto simp: m7_resolvePath_def Let_def a_def)
  next
    case False
    then have "a = [] \<or> hd a \<noteq> slash" by (cases a) auto
    then show ?thesis
      using False t navigable_resolvePathname [OF t nd] by (auto simp: m7_resolvePath_def Let_def a_def)
  qed
qed

lemma navigable_snoc_slash: "navigable p \<Longrightarrow> \<not> endsWith p ''/'' \<Longrightarrow> navigable (p @ ''/'')"
proof -
  assume a: "navigable p" "\<not> endsWith p ''/''"
  have "js_split slash (p @ ''/'') = js_split slash p @ [[]]"
    using js_split_append [of slash p "[]"] by simp
  then show ?thesis
    using a by (auto simp: navigable_def plain_pathname_def no_double_slash_append
        endsWith_single startsWith_iff clean_seg_def)
qed

lemma dq_base_navigable:
  assumes "list_all navigable t" "navigable a"
  shows "navigable (snd (dq_base c h t a i))"
proof -
  have "shift_dotdots E n = (E', m) \<Longrightarrow> m \<le> n" for E n E' m
    by (induction E n arbitrary: E' m rule: shift_dotdots.induct) (fastforce split: if_splits)+
  then have sd: "snd (shift_dotdots E n) \<le> n" for E n by (metis prod.collapse)
  have nth: "m \<le> int (length t) - 1 \<Longrightarrow> navigable (if 0 \<le> m then t ! nat m else ''/'')" for m
    using assms(1) by (auto simp: list_all_length)
  show ?thesis
  proof (cases h)
    case None
    then show ?thesis using assms(2) by (simp add: dq_base_def)
  next
    case (Some h')
    show ?thesis
      using nth [of "int (length t) - 1"] nth [OF sd [of "js_split slash h'" "int (length t) - 1"]]
      by (auto simp: dq_base_def Some Let_def case_prod_beta simp del: js_split.simps split: if_splits)
  qed
qed

lemma resolveTo_pathname_ok:
  assumes "dq_resolveTo e t a i = Inr g" and "list_all navigable t" and "navigable a"
  shows "navigable (fp_pathname g)"
proof -
  obtain c where c: "(case e of ToStr s \<Rightarrow> Inr (dv_parsePath s) | ToObj p \<Rightarrow> check_to p) = Inr c"
    using assms(1) by (auto simp: dq_resolveTo_def bindR_eq_Inr)
  define h where "h = (if e = ToStr '''' \<or> pp_pathname c = Some '''' then Some ''/'' else pp_pathname c)"
  define g0 where "g0 = m7_resolvePath (fst (dq_base c h t a i)) (snd (dq_base c h t a i))"
  have g0: "navigable (fp_pathname g0)"
    unfolding g0_def by (intro navigable_resolvePath dq_base_navigable assms)
  have "g = g0 \<or> \<not> endsWith (fp_pathname g0) ''/'' \<and> g = g0\<lparr>fp_pathname := fp_pathname g0 @ ''/''\<rparr>"
    using assms(1) unfolding dq_resolveTo_def c
    by (auto simp: h_def g0_def Let_def split: prod.splits if_splits)
  then show ?thesis using g0 navigable_snoc_slash [OF g0] by auto
qed

text \<open>
  Whatever a link asks for, the resolved pathname is navigable: absolute, without doubled
  slashes and without dot segments, provided the current pathname and those of the matched
  routes are.  In particular no sequence of double dots climbs above the root.
\<close>

theorem resolveTo_navigable:
  assumes "dq_resolveTo e t a i = Inr g" and "list_all navigable t" and "navigable a"
  shows "navigable (fp_pathname g)"
  by (rule resolveTo_pathname_ok [OF assms])

theorem resolveTo_navigable_witness:
  "dq_resolveTo (ToStr ''../../x'') [''/'', ''/jobs''] ''/jobs'' False =
     Inr \<lparr>fp_pathname = ''/x'', fp_search = '''', fp_hash = ''''\<rparr> \<and> navigable ''/x''"
proof -
  have "dq_resolveTo (ToStr ''../../x'') [''/'', ''/jobs''] ''/jobs'' False =
      Inr \<lparr>fp_pathname = ''/x'', fp_search = '''', fp_hash = ''''\<rparr>"
    by code_simp
  moreover have "list_all navigable [''/'', ''/jobs'']" "navigable ''/jobs''"
    by (simp_all add: navigable_def plain_pathname_def clean_seg_def)
  ultimately show ?thesis using resolveTo_navigable by fastforce
qed

text \<open>
  End to end: the address a link navigates to is read back by the router as exactly the
  pathname the link resolved to, for every target, every stack of matched routes and every
  normalised basename.
\<close>

theorem link_target_read_back:
  assumes "dq_resolveTo e t a i = Inr g" and "list_all navigable t" and "navigable a"
    and "plain_basename b \<or> b = ''/''"
  shows "rs_stripBasename (D7_withBasename b (fp_pathname g)) b = Some (fp_pathname g)"
  using strip_withBasename_id [OF assms(4)] resolveTo_pathname_ok [OF assms(1-3)]
  by (simp add: navigable_def)

theorem link_target_read_back_witness:
  "rs_stripBasename (D7_withBasename ''/ojs/admin'' ''/x'') ''/ojs/admin'' = Some ''/x''"
proof -
  have r: "dq_resolveTo (ToStr ''../x'') [''/'', ''/jobs''] ''/jobs'' False =
      Inr \<lparr>fp_pathname = ''/x'', fp_search = [], fp_hash = []\<rparr>"
    by code_simp
  have "list_all navigable [''/'', ''/jobs'']" "navigable ''/jobs''" "plain_basename ''/ojs/admin''"
    by (simp_all add: navigable_def plain_pathname_def clean_seg_def plain_basename_def endsWith_single)
  then show ?thesis using link_target_read_back [OF r] by simp
qed

lemma startsWith_split_iff:
  "startsWith (js_split c l) (js_split c n) \<longleftrightarrow> l = n \<or> (\<exists>r. l = n @ c # r)"
proof
  assume "startsWith (js_split c l) (js_split c n)"
  then obtain r where r: "js_split c l = js_split c n @ r" by (auto simp: startsWith_iff)
  show "l = n \<or> (\<exists>r. l = n @ c # r)"
  proof (cases "r = []")
    case True
    then show ?thesis using r by (simp add: js_split_inject)
  next
    case False
    then have "js_join c (js_split c l) = n @ c # js_join c r" by (simp add: r js_join_append)
    then show ?thesis by auto
  qed
next
  assume "l = n \<or> (\<exists>r. l = n @ c # r)"
  then show "startsWith (js_split c l) (js_split c n)"
    by (auto simp: js_split_append startsWith_iff)
qed

lemma startsWith_charAt: "startsWith l n \<and> charAt l (length n) = Some c \<longleftrightarrow> (\<exists>r. l = n @ c # r)"
proof
  assume a: "startsWith l n \<and> charAt l (length n) = Some c"
  then obtain t where "l = n @ t" by (auto simp: startsWith_iff)
  with a show "\<exists>r. l = n @ c # r" by (cases t) (auto simp: charAt_def)
next
  assume "\<exists>r. l = n @ c # r"
  then show "startsWith l n \<and> charAt l (length n) = Some c" by (auto simp: charAt_def)
qed

text \<open>
  A navigation entry without the \<open>end\<close> flag is highlighted exactly when its segments are
  the first segments of the current pathname, ignoring case: \<open>/queues\<close> is active on
  \<open>/queues/x\<close> and not on \<open>/queues2\<close>.  With the flag it is highlighted only on its own
  page.
\<close>

theorem NavLink_active_iff:
  assumes "\<not> endsWith n ''/''"
  shows "isActive (e8_NavLink_flags False end' C n l U R) \<longleftrightarrow>
    (if end' then toLowerCase l = toLowerCase n
     else startsWith (js_split slash (toLowerCase l)) (js_split slash (toLowerCase n)))"
proof -
  let ?l = "toLowerCase l" and ?n = "toLowerCase n"
  have ns: "\<not> endsWith ?n ''/''"
    using assms by (auto simp: endsWith_single toLowerCase_def last_map lower_char_slash)
  have "startsWith ?l ?n \<and> charAt ?l (length ?n) = Some slash \<longleftrightarrow> (\<exists>r. ?l = ?n @ slash # r)"
    by (rule startsWith_charAt)
  then show ?thesis using ns by (auto simp: e8_NavLink_flags_def Let_def startsWith_split_iff)
qed

theorem NavLink_active_iff_witness:
  "isActive (e8_NavLink_flags False False ''/ojs/admin'' ''/queues'' ''/Queues/x'' None False) \<and>
   \<not> isActive (e8_NavLink_flags False False ''/ojs/admin'' ''/queues'' ''/queues2'' None False)"
proof -
  have e: "\<not> endsWith ''/queues'' ''/''" by (simp add: endsWith_single)
  have "startsWith (js_split slash (toLowerCase ''/Queues/x'')) (js_split slash (toLowerCase ''/queues''))"
    "\<not> startsWith (js_split slash (toLowerCase ''/queues2'')) (js_split slash (toLowerCase ''/queues''))"
    by code_simp+
  then show ?thesis using NavLink_active_iff [OF e] by simp
qed

end
