(* ===== verification/Js_Uri.thy ===== *)
theory Js_Uri
  imports Js_Prelude
begin

text \<open>
  \<open>encodeURIComponent\<close> and \<open>decodeURIComponent\<close> of the JavaScript standard library on strings
  given as UTF-8 bytes.  The dashboard's API client encodes queue names and job ids with the
  first; the router decodes the address bar with the second, which throws (\<open>None\<close>) on a
  malformed escape or on octets that are not UTF-8.
\<close>

section \<open>UTF-8\<close>

text \<open>The number of octets a lead byte announces, \<open>0\<close> when it cannot lead.\<close>

definition utf8_len :: "nat \<Rightarrow> nat" where
  "utf8_len b = (if b < 128 then 1 else if b < 194 then 0 else if b < 224 then 2
                 else if b < 240 then 3 else if b < 245 then 4 else 0)"

definition cont :: "nat \<Rightarrow> bool" where
  "cont b \<longleftrightarrow> 128 \<le> b \<and> b < 192"

text \<open>
  The continuation bytes after lead byte \<open>b\<close>: none overlong, no surrogate, at most U+10FFFF.
\<close>

definition utf8_tail_ok :: "nat \<Rightarrow> nat list \<Rightarrow> bool" where
  "utf8_tail_ok b ts \<longleftrightarrow>
     Suc (length ts) = utf8_len b \<and> list_all cont ts \<and>
     (b = 224 \<longrightarrow> 160 \<le> hd ts) \<and> (b = 237 \<longrightarrow> hd ts < 160) \<and>
     (b = 240 \<longrightarrow> 144 \<le> hd ts) \<and> (b = 244 \<longrightarrow> hd ts < 144)"

function utf8_ok :: "nat list \<Rightarrow> bool" where
  "utf8_ok [] = True"
| "utf8_ok (b # bs) =
     (let n = utf8_len b - 1 in utf8_tail_ok b (take n bs) \<and> utf8_ok (drop n bs))"
  by pat_completeness auto
termination by (relation "measure length") auto

definition code_units :: "string \<Rightarrow> nat list" where
  "code_units s = map of_char s"

definition well_formed :: "string \<Rightarrow> bool" where
  "well_formed s \<longleftrightarrow> utf8_ok (code_units s)"


section \<open>Percent encoding\<close>

definition hex_digit :: "nat \<Rightarrow> char" where
  "hex_digit n = char_of (if n < 10 then 48 + n else 55 + n)"

definition hex_val :: "char \<Rightarrow> nat option" where
  "hex_val c = (let n = of_char c in
     if 48 \<le> n \<and> n \<le> 57 then Some (n - 48)
     else if 65 \<le> n \<and> n \<le> 70 then Some (n - 55)
     else if 97 \<le> n \<and> n \<le> 102 then Some (n - 87) else None)"

definition pct :: "nat \<Rightarrow> string" where
  "pct b = [CHR ''%'', hex_digit (b div 16), hex_digit (b mod 16)]"

text \<open>The characters that \<open>encodeURIComponent\<close> leaves alone.\<close>

definition uri_unreserved :: "nat \<Rightarrow> bool" where
  "uri_unreserved n \<longleftrightarrow>
     48 \<le> n \<and> n \<le> 57 \<or> 65 \<le> n \<and> n \<le> 90 \<or> 97 \<le> n \<and> n \<le> 122 \<or>
     n \<in> {45, 95, 46, 33, 126, 42, 39, 40, 41}"

definition encodeURIComponent :: "string \<Rightarrow> string" where
  "encodeURIComponent s =
     concat (map (\<lambda>c. if uri_unreserved (of_char c) then [c] else pct (of_char c)) s)"

text \<open>Reading one escape, and \<open>n\<close> of them.\<close>

fun read_pct :: "string \<Rightarrow> (nat \<times> string) option" where
  "read_pct (p # x # y # r) =
     (if p = CHR ''%'' then
        (case (hex_val x, hex_val y) of (Some a, Some b) \<Rightarrow> Some (16 * a + b, r) | _ \<Rightarrow> None)
      else None)"
| "read_pct _ = None"

fun read_pcts :: "nat \<Rightarrow> string \<Rightarrow> (nat list \<times> string) option" where
  "read_pcts 0 s = Some ([], s)"
| "read_pcts (Suc n) s =
     (case read_pct s of None \<Rightarrow> None
      | Some (b, r) \<Rightarrow> (case read_pcts n r of None \<Rightarrow> None | Some (bs, t) \<Rightarrow> Some (b # bs, t)))"

lemma read_pct_shorter: "read_pct s = Some (b, r) \<Longrightarrow> length r < length s"
  by (cases s rule: read_pct.cases) (auto split: if_splits option.splits)

lemma read_pcts_shorter: "read_pcts n s = Some (bs, r) \<Longrightarrow> length r \<le> length s"
proof (induction n arbitrary: s bs)
  case (Suc n)
  then show ?case by (fastforce split: option.splits dest!: read_pct_shorter)
qed simp

function decodeURIComponent :: "string \<Rightarrow> string option" where
  "decodeURIComponent [] = Some []"
| "decodeURIComponent (c # cs) =
     (if c \<noteq> CHR ''%'' then map_option (Cons c) (decodeURIComponent cs)
      else (case read_pct (c # cs) of
              None \<Rightarrow> None
            | Some (b, r) \<Rightarrow>
                (case read_pcts (utf8_len b - 1) r of
                   None \<Rightarrow> None
                 | Some (ts, r') \<Rightarrow>
                     if utf8_tail_ok b ts
                     then map_option ((@) (map char_of (b # ts))) (decodeURIComponent r')
                     else None)))"
  by pat_completeness auto
termination
  by (relation "measure length")
    (auto dest!: read_pct_shorter read_pcts_shorter simp del: read_pct.simps)

declare decodeURIComponent.simps(2) [simp del]


section \<open>Lemmas\<close>

lemma of_char_less_256 [simp]: "(of_char c :: nat) < 256"
  using of_char_of [of "of_char c :: nat"] by (metis char_of_char mod_less_divisor zero_less_numeral)

lemma hex_val_digit: "n < 16 \<Longrightarrow> hex_val (hex_digit n) = Some n"
  by (simp add: hex_val_def hex_digit_def Let_def)

lemma read_pct_pct: "b < 256 \<Longrightarrow> read_pct (pct b @ r) = Some (b, r)"
proof -
  assume "b < 256"
  then have "b div 16 < 16" "b mod 16 < 16" by auto
  then show ?thesis by (simp add: pct_def hex_val_digit)
qed

lemma read_pcts_pct:
  "(\<And>t. t \<in> set ts \<Longrightarrow> t < 256) \<Longrightarrow> read_pcts (length ts) (concat (map pct ts) @ r) = Some (ts, r)"
  by (induction ts) (auto simp: read_pct_pct simp del: read_pct.simps)

lemma encode_reserved:
  "list_all (\<lambda>c. \<not> uri_unreserved (of_char c)) s \<Longrightarrow>
     encodeURIComponent s = concat (map pct (code_units s))"
  by (induction s) (auto simp: encodeURIComponent_def code_units_def)

lemma encode_append: "encodeURIComponent (s @ t) = encodeURIComponent s @ encodeURIComponent t"
  by (simp add: encodeURIComponent_def)

lemma cont_reserved: "cont n \<Longrightarrow> \<not> uri_unreserved n"
  by (auto simp: cont_def uri_unreserved_def)

lemma decode_escaped:
  assumes "b < 256" "utf8_tail_ok b ts" "\<And>t. t \<in> set ts \<Longrightarrow> t < 256"
  shows "decodeURIComponent (pct b @ concat (map pct ts) @ r) =
    map_option ((@) (map char_of (b # ts))) (decodeURIComponent r)"
proof -
  have n: "utf8_len b - 1 = length ts" using assms(2) by (auto simp: utf8_tail_ok_def)
  obtain cs where cs: "pct b @ concat (map pct ts) @ r = CHR ''%'' # cs" by (simp add: pct_def)
  have "read_pct (CHR ''%'' # cs) = Some (b, concat (map pct ts) @ r)"
    using read_pct_pct [OF assms(1)] unfolding cs [symmetric] .
  then show ?thesis
    unfolding cs decodeURIComponent.simps(2)
    using read_pcts_pct [OF assms(3)] assms(2) n by (simp del: read_pct.simps)
qed

lemma decode_encode_aux: "utf8_ok (code_units s) \<Longrightarrow> decodeURIComponent (encodeURIComponent s) = Some s"
proof (induction "length s" arbitrary: s rule: less_induct)
  case less
  show ?case
  proof (cases s)
    case Nil
    then show ?thesis by (simp add: encodeURIComponent_def)
  next
    case (Cons c cs)
    define b where "b = (of_char c :: nat)"
    define n where "n = utf8_len b - 1"
    have ok: "utf8_tail_ok b (code_units (take n cs))" "utf8_ok (code_units (drop n cs))"
      using less.prems Cons by (simp_all add: code_units_def b_def n_def take_map drop_map Let_def)
    have IH: "decodeURIComponent (encodeURIComponent (drop n cs)) = Some (drop n cs)"
      using less.hyps [of "drop n cs"] ok(2) Cons by simp
    show ?thesis
    proof (cases "uri_unreserved b")
      case True
      then have "b < 128" by (auto simp: uri_unreserved_def)
      then have "n = 0" by (simp add: n_def utf8_len_def)
      moreover have "c \<noteq> CHR ''%''" using True by (auto simp: b_def uri_unreserved_def)
      ultimately show ?thesis
        using IH True Cons by (simp add: encodeURIComponent_def b_def decodeURIComponent.simps(2))
    next
      case False
      have "list_all (\<lambda>c. \<not> uri_unreserved (of_char c)) (take n cs)"
        using ok(1) by (auto simp: utf8_tail_ok_def code_units_def list_all_iff cont_reserved)
      then have "encodeURIComponent s =
          pct b @ concat (map pct (code_units (take n cs))) @ encodeURIComponent (drop n cs)"
        using False Cons encode_append [of "take n cs" "drop n cs"] encode_reserved [of "take n cs"]
        by (simp add: encodeURIComponent_def b_def)
      moreover have "decodeURIComponent
          (pct b @ concat (map pct (code_units (take n cs))) @ encodeURIComponent (drop n cs)) =
          Some (map char_of (b # code_units (take n cs)) @ drop n cs)"
        by (subst decode_escaped [OF _ ok(1)]) (auto simp: b_def code_units_def IH)
      ultimately show ?thesis using Cons by (simp add: b_def code_units_def comp_def)
    qed
  qed
qed

text \<open>
  Decoding what was encoded gives the string back, for every well-formed string: no queue
  name or job id is changed by its trip through a URL.
\<close>

lemma decode_encode:
  assumes "well_formed s"
  shows "decodeURIComponent (encodeURIComponent s) = Some s"
  using assms by (simp add: well_formed_def decode_encode_aux)

text \<open>Encoded text is plain: only unreserved characters and percent signs.\<close>

lemma hex_digit_plain: "n < 16 \<Longrightarrow> uri_unreserved (of_char (hex_digit n))"
  by (auto simp: hex_digit_def uri_unreserved_def)

lemma encode_plain:
  "x \<in> set (encodeURIComponent s) \<Longrightarrow> x = CHR ''%'' \<or> uri_unreserved (of_char x)"
proof -
  have "x \<in> set (pct (of_char c)) \<Longrightarrow> x = CHR ''%'' \<or> uri_unreserved (of_char x)" for c
  proof -
    have "(of_char c :: nat) div 16 < 16" by (rule less_mult_imp_div_less) simp
    moreover have "(of_char c :: nat) mod 16 < 16" by simp
    ultimately show "x \<in> set (pct (of_char c)) \<Longrightarrow> x = CHR ''%'' \<or> uri_unreserved (of_char x)"
      using hex_digit_plain by (auto simp: pct_def)
  qed
  then show "x \<in> set (encodeURIComponent s) \<Longrightarrow> x = CHR ''%'' \<or> uri_unreserved (of_char x)"
    by (auto simp: encodeURIComponent_def split: if_splits)
qed

lemma encode_no_separator:
  "c \<in> {slash, qmark, hash_c, CHR ''&'', CHR ''=''} \<Longrightarrow> c \<notin> set (encodeURIComponent s)"
  using encode_plain [of c s] by (auto simp: uri_unreserved_def)

end
