(* ===== verification/Router_Match.thy ===== *)
theory Router_Match
  imports Router_Paths Js_Uri
begin

text \<open>
  Route matching (the react-router section of \<open>src/internal/admin/dist/index-DxrWcVFD.js\<close>):
  flattening the route tree into ranked branches, compiling a route path to a regular
  expression, matching one branch and choosing the first branch that matches.
\<close>

section \<open>Regular expressions\<close>

text \<open>
  The fragment of JavaScript regular expressions that \<open>compilePath\<close> emits.  A match is computed
  by backtracking: \<open>rmatch\<close> lists every way to match a prefix in the order a backtracking
  matcher tries them, as the remaining input and the values of the capture groups from left to
  right (\<open>None\<close> for a group that did not take part).
\<close>

datatype rcls = RChr char | RNotSlash | RDot

datatype rx =
    RAtom rcls
  | RRep rcls nat \<comment> \<open>greedy, at least that many\<close>
  | RCap "rx list"
  | ROpt bool "rx list" \<comment> \<open>\<open>?\<close>, greedy when true\<close>
  | RAlt "rx list" "rx list"
  | REnd
  | RLookSlashEnd

text \<open>
  Strings are bytes: case is folded for ASCII letters, and the line ends the dot excludes are the two of
  one byte.
\<close>

fun cls_ok :: "bool \<Rightarrow> rcls \<Rightarrow> char \<Rightarrow> bool" where
  "cls_ok cs (RChr a) c = (if cs then a = c else lower_char a = lower_char c)"
| "cls_ok cs RNotSlash c = (c \<noteq> slash)"
| "cls_ok cs RDot c = (c \<noteq> CHR 0x0A \<and> c \<noteq> CHR 0x0D)"

fun ncaps :: "rx \<Rightarrow> nat" where
  "ncaps (RCap r) = Suc (sum_list (map ncaps r))"
| "ncaps (ROpt g r) = sum_list (map ncaps r)"
| "ncaps (RAlt a b) = sum_list (map ncaps a) + sum_list (map ncaps b)"
| "ncaps _ = 0"

type_synonym rres = "string \<times> string option list"

fun rmatch :: "bool \<Rightarrow> rx \<Rightarrow> string \<Rightarrow> rres list"
  and rseq :: "bool \<Rightarrow> rx list \<Rightarrow> string \<Rightarrow> rres list" where
  "rmatch cs (RAtom c) s = (case s of [] \<Rightarrow> [] | x # xs \<Rightarrow> if cls_ok cs c x then [(xs, [])] else [])"
| "rmatch cs (RRep c n) s =
     map (\<lambda>k. (drop k s, [])) (rev [n ..< Suc (length (takeWhile (cls_ok cs c) s))])"
| "rmatch cs (RCap r) s =
     map (\<lambda>(t, ds). (t, Some (take (length s - length t) s) # ds)) (rseq cs r s)"
| "rmatch cs (ROpt g r) s =
     (let no = [(s, replicate (sum_list (map ncaps r)) None)]
      in if g then rseq cs r s @ no else no @ rseq cs r s)"
| "rmatch cs (RAlt a b) s =
     map (\<lambda>(t, ds). (t, ds @ replicate (sum_list (map ncaps b)) None)) (rseq cs a s) @
     map (\<lambda>(t, ds). (t, replicate (sum_list (map ncaps a)) None @ ds)) (rseq cs b s)"
| "rmatch cs REnd s = (if s = [] then [(s, [])] else [])"
| "rmatch cs RLookSlashEnd s = (if s = [] \<or> hd s = slash then [(s, [])] else [])"
| "rseq cs [] s = [(s, [])]"
| "rseq cs (r # rs) s =
     concat (map (\<lambda>(t, ds). map (\<lambda>(u, es). (u, ds @ es)) (rseq cs rs t)) (rmatch cs r s))"


section \<open>Compiling a path\<close>

definition word_char :: "char \<Rightarrow> bool" where
  "word_char c = (let n = of_char c :: nat in
     48 \<le> n \<and> n \<le> 57 \<or> 65 \<le> n \<and> n \<le> 90 \<or> 97 \<le> n \<and> n \<le> 122 \<or> n = 95 \<or> n = 45)"

text \<open>
  First replacement of \<open>compilePath\<close>: \<open>/:name\<close> and \<open>/:name?\<close> become a parameter, every other
  character stays.  (The escaping pass before it only protects characters that a literal
  token stands for anyway.)
\<close>

datatype tok = TCh char | TPar string bool

definition param_at :: "string \<Rightarrow> string option" where
  "param_at cs = (case cs of [] \<Rightarrow> None
     | d # ds \<Rightarrow> if d = CHR '':'' \<and> takeWhile word_char ds \<noteq> [] then Some (takeWhile word_char ds) else None)"

function h7_params :: "string \<Rightarrow> tok list" where
  "h7_params [] = []"
| "h7_params (c # cs) =
     (if c = slash then
        (case param_at cs of
           None \<Rightarrow> TCh c # h7_params cs
         | Some n \<Rightarrow>
             let r = drop (Suc (length n)) cs in
             if startsWith r ''?'' then TPar n True # h7_params (drop 1 r)
             else TPar n False # h7_params r)
      else TCh c # h7_params cs)"
  by pat_completeness auto
termination by (relation "measure length") auto

text \<open>
  Second replacement: an optional static segment \<open>/name?\<close> followed by a slash or the end
  becomes a capturing optional group; a slash that follows it is consumed with it, so the
  segment after it is not looked at again.  \<open>AQ\<close> is a question mark left in the pattern.
\<close>

datatype atom = AR rx | AQ

definition is_word_tok :: "tok \<Rightarrow> bool" where
  "is_word_tok t = (case t of TCh c \<Rightarrow> word_char c | TPar n o' \<Rightarrow> False)"

definition lit :: "char \<Rightarrow> rx" where
  "lit c = RAtom (RChr c)"

definition seg_rx :: rx where
  "seg_rx = RCap [RRep RNotSlash 1]"

definition tok_rx :: "tok \<Rightarrow> rx" where
  "tok_rx t = (case t of TCh c \<Rightarrow> lit c | TPar n o' \<Rightarrow> lit slash)"

definition optional_static :: "tok list \<Rightarrow> (rx \<times> tok list) option" where
  "optional_static ts =
     (let w = takeWhile is_word_tok ts; r = dropWhile is_word_tok ts in
      if w \<noteq> [] \<and> startsWith r [TCh qmark] \<and>
         (case drop 1 r of [] \<Rightarrow> True | TCh c # _ \<Rightarrow> c = slash | TPar n o' # _ \<Rightarrow> True)
      then Some (RCap (lit slash # map tok_rx w), drop 1 r) else None)"

lemma optional_static_le: "optional_static ts = Some (g, r) \<Longrightarrow> length r \<le> length ts"
  using length_dropWhile_le [of is_word_tok ts]
  by (auto simp: optional_static_def Let_def split: if_splits)

function h7_atoms :: "tok list \<Rightarrow> atom list" where
  "h7_atoms [] = []"
| "h7_atoms (TPar n True # ts) = AR (lit slash) # AQ # AR seg_rx # AQ # h7_atoms ts"
| "h7_atoms (TPar n False # ts) = AR (lit slash) # AR seg_rx # h7_atoms ts"
| "h7_atoms (TCh c # ts) =
     (if c = slash then
        (case optional_static ts of
           None \<Rightarrow> AR (lit slash) # h7_atoms ts
         | Some (g, r) \<Rightarrow> AR g # AQ #
             (if startsWith r [TCh slash] then AR (lit slash) # h7_atoms (drop 1 r) else h7_atoms r))
      else (if c = qmark then AQ else AR (lit c)) # h7_atoms ts)"
  by pat_completeness auto
termination
  by (relation "measure length") (auto dest!: optional_static_le)

text \<open>
  What the regular-expression parser makes of the remaining question marks: one makes the
  preceding atom optional, two make it lazily optional, a third is a syntax error.
\<close>

fun h7_quantify :: "atom list \<Rightarrow> rx list option" where
  "h7_quantify [] = Some []"
| "h7_quantify (AQ # ts) = None"
| "h7_quantify (AR r # AQ # AQ # ts) = map_option ((#) (ROpt False [r])) (h7_quantify ts)"
| "h7_quantify (AR r # AQ # ts) = map_option ((#) (ROpt True [r])) (h7_quantify ts)"
| "h7_quantify (AR r # ts) = map_option ((#) r) (h7_quantify ts)"

definition h7_source :: "string \<Rightarrow> string" where
  "h7_source e = one_leading (strip_trailing (if endsWith e ''*'' then butlast e else e))"

definition h7_suffix :: "string \<Rightarrow> bool \<Rightarrow> rx list" where
  "h7_suffix e end' =
     (if endsWith e ''*'' then
        (if e = ''*'' \<or> e = ''/*'' then [RCap [RRep RDot 0], REnd]
         else [RAlt [lit slash, RCap [RRep RDot 1]] [RRep (RChr slash) 0], REnd])
      else if end' then [RRep (RChr slash) 0, REnd]
      else if e \<noteq> '''' \<and> e \<noteq> ''/'' then [RLookSlashEnd] else [])"

definition tok_param :: "tok \<Rightarrow> (string \<times> bool) list" where
  "tok_param t = (case t of TPar n o' \<Rightarrow> [(n, o')] | TCh c \<Rightarrow> [])"

definition h7_compilePath :: "string \<Rightarrow> bool \<Rightarrow> (rx list option \<times> (string \<times> bool) list)" where
  "h7_compilePath e end' =
     (let ts = h7_params (h7_source e) in
      (map_option (\<lambda>r. r @ h7_suffix e end') (h7_quantify (h7_atoms ts)),
       concat (map tok_param ts) @ (if endsWith e ''*'' then [(''*'', False)] else [])))"

section \<open>Matching one pattern\<close>

record pattern =
  pt_path :: string
  pt_caseSensitive :: bool
  pt_end :: bool

record path_match =
  pm_params :: "(string \<times> string option) list"
  pm_pathname :: string
  pm_pathnameBase :: string

text \<open>The pattern of \<open>matchPath\<close> given as a string.\<close>

definition str_pattern :: "string \<Rightarrow> pattern" where
  "str_pattern e = \<lparr>pt_path = e, pt_caseSensitive = False, pt_end = True\<rparr>"

text \<open>\<open>s.replace(/(.)\/+$/, "$1")\<close>: drop trailing slashes, but not the only character.\<close>

definition trim_base :: "string \<Rightarrow> string" where
  "trim_base s =
     (let p = strip_trailing s in
      if p = s then s
      else if p \<noteq> [] \<and> cls_ok True RDot (last p) then p
      else p @ ''/'')"

text \<open>\<open>w.replace(/%2F/g, "/")\<close>.\<close>

fun unescape_slash :: "string \<Rightarrow> string" where
  "unescape_slash (a # b # c # s) =
     (if a = CHR ''%'' \<and> b = CHR ''2'' \<and> c = CHR ''F'' then slash # unescape_slash s
      else a # unescape_slash (b # c # s))"
| "unescape_slash s = s"

text \<open>
  The loop over the parameters: \<open>y\<close> are the captures, read by position (out of range is
  undefined), \<open>s\<close> is the matched text and \<open>h\<close> the pathname base so far.
\<close>

fun wO_params ::
  "string \<Rightarrow> string option list \<Rightarrow> (string \<times> bool) list \<Rightarrow> nat \<Rightarrow> (string \<times> string option) list \<Rightarrow> string
     \<Rightarrow> (string \<times> string option) list \<times> string" where
  "wO_params s y [] k b h = (b, h)"
| "wO_params s y ((n, opt) # ps) k b h =
     (let w = (if k < length y then y ! k else None);
          D = dflt '''' w;
          h' = (if n = ''*'' then trim_base (take (length s - length D) s) else h);
          v = (if opt \<and> D = [] then None else Some (unescape_slash D))
      in wO_params s y ps (Suc k) (AList.update n v b) h')"

datatype match_error =
    RegexSyntax string
  | AbsolutePath string string
  | IndexHasChildren string

definition wO_matchPath :: "pattern \<Rightarrow> string \<Rightarrow> (match_error, path_match option) res" where
  "wO_matchPath e t =
     (case h7_compilePath (pt_path e) (pt_end e) of
        (None, ps) \<Rightarrow> Inl (RegexSyntax (pt_path e))
      | (Some r, ps) \<Rightarrow>
          (case rseq (pt_caseSensitive e) r t of
             [] \<Rightarrow> Inr None
           | (u, y) # _ \<Rightarrow>
               let s = take (length t - length u) t;
                   (b, h) = wO_params s y ps 0 [] (trim_base s)
               in Inr (Some \<lparr>pm_params = b, pm_pathname = s, pm_pathnameBase = h\<rparr>)))"


section \<open>The route tree and its branches\<close>

datatype 'el route = Route
  (r_id: string)
  (r_path: "string option")
  (r_caseSensitive: bool)
  (r_index: bool)
  (r_element: "'el option")
  (r_children: "'el route list")

record 'el meta =
  mt_relativePath :: string
  mt_caseSensitive :: bool
  mt_childrenIndex :: nat
  mt_route :: "'el route"

record 'el branch =
  br_path :: string
  br_score :: int
  br_metas :: "'el meta list"

text \<open>\<open>explodeOptionalSegments\<close>.\<close>

definition opt_seg :: "string \<Rightarrow> bool" where
  "opt_seg a = endsWith a ''?''"

definition req_seg :: "string \<Rightarrow> string" where
  "req_seg a = (if endsWith a ''?'' then butlast a else a)"

function Lq_explode :: "string \<Rightarrow> string list" where
  "Lq_explode e =
     (let t = js_split slash e; a = hd t; i = tl t; c = opt_seg a; s = req_seg a in
      if i = [] then (if c then [s, ''''] else [s])
      else
        let h = Lq_explode (js_join slash i);
            y = map (\<lambda>g. if g = [] then s else js_join slash [s, g]) h @ (if c then h else [])
        in map (\<lambda>g. if startsWith e ''/'' \<and> g = [] then ''/'' else g) y)"
  by pat_completeness auto
termination
proof (relation "measure length", goal_cases)
  case (2 e x xa xb xc xd)
  then show ?case
    using length_join_tl_split [of slash e] by (cases "js_split slash e") (auto simp: length_Suc_conv)
qed simp

declare Lq_explode.simps [simp del]

text \<open>\<open>computeScore\<close>.\<close>

definition dynamic_seg :: "string \<Rightarrow> bool" where
  "dynamic_seg s = (case s of [] \<Rightarrow> False | c # cs \<Rightarrow> c = CHR '':'' \<and> cs \<noteq> [] \<and> list_all word_char cs)"

definition s7_seg :: "string \<Rightarrow> int" where
  "s7_seg s = (if dynamic_seg s then 3 else if s = [] then 1 else 10)"

definition s7_computeScore :: "string \<Rightarrow> bool \<Rightarrow> int" where
  "s7_computeScore e t =
     (let a = js_split slash e;
          i = int (length a);
          i1 = (if ''*'' \<in> set a then i + (-2) else i);
          i2 = (if t then i1 + 2 else i1)
      in foldl (\<lambda>c s. c + s7_seg s) i2 (filter (\<lambda>c. c \<noteq> ''*'') a))"

text \<open>\<open>compareIndexes\<close>: only siblings are ordered.\<close>

definition f7_compareIndexes :: "nat list \<Rightarrow> nat list \<Rightarrow> int" where
  "f7_compareIndexes e t =
     (if length e = length t \<and> butlast e = butlast t \<and> e \<noteq> [] then int (last e) - int (last t) else 0)"

definition r7_compare :: "'el branch \<Rightarrow> 'el branch \<Rightarrow> int" where
  "r7_compare t a =
     (if br_score t \<noteq> br_score a then br_score a - br_score t
      else f7_compareIndexes (map mt_childrenIndex (br_metas t)) (map mt_childrenIndex (br_metas a)))"

text \<open>
  \<open>rankRouteBranches\<close>: a stable sort by the comparison function, written as the insertion sort
  that engines use on short arrays.
\<close>

fun insert_by :: "('a \<Rightarrow> 'a \<Rightarrow> int) \<Rightarrow> 'a \<Rightarrow> 'a list \<Rightarrow> 'a list" where
  "insert_by cmp x [] = [x]"
| "insert_by cmp x (y # ys) = (if cmp x y < 0 then x # y # ys else y # insert_by cmp x ys)"

definition js_sort :: "('a \<Rightarrow> 'a \<Rightarrow> int) \<Rightarrow> 'a list \<Rightarrow> 'a list" where
  "js_sort cmp xs = foldl (\<lambda>acc x. insert_by cmp x acc) [] xs"

definition r7_rankRouteBranches :: "'el branch list \<Rightarrow> 'el branch list" where
  "r7_rankRouteBranches bs = js_sort r7_compare bs"

text \<open>
  \<open>flattenRoutes\<close>.  \<open>Bq_visit\<close> is the inner function that handles one route at child index \<open>y\<close>,
  with \<open>kids\<close> the flattening of its children, \<open>a\<close> the metas of the parents, \<open>i\<close> the path of
  the parents, \<open>g\<close> whether an optional segment was expanded on the way and \<open>b\<close> the expanded
  path, if any.
\<close>

type_synonym 'el flatten = "nat \<Rightarrow> 'el meta list \<Rightarrow> string \<Rightarrow> bool \<Rightarrow> (match_error, 'el branch list) res"

fun each_res :: "('a \<Rightarrow> ('e, 'b list) res) \<Rightarrow> 'a list \<Rightarrow> ('e, 'b list) res" where
  "each_res f [] = Inr []"
| "each_res f (x # xs) = bindR (f x) (\<lambda>ys. bindR (each_res f xs) (\<lambda>zs. Inr (ys @ zs)))"

definition run_kids :: "'el flatten list \<Rightarrow> 'el meta list \<Rightarrow> string \<Rightarrow> bool \<Rightarrow> (match_error, 'el branch list) res" where
  "run_kids kids a i g = each_res (\<lambda>(y, k). k y a i g) (enumerate 0 kids)"

definition Bq_visit :: "'el route \<Rightarrow> 'el flatten list \<Rightarrow> bool \<times> string option \<Rightarrow> nat \<Rightarrow> 'el meta list \<Rightarrow> string
    \<Rightarrow> (match_error, 'el branch list) res" where
  "Bq_visit h kids gb y a i =
     (let (g, b) = gb;
          rel0 = (case b of None \<Rightarrow> dflt '''' (r_path h) | Some b' \<Rightarrow> b')
      in if startsWith rel0 ''/'' \<and> \<not> startsWith rel0 i
         then (if g then Inr [] else Inl (AbsolutePath rel0 i))
         else
           let rel = (if startsWith rel0 ''/'' then drop (length i) rel0 else rel0);
               mt = \<lparr>mt_relativePath = rel, mt_caseSensitive = r_caseSensitive h,
                     mt_childrenIndex = y, mt_route = h\<rparr>;
               S = Wc_joinPaths [i, rel];
               E = a @ [mt]
           in bindR (if r_children h \<noteq> []
                     then (if r_index h then Inl (IndexHasChildren S) else run_kids kids E S g)
                     else Inr [])
                (\<lambda>t. Inr (if r_path h = None \<and> \<not> r_index h then t
                          else t @ [\<lparr>br_path = S, br_score = s7_computeScore S (r_index h), br_metas = E\<rparr>])))"

definition path_variants :: "string option \<Rightarrow> bool \<Rightarrow> (bool \<times> string option) list" where
  "path_variants p c =
     (if p = Some '''' \<or> qmark \<notin> set (dflt '''' p) then [(c, None)]
      else map (\<lambda>b. (True, Some b)) (Lq_explode (dflt '''' p)))"

fun Bq_route :: "'el route \<Rightarrow> 'el flatten" where
  "Bq_route (Route rid path cs idx el ch) y a i c =
     each_res (\<lambda>gb. Bq_visit (Route rid path cs idx el ch) (map Bq_route ch) gb y a i) (path_variants path c)"

definition Bq_flattenRoutes :: "'el route list \<Rightarrow> (match_error, 'el branch list) res" where
  "Bq_flattenRoutes e = run_kids (map Bq_route e) [] '''' False"


section \<open>Matching a location\<close>

record 'el route_match =
  rm_params :: "(string \<times> string option) list"
  rm_pathname :: string
  rm_pathnameBase :: string
  rm_route :: "'el route"

text \<open>\<open>Object.assign(c, params)\<close>.\<close>

definition assign_params ::
  "(string \<times> string option) list \<Rightarrow> (string \<times> string option) list \<Rightarrow> (string \<times> string option) list" where
  "assign_params c ps = foldl (\<lambda>b (k, v). AList.update k v b) c ps"

text \<open>
  \<open>matchRouteBranch\<close>.  The loop mutates one parameter object that every match refers to, so at
  the end all matches carry the parameters of the whole branch.
\<close>

fun d7_loop ::
  "bool \<Rightarrow> string \<Rightarrow> 'el meta list \<Rightarrow> (string \<times> string option) list \<Rightarrow> string \<Rightarrow> 'el route_match list
     \<Rightarrow> (match_error, 'el route_match list option) res" where
  "d7_loop allowPartial t [] c s h = Inr (Some (map (\<lambda>m. m\<lparr>rm_params := c\<rparr>) h))"
| "d7_loop allowPartial t (g # gs) c s h =
     (let b = (gs = []);
          O' = (if s = ''/'' then t
                else if drop (length s) t = [] then ''/'' else drop (length s) t);
          pat = \<lparr>pt_path = mt_relativePath g, pt_caseSensitive = mt_caseSensitive g, pt_end = b\<rparr>
      in bindR (wO_matchPath pat O') (\<lambda>m1.
         bindR (if m1 = None \<and> b \<and> allowPartial \<and> \<not> r_index (mt_route g)
                then wO_matchPath (pat\<lparr>pt_end := False\<rparr>) O' else Inr m1) (\<lambda>m2.
         case m2 of
           None \<Rightarrow> Inr None
         | Some S \<Rightarrow>
             let c' = assign_params c (pm_params S);
                 entry = \<lparr>rm_params = c', rm_pathname = Wc_joinPaths [s, pm_pathname S],
                          rm_pathnameBase = g7_normalizePathname (Wc_joinPaths [s, pm_pathnameBase S]),
                          rm_route = mt_route g\<rparr>;
                 s' = (if pm_pathnameBase S \<noteq> ''/'' then Wc_joinPaths [s, pm_pathnameBase S] else s)
             in d7_loop allowPartial t gs c' s' (h @ [entry]))))"

definition d7_matchRouteBranch ::
  "'el branch \<Rightarrow> string \<Rightarrow> bool \<Rightarrow> (match_error, 'el route_match list option) res" where
  "d7_matchRouteBranch e t a = d7_loop a t (br_metas e) [] ''/'' []"

text \<open>\<open>decodePath\<close>: a malformed escape leaves the path as it is.\<close>

fun escape_slash :: "string \<Rightarrow> string" where
  "escape_slash [] = []"
| "escape_slash (c # cs) = (if c = slash then ''%2F'' @ escape_slash cs else c # escape_slash cs)"

fun sequence_opt :: "'a option list \<Rightarrow> 'a list option" where
  "sequence_opt [] = Some []"
| "sequence_opt (None # xs) = None"
| "sequence_opt (Some x # xs) = map_option ((#) x) (sequence_opt xs)"

definition p7_decodePath :: "string \<Rightarrow> string" where
  "p7_decodePath e =
     (case sequence_opt (map decodeURIComponent (js_split slash e)) of
        None \<Rightarrow> e
      | Some ts \<Rightarrow> js_join slash (map escape_slash ts))"

fun first_match ::
  "('b \<Rightarrow> ('e, 'a option) res) \<Rightarrow> 'b list \<Rightarrow> ('e, 'a option) res" where
  "first_match f [] = Inr None"
| "first_match f (b # bs) =
     bindR (f b) (\<lambda>m. case m of Some x \<Rightarrow> Inr (Some x) | None \<Rightarrow> first_match f bs)"

text \<open>\<open>matchRoutes\<close>.\<close>

definition n7_matchRoutes ::
  "'el route list \<Rightarrow> to_arg \<Rightarrow> string \<Rightarrow> bool \<Rightarrow> (match_error, 'el route_match list option) res" where
  "n7_matchRoutes e t a i =
     (let c = dflt '''' (pp_pathname (to_path t)) in
      case rs_stripBasename (if c = [] then ''/'' else c) a of
        None \<Rightarrow> Inr None
      | Some s \<Rightarrow>
          bindR (Bq_flattenRoutes e) (\<lambda>h.
            first_match (\<lambda>b. d7_matchRouteBranch b (p7_decodePath s) i) (r7_rankRouteBranches h)))"

definition qq_matchRoutes ::
  "'el route list \<Rightarrow> to_arg \<Rightarrow> string \<Rightarrow> (match_error, 'el route_match list option) res" where
  "qq_matchRoutes e t a = n7_matchRoutes e t a False"

section \<open>Ranking\<close>

text \<open>
  What a client of the sort relies on: a comparison that never contradicts a numeric rank
  (higher rank first).  It need not be a strict weak order; the router's is not, because
  branches that are not siblings compare equal.
\<close>

locale ranked_compare =
  fixes cmp :: "'a \<Rightarrow> 'a \<Rightarrow> int" and rank :: "'a \<Rightarrow> int"
  assumes cmp_neg: "cmp x y < 0 \<Longrightarrow> rank y \<le> rank x"
    and cmp_nonneg: "0 \<le> cmp x y \<Longrightarrow> rank x \<le> rank y"
begin

lemma sorted_insert_by:
  "sorted_wrt (\<lambda>a b. rank b \<le> rank a) ys \<Longrightarrow> sorted_wrt (\<lambda>a b. rank b \<le> rank a) (insert_by cmp x ys)"
proof (induction ys)
  case (Cons y ys)
  have set_ins: "set (insert_by cmp x ys) = insert x (set ys)" by (induction ys) auto
  show ?case
  proof (cases "cmp x y < 0")
    case True
    then show ?thesis using Cons cmp_neg [OF True] by (auto intro: order_trans)
  next
    case False
    then show ?thesis using Cons cmp_nonneg [of x y] set_ins by auto
  qed
qed simp

lemma sorted_js_sort: "sorted_wrt (\<lambda>a b. rank b \<le> rank a) (js_sort cmp xs)"
proof -
  have "sorted_wrt (\<lambda>a b. rank b \<le> rank a) acc \<Longrightarrow>
      sorted_wrt (\<lambda>a b. rank b \<le> rank a) (foldl (\<lambda>acc x. insert_by cmp x acc) acc xs)" for acc
    by (induction xs arbitrary: acc) (auto intro: sorted_insert_by)
  then show ?thesis by (simp add: js_sort_def)
qed

end

interpretation router_rank: ranked_compare r7_compare br_score
  by unfold_locales (auto simp: r7_compare_def split: if_splits)

lemma set_insert_by [simp]: "set (insert_by cmp x ys) = insert x (set ys)"
  by (induction ys) auto

lemma set_js_sort [simp]: "set (js_sort cmp xs) = set xs"
proof -
  have "set (foldl (\<lambda>acc x. insert_by cmp x acc) acc xs) = set acc \<union> set xs" for acc
    by (induction xs arbitrary: acc) auto
  then show ?thesis by (simp add: js_sort_def)
qed

lemma length_js_sort [simp]: "length (js_sort cmp xs) = length xs"
proof -
  have "length (insert_by cmp x ys) = Suc (length ys)" for x ys by (induction ys) auto
  then have "length (foldl (\<lambda>acc x. insert_by cmp x acc) acc xs) = length acc + length xs" for acc
    by (induction xs arbitrary: acc) auto
  then show ?thesis by (simp add: js_sort_def)
qed

text \<open>The search for the first branch that matches, over any list.\<close>

lemma first_match_Some:
  "first_match f bs = Inr (Some x) \<Longrightarrow>
     \<exists>as b cs. bs = as @ b # cs \<and> f b = Inr (Some x) \<and> (\<forall>a \<in> set as. f a = Inr None)"
proof (induction bs)
  case (Cons b bs)
  then obtain m where m: "f b = Inr m" by (auto simp: bindR_eq_Inr)
  show ?case
  proof (cases m)
    case None
    with Cons m obtain as b' cs where "bs = as @ b' # cs" "f b' = Inr (Some x)" "\<forall>a \<in> set as. f a = Inr None"
      by auto
    with m None show ?thesis by (intro exI [of _ "b # as"]) auto
  next
    case (Some y)
    with Cons.prems m have "y = x" by simp
    with m Some show ?thesis by (intro exI [of _ "[]"]) auto
  qed
qed simp

lemma first_match_None: "first_match f bs = Inr None \<longleftrightarrow> (\<forall>b \<in> set bs. f b = Inr None)"
  by (induction bs) (auto simp: bindR_eq_Inr split: option.splits)

lemma first_match_ok: "(\<And>b. b \<in> set bs \<Longrightarrow> \<exists>m. f b = Inr m) \<Longrightarrow> \<exists>m. first_match f bs = Inr m"
proof (induction bs)
  case (Cons b bs)
  then obtain m where "f b = Inr m" by auto
  with Cons show ?case by (cases m) auto
qed simp

text \<open>
  C19. The match \<open>matchRoutes\<close> returns comes from a branch of the flattened tree, and no branch
  with a higher score matches the path: more specific routes win whatever their order in the
  source.
\<close>

theorem matchRoutes_best:
  assumes "n7_matchRoutes e t a i = Inr (Some ms)"
  shows "\<exists>h s b. rs_stripBasename (let c = dflt '''' (pp_pathname (to_path t)) in if c = [] then ''/'' else c) a = Some s \<and>
           Bq_flattenRoutes e = Inr h \<and> b \<in> set h \<and>
           d7_matchRouteBranch b (p7_decodePath s) i = Inr (Some ms) \<and>
           (\<forall>b' \<in> set h. br_score b < br_score b' \<longrightarrow>
              d7_matchRouteBranch b' (p7_decodePath s) i = Inr None)"
proof -
  obtain h s where s: "rs_stripBasename (let c = dflt '''' (pp_pathname (to_path t)) in if c = [] then ''/'' else c) a = Some s"
    and h: "Bq_flattenRoutes e = Inr h"
    and f: "first_match (\<lambda>b. d7_matchRouteBranch b (p7_decodePath s) i) (r7_rankRouteBranches h) = Inr (Some ms)"
    using assms by (auto simp: n7_matchRoutes_def Let_def bindR_eq_Inr split: option.splits)
  from first_match_Some [OF f] obtain as b cs
    where r: "r7_rankRouteBranches h = as @ b # cs"
      and b: "d7_matchRouteBranch b (p7_decodePath s) i = Inr (Some ms)"
      and as: "\<forall>a \<in> set as. d7_matchRouteBranch a (p7_decodePath s) i = Inr None"
    by blast
  have st: "set h = set as \<union> {b} \<union> set cs"
    using arg_cong [OF r, of set] by (auto simp: r7_rankRouteBranches_def)
  have "sorted_wrt (\<lambda>x y. br_score y \<le> br_score x) (as @ b # cs)"
    unfolding r [symmetric] r7_rankRouteBranches_def by (rule router_rank.sorted_js_sort)
  then have "b' \<in> set cs \<Longrightarrow> br_score b' \<le> br_score b" for b'
    by (simp add: sorted_wrt_append)
  then have "\<forall>b' \<in> set h. br_score b < br_score b' \<longrightarrow>
      d7_matchRouteBranch b' (p7_decodePath s) i = Inr None"
    using as st by fastforce
  with s h b st show ?thesis by blast
qed

text \<open>
  When \<open>matchRoutes\<close> finds nothing under the basename, no branch of the tree matches the
  path.
\<close>

theorem matchRoutes_none_complete:
  assumes "n7_matchRoutes e t a i = Inr None" and "Bq_flattenRoutes e = Inr h"
    and "rs_stripBasename (let c = dflt '''' (pp_pathname (to_path t)) in if c = [] then ''/'' else c) a = Some s"
    and "b \<in> set h"
  shows "d7_matchRouteBranch b (p7_decodePath s) i = Inr None"
  using assms by (simp add: n7_matchRoutes_def first_match_None r7_rankRouteBranches_def Let_def)

section \<open>Static paths\<close>

text \<open>A route path without parameters, optional segments and splats.\<close>

definition static_path :: "string \<Rightarrow> bool" where
  "static_path p \<longleftrightarrow> CHR ''?'' \<notin> set p \<and> CHR ''*'' \<notin> set p \<and> CHR '':'' \<notin> set p"

definition same_text :: "bool \<Rightarrow> string \<Rightarrow> string \<Rightarrow> bool" where
  "same_text cs x y = (if cs then x = y else toLowerCase x = toLowerCase y)"

lemma h7_params_static: "CHR '':'' \<notin> set s \<Longrightarrow> h7_params s = map TCh s"
proof (induction s)
  case (Cons c s)
  then have "param_at s = None" by (auto simp: param_at_def split: list.splits)
  with Cons show ?case by simp
qed simp

lemma optional_static_none: "TCh qmark \<notin> set ts \<Longrightarrow> optional_static ts = None"
proof -
  assume "TCh qmark \<notin> set ts"
  then have "\<not> startsWith (dropWhile is_word_tok ts) [TCh qmark]"
    using set_dropWhileD [of "TCh qmark" is_word_tok ts] by (auto simp: startsWith_iff)
  then show ?thesis by (auto simp: optional_static_def Let_def)
qed

lemma h7_atoms_static: "qmark \<notin> set s \<Longrightarrow> h7_atoms (map TCh s) = map (\<lambda>c. AR (lit c)) s"
proof (induction s)
  case (Cons c s)
  have "optional_static (map TCh s) = None" using Cons.prems by (intro optional_static_none) auto
  with Cons show ?case by auto
qed simp

lemma h7_quantify_static: "h7_quantify (map (\<lambda>c. AR (f c)) s) = Some (map f s)"
proof (induction s)
  case (Cons c s)
  then show ?case by (cases s) auto
qed simp

lemma set_strip_trailing: "set (strip_trailing s) \<subseteq> set s"
  using strip_trailing_decomp [of s] by (metis Un_upper1 set_append)

lemma set_one_leading: "set (one_leading s) \<subseteq> insert slash (set s)"
  by (auto simp: one_leading_def dest: set_dropWhileD)

lemma h7_source_static:
  assumes "static_path p"
  shows "h7_source p = one_leading (strip_trailing p)" "\<not> endsWith p ''*''"
    "CHR '':'' \<notin> set (h7_source p)" "qmark \<notin> set (h7_source p)"
proof -
  show e: "\<not> endsWith p ''*''"
    using assms by (cases p rule: rev_cases) (auto simp: static_path_def endsWith_single)
  then show s: "h7_source p = one_leading (strip_trailing p)" by (simp add: h7_source_def)
  have "set (h7_source p) \<subseteq> insert slash (set p)"
    unfolding s using set_strip_trailing set_one_leading by blast
  then show "CHR '':'' \<notin> set (h7_source p)" "qmark \<notin> set (h7_source p)"
    using assms by (auto simp: static_path_def)
qed

lemma h7_compile_static:
  assumes "static_path p"
  shows "h7_compilePath p end' = (Some (map lit (h7_source p) @ h7_suffix p end'), [])"
  using h7_source_static [OF assms]
  by (simp add: h7_compilePath_def Let_def h7_params_static h7_atoms_static h7_quantify_static
      tok_param_def comp_def)

lemma rseq_lits:
  "rseq cs (map lit s @ r) t =
     (if startsWith (map (\<lambda>c. if cs then c else lower_char c) t) (map (\<lambda>c. if cs then c else lower_char c) s)
      then rseq cs r (drop (length s) t) else [])"
proof (induction s arbitrary: t)
  case (Cons c s)
  then show ?case by (cases t) (auto simp: lit_def)
qed simp

lemma cls_ok_slash [simp]: "cls_ok cs (RChr slash) c \<longleftrightarrow> c = slash"
  using lower_char_slash [of c] lower_char_slash [of slash] by auto

lemma rseq_slashes_end:
  "rseq cs [RRep (RChr slash) 0, REnd] u = (if list_all (\<lambda>c. c = slash) u then [([], [])] else [])"
proof -
  let ?L = "length (takeWhile (\<lambda>c. c = slash) u)"
  have r: "rseq cs [RRep (RChr slash) 0, REnd] u =
      concat (map (\<lambda>k. if drop k u = [] then [([], [])] else []) (rev [0 ..< Suc ?L]))"
  proof -
    have c: "cls_ok cs (RChr slash) = (\<lambda>c. c = slash)" by (rule ext) (rule cls_ok_slash)
    have e: "map (\<lambda>(u, es). (u, [] @ es)) (rseq cs [REnd] v) = (if v = [] then [([], [])] else [])" for v
      by simp
    show ?thesis
      by (simp only: rseq.simps(2) [of cs "RRep (RChr slash) 0"] rmatch.simps(2) map_map comp_def prod.case c e)
  qed
  have none: "concat (map (\<lambda>k. if drop k u = [] then [([], [])] else []) (rev [0 ..< n])) = []"
    if "n \<le> length u" for n
    using that by (auto simp: concat_eq_Nil_conv)
  show ?thesis
  proof (cases "list_all (\<lambda>c. c = slash) u")
    case True
    then have tw: "takeWhile (\<lambda>c. c = slash) u = u" by (simp add: list_all_iff takeWhile_eq_all_conv)
    have "?L = length u" by (simp only: tw)
    then show ?thesis unfolding r using none [of "length u"] True by simp
  next
    case False
    then have "?L \<noteq> length u" 
      by (metis list_all_iff set_takeWhileD takeWhile_eq_take take_all order_refl)
    then have "Suc ?L \<le> length u" using length_takeWhile_le [of "\<lambda>c. c = slash" u] by linarith
    then show ?thesis unfolding r using none False by simp
  qed
qed

lemma slashes_replicate: "list_all (\<lambda>c. c = slash) u \<longleftrightarrow> (\<exists>k. u = replicate k slash)"
proof
  assume "list_all (\<lambda>c. c = slash) u"
  then have "replicate (length u) slash = u" by (intro replicate_length_same) (simp add: list_all_iff)
  then show "\<exists>k. u = replicate k slash" by metis
qed (auto simp: list_all_iff)

lemma static_text_iff:
  "startsWith (map (\<lambda>c. if cs then c else lower_char c) t) (map (\<lambda>c. if cs then c else lower_char c) s) \<and>
     list_all (\<lambda>c. c = slash) (drop (length s) t) \<longleftrightarrow>
   (\<exists>k. same_text cs t (s @ replicate k slash))"
    (is "?L \<longleftrightarrow> ?R")
proof -
  let ?f = "\<lambda>c. if cs then c else lower_char c"
  have st: "same_text cs x y \<longleftrightarrow> map ?f x = map ?f y" for x y by (auto simp: same_text_def toLowerCase_def)
  have rep: "map ?f u = replicate k slash \<longleftrightarrow> u = replicate k slash" for u k
  proof (induction u arbitrary: k)
    case (Cons c u)
    then show ?case by (cases k) (auto simp: lower_char_slash)
  qed auto
  have sl: "?f slash = slash" by (simp add: lower_char_slash)
  show ?thesis
  proof
    assume ?L
    then obtain v k where v: "map ?f t = map ?f s @ v" and k: "drop (length s) t = replicate k slash"
      by (auto simp: startsWith_iff slashes_replicate)
    have "v = map ?f (drop (length s) t)" using v by (metis append_eq_conv_conj drop_map length_map)
    then have "map ?f t = map ?f (s @ replicate k slash)" using v k by simp
    then show ?R using st by blast
  next
    assume ?R
    then obtain k where k: "map ?f t = map ?f s @ map ?f (replicate k slash)" using st by auto
    have "map ?f (drop (length s) t) = replicate k slash"
      using k sl by (simp add: drop_map [symmetric])
    then have "drop (length s) t = replicate k slash" using rep by blast
    then show ?L using k by (auto simp: startsWith_iff slashes_replicate)
  qed
qed

lemma wO_static:
  assumes "static_path p"
  shows "wO_matchPath \<lparr>pt_path = p, pt_caseSensitive = cs, pt_end = True\<rparr> t =
    Inr (if \<exists>k. same_text cs t (h7_source p @ replicate k slash)
         then Some \<lparr>pm_params = [], pm_pathname = t, pm_pathnameBase = trim_base t\<rparr> else None)"
proof -
  have suf: "h7_suffix p True = [RRep (RChr slash) 0, REnd]"
    using h7_source_static(2) [OF assms] by (simp add: h7_suffix_def)
  have "rseq cs (map lit (h7_source p) @ h7_suffix p True) t =
      (if \<exists>k. same_text cs t (h7_source p @ replicate k slash) then [([], [])] else [])"
    unfolding suf rseq_lits rseq_slashes_end static_text_iff [symmetric] by (auto split: if_splits)
  then show ?thesis
    by (simp add: wO_matchPath_def h7_compile_static [OF assms])
qed

text \<open>
  \<open>matchPath\<close> on a static pattern is exact: it succeeds if and only if the path is the
  pattern's text (with its leading slash normalised and its trailing slashes dropped), up to
  letter case unless the pattern is case sensitive, followed by any number of slashes; it
  binds no parameter.
\<close>

theorem matchPath_static:
  assumes "static_path p"
  shows "wO_matchPath \<lparr>pt_path = p, pt_caseSensitive = cs, pt_end = True\<rparr> t =
    Inr (if \<exists>k. same_text cs t (h7_source p @ replicate k slash)
         then Some \<lparr>pm_params = [], pm_pathname = t, pm_pathnameBase = trim_base t\<rparr> else None)"
  by (rule wO_static [OF assms])

theorem matchPath_static_witness:
  "wO_matchPath \<lparr>pt_path = ''dead-letter'', pt_caseSensitive = False, pt_end = True\<rparr> ''/Dead-Letter/'' =
     Inr (Some \<lparr>pm_params = [], pm_pathname = ''/Dead-Letter/'', pm_pathnameBase = ''/Dead-Letter''\<rparr>)"
proof -
  have st: "static_path ''dead-letter''" by (simp add: static_path_def)
  have ex: "\<exists>k. same_text False ''/Dead-Letter/'' (h7_source ''dead-letter'' @ replicate k slash)"
    by (rule exI [of _ 1]) code_simp
  have tb: "trim_base ''/Dead-Letter/'' = ''/Dead-Letter''" by code_simp
  show ?thesis
    using matchPath_static [OF st, of False "''/Dead-Letter/''"] unfolding if_P [OF ex] tb .
qed

section \<open>Optional segments\<close>

text \<open>
  Expanding the optional segments of a path gives one variant for every subset of them:
  \<open>2 ^ n\<close> variants for \<open>n\<close> optional segments.
\<close>

theorem explode_count:
  "length (Lq_explode e) = 2 ^ length (filter opt_seg (js_split slash e))"
proof (induction e rule: Lq_explode.induct)
  case (1 e)
  obtain a i where t: "js_split slash e = a # i"
    using js_split_not_Nil by (metis list.exhaust)
  show ?case
  proof (cases "i = []")
    case True
    then show ?thesis by (subst Lq_explode.simps) (simp add: t Let_def)
  next
    case False
    have sp: "js_split slash (js_join slash i) = i"
      using False js_split_no_sep [of _ slash e] t by (intro js_split_join) auto
    have IH: "length (Lq_explode (js_join slash i)) = 2 ^ length (filter opt_seg i)"
      using "1.IH" [OF refl refl refl refl refl] False sp t by simp
    show ?thesis by (subst Lq_explode.simps) (simp add: t Let_def False IH)
  qed
qed

text \<open>
  An optional static segment in a pattern given to \<open>matchPath\<close> compiles to a capture group of its
  own that is not in the parameter list, so the parameters after it are read one group too
  early: here \<open>b\<close> is bound to the text of the static segment.
\<close>

lemma optional_static_shifts_params:
  "wO_matchPath (str_pattern ''/a?/:b'') ''/a/x'' =
     Inr (Some \<lparr>pm_params = [(''b'', Some ''/a'')], pm_pathname = ''/a/x'', pm_pathnameBase = ''/a/x''\<rparr>)"
  by code_simp


section \<open>Matching never throws on a well-formed tree\<close>

text \<open>
  A path whose question marks are each the last character of a segment, so that they mark optional
  segments.
\<close>

definition optional_ok :: "string \<Rightarrow> bool" where
  "optional_ok p \<longleftrightarrow> list_all (\<lambda>s. qmark \<notin> set (butlast s)) (js_split slash p)"

text \<open>
  A route tree below the combined path \<open>i\<close> of its parents (none below an optional segment, where the
  code drops a child that does not fit instead of failing): index routes are leaves, question marks end
  their segments, and a path that is absolute begins with the combined path of its parents.
\<close>

fun good_tree :: "string option \<Rightarrow> 'el route \<Rightarrow> bool" where
  "good_tree i (Route rid path cs idx el ch) =
     (let p = dflt '''' path in
      optional_ok p \<and> (idx \<longrightarrow> ch = []) \<and>
      (case i of
         None \<Rightarrow> list_all (good_tree None) ch
       | Some s \<Rightarrow>
           if qmark \<in> set p then list_all (good_tree None) ch
           else (startsWith p ''/'' \<longrightarrow> startsWith p s) \<and>
             list_all (good_tree (Some (Wc_joinPaths [s, if startsWith p ''/'' then drop (length s) p else p]))) ch))"

lemma optional_ok_tl:
  assumes "optional_ok e" "tl (js_split slash e) \<noteq> []"
  shows "optional_ok (js_join slash (tl (js_split slash e)))"
proof -
  have "\<forall>s \<in> set (tl (js_split slash e)). slash \<notin> set s" using js_split_no_sep [of _ slash e] by (cases "js_split slash e") auto
  then have "js_split slash (js_join slash (tl (js_split slash e))) = tl (js_split slash e)"
    using assms(2) by (intro js_split_join) auto
  then show ?thesis using assms(1) by (cases "js_split slash e") (auto simp: optional_ok_def)
qed

lemma req_seg_ok: "qmark \<notin> set (butlast s) \<Longrightarrow> qmark \<notin> set (req_seg s)"
  by (cases s rule: rev_cases) (auto simp: req_seg_def endsWith_single)

lemma explode_ok: "optional_ok e \<Longrightarrow> b \<in> set (Lq_explode e) \<Longrightarrow> qmark \<notin> set b"
proof (induction e arbitrary: b rule: Lq_explode.induct)
  case (1 e)
  obtain a i where t: "js_split slash e = a # i" by (cases "js_split slash e") simp_all
  have a: "qmark \<notin> set (req_seg a)" using "1.prems"(1) t by (intro req_seg_ok) (simp add: optional_ok_def)
  show ?case
  proof (cases "i = []")
    case True
    then show ?thesis using "1.prems"(2) t a by (subst (asm) Lq_explode.simps) (auto simp: Let_def split: if_splits)
  next
    case False
    have "optional_ok (js_join slash i)" using optional_ok_tl [OF "1.prems"(1)] t False by simp
    then have IH: "qmark \<notin> set g" if "g \<in> set (Lq_explode (js_join slash i))" for g
      using "1.IH" [OF refl refl refl refl refl, of g] t False that by simp
    show ?thesis using "1.prems"(2) t a IH False
      by (subst (asm) Lq_explode.simps) (auto simp: Let_def split: if_splits)
  qed
qed

lemma each_res_ok: "(\<And>x. x \<in> set xs \<Longrightarrow> \<exists>y. f x = Inr y \<and> list_all P y) \<Longrightarrow> \<exists>y. each_res f xs = Inr y \<and> list_all P y"
proof (induction xs)
  case (Cons x xs)
  then obtain y z where "f x = Inr y" "list_all P y" "each_res f xs = Inr z" "list_all P z" by fastforce
  then show ?case by auto
qed simp

lemma enumerate_map_in: "x \<in> set (enumerate n (map f ch)) \<Longrightarrow> \<exists>k r. x = (k, f r) \<and> r \<in> set ch"
  by (cases x) (auto simp: enumerate_eq_zip dest!: set_zip_rightD)

definition plain_metas :: "'el meta list \<Rightarrow> bool" where
  "plain_metas ms \<longleftrightarrow> list_all (\<lambda>m. qmark \<notin> set (mt_relativePath m)) ms"

lemma Bq_visit_ok:
  fixes a :: "'el meta list"
  defines "P \<equiv> list_all (\<lambda>b :: 'el branch. plain_metas (br_metas b))"
  assumes "qmark \<notin> set rp" "rp = (case b of None \<Rightarrow> dflt '''' (r_path h) | Some b' \<Rightarrow> b')"
    and "plain_metas a" "r_index h \<longrightarrow> r_children h = []"
    and "\<not> g \<Longrightarrow> startsWith rp ''/'' \<Longrightarrow> startsWith rp i"
    and "\<And>E. plain_metas E \<Longrightarrow>
      \<exists>bs. run_kids kids E (Wc_joinPaths [i, if startsWith rp ''/'' then drop (length i) rp else rp]) g = Inr bs \<and> P bs"
  shows "\<exists>bs. Bq_visit h kids (g, b) y a i = Inr bs \<and> P bs"
proof -
  define rel where "rel = (if startsWith rp ''/'' then drop (length i) rp else rp)"
  define E where "E = a @ [\<lparr>mt_relativePath = rel, mt_caseSensitive = r_caseSensitive h, mt_childrenIndex = y, mt_route = h\<rparr>]"
  have "qmark \<notin> set rel" using assms(2) by (auto simp: rel_def dest: in_set_dropD)
  then have E: "plain_metas E" using assms(4) by (simp add: E_def plain_metas_def)
  from assms(7) [OF this] obtain bs where "run_kids kids E (Wc_joinPaths [i, rel]) g = Inr bs" "P bs"
    by (auto simp: rel_def)
  moreover have "Bq_visit h kids (g, b) y a i =
      (if startsWith rp ''/'' \<and> \<not> startsWith rp i then (if g then Inr [] else Inl (AbsolutePath rp i))
       else bindR (if r_children h \<noteq> [] then (if r_index h then Inl (IndexHasChildren (Wc_joinPaths [i, rel]))
                     else run_kids kids E (Wc_joinPaths [i, rel]) g) else Inr [])
         (\<lambda>t. Inr (if r_path h = None \<and> \<not> r_index h then t
            else t @ [\<lparr>br_path = Wc_joinPaths [i, rel], br_score = s7_computeScore (Wc_joinPaths [i, rel]) (r_index h), br_metas = E\<rparr>])))"
    by (simp only: Bq_visit_def Let_def prod.case assms(3) [symmetric] rel_def E_def)
  ultimately show ?thesis using assms(5,6) E by (auto simp: P_def)
qed

lemma Bq_route_ok:
  "good_tree (if c then None else Some i) r \<Longrightarrow> plain_metas a \<Longrightarrow>
   \<exists>bs. Bq_route r y a i c = Inr bs \<and> list_all (\<lambda>b. plain_metas (br_metas b)) bs"
proof (induction r arbitrary: y a i c)
  case (Route rid path cs idx el ch)
  let ?h = "Route rid path cs idx el ch" and ?p = "dflt '''' path"
  have ok: "optional_ok ?p" "idx \<longrightarrow> ch = []" using Route.prems(1) by (simp_all add: Let_def)
  have kids: "\<exists>bs. run_kids (map Bq_route ch) E S g = Inr bs \<and> list_all (\<lambda>b. plain_metas (br_metas b)) bs"
    if "plain_metas E" "list_all (good_tree (if g then None else Some S)) ch" for E S g
    unfolding run_kids_def
  proof (rule each_res_ok)
    fix x assume x: "x \<in> set (enumerate 0 (map Bq_route ch))"
    then obtain k r' where xr: "x = (k, Bq_route r')" "r' \<in> set ch"
      using enumerate_map_in by blast
    have "good_tree (if g then None else Some S) r'" using that(2) xr(2) by (simp add: list_all_iff)
    from Route.IH [OF xr(2) this that(1), of k] xr(1)
    show "\<exists>y. (case x of (y, k) \<Rightarrow> k y E S g) = Inr y \<and> list_all (\<lambda>b. plain_metas (br_metas b)) y" by simp
  qed
  have "\<exists>bs. Bq_visit ?h (map Bq_route ch) gb y a i = Inr bs \<and> list_all (\<lambda>b. plain_metas (br_metas b)) bs"
    if gb: "gb \<in> set (path_variants path c)" for gb
  proof (cases "qmark \<in> set ?p")
    case True
    then obtain b where b: "gb = (True, Some b)" "b \<in> set (Lq_explode ?p)" using gb by (auto simp: path_variants_def split: if_splits)
    have "list_all (good_tree None) ch" using Route.prems(1) True by (auto simp: Let_def split: if_splits)
    then show ?thesis unfolding b(1) using explode_ok [OF ok(1) b(2)] Route.prems(2) ok(2)
      by (intro Bq_visit_ok [where rp = b]) (simp_all add: kids)
  next
    case False
    then have g: "gb = (c, None)" using gb by (simp add: path_variants_def)
    have ks: "list_all (good_tree (if c then None
        else Some (Wc_joinPaths [i, if startsWith ?p ''/'' then drop (length i) ?p else ?p]))) ch"
      and ab: "\<not> c \<Longrightarrow> startsWith ?p ''/'' \<Longrightarrow> startsWith ?p i"
      using False Route.prems(1) by (cases c; simp add: Let_def)+
    show ?thesis unfolding g
    proof (rule Bq_visit_ok [where rp = "?p"])
      show "\<exists>bs. run_kids (map Bq_route ch) E (Wc_joinPaths [i, if startsWith ?p ''/'' then drop (length i) ?p else ?p]) c = Inr bs \<and>
          list_all (\<lambda>b. plain_metas (br_metas b)) bs" if "plain_metas E" for E
        by (rule kids [OF that ks])
    qed (use False Route.prems(2) ok(2) ab in simp_all)
  qed
  then show ?case unfolding Bq_route.simps by (rule each_res_ok)
qed

lemma h7_params_no_opt: "qmark \<notin> set s \<Longrightarrow> TCh qmark \<notin> set (h7_params s) \<and> (\<forall>n. TPar n True \<notin> set (h7_params s))"
proof (induction s rule: h7_params.induct)
  case (2 c cs)
  show ?case
  proof (cases "c = slash")
    case False
    then show ?thesis using 2 by auto
  next
    case True
    show ?thesis
    proof (cases "param_at cs")
      case None
      then show ?thesis using 2 True by auto
    next
      case (Some n)
      define r where "r = drop (Suc (length n)) cs"
      have r: "qmark \<notin> set r" using "2.prems" by (auto simp: r_def dest: in_set_dropD)
      then have "\<not> startsWith r ''?''" by (auto simp: startsWith_iff)
      then show ?thesis using 2(3) [OF True Some r_def] True Some r by (simp add: r_def [symmetric] Let_def)
    qed
  qed
qed simp

lemma h7_quantify_AR: "h7_quantify (map AR qs) = Some qs"
  using h7_quantify_static [of "\<lambda>x. x" qs] by simp

lemma h7_quantify_ok:
  "TCh qmark \<notin> set ts \<Longrightarrow> (\<forall>n. TPar n True \<notin> set ts) \<Longrightarrow> \<exists>rs. h7_atoms ts = map AR rs \<and> h7_quantify (h7_atoms ts) = Some rs"
proof (induction ts rule: h7_atoms.induct)
  case (4 c ts)
  then have os: "optional_static ts = None" by (simp add: optional_static_none)
  have "\<exists>rs. h7_atoms ts = map AR rs \<and> h7_quantify (h7_atoms ts) = Some rs"
  proof (cases "c = slash")
    case True
    then show ?thesis using 4 os by auto
  next
    case False
    then show ?thesis using 4 by auto
  qed
  then obtain rs where rs: "h7_atoms ts = map AR rs" by blast
  then have "h7_atoms (TCh c # ts) = map AR (lit c # rs)" using os "4.prems" by auto
  then show ?case by (metis h7_quantify_AR)
next
  case (3 n ts)
  then obtain rs where rs: "h7_atoms ts = map AR rs" by auto
  then have "h7_atoms (TPar n False # ts) = map AR (lit slash # seg_rx # rs)" by simp
  then show ?case by (metis h7_quantify_AR)
qed auto

lemma wO_no_throw: "qmark \<notin> set (pt_path e) \<Longrightarrow> \<exists>m. wO_matchPath e t = Inr m"
proof -
  assume q: "qmark \<notin> set (pt_path e)"
  have "set (h7_source (pt_path e)) \<subseteq> insert slash (set (pt_path e))"
    using set_strip_trailing set_one_leading in_set_butlastD unfolding h7_source_def
    by (auto split: if_splits dest!: subsetD [OF set_one_leading] subsetD [OF set_strip_trailing] in_set_butlastD)
  then have "qmark \<notin> set (h7_source (pt_path e))" using q by auto
  from h7_params_no_opt [OF this] h7_quantify_ok [of "h7_params (h7_source (pt_path e))"]
  obtain rs where "h7_quantify (h7_atoms (h7_params (h7_source (pt_path e)))) = Some rs" by auto
  then show ?thesis
    by (auto simp: wO_matchPath_def h7_compilePath_def Let_def split: list.splits prod.splits)
qed

lemma d7_loop_no_throw: "plain_metas gs \<Longrightarrow> \<exists>m. d7_loop p t gs c s h = Inr m"
proof (induction gs arbitrary: c s h)
  case (Cons g gs)
  have q: "qmark \<notin> set (mt_relativePath g)" and gs: "plain_metas gs"
    using Cons.prems by (auto simp: plain_metas_def)
  have ok: "\<exists>m. wO_matchPath P u = Inr m" if "pt_path P = mt_relativePath g" for P u
    using wO_no_throw [of P u] q that by simp
  show ?case
    unfolding d7_loop.simps Let_def
    by (intro bindR_ok) (auto simp: ok Cons.IH [OF gs] split: option.split)
qed simp

text \<open>
  C21. On a tree in which index routes are leaves, question marks only end segments (and so mark them
  as optional), and a path that is absolute begins with the combined path of its parents (below an
  optional segment it need not), matching never throws, whatever the location, the basename and the
  escapes in the path: the result is a match or no match.
\<close>

theorem matchRoutes_no_throw:
  assumes "list_all (good_tree (Some '''')) e"
  shows "\<exists>m. n7_matchRoutes e t a i = Inr m"
proof -
  have "\<exists>bs. run_kids (map Bq_route e) [] '''' False = Inr bs \<and> list_all (\<lambda>b. plain_metas (br_metas b)) bs"
    unfolding run_kids_def
  proof (rule each_res_ok)
    fix x assume x: "x \<in> set (enumerate 0 (map Bq_route e))"
    then obtain k r where xr: "x = (k, Bq_route r)" "r \<in> set e" using enumerate_map_in by blast
    then have "good_tree (if False then None else Some '''') r" using assms by (simp add: list_all_iff)
    from Bq_route_ok [OF this, of "[]" k] xr(1)
    show "\<exists>y. (case x of (y, k) \<Rightarrow> k y [] '''' False) = Inr y \<and> list_all (\<lambda>b. plain_metas (br_metas b)) y"
      by (simp add: plain_metas_def)
  qed
  then obtain bs where bs: "Bq_flattenRoutes e = Inr bs" "list_all (\<lambda>b. plain_metas (br_metas b)) bs"
    by (auto simp: Bq_flattenRoutes_def)
  have "\<exists>m. first_match (\<lambda>b. d7_matchRouteBranch b (p7_decodePath s) i) (r7_rankRouteBranches bs) = Inr m" for s
    using bs(2) by (intro first_match_ok)
      (auto simp: d7_matchRouteBranch_def r7_rankRouteBranches_def list_all_iff intro: d7_loop_no_throw)
  then show ?thesis using bs(1) by (auto simp: n7_matchRoutes_def Let_def split: option.splits)
qed

text \<open>A small tree on which the theorems are applied: a job page, and a splat below it in rank.\<close>

definition demo_routes :: "nat route list" where
  "demo_routes = [Route ''0'' (Some ''*'') False False (Some 0) [],
                  Route ''1'' (Some ''jobs/:id'') False False (Some 1) []]"

definition demo_match :: "nat route_match list" where
  "demo_match = [\<lparr>rm_params = [(''id'', Some ''42'')], rm_pathname = ''/jobs/42'', rm_pathnameBase = ''/jobs/42'',
                  rm_route = Route ''1'' (Some ''jobs/:id'') False False (Some 1) []\<rparr>]"

theorem matchRoutes_best_witness:
  "\<exists>h b. Bq_flattenRoutes demo_routes = Inr h \<and> b \<in> set h \<and>
     d7_matchRouteBranch b ''/jobs/42'' False = Inr (Some demo_match) \<and>
     (\<forall>b' \<in> set h. br_score b < br_score b' \<longrightarrow> d7_matchRouteBranch b' ''/jobs/42'' False = Inr None)"
proof -
  have m: "n7_matchRoutes demo_routes (ToStr ''/admin/jobs/42'') ''/admin'' False = Inr (Some demo_match)"
    by code_simp
  have s: "rs_stripBasename (let c = dflt '''' (pp_pathname (to_path (ToStr ''/admin/jobs/42'')))
      in if c = [] then ''/'' else c) ''/admin'' = Some ''/jobs/42''"
    by code_simp
  have d: "p7_decodePath ''/jobs/42'' = ''/jobs/42''" by code_simp
  from matchRoutes_best [OF m] show ?thesis unfolding s option.inject by (auto simp: d)
qed

theorem matchRoutes_none_complete_witness:
  "d7_matchRouteBranch (hd (projr (Bq_flattenRoutes (tl demo_routes)))) ''/queues'' False = Inr None"
proof -
  have n: "n7_matchRoutes (tl demo_routes) (ToStr ''/queues'') ''/'' False = Inr None"
    and h: "Bq_flattenRoutes (tl demo_routes) = Inr (projr (Bq_flattenRoutes (tl demo_routes)))"
    and s: "rs_stripBasename (let c = dflt '''' (pp_pathname (to_path (ToStr ''/queues'')))
      in if c = [] then ''/'' else c) ''/'' = Some ''/queues''"
    and b: "hd (projr (Bq_flattenRoutes (tl demo_routes))) \<in> set (projr (Bq_flattenRoutes (tl demo_routes)))"
    and d: "p7_decodePath ''/queues'' = ''/queues''"
    by code_simp+
  from matchRoutes_none_complete [OF n h s b] show ?thesis unfolding d .
qed

text \<open>A tree with an absolute parent, a child that repeats its path, and optional segments.\<close>

definition optional_routes :: "nat route list" where
  "optional_routes =
    [Route ''0'' (Some ''/app'') False False (Some 0)
       [Route ''0-0'' None False True (Some 1) [],
        Route ''0-1'' (Some ''/app/jobs/:id?'') False False (Some 2) [Route ''0-1-0'' (Some ''/log?'') False False None []],
        Route ''0-2'' (Some ''old?/queues'') False False (Some 3) []]]"

theorem matchRoutes_no_throw_witness:
  "\<exists>m. n7_matchRoutes optional_routes (ToStr ''/app/jobs/%zz'') ''/'' False = Inr m"
proof -
  have "list_all (good_tree (Some '''')) optional_routes" by code_simp
  then show ?thesis by (rule matchRoutes_no_throw)
qed

end
