(* ===== verification/Router_Render.thy ===== *)
theory Router_Render
  imports Router_Match
begin

text \<open>
  From the matched branch to what is rendered (the react-router section of
  \<open>src/internal/admin/dist/index-DxrWcVFD.js\<close>): the routes that \<open>Routes\<close> reads from its
  children, the descendant matching of \<open>useRoutes\<close>, the nesting of the matched elements
  around their outlets, and the basename guard of \<open>Router\<close>.  The data-router features of
  these functions (loaders, error boundaries, hydration) are switched off in the declarative
  mode that the dashboard uses, where \<open>dataRouterState\<close> is null.
\<close>

section \<open>Routes from JSX children\<close>

record 'el route_props =
  rp_id :: "string option"
  rp_path :: "string option"
  rp_caseSensitive :: bool
  rp_index :: bool
  rp_element :: "'el option"

text \<open>
  A child of \<open>Routes\<close>: a route element with its children, a fragment, a value that is no
  element (null, a boolean or text), or an element of another component.
\<close>

datatype 'el jsx_route =
    JRoute "'el route_props" "'el jsx_route list"
  | JFragment "'el jsx_route list"
  | JInvalid
  | JOther string

datatype jsx_error = NotARoute string | IndexWithChildren

fun GR_createRoutes :: "'el jsx_route list \<Rightarrow> nat \<Rightarrow> nat list \<Rightarrow> (jsx_error, 'el route list) res" where
  "GR_createRoutes [] c t = Inr []"
| "GR_createRoutes (JInvalid # es) c t = GR_createRoutes es (Suc c) t"
| "GR_createRoutes (JFragment ch # es) c t =
     bindR (GR_createRoutes ch 0 (t @ [c])) (\<lambda>a.
     bindR (GR_createRoutes es (Suc c) t) (\<lambda>b. Inr (a @ b)))"
| "GR_createRoutes (JOther n # es) c t = Inl (NotARoute n)"
| "GR_createRoutes (JRoute p ch # es) c t =
     (if rp_index p \<and> ch \<noteq> [] then Inl IndexWithChildren
      else
        bindR (GR_createRoutes ch 0 (t @ [c])) (\<lambda>k.
        bindR (GR_createRoutes es (Suc c) t) (\<lambda>b.
          Inr (Route (if dflt '''' (rp_id p) \<noteq> [] then dflt '''' (rp_id p)
                      else js_join CHR ''-'' (map nat_str (t @ [c])))
                 (rp_path p) (rp_caseSensitive p) (rp_index p) (rp_element p) k # b))))"


section \<open>The matches a link resolves against\<close>

text \<open>\<open>getPathContributingMatches\<close> and \<open>getResolveToMatches\<close>.\<close>

fun v7_loop :: "nat \<Rightarrow> 'el route_match list \<Rightarrow> 'el route_match list" where
  "v7_loop a [] = []"
| "v7_loop a (t # ts) =
     (if a = 0 \<or> dflt '''' (r_path (rm_route t)) \<noteq> [] then t # v7_loop (Suc a) ts else v7_loop (Suc a) ts)"

definition v7_pathContributing :: "'el route_match list \<Rightarrow> 'el route_match list" where
  "v7_pathContributing e = v7_loop 0 e"

definition Hq_resolveToMatches :: "'el route_match list \<Rightarrow> string list" where
  "Hq_resolveToMatches e =
     (let t = v7_pathContributing e in
      map (\<lambda>(i, a). if Suc i = length t then rm_pathname a else rm_pathnameBase a) (enumerate 0 t))"


section \<open>Rendering the matches\<close>

text \<open>
  A rendered route provides its match, the matches up to it and its outlet as the route
  context, around its own element or, when it has none, directly around the outlet.
\<close>

datatype 'el rendered = Rendered
  (rd_matches: "'el route_match list")
  (rd_outlet: "'el rendered option")
  (rd_element: "'el option")

text \<open>\<open>_renderMatches\<close> without a data router: fold the matches from the leaf outwards.\<close>

fun k7_wrap :: "'el route_match list \<Rightarrow> 'el route_match list \<Rightarrow> 'el rendered option" where
  "k7_wrap done' [] = None"
| "k7_wrap done' (S # rest) =
     Some (Rendered (done' @ [S]) (k7_wrap (done' @ [S]) rest) (r_element (rm_route S)))"

definition k7_renderMatches ::
  "'el route_match list option \<Rightarrow> 'el route_match list \<Rightarrow> 'el rendered option" where
  "k7_renderMatches e t = (case e of None \<Rightarrow> None | Some s \<Rightarrow> k7_wrap t s)"

text \<open>
  \<open>useRoutes\<close>.  \<open>h\<close> are the parent matches, \<open>w\<close> the pathname of the location and \<open>enc\<close> the
  pathname part of the navigator's \<open>encodeLocation\<close>, which parses a URL and is not part of the
  sources.
\<close>

fun replace_char :: "char \<Rightarrow> string \<Rightarrow> string \<Rightarrow> string" where
  "replace_char c r [] = []"
| "replace_char c r (x # xs) = (if x = c then r @ replace_char c r xs else x # replace_char c r xs)"

definition Qq_encode :: "(string \<Rightarrow> string) option \<Rightarrow> string \<Rightarrow> string" where
  "Qq_encode enc p =
     (case enc of None \<Rightarrow> p
      | Some f \<Rightarrow> f (replace_char hash_c ''%23'' (replace_char qmark ''%3F'' p)))"

definition drop_leading_slash :: "string \<Rightarrow> string" where
  "drop_leading_slash s = (if startsWith s ''/'' then drop 1 s else s)"

definition Qq_remaining :: "string \<Rightarrow> string \<Rightarrow> string" where
  "Qq_remaining O' D =
     (if O' \<noteq> ''/''
      then slash # js_join slash (drop (length (js_split slash (drop_leading_slash O')))
                                       (js_split slash (drop_leading_slash D)))
      else D)"

definition Qq_useRoutes ::
  "'el route list \<Rightarrow> 'el route_match list \<Rightarrow> string \<Rightarrow> (string \<Rightarrow> string) option
     \<Rightarrow> (match_error, 'el rendered option) res" where
  "Qq_useRoutes e h w enc =
     (let g = (if h = [] then [] else rm_params (last h));
          O' = (if h = [] then ''/'' else rm_pathnameBase (last h));
          D = (if w = [] then ''/'' else w);
          C = Qq_remaining O' D
      in bindR (qq_matchRoutes e (ToObj \<lparr>pp_pathname = Some C, pp_search = None, pp_hash = None\<rparr>) ''/'') (\<lambda>R.
         Inr (k7_renderMatches
           (map_option (map (\<lambda>U. U\<lparr>rm_params := assign_params g (rm_params U),
               rm_pathname := Wc_joinPaths [O', Qq_encode enc (rm_pathname U)],
               rm_pathnameBase := (if rm_pathnameBase U = ''/'' then O'
                                   else Wc_joinPaths [O', Qq_encode enc (rm_pathnameBase U)])\<rparr>)) R)
           h)))"


section \<open>The router component\<close>

text \<open>\<open>Router\<close>: the pathname below the basename, or nothing.\<close>

definition J7_Router :: "string \<Rightarrow> string \<Rightarrow> string option" where
  "J7_Router basename pathname = rs_stripBasename pathname (one_leading basename)"

text \<open>
  The whole declarative pipeline: \<open>Router\<close> strips the basename, \<open>Routes\<close> builds the routes from
  its children and renders the match.
\<close>

datatype render_error = EJsx jsx_error | EMatch match_error

definition F7_render ::
  "'el jsx_route list \<Rightarrow> string \<Rightarrow> string \<Rightarrow> (string \<Rightarrow> string) option \<Rightarrow> (render_error, 'el rendered option) res" where
  "F7_render children basename pathname enc =
     (case J7_Router basename pathname of
        None \<Rightarrow> Inr None
      | Some p \<Rightarrow>
          (case GR_createRoutes children 0 [] of
             Inl e \<Rightarrow> Inl (EJsx e)
           | Inr rs \<Rightarrow>
               (case Qq_useRoutes rs [] p enc of
                  Inl e \<Rightarrow> Inl (EMatch e)
                | Inr r \<Rightarrow> Inr r)))"

text \<open>The elements on screen, outermost first.\<close>

fun rd_elements :: "'el rendered \<Rightarrow> 'el list" where
  "rd_elements (Rendered ms out el) =
     (case el of None \<Rightarrow> [] | Some e \<Rightarrow> [e]) @ (case out of None \<Rightarrow> [] | Some o' \<Rightarrow> rd_elements o')"


section \<open>Properties of rendering\<close>

lemma k7_wrap_None_iff [simp]: "k7_wrap d ms = None \<longleftrightarrow> ms = []"
  by (cases ms) auto

lemma k7_wrap_elements:
  "k7_wrap d ms = Some r \<Longrightarrow> rd_elements r = concat (map (\<lambda>m. case r_element (rm_route m) of None \<Rightarrow> [] | Some e \<Rightarrow> [e]) ms)"
proof (induction ms arbitrary: d r)
  case (Cons m ms)
  show ?case
  proof (cases "k7_wrap (d @ [m]) ms")
    case None
    then show ?thesis using Cons.prems by auto
  next
    case (Some r')
    then show ?thesis using Cons.prems Cons.IH [OF Some] by auto
  qed
qed simp

text \<open>The context at each nesting depth holds the matches from the outside to that depth.\<close>

fun rd_spine :: "'el rendered \<Rightarrow> 'el route_match list list" where
  "rd_spine (Rendered ms out el) = ms # (case out of None \<Rightarrow> [] | Some o' \<Rightarrow> rd_spine o')"

lemma k7_wrap_spine:
  "k7_wrap d ms = Some r \<Longrightarrow> rd_spine r = map (\<lambda>i. d @ take (Suc i) ms) [0 ..< length ms]"
proof (induction ms arbitrary: d r)
  case (Cons m ms)
  show ?case
  proof (cases ms)
    case Nil
    then show ?thesis using Cons.prems by auto
  next
    case (Cons m' ms')
    then obtain r' where r': "k7_wrap (d @ [m]) ms = Some r'" by auto
    from Cons.IH [OF r'] Cons.prems r' show ?thesis
      by (auto simp del: upt_Suc simp: upt_conv_Cons map_Suc_upt [symmetric] comp_def)
  qed
qed simp

text \<open>
  Rendering nests the matched routes in order: the elements on screen, from the outside
  in, are the elements of the matched routes from the root to the leaf, and the route context
  at depth \<open>i\<close> carries the parent matches followed by the first \<open>i + 1\<close> matches.
\<close>

theorem renderMatches_nesting:
  assumes "k7_renderMatches (Some ms) t = Some r"
  shows "rd_elements r = concat (map (\<lambda>m. case r_element (rm_route m) of None \<Rightarrow> [] | Some e \<Rightarrow> [e]) ms) \<and>
         rd_spine r = map (\<lambda>i. t @ take (Suc i) ms) [0 ..< length ms]"
  using assms k7_wrap_elements [of t ms r] k7_wrap_spine [of t ms r]
  by (simp add: k7_renderMatches_def)

theorem renderMatches_nesting_witness:
  "\<exists>r. k7_renderMatches (Some demo_match) [] = Some r \<and> rd_elements r = [1] \<and> rd_spine r = [demo_match]"
proof -
  obtain r where r: "k7_renderMatches (Some demo_match) [] = Some r"
    by (simp add: k7_renderMatches_def demo_match_def)
  from renderMatches_nesting [OF r] r show ?thesis by (simp add: demo_match_def)
qed

end
