(* ===== verification/Admin_Routes.thy ===== *)
theory Admin_Routes
  imports Router_Render
begin

text \<open>
  The dashboard's own route table (\<open>Gre\<close>, the \<open>App\<close> component of
  \<open>src/internal/admin/dist/index-DxrWcVFD.js\<close>): a layout route around six pages, mounted
  under the basename \<open>/ojs/admin\<close>.
\<close>

datatype page =
    PLayout \<comment> \<open>\<open>BP\<close>: sidebar, header and outlet\<close>
  | PDashboard \<comment> \<open>\<open>Cre\<close>\<close>
  | PQueues \<comment> \<open>\<open>Nre\<close>\<close>
  | PJobs \<comment> \<open>\<open>Bre\<close>\<close>
  | PWorkers \<comment> \<open>\<open>Hre\<close>\<close>
  | PDeadLetter \<comment> \<open>\<open>Pre\<close>\<close>
  | PSettings \<comment> \<open>\<open>kre\<close>\<close>

definition page_route :: "string \<Rightarrow> page \<Rightarrow> page jsx_route" where
  "page_route p el =
     JRoute \<lparr>rp_id = None, rp_path = Some p, rp_caseSensitive = False, rp_index = False, rp_element = Some el\<rparr> []"

definition Gre_routes :: "page jsx_route list" where
  "Gre_routes =
     [JRoute \<lparr>rp_id = None, rp_path = None, rp_caseSensitive = False, rp_index = False, rp_element = Some PLayout\<rparr>
        [JRoute \<lparr>rp_id = None, rp_path = None, rp_caseSensitive = False, rp_index = True, rp_element = Some PDashboard\<rparr> [],
         page_route ''queues'' PQueues,
         page_route ''jobs'' PJobs,
         page_route ''workers'' PWorkers,
         page_route ''dead-letter'' PDeadLetter,
         page_route ''settings'' PSettings]]"

definition Gre_basename :: string where
  "Gre_basename = ''/ojs/admin''"

definition Gre_render :: "string \<Rightarrow> (string \<Rightarrow> string) option \<Rightarrow> (render_error, page rendered option) res" where
  "Gre_render pathname enc = F7_render Gre_routes Gre_basename pathname enc"


section \<open>Which page a path shows\<close>

text \<open>
  The specification: a page is shown at its name, in any letter case, with any number of
  trailing slashes, and the dashboard at the mount point itself.
\<close>

fun all_slashes :: "string \<Rightarrow> bool" where
  "all_slashes s = list_all (\<lambda>c. c = slash) s"

definition at_page :: "string \<Rightarrow> string \<Rightarrow> bool" where
  "at_page nm u \<longleftrightarrow>
     startsWith (toLowerCase u) (slash # nm) \<and> all_slashes (drop (Suc (length nm)) u)"

definition page_spec :: "string \<Rightarrow> page option" where
  "page_spec u =
     (if at_page ''queues'' u then Some PQueues
      else if at_page ''jobs'' u then Some PJobs
      else if at_page ''workers'' u then Some PWorkers
      else if at_page ''dead-letter'' u then Some PDeadLetter
      else if at_page ''settings'' u then Some PSettings
      else if at_page '''' u then Some PDashboard
      else None)"

definition admin_routes :: "page route list" where
  "admin_routes = projr (GR_createRoutes Gre_routes 0 [])"

definition admin_branches :: "page branch list" where
  "admin_branches = r7_rankRouteBranches (projr (Bq_flattenRoutes admin_routes))"

text \<open>The leaf names in ranked order: the five named pages as written, the index page last.\<close>

definition leaf_names :: "(string \<times> page) list" where
  "leaf_names = [(''queues'', PQueues), (''jobs'', PJobs), (''workers'', PWorkers),
     (''dead-letter'', PDeadLetter), (''settings'', PSettings), ('''', PDashboard)]"

definition leaf_ok :: "page branch \<Rightarrow> string \<times> page \<Rightarrow> bool" where
  "leaf_ok b np = (case br_metas b of
     [m, l] \<Rightarrow> mt_relativePath m = '''' \<and> \<not> mt_caseSensitive m \<and> r_element (mt_route m) = Some PLayout \<and>
               mt_relativePath l = fst np \<and> \<not> mt_caseSensitive l \<and> r_element (mt_route l) = Some (snd np)
   | _ \<Rightarrow> False)"

lemma admin_routes_ok: "GR_createRoutes Gre_routes 0 [] = Inr admin_routes"
  unfolding admin_routes_def by (simp add: Gre_routes_def page_route_def)

lemma admin_flatten_ok: "\<exists>h. Bq_flattenRoutes admin_routes = Inr h \<and> r7_rankRouteBranches h = admin_branches"
proof -
  have "(case Bq_flattenRoutes admin_routes of Inl e \<Rightarrow> False | Inr h \<Rightarrow> True)" by code_simp
  then show ?thesis by (auto simp: admin_branches_def split: sum.splits)
qed

lemma admin_branches_ok: "list_all2 leaf_ok admin_branches leaf_names"
  by code_simp

lemma page_spec_find: "page_spec u = map_option snd (find (\<lambda>np. at_page (fst np) u) leaf_names)"
  by (simp add: page_spec_def leaf_names_def)

text \<open>A name in the route table: static, lower case, without slashes.\<close>

definition leaf_name :: "string \<Rightarrow> bool" where
  "leaf_name nm \<longleftrightarrow> static_path nm \<and> toLowerCase nm = nm \<and> slash \<notin> set nm"

lemma leaf_names_ok: "list_all (\<lambda>np. leaf_name (fst np)) leaf_names"
  by code_simp

lemma leaf_source: "leaf_name nm \<Longrightarrow> h7_source nm = slash # nm"
proof -
  assume a: "leaf_name nm"
  have s: "strip_trailing nm = nm"
    using a by (intro strip_trailing_id) (auto simp: leaf_name_def endsWith_single dest: last_in_set)
  have "dropWhile (\<lambda>c. c = slash) nm = nm"
    using a by (cases nm) (auto simp: leaf_name_def)
  then show ?thesis using a s h7_source_static(1) [of nm] by (simp add: leaf_name_def one_leading_def)
qed

lemma at_page_text: "leaf_name nm \<Longrightarrow> at_page nm u \<longleftrightarrow> (\<exists>k. same_text False u (h7_source nm @ replicate k slash))"
proof -
  assume a: "leaf_name nm"
  have "map (\<lambda>c. if False then c else lower_char c) (slash # nm) = slash # nm"
    using a lower_char_slash [of slash] by (simp add: leaf_name_def toLowerCase_def)
  then show ?thesis
    unfolding leaf_source [OF a] static_text_iff [symmetric] by (simp add: at_page_def toLowerCase_def)
qed

lemma leaf_match:
  assumes "leaf_name nm"
  shows "wO_matchPath \<lparr>pt_path = nm, pt_caseSensitive = False, pt_end = True\<rparr> u =
    Inr (if at_page nm u then Some \<lparr>pm_params = [], pm_pathname = u, pm_pathnameBase = trim_base u\<rparr> else None)"
proof -
  have "static_path nm" using assms by (simp add: leaf_name_def)
  from wO_static [OF this, of False u] show ?thesis by (simp only: at_page_text [OF assms])
qed

lemma layout_match:
  "wO_matchPath \<lparr>pt_path = '''', pt_caseSensitive = False, pt_end = False\<rparr> u =
    Inr (if startsWith u ''/'' then Some \<lparr>pm_params = [], pm_pathname = ''/'', pm_pathnameBase = ''/''\<rparr> else None)"
proof -
  have c: "h7_compilePath '''' False = (Some [lit slash], [])"
    by code_simp
  have t: "trim_base ''/'' = ''/''" by code_simp
  show ?thesis
    using t cls_ok_slash [of False] by (cases u) (auto simp: wO_matchPath_def c lit_def Let_def simp del: cls_ok.simps)
qed

lemma at_page_slash: "at_page nm u \<Longrightarrow> startsWith u ''/''"
  using lower_char_slash by (cases u) (auto simp: at_page_def)

lemma d7_leaf:
  assumes "leaf_ok b np" and "leaf_name (fst np)"
  shows "\<exists>m. d7_matchRouteBranch b u False = Inr m \<and>
    map_option (map (\<lambda>x. r_element (rm_route x))) m =
      (if at_page (fst np) u then Some [Some PLayout, Some (snd np)] else None)"
proof -
  obtain m l where b: "br_metas b = [m, l]" "mt_relativePath m = ''''" "\<not> mt_caseSensitive m"
      "r_element (mt_route m) = Some PLayout" "mt_relativePath l = fst np" "\<not> mt_caseSensitive l"
      "r_element (mt_route l) = Some (snd np)"
    using assms(1) by (auto simp: leaf_ok_def split: list.splits)
  show ?thesis
  proof (cases "startsWith u ''/''")
    case True
    then show ?thesis
      using b by (auto simp: d7_matchRouteBranch_def Let_def layout_match leaf_match [OF assms(2)])
  next
    case False
    then have "\<not> at_page (fst np) u" using at_page_slash by blast
    with False b show ?thesis
      by (auto simp: d7_matchRouteBranch_def Let_def layout_match)
  qed
qed

lemma first_match_leaves:
  assumes "list_all2 leaf_ok bs nps" and "list_all (\<lambda>np. leaf_name (fst np)) nps"
  shows "\<exists>m. first_match (\<lambda>b. d7_matchRouteBranch b u False) bs = Inr m \<and>
    map_option (map (\<lambda>x. r_element (rm_route x))) m =
      map_option (\<lambda>np. [Some PLayout, Some (snd np)]) (find (\<lambda>np. at_page (fst np) u) nps)"
  using assms
proof (induction rule: list_all2_induct)
  case (Cons b bs np nps)
  then obtain m where m: "d7_matchRouteBranch b u False = Inr m"
      "map_option (map (\<lambda>x. r_element (rm_route x))) m =
        (if at_page (fst np) u then Some [Some PLayout, Some (snd np)] else None)"
    using d7_leaf [of b np u] by auto
  show ?case
  proof (cases "at_page (fst np) u")
    case True
    then obtain x where "m = Some x" using m(2) by (cases m) auto
    then show ?thesis using m True by simp
  next
    case False
    then have "m = None" using m(2) by (cases m) auto
    then show ?thesis using m(1) False Cons by simp
  qed
qed simp

lemma rs_root [simp]: "rs_stripBasename s ''/'' = Some s"
  by (simp add: rs_stripBasename_def)

lemma rs_nonempty: "b \<noteq> ''/'' \<Longrightarrow> rs_stripBasename p b = Some s \<Longrightarrow> s \<noteq> []"
  by (auto simp: rs_stripBasename_def Let_def split: if_splits option.splits)

lemma elements_of_matches:
  "k7_wrap [] ms = Some r \<Longrightarrow> map (\<lambda>x. r_element (rm_route x)) ms = map Some es \<Longrightarrow> rd_elements r = es"
proof -
  assume a: "k7_wrap [] ms = Some r" "map (\<lambda>x. r_element (rm_route x)) ms = map Some es"
  have "map (\<lambda>x. r_element (rm_route x)) ms = map Some es \<Longrightarrow>
     concat (map (\<lambda>m. case r_element (rm_route m) of None \<Rightarrow> [] | Some e \<Rightarrow> [e]) ms) = es" for es
    by (induction ms arbitrary: es) auto
  with a show ?thesis using k7_wrap_elements [OF a(1)] by simp
qed

lemma Gre_render_page:
  "\<exists>r. Gre_render p enc = Inr r \<and>
    map_option rd_elements r =
      (case J7_Router Gre_basename p of None \<Rightarrow> None
       | Some s \<Rightarrow> map_option (\<lambda>pg. [PLayout, pg]) (page_spec (p7_decodePath s)))"
proof (cases "J7_Router Gre_basename p")
  case None
  then show ?thesis by (simp add: Gre_render_def F7_render_def)
next
  case (Some s)
  define u where "u = p7_decodePath s"
  have "one_leading Gre_basename \<noteq> ''/''" by (simp add: Gre_basename_def one_leading_def)
  then have s: "s \<noteq> []" using Some rs_nonempty by (auto simp: J7_Router_def)
  obtain h where h: "Bq_flattenRoutes admin_routes = Inr h" "r7_rankRouteBranches h = admin_branches"
    using admin_flatten_ok by blast
  obtain m where m: "first_match (\<lambda>b. d7_matchRouteBranch b u False) admin_branches = Inr m"
      "map_option (map (\<lambda>x. r_element (rm_route x))) m =
        map_option (\<lambda>np. [Some PLayout, Some (snd np)]) (find (\<lambda>np. at_page (fst np) u) leaf_names)"
    using first_match_leaves [OF admin_branches_ok leaf_names_ok] by blast
  have q: "qq_matchRoutes admin_routes (ToObj \<lparr>pp_pathname = Some s, pp_search = None, pp_hash = None\<rparr>) ''/'' = Inr m"
    using m(1) s h by (simp add: qq_matchRoutes_def n7_matchRoutes_def to_path_def u_def)
  define f where "f = map (\<lambda>U. U\<lparr>rm_params := assign_params [] (rm_params (U :: page route_match)),
               rm_pathname := Wc_joinPaths [''/'', Qq_encode enc (rm_pathname U)],
               rm_pathnameBase := (if rm_pathnameBase U = ''/'' then ''/''
                                   else Wc_joinPaths [''/'', Qq_encode enc (rm_pathnameBase U)])\<rparr>)"
  have r: "Gre_render p enc = Inr (k7_renderMatches (map_option f m) [])"
    using s q by (simp add: Gre_render_def F7_render_def Some admin_routes_ok Qq_useRoutes_def Qq_remaining_def Let_def f_def)
  have f: "map (\<lambda>x. r_element (rm_route x)) (f ms) = map (\<lambda>x. r_element (rm_route x)) ms" for ms
    by (simp add: f_def comp_def)
  show ?thesis
  proof (cases m)
    case None
    then show ?thesis using r m(2) Some by (simp add: k7_renderMatches_def page_spec_find u_def)
  next
    case m': (Some ms)
    then obtain np where np: "find (\<lambda>np. at_page (fst np) u) leaf_names = Some np"
        "map (\<lambda>x. r_element (rm_route x)) ms = map Some [PLayout, snd np]"
      using m(2) by (cases "find (\<lambda>np. at_page (fst np) u) leaf_names") auto
    then obtain rr where rr: "k7_wrap [] (f ms) = Some rr"
      using f [of ms] by (cases "k7_wrap [] (f ms)") auto
    have "rd_elements rr = [PLayout, snd np]"
      using elements_of_matches [OF rr] f [of ms] np(2) by simp
    then show ?thesis
      using r m' Some np(1) rr by (simp add: k7_renderMatches_def page_spec_find u_def)
  qed
qed


text \<open>The specification at a few addresses.\<close>

lemma page_spec_examples:
  "page_spec ''/'' = Some PDashboard" "page_spec ''/Dead-Letter/'' = Some PDeadLetter"
  "page_spec ''/queues/default'' = None" "page_spec ''/job'' = None"
  by code_simp+

end
