(* ===== verification/Router_History.thy ===== *)
theory Router_History
  imports Router_Render
begin

text \<open>
  The browser history behind the router: \<open>createBrowserHistory\<close> (\<open>F$\<close>, \<open>e7\<close>), the hook that
  navigates (\<open>z7\<close>) and the component that keeps the current location (\<open>OP\<close>, \<open>BrowserRouter\<close>).
  The session history of the window is the platform's: a list of entries with the states that were
  stored in them, the current one, and the traversals that were asked for and have not happened
  yet.  What the platform decides by itself is a parameter: which states can be cloned and to which
  address a relative URL resolves.
\<close>

section \<open>The session history of the window\<close>

text \<open>
  The index a history entry carries.  The program reads it from a state object that it may not have
  written, so it can be \<open>null\<close> or \<open>undefined\<close>, and adding one to the latter is not a number.
\<close>

datatype jsidx = INull | IUndef | INaN | INum int

definition idx_num :: "jsidx \<Rightarrow> int option" where
  "idx_num i = (case i of INull \<Rightarrow> Some 0 | INum n \<Rightarrow> Some n | _ \<Rightarrow> None)"

definition idx_add :: "jsidx \<Rightarrow> int \<Rightarrow> jsidx" where
  "idx_add i k = (case idx_num i of None \<Rightarrow> INaN | Some n \<Rightarrow> INum (n + k))"

definition idx_sub :: "jsidx \<Rightarrow> jsidx \<Rightarrow> jsidx" where
  "idx_sub i j = (case (idx_num i, idx_num j) of (Some m, Some n) \<Rightarrow> INum (m - n) | _ \<Rightarrow> INaN)"

definition idx_nullish :: "jsidx \<Rightarrow> bool" where
  "idx_nullish i \<longleftrightarrow> i = INull \<or> i = IUndef"

text \<open>The user's states are the truthy values; the others are stored and read back as \<open>null\<close>.\<close>

record 'st hstate =
  hs_usr :: "'st option"
  hs_key :: "string option"
  hs_idx :: jsidx

record 'st entry =
  en_url :: full_path
  en_state :: "'st hstate option"

record 'st window =
  wi_entries :: "'st entry list"
  wi_cur :: nat
  wi_pending :: "int list" \<comment> \<open>traversals asked for with \<open>go\<close>\<close>
  wi_left :: "string option" \<comment> \<open>the document is being replaced by this address\<close>

record 'st platform =
  pf_clonable :: "'st hstate \<Rightarrow> bool"
  pf_resolve :: "full_path \<Rightarrow> string \<Rightarrow> full_path option"

datatype dom_error = DataCloneError | SecurityError

definition wi_entry :: "'st window \<Rightarrow> 'st entry" where
  "wi_entry w = wi_entries w ! wi_cur w"

definition pushState :: "'st platform \<Rightarrow> 'st hstate \<Rightarrow> string \<Rightarrow> 'st window \<Rightarrow> (dom_error, 'st window) res" where
  "pushState br s href w =
     (if \<not> pf_clonable br s then Inl DataCloneError
      else case pf_resolve br (en_url (wi_entry w)) href of
        None \<Rightarrow> Inl SecurityError
      | Some u \<Rightarrow> Inr (w\<lparr>wi_entries := take (Suc (wi_cur w)) (wi_entries w) @ [\<lparr>en_url = u, en_state = Some s\<rparr>],
                          wi_cur := Suc (wi_cur w)\<rparr>))"

definition replaceState :: "'st platform \<Rightarrow> 'st hstate \<Rightarrow> string \<Rightarrow> 'st window \<Rightarrow> (dom_error, 'st window) res" where
  "replaceState br s href w =
     (if \<not> pf_clonable br s then Inl DataCloneError
      else case pf_resolve br (en_url (wi_entry w)) href of
        None \<Rightarrow> Inl SecurityError
      | Some u \<Rightarrow> Inr (w\<lparr>wi_entries := (wi_entries w)[wi_cur w := \<lparr>en_url = u, en_state = Some s\<rparr>]\<rparr>))"

section \<open>The history object\<close>

datatype hist_action = POP | PUSH | REPLACE

record 'st hnote =
  no_action :: hist_action
  no_location :: "'st location"
  no_delta :: jsidx

record 'st hist =
  hi_window :: "'st window"
  hi_action :: hist_action \<comment> \<open>\<open>y\<close>\<close>
  hi_index :: jsidx \<comment> \<open>\<open>b\<close>\<close>
  hi_listening :: bool \<comment> \<open>\<open>g\<close> is set and \<open>S\<close> is registered\<close>
  hi_v5 :: bool \<comment> \<open>\<open>s\<close>\<close>
  hi_calls :: "'st hnote list" \<comment> \<open>the calls of the listener\<close>

definition full_to_part :: "full_path \<Rightarrow> part_path" where
  "full_to_part u = \<lparr>pp_pathname = Some (fp_pathname u), pp_search = Some (fp_search u), pp_hash = Some (fp_hash u)\<rparr>"

text \<open>\<open>F$\<close>: the location of the current entry; the inner functions \<open>t\<close> and \<open>a\<close>.\<close>

definition F_location :: "'st window \<Rightarrow> 'st location" where
  "F_location w =
     (let e = wi_entry w; key = (case en_state e of None \<Rightarrow> '''' | Some s \<Rightarrow> dflt '''' (hs_key s)) in
      YR_createLocation '''' (ToObj (full_to_part (en_url e))) None
        (case en_state e of None \<Rightarrow> None | Some s \<Rightarrow> hs_usr s)
        (Some (if key = [] then ''default'' else key)) '''')"

definition F_href :: "'st location \<Rightarrow> string" where
  "F_href l = Pb_createPath \<lparr>pp_pathname = Some (loc_pathname l), pp_search = Some (loc_search l), pp_hash = Some (loc_hash l)\<rparr>"

definition P3_state :: "'st location \<Rightarrow> jsidx \<Rightarrow> 'st hstate" where
  "P3_state l i = \<lparr>hs_usr = loc_state l, hs_key = Some (loc_key l), hs_idx = i\<rparr>"

definition O_index :: "'st window \<Rightarrow> jsidx" where
  "O_index w = (case en_state (wi_entry w) of None \<Rightarrow> INull | Some s \<Rightarrow> hs_idx s)"

text \<open>\<open>e7\<close>: an entry without an index gets the index 0.\<close>

definition e7_init_window :: "'st window \<Rightarrow> 'st window" where
  "e7_init_window w =
     (if idx_nullish (O_index w) then
        w\<lparr>wi_entries := (wi_entries w)[wi_cur w := (wi_entry w)\<lparr>en_state := Some
           (case en_state (wi_entry w) of None \<Rightarrow> \<lparr>hs_usr = None, hs_key = None, hs_idx = INum 0\<rparr>
            | Some s \<Rightarrow> s\<lparr>hs_idx := INum 0\<rparr>)\<rparr>]\<rparr>
      else w)"

definition e7_create :: "bool \<Rightarrow> 'st window \<Rightarrow> 'st hist" where
  "e7_create v5 w =
     \<lparr>hi_window = e7_init_window w, hi_action = POP,
      hi_index = (if idx_nullish (O_index w) then INum 0 else O_index w),
      hi_listening = False, hi_v5 = v5, hi_calls = []\<rparr>"

definition h_notify :: "jsidx \<Rightarrow> 'st hist \<Rightarrow> 'st hist" where
  "h_notify d h = h\<lparr>hi_calls := hi_calls h @ [\<lparr>no_action = hi_action h, no_location = F_location (hi_window h), no_delta = d\<rparr>]\<rparr>"

definition S_pop :: "'st hist \<Rightarrow> 'st hist" where
  "S_pop h =
     (let R = O_index (hi_window h); N = (if idx_nullish R then INull else idx_sub R (hi_index h));
          h1 = h\<lparr>hi_action := POP, hi_index := R\<rparr>
      in if hi_listening h then h_notify N h1 else h1)"

text \<open>
  \<open>E\<close>: a state that cannot be cloned is an error for the caller; any other refusal of \<open>pushState\<close>
  loads the address as a new document.  \<open>fresh\<close> is the random key.
\<close>

definition E_push :: "'st platform \<Rightarrow> string \<Rightarrow> to_arg \<Rightarrow> 'st option \<Rightarrow> 'st hist \<Rightarrow> 'st hist \<times> dom_error option" where
  "E_push br fresh R N h =
     (let w = hi_window h; L = YR_createLocation (loc_pathname (F_location w)) R None N None fresh;
          b = idx_add (O_index w) 1; U = P3_state L b; href = F_href L;
          h1 = h\<lparr>hi_action := PUSH, hi_index := b\<rparr>;
          done' = (\<lambda>h2. if hi_v5 h2 \<and> hi_listening h2 then h_notify (INum 1) h2 else h2)
      in case pushState br U href w of
           Inl DataCloneError \<Rightarrow> (h1, Some DataCloneError)
         | Inl SecurityError \<Rightarrow> (done' (h1\<lparr>hi_window := w\<lparr>wi_left := Some href\<rparr>\<rparr>), None)
         | Inr w' \<Rightarrow> (done' (h1\<lparr>hi_window := w'\<rparr>), None))"

definition w_replace :: "'st platform \<Rightarrow> string \<Rightarrow> to_arg \<Rightarrow> 'st option \<Rightarrow> 'st hist \<Rightarrow> 'st hist \<times> dom_error option" where
  "w_replace br fresh R N h =
     (let w = hi_window h; L = YR_createLocation (loc_pathname (F_location w)) R None N None fresh;
          b = O_index w; U = P3_state L b; href = F_href L; h1 = h\<lparr>hi_action := REPLACE, hi_index := b\<rparr>
      in case replaceState br U href w of
           Inl e \<Rightarrow> (h1, Some e)
         | Inr w' \<Rightarrow> (let h2 = h1\<lparr>hi_window := w'\<rparr> in if hi_v5 h2 \<and> hi_listening h2 then h_notify (INum 0) h2 else h2, None))"

datatype listen_error = OneListenerOnly

definition C_listen :: "'st hist \<Rightarrow> (listen_error, 'st hist) res" where
  "C_listen h = (if hi_listening h then Inl OneListenerOnly else Inr (h\<lparr>hi_listening := True\<rparr>))"

definition C_unlisten :: "'st hist \<Rightarrow> 'st hist" where
  "C_unlisten h = h\<lparr>hi_listening := False\<rparr>"

definition C_go :: "int \<Rightarrow> 'st hist \<Rightarrow> 'st hist" where
  "C_go d h = h\<lparr>hi_window := (hi_window h)\<lparr>wi_pending := wi_pending (hi_window h) @ [d]\<rparr>\<rparr>"

section \<open>What the window does\<close>

text \<open>
  A traversal happens later than the call of \<open>go\<close>.  One that leads out of the list does nothing;
  \<open>go(0)\<close> loads the document again.  \<open>popstate\<close> is handled only while there is a listener.
\<close>

definition pop_event :: "'st hist \<Rightarrow> 'st hist" where
  "pop_event h = (if hi_listening h then S_pop h else h)"

definition in_history :: "'st window \<Rightarrow> int \<Rightarrow> bool" where
  "in_history w d \<longleftrightarrow> 0 \<le> int (wi_cur w) + d \<and> int (wi_cur w) + d < int (length (wi_entries w))"

definition wi_traverse :: "'st hist \<Rightarrow> 'st hist" where
  "wi_traverse h =
     (let w = hi_window h in
      case wi_pending w of [] \<Rightarrow> h
      | d # ds \<Rightarrow>
          (let w1 = w\<lparr>wi_pending := ds\<rparr> in
           if d = 0 then h\<lparr>hi_window := w1\<lparr>wi_left := Some (Pb_createPath (full_to_part (en_url (wi_entry w))))\<rparr>\<rparr>
           else if in_history w d then pop_event (h\<lparr>hi_window := w1\<lparr>wi_cur := nat (int (wi_cur w) + d)\<rparr>\<rparr>)
           else h\<lparr>hi_window := w1\<rparr>))"

text \<open>A link to a fragment of the page, which the browser follows by itself.\<close>

definition wi_fragment :: "string \<Rightarrow> 'st hist \<Rightarrow> 'st hist" where
  "wi_fragment hash h =
     (let w = hi_window h in
      pop_event (h\<lparr>hi_window := w\<lparr>wi_entries := take (Suc (wi_cur w)) (wi_entries w) @
          [\<lparr>en_url = (en_url (wi_entry w))\<lparr>fp_hash := hash\<rparr>, en_state = None\<rparr>], wi_cur := Suc (wi_cur w)\<rparr>\<rparr>))"

datatype 'st hevent = EPush to_arg "'st option" string | EReplace to_arg "'st option" string | EGo int | ETraverse | EFragment string

fun h_step :: "'st platform \<Rightarrow> 'st hevent \<Rightarrow> 'st hist \<Rightarrow> 'st hist" where
  "h_step br (EPush R N fresh) h = fst (E_push br fresh R N h)"
| "h_step br (EReplace R N fresh) h = fst (w_replace br fresh R N h)"
| "h_step br (EGo d) h = C_go d h"
| "h_step br ETraverse h = wi_traverse h"
| "h_step br (EFragment x) h = wi_fragment x h"

section \<open>Navigation and the router component\<close>

datatype nav_arg = NavDelta int | NavTarget to_arg
datatype nav_cmd = NavNone | NavGo int | NavTo nav_action full_path

text \<open>
  \<open>z7\<close>, \<open>useNavigate\<close>: \<open>active\<close> is set by the layout effect of the component, \<open>data\<close> says that a
  data router is above, \<open>ms\<close> are the pathnames of the matches and \<open>cur\<close> the current pathname.
\<close>

definition z7_navigate ::
  "bool \<Rightarrow> bool \<Rightarrow> string \<Rightarrow> string list \<Rightarrow> string \<Rightarrow> nav_arg \<Rightarrow> bool \<Rightarrow> bool \<Rightarrow> (path_error, nav_cmd) res" where
  "z7_navigate active data basename ms cur g relpath repl =
     (if \<not> active then Inr NavNone
      else case g of
        NavDelta d \<Rightarrow> Inr (NavGo d)
      | NavTarget t \<Rightarrow>
          bindR (dq_resolveTo t ms cur relpath) (\<lambda>O'.
            Inr (NavTo (if repl then NavReplace else NavPush)
              (if \<not> data \<and> basename \<noteq> ''/'' then O'\<lparr>fp_pathname := D7_withBasename basename (fp_pathname O')\<rparr> else O'))))"

definition nav_event :: "'st option \<Rightarrow> string \<Rightarrow> nav_cmd \<Rightarrow> 'st hevent list" where
  "nav_event st fresh c =
     (case c of NavNone \<Rightarrow> [] | NavGo d \<Rightarrow> [EGo d]
      | NavTo NavPush t \<Rightarrow> [EPush (ToObj (full_to_part t)) st fresh]
      | NavTo NavReplace t \<Rightarrow> [EReplace (ToObj (full_to_part t)) st fresh])"

record 'st router =
  op_history :: "'st hist"
  op_action :: hist_action
  op_location :: "'st location"

text \<open>\<open>OP\<close>, \<open>BrowserRouter\<close>: the first render reads the history, then the effect listens to it.\<close>

definition OP_mount :: "'st window \<Rightarrow> 'st router" where
  "OP_mount w =
     (let h = e7_create True w in
      \<lparr>op_history = h\<lparr>hi_listening := True\<rparr>, op_action = hi_action h, op_location = F_location (hi_window h)\<rparr>)"

text \<open>
  Each call of the listener sets the state of the component.  The update that \<open>startTransition\<close> may put
  off is taken as made; what is stated below is about the state once it is.
\<close>

definition OP_set :: "'st hnote \<Rightarrow> 'st router \<Rightarrow> 'st router" where
  "OP_set n o' = o'\<lparr>op_action := no_action n, op_location := no_location n\<rparr>"

definition OP_step :: "'st platform \<Rightarrow> 'st hevent \<Rightarrow> 'st router \<Rightarrow> 'st router" where
  "OP_step br e o' =
     (let h = h_step br e ((op_history o')\<lparr>hi_calls := []\<rparr>) in
      fold OP_set (hi_calls h) (o'\<lparr>op_history := h\<rparr>))"

section \<open>The router follows the window\<close>

lemma F_location_window [simp]:
  "F_location (w\<lparr>wi_pending := x\<rparr>) = F_location w" "F_location (w\<lparr>wi_left := y\<rparr>) = F_location w"
  by (simp_all add: F_location_def wi_entry_def)

lemma hist_fields [simp]:
  "hi_window (h_notify d h) = hi_window h" "hi_listening (h_notify d h) = hi_listening h" "hi_v5 (h_notify d h) = hi_v5 h"
  "hi_index (h_notify d h) = hi_index h"
  "hi_window (S_pop h) = hi_window h" "hi_listening (S_pop h) = hi_listening h" "hi_v5 (S_pop h) = hi_v5 h"
  "hi_index (S_pop h) = O_index (hi_window h)"
  by (simp_all add: h_notify_def S_pop_def Let_def)

definition told :: "'st hist \<Rightarrow> 'st hist \<Rightarrow> bool" where
  "told h h' \<longleftrightarrow> hi_listening h' \<and> hi_v5 h' \<and>
     (hi_calls h' = [] \<and> F_location (hi_window h') = F_location (hi_window h) \<or>
      (\<exists>n. hi_calls h' = [n] \<and> no_location n = F_location (hi_window h')))"

lemmas h_defs = E_push_def w_replace_def C_go_def wi_traverse_def wi_fragment_def pop_event_def S_pop_def h_notify_def Let_def

lemma h_step_told:
  assumes "hi_listening h" "hi_v5 h" "hi_calls h = []"
  shows "told h (h_step br e h)"
proof (cases e)
  case (EPush R N fresh)
  then show ?thesis using assms by (auto simp: told_def h_defs split: sum.splits dom_error.splits)
next
  case (EReplace R N fresh)
  then show ?thesis using assms by (auto simp: told_def h_defs split: sum.splits)
next
  case (EGo d)
  then show ?thesis using assms by (simp add: told_def h_defs)
next
  case ETraverse
  then show ?thesis using assms by (auto simp: told_def h_defs split: list.splits)
next
  case (EFragment x)
  then show ?thesis using assms by (auto simp: told_def h_defs)
qed

lemma OP_history_fold [simp]: "op_history (fold OP_set ns o') = op_history o'"
  by (induction ns arbitrary: o') (simp_all add: OP_set_def)

lemma OP_history_step [simp]: "op_history (OP_step br e o') = h_step br e ((op_history o')\<lparr>hi_calls := []\<rparr>)"
  by (simp add: OP_step_def Let_def)

lemma OP_step_follows:
  assumes "hi_listening (op_history o')" "hi_v5 (op_history o')" "op_location o' = F_location (hi_window (op_history o'))"
  shows "let o2 = OP_step br e o' in
    hi_listening (op_history o2) \<and> hi_v5 (op_history o2) \<and> op_location o2 = F_location (hi_window (op_history o2))"
proof -
  let ?h = "(op_history o')\<lparr>hi_calls := []\<rparr>"
  have "told ?h (h_step br e ?h)" using assms by (intro h_step_told) auto
  then show ?thesis using assms by (auto simp: OP_step_def told_def OP_set_def Let_def)
qed

lemma OP_run_follows:
  "let o' = fold (OP_step br) es (OP_mount w) in
    hi_listening (op_history o') \<and> hi_v5 (op_history o') \<and> op_location o' = F_location (hi_window (op_history o'))"
proof (induction es rule: rev_induct)
  case Nil
  then show ?case by (simp add: OP_mount_def e7_create_def Let_def)
next
  case (snoc e es)
  then show ?case using OP_step_follows [of "fold (OP_step br) es (OP_mount w)" br e] by (simp add: Let_def)
qed

lemma loc_pathname_F [simp]: "loc_pathname (F_location w) = fp_pathname (en_url (wi_entry w))"
  by (simp add: F_location_def YR_createLocation_def to_path_def full_to_part_def Let_def)

section \<open>Distances\<close>

text \<open>Every entry carries its position, and the history object the position of the current entry.\<close>

definition indexed :: "'st hist \<Rightarrow> bool" where
  "indexed h \<longleftrightarrow>
     (let w = hi_window h in wi_cur w < length (wi_entries w) \<and> hi_index h = INum (int (wi_cur w)) \<and>
      (\<forall>k < length (wi_entries w). map_option hs_idx (en_state (wi_entries w ! k)) = Some (INum (int k))))"

lemma indexed_O: "indexed h \<Longrightarrow> O_index (hi_window h) = INum (int (wi_cur (hi_window h)))"
  by (auto simp: indexed_def O_index_def wi_entry_def Let_def)

text \<open>A push that the window accepts.\<close>

definition push_location :: "string \<Rightarrow> to_arg \<Rightarrow> 'st option \<Rightarrow> 'st hist \<Rightarrow> 'st location" where
  "push_location fresh R N h = YR_createLocation (loc_pathname (F_location (hi_window h))) R None N None fresh"

lemma push_location_fields [simp]:
  "loc_state (push_location fresh R N h) = N" "loc_key (push_location fresh R N h) = fresh"
  by (simp_all add: push_location_def YR_createLocation_def Let_def)

definition accepts :: "'st platform \<Rightarrow> full_path \<Rightarrow> full_path \<Rightarrow> 'st location \<Rightarrow> bool" where
  "accepts br cur u L \<longleftrightarrow> pf_resolve br cur (F_href L) = Some u \<and> (\<forall>k i. pf_clonable br \<lparr>hs_usr = loc_state L, hs_key = k, hs_idx = i\<rparr>)"

text \<open>
  Events that keep the entries numbered: no link to a fragment, which the window itself follows, and
  no push that the window refuses where it is made.  A run of them is undisturbed.
\<close>

fun undisturbed :: "'st platform \<Rightarrow> 'st hevent \<Rightarrow> 'st hist \<Rightarrow> bool" where
  "undisturbed br (EPush R N fresh) h \<longleftrightarrow>
     (\<exists>u. accepts br (en_url (wi_entry (hi_window h))) u (push_location fresh R N h))"
| "undisturbed br (EFragment x) h \<longleftrightarrow> False"
| "undisturbed br e h \<longleftrightarrow> True"

fun undisturbed_run :: "'st platform \<Rightarrow> 'st hevent list \<Rightarrow> 'st router \<Rightarrow> bool" where
  "undisturbed_run br [] o' \<longleftrightarrow> True"
| "undisturbed_run br (e # es) o' \<longleftrightarrow> undisturbed br e (op_history o') \<and> undisturbed_run br es (OP_step br e o')"

lemma undisturbed_run_snoc:
  "undisturbed_run br (es @ [e]) o' \<longleftrightarrow>
     undisturbed_run br es o' \<and> undisturbed br e (op_history (fold (OP_step br) es o'))"
  by (induction es arbitrary: o') auto

lemma undisturbed_calls [simp]: "undisturbed br e (h\<lparr>hi_calls := x\<rparr>) = undisturbed br e h"
  by (cases e) (simp_all add: push_location_def)

lemma E_push_accepted:
  assumes "accepts br (en_url (wi_entry (hi_window h))) u (push_location fresh R N h)"
  shows "hi_window (fst (E_push br fresh R N h)) =
      (hi_window h)\<lparr>wi_entries := take (Suc (wi_cur (hi_window h))) (wi_entries (hi_window h)) @
         [\<lparr>en_url = u, en_state = Some (P3_state (push_location fresh R N h) (idx_add (O_index (hi_window h)) 1))\<rparr>],
        wi_cur := Suc (wi_cur (hi_window h))\<rparr>"
    and "hi_index (fst (E_push br fresh R N h)) = idx_add (O_index (hi_window h)) 1"
    and "hi_listening (fst (E_push br fresh R N h)) = hi_listening h"
  using assms unfolding E_push_def Let_def push_location_def [symmetric] accepts_def
  by (simp_all add: pushState_def P3_state_def)

lemma E_push_indexed:
  assumes "indexed h" "undisturbed br (EPush R N fresh) h"
  shows "indexed (fst (E_push br fresh R N h))"
proof -
  let ?L = "push_location fresh R N h"
  obtain u where "accepts br (en_url (wi_entry (hi_window h))) u ?L" using assms(2) by auto
  from E_push_accepted [OF this] show ?thesis
    using assms(1) indexed_O [OF assms(1)]
    by (auto simp: P3_state_def idx_add_def idx_num_def indexed_def Let_def nth_append min_def less_Suc_eq)
qed

lemma w_replace_indexed:
  assumes "indexed h" shows "indexed (fst (w_replace br fresh R N h))"
  using assms indexed_O [OF assms(1)]
  by (auto simp: w_replace_def replaceState_def P3_state_def YR_createLocation_def indexed_def Let_def
      nth_list_update split: option.splits)

lemma wi_traverse_indexed:
  assumes "indexed h" "hi_listening h" shows "indexed (wi_traverse h)"
proof (cases "wi_pending (hi_window h)")
  case (Cons d ds)
  have "in_history (hi_window h) d \<Longrightarrow> nat (int (wi_cur (hi_window h)) + d) < length (wi_entries (hi_window h))"
    by (auto simp: in_history_def)
  moreover have "in_history (hi_window h) d \<Longrightarrow> 0 \<le> int (wi_cur (hi_window h)) + d" by (simp add: in_history_def)
  ultimately show ?thesis
    using assms Cons by (auto simp: wi_traverse_def pop_event_def indexed_def O_index_def wi_entry_def Let_def)
qed (use assms in \<open>simp add: wi_traverse_def Let_def\<close>)

lemma h_step_indexed:
  "indexed h \<Longrightarrow> hi_listening h \<Longrightarrow> undisturbed br e h \<Longrightarrow> indexed (h_step br e h)"
  by (cases e) (simp_all add: E_push_indexed w_replace_indexed wi_traverse_indexed, simp add: C_go_def indexed_def Let_def)

lemma OP_run_indexed:
  assumes "wi_entries w = [e]" "wi_cur w = 0" "idx_nullish (O_index w)" "undisturbed_run br es (OP_mount w)"
  shows "indexed (op_history (fold (OP_step br) es (OP_mount w)))"
  using assms(4)
proof (induction es rule: rev_induct)
  case Nil
  then show ?case
    using assms(1-3) by (auto simp: OP_mount_def e7_create_def e7_init_window_def indexed_def wi_entry_def Let_def split: option.splits)
next
  case (snoc x xs)
  let ?o = "fold (OP_step br) xs (OP_mount w)"
  have "indexed ((op_history ?o)\<lparr>hi_calls := []\<rparr>)" using snoc by (simp add: indexed_def undisturbed_run_snoc)
  then show ?case
    using h_step_indexed [of "(op_history ?o)\<lparr>hi_calls := []\<rparr>" br x] OP_run_follows [of br xs w] snoc.prems
    by (simp add: Let_def undisturbed_run_snoc)
qed

text \<open>
  C20. When the user or the program goes back or forward, the router is told how far.  In a window
  that starts at one entry whose state has no index, after a run of navigations without links to a
  fragment and in which the window refuses no push: a traversal by \<open>d\<close> entries within the history moves
  the current entry by \<open>d\<close> and calls the listener once, with the action POP, the location of the entry
  it reaches and the distance \<open>d\<close>.  (A refused push breaks it: \<open>refused_push_skews_delta\<close>.)
\<close>

theorem pop_delta_is_distance:
  assumes "wi_entries w = [e]" "wi_cur w = 0" "idx_nullish (O_index w)" "undisturbed_run br es (OP_mount w)"
    and "o' = fold (OP_step br) es (OP_mount w)" "wi_pending (hi_window (op_history o')) = d # ds"
    and "d \<noteq> 0" "in_history (hi_window (op_history o')) d"
  shows "let h = op_history (OP_step br ETraverse o') in
    int (wi_cur (hi_window h)) = int (wi_cur (hi_window (op_history o'))) + d \<and>
    hi_calls h = [\<lparr>no_action = POP, no_location = F_location (hi_window h), no_delta = INum d\<rparr>]"
proof -
  have i: "indexed (op_history o')" using OP_run_indexed [OF assms(1-4)] assms(5) by simp
  have l: "hi_listening (op_history o')" using OP_run_follows [of br es w] assms(5) by (simp add: Let_def)
  let ?k = "nat (int (wi_cur (hi_window (op_history o'))) + d)"
  have k: "?k < length (wi_entries (hi_window (op_history o')))" "0 \<le> int (wi_cur (hi_window (op_history o'))) + d"
    using assms(8) by (auto simp: in_history_def)
  then obtain s where s: "en_state (wi_entries (hi_window (op_history o')) ! ?k) = Some s" "hs_idx s = INum (int ?k)"
    using i by (auto simp: indexed_def Let_def)
  then show ?thesis
    using assms(6-8) l i k
    by (simp add: wi_traverse_def pop_event_def S_pop_def h_notify_def O_index_def wi_entry_def
        idx_nullish_def idx_sub_def idx_num_def indexed_def Let_def)
qed

definition demo_platform :: "nat platform" where
  "demo_platform = \<lparr>pf_clonable = (\<lambda>s. True),
     pf_resolve = (\<lambda>u href. let p = dv_parsePath href in
       Some \<lparr>fp_pathname = dflt (fp_pathname u) (pp_pathname p), fp_search = dflt [] (pp_search p), fp_hash = dflt [] (pp_hash p)\<rparr>)\<rparr>"

definition demo_window :: "nat window" where
  "demo_window = \<lparr>wi_entries = [\<lparr>en_url = \<lparr>fp_pathname = ''/ojs/admin'', fp_search = [], fp_hash = []\<rparr>, en_state = None\<rparr>],
     wi_cur = 0, wi_pending = [], wi_left = None\<rparr>"

definition demo_events :: "nat hevent list" where
  "demo_events = [EPush (ToStr ''/ojs/admin/jobs'') None ''k1'', EPush (ToStr ''/ojs/admin/queues'') None ''k2'', EGo (-2)]"

lemmas demo_defs = demo_platform_def demo_window_def demo_events_def

theorem pop_delta_is_distance_witness:
  "hi_calls (op_history (OP_step demo_platform ETraverse (fold (OP_step demo_platform) demo_events (OP_mount demo_window)))) =
     [\<lparr>no_action = POP, no_location = \<lparr>loc_pathname = ''/ojs/admin'', loc_search = [], loc_hash = [], loc_state = None, loc_key = ''default''\<rparr>,
       no_delta = INum (-2)\<rparr>]"
proof -
  let ?o = "fold (OP_step demo_platform) demo_events (OP_mount demo_window)"
  have "\<exists>u. accepts demo_platform v u L" for v L by (simp add: accepts_def demo_platform_def Let_def)
  then have u: "undisturbed_run demo_platform demo_events (OP_mount demo_window)" by (simp add: demo_events_def)
  have a: "wi_pending (hi_window (op_history ?o)) = [-2]" "in_history (hi_window (op_history ?o)) (-2)" by code_simp+
  have b: "F_location (hi_window (op_history (OP_step demo_platform ETraverse ?o))) =
      \<lparr>loc_pathname = ''/ojs/admin'', loc_search = [], loc_hash = [], loc_state = None, loc_key = ''default''\<rparr>" by code_simp
  have "let h = op_history (OP_step demo_platform ETraverse ?o) in
    int (wi_cur (hi_window h)) = int (wi_cur (hi_window (op_history ?o))) + - 2 \<and>
    hi_calls h = [\<lparr>no_action = POP, no_location = F_location (hi_window h), no_delta = INum (- 2)\<rparr>]"
    by (rule pop_delta_is_distance [OF _ _ _ u refl a(1) _ a(2)])
      (simp_all add: demo_defs O_index_def wi_entry_def idx_nullish_def Let_def)
  then show ?thesis unfolding Let_def b by (rule conjunct2)
qed

text \<open>A refused push leaves the index one too far: the next step back reports the distance 2.\<close>

lemma refused_push_skews_delta:
  "map no_delta (hi_calls (wi_traverse (C_go (-1)
     (fst (E_push (demo_platform\<lparr>pf_clonable := (\<lambda>s. hs_usr s = None)\<rparr>) ''k'' (ToStr ''/x'') (Some 0)
       ((op_history (fold (OP_step demo_platform) [EPush (ToStr ''/ojs/admin/jobs'') None ''k1''] (OP_mount demo_window)))\<lparr>hi_calls := []\<rparr>)))))) =
   [INum (-2)]"
  by code_simp

section \<open>Going back and navigating\<close>

lemma traverse_one:
  assumes "hi_listening h" "wi_pending (hi_window h) = []" "d \<noteq> 0" "in_history (hi_window h) d"
  shows "hi_window (wi_traverse (C_go d h)) = (hi_window h)\<lparr>wi_cur := nat (int (wi_cur (hi_window h)) + d)\<rparr>"
    and "hi_listening (wi_traverse (C_go d h))"
  using assms by (simp_all add: wi_traverse_def C_go_def pop_event_def in_history_def)

text \<open>
  C34. Going back undoes a push and going forward redoes it: after a push that the window accepts,
  one step back shows the location from before, and one step forward the location of the push, with
  the address the window resolved, the state that was passed and the fresh key.
\<close>

theorem back_and_forward:
  assumes "hi_listening h" "wi_pending (hi_window h) = []" "wi_cur (hi_window h) < length (wi_entries (hi_window h))"
    and "accepts br (en_url (wi_entry (hi_window h))) u (push_location fresh R N h)" "fresh \<noteq> []"
  shows "let h1 = fst (E_push br fresh R N h); h2 = wi_traverse (C_go (-1) h1); h3 = wi_traverse (C_go 1 h2) in
    F_location (hi_window h2) = F_location (hi_window h) \<and>
    F_location (hi_window h3) =
      \<lparr>loc_pathname = fp_pathname u, loc_search = fp_search u, loc_hash = fp_hash u, loc_state = N, loc_key = fresh\<rparr>"
proof -
  let ?w = "hi_window h"
  let ?e = "\<lparr>en_url = u, en_state = Some (P3_state (push_location fresh R N h) (idx_add (O_index ?w) 1))\<rparr>"
  let ?w1 = "?w\<lparr>wi_entries := take (Suc (wi_cur ?w)) (wi_entries ?w) @ [?e], wi_cur := Suc (wi_cur ?w)\<rparr>"
  define h1 where "h1 = fst (E_push br fresh R N h)"
  have w1: "hi_window h1 = ?w1" "hi_listening h1"
    using E_push_accepted [OF assms(4)] assms(1) by (simp_all add: h1_def)
  define h2 where "h2 = wi_traverse (C_go (-1) h1)"
  have w2: "hi_window h2 = ?w1\<lparr>wi_cur := wi_cur ?w\<rparr>" "hi_listening h2"
    using traverse_one [of h1 "-1"] w1 assms(2,3) by (simp_all add: h2_def in_history_def)
  have w3: "hi_window (wi_traverse (C_go 1 h2)) = ?w1"
    using traverse_one [of h2 1] w2 assms(2,3) by (simp add: in_history_def nat_add_distrib)
  have e: "wi_entry (?w1\<lparr>wi_cur := wi_cur ?w\<rparr>) = wi_entry ?w" "wi_entry ?w1 = ?e"
    using assms(3) by (simp_all add: wi_entry_def nth_append)
  have "F_location (?w1\<lparr>wi_cur := wi_cur ?w\<rparr>) = F_location ?w" unfolding F_location_def e by simp
  moreover have "F_location ?w1 =
      \<lparr>loc_pathname = fp_pathname u, loc_search = fp_search u, loc_hash = fp_hash u, loc_state = N, loc_key = fresh\<rparr>"
    using assms(5) unfolding F_location_def e
    by (simp add: YR_createLocation_def to_path_def full_to_part_def P3_state_def Let_def)
  ultimately show ?thesis using w2 w3 unfolding h2_def [symmetric] h1_def [symmetric] Let_def by simp
qed

definition demo_history :: "nat hist" where
  "demo_history = op_history (OP_mount demo_window)"

theorem back_and_forward_witness:
  "let h3 = wi_traverse (C_go 1 (wi_traverse (C_go (-1) (fst (E_push demo_platform ''k1'' (ToStr ''/ojs/admin/jobs?state=active'') (Some 7) demo_history))))) in
    F_location (hi_window h3) =
      \<lparr>loc_pathname = ''/ojs/admin/jobs'', loc_search = ''?state=active'', loc_hash = [], loc_state = Some 7, loc_key = ''k1''\<rparr>"
proof -
  have "hi_listening demo_history" "wi_pending (hi_window demo_history) = []"
    "wi_cur (hi_window demo_history) < length (wi_entries (hi_window demo_history))"
    by code_simp+
  moreover have "pf_resolve demo_platform (en_url (wi_entry (hi_window demo_history)))
      (F_href (push_location ''k1'' (ToStr ''/ojs/admin/jobs?state=active'') (Some 7) demo_history)) =
      Some \<lparr>fp_pathname = ''/ojs/admin/jobs'', fp_search = ''?state=active'', fp_hash = []\<rparr>"
    by code_simp
  then have "accepts demo_platform (en_url (wi_entry (hi_window demo_history)))
      \<lparr>fp_pathname = ''/ojs/admin/jobs'', fp_search = ''?state=active'', fp_hash = []\<rparr>
      (push_location ''k1'' (ToStr ''/ojs/admin/jobs?state=active'') (Some 7) demo_history)"
    by (simp add: accepts_def) (simp add: demo_platform_def)
  ultimately show ?thesis
    using back_and_forward [of demo_history demo_platform _ "''k1''" "ToStr ''/ojs/admin/jobs?state=active''" "Some 7"]
    by (simp add: Let_def)
qed

lemma h_step_cur:
  "wi_cur (hi_window h) < length (wi_entries (hi_window h)) \<Longrightarrow> wi_cur (hi_window (h_step br e h)) < length (wi_entries (hi_window (h_step br e h)))"
  by (cases e) (auto simp: h_defs pushState_def replaceState_def in_history_def split: sum.splits dom_error.splits list.splits option.splits if_splits)

lemma OP_run_cur:
  assumes "wi_cur w < length (wi_entries w)"
  shows "wi_cur (hi_window (op_history (fold (OP_step br) es (OP_mount w)))) <
    length (wi_entries (hi_window (op_history (fold (OP_step br) es (OP_mount w)))))"
proof (induction es rule: rev_induct)
  case Nil
  then show ?case using assms by (simp add: OP_mount_def e7_create_def e7_init_window_def Let_def)
next
  case (snoc e es)
  then show ?case by (simp add: h_step_cur)
qed

lemma w_replace_accepted:
  assumes "accepts br (en_url (wi_entry (hi_window h))) u (push_location fresh R N h)"
  shows "hi_window (fst (w_replace br fresh R N h)) =
      (hi_window h)\<lparr>wi_entries := (wi_entries (hi_window h))[wi_cur (hi_window h) :=
         \<lparr>en_url = u, en_state = Some (P3_state (push_location fresh R N h) (O_index (hi_window h)))\<rparr>]\<rparr>"
  using assms unfolding w_replace_def Let_def push_location_def [symmetric] accepts_def
  by (simp add: replaceState_def P3_state_def)

lemma one_leading_plain: "plain_basename b \<Longrightarrow> one_leading b = b"
  by (cases b; cases "tl b") (auto simp: plain_basename_def one_leading_def)

text \<open>
  C18. \<open>navigate\<close> gets there: at any moment of the life of the router, from an ordinary address, a
  target that resolves is pushed or replaces the current entry under the basename, and once the window
  has accepted it the router reads the path below the basename that the target resolved to.
\<close>

theorem navigate_reaches:
  fixes o' :: "'st router"
  assumes "o' = fold (OP_step br) es (OP_mount w)" "wi_cur w < length (wi_entries w)"
    and "dq_resolveTo t ms cur rel = Inr g" "list_all navigable ms" "navigable cur" "plain_basename b"
    and "\<forall>L. F_href L = Pb_createPath (full_to_part (g\<lparr>fp_pathname := D7_withBasename b (fp_pathname g)\<rparr>)) \<longrightarrow>
      accepts br (en_url (wi_entry (hi_window (op_history o')))) (g\<lparr>fp_pathname := D7_withBasename b (fp_pathname g)\<rparr>) (L :: 'st location)"
  shows "\<exists>c. z7_navigate True False b ms cur (NavTarget t) rel repl = Inr c \<and>
    J7_Router b (loc_pathname (op_location (fold (OP_step br) (nav_event st fresh c) o'))) = Some (fp_pathname g)"
proof -
  let ?g = "g\<lparr>fp_pathname := D7_withBasename b (fp_pathname g)\<rparr>"
  let ?h = "(op_history o')\<lparr>hi_calls := []\<rparr>"
  let ?R = "ToObj (full_to_part ?g)"
  have bn: "b \<noteq> ''/''" using assms(6) by (auto simp: plain_basename_def endsWith_single)
  have ol: "one_leading b = b" by (rule one_leading_plain [OF assms(6)])
  have c: "z7_navigate True False b ms cur (NavTarget t) rel repl = Inr (NavTo (if repl then NavReplace else NavPush) ?g)"
    using assms(3) bn by (simp add: z7_navigate_def bindR_def)
  have "F_href (push_location fresh ?R st ?h) = Pb_createPath (full_to_part ?g)"
    by (simp add: push_location_def F_href_def YR_createLocation_def to_path_def full_to_part_def Let_def)
  then have acc: "accepts br (en_url (wi_entry (hi_window ?h))) ?g (push_location fresh ?R st ?h)" using assms(7) by simp
  let ?o2 = "fold (OP_step br) (nav_event st fresh (NavTo (if repl then NavReplace else NavPush) ?g)) o'"
  have cur: "wi_cur (hi_window ?h) < length (wi_entries (hi_window ?h))" using OP_run_cur [OF assms(2)] assms(1) by simp
  have "en_url (wi_entry (hi_window (op_history ?o2))) = ?g"
    using E_push_accepted [OF acc] w_replace_accepted [OF acc] cur
    by (cases repl) (simp_all add: nav_event_def wi_entry_def nth_append)
  moreover have "op_location ?o2 = F_location (hi_window (op_history ?o2))"
    using OP_run_follows [of br "es @ nav_event st fresh (NavTo (if repl then NavReplace else NavPush) ?g)" w] assms(1)
    by (simp add: Let_def)
  ultimately have "loc_pathname (op_location ?o2) = D7_withBasename b (fp_pathname g)" by simp
  moreover have "rs_stripBasename (D7_withBasename b (fp_pathname g)) b = Some (fp_pathname g)"
    using strip_withBasename_id [of b] resolveTo_pathname_ok [OF assms(3-5)] assms(6) by (simp add: navigable_def)
  ultimately show ?thesis using c ol by (simp add: J7_Router_def)
qed

theorem navigate_reaches_witness:
  "\<exists>c. z7_navigate True False ''/ojs/admin'' [''/''] ''/jobs'' (NavTarget (ToStr ''queues'')) False False = Inr c \<and>
    J7_Router ''/ojs/admin'' (loc_pathname (op_location (fold (OP_step demo_platform) (nav_event None ''k'' c) (OP_mount demo_window)))) = Some ''/queues''"
proof -
  let ?g = "\<lparr>fp_pathname = ''/queues'', fp_search = [], fp_hash = []\<rparr>"
  have r: "dq_resolveTo (ToStr ''queues'') [''/''] ''/jobs'' False = Inr ?g" by code_simp
  have n: "list_all navigable [''/'']" "navigable ''/jobs''" "plain_basename ''/ojs/admin''"
    by (simp_all add: navigable_def plain_pathname_def clean_seg_def plain_basename_def endsWith_single)
  have p: "pf_resolve demo_platform (en_url (wi_entry (hi_window (op_history (OP_mount demo_window)))))
      (Pb_createPath (full_to_part (?g\<lparr>fp_pathname := D7_withBasename ''/ojs/admin'' (fp_pathname ?g)\<rparr>))) =
      Some (?g\<lparr>fp_pathname := D7_withBasename ''/ojs/admin'' (fp_pathname ?g)\<rparr>)"
    by code_simp
  have k: "pf_clonable demo_platform s" for s by (simp add: demo_platform_def)
  have "\<exists>c. z7_navigate True False ''/ojs/admin'' [''/''] ''/jobs'' (NavTarget (ToStr ''queues'')) False False = Inr c \<and>
    J7_Router ''/ojs/admin'' (loc_pathname (op_location (fold (OP_step demo_platform) (nav_event None ''k'' c) (OP_mount demo_window)))) =
      Some (fp_pathname ?g)"
    by (rule navigate_reaches [where es = "[]" and w = demo_window, OF _ _ r n])
      (use p k in \<open>auto simp: accepts_def demo_window_def\<close>)
  then show ?thesis by simp
qed

end
