(* ===== verification/React_Lanes.thy ===== *)
theory React_Lanes
  imports Complex_Main Js_Prelude "HOL-Library.Word"
begin

text \<open>
  The lane model of React's reconciler (\<open>src/internal/admin/dist/index-DxrWcVFD.js\<close>, the first block
  of react-dom): sets of priorities as 32-bit integers, the bookkeeping of a root (pending,
  suspended, pinged, warm, expired and entangled lanes) and the choice of the lanes to work on
  next.  JavaScript's bitwise operators work on signed 32-bit integers, so lanes are \<open>32 word\<close>
  and the comparisons are the signed ones.  Times are exact rationals, \<open>-1\<close> standing for none.
\<close>

unbundle bit_operations_syntax

type_synonym lanes = "32 word"

record root =
  pendingLanes :: lanes
  suspendedLanes :: lanes
  pingedLanes :: lanes
  warmLanes :: lanes
  expiredLanes :: lanes
  entangledLanes :: lanes
  errorRecoveryDisabledLanes :: lanes
  shellSuspendCounter :: int
  entanglements :: "lanes list"
  expirationTimes :: "rat list"
  hiddenUpdates :: "lanes option list option list"
  rtag :: int
  callbackPriority :: lanes

definition ai_createLaneMap :: "'a \<Rightarrow> 'a list" where
  "ai_createLaneMap l = replicate 31 l"

definition x0_root :: root where
  "x0_root = \<lparr>pendingLanes = 0, suspendedLanes = 0, pingedLanes = 0, warmLanes = 0, expiredLanes = 0,
     entangledLanes = 0, errorRecoveryDisabledLanes = 0, shellSuspendCounter = 0,
     entanglements = ai_createLaneMap 0, expirationTimes = ai_createLaneMap (-1),
     hiddenUpdates = ai_createLaneMap None, rtag = 1, callbackPriority = 0\<rparr>"

text \<open>\<open>31 - Math.clz32(l)\<close>: the index of the highest bit, \<open>-1\<close> for zero.\<close>

definition fr_clz32 :: "lanes \<Rightarrow> nat" where
  "fr_clz32 l = (case find (\<lambda>i. bit l i) (rev [0 ..< 32]) of None \<Rightarrow> 32 | Some i \<Rightarrow> 31 - i)"

definition top_lane :: "lanes \<Rightarrow> nat" where
  "top_lane l = 31 - fr_clz32 l"

abbreviation lowest :: "lanes \<Rightarrow> lanes" where
  "lowest l \<equiv> l AND - l"

definition it_getHighestPriorityLanes :: "lanes \<Rightarrow> lanes" where
  "it_getHighestPriorityLanes l =
     (let o1 = l AND 42; k = lowest l in
      if o1 \<noteq> 0 then o1
      else if k \<in> {1, 2, 4, 8, 16, 32, 64, 128} then k
      else if k \<in> {256, 512, 1024, 2048, 4096, 8192, 16384, 32768, 65536, 131072} then l AND 261888
      else if k \<in> {262144, 524288, 1048576, 2097152} then l AND 3932160
      else if k \<in> {4194304, 8388608, 16777216, 33554432} then l AND 62914560
      else if k \<in> {67108864, 134217728, 268435456, 536870912} then k
      else if k = 1073741824 then 0
      else l)"

text \<open>\<open>o\<close> are the lanes being rendered, \<open>f\<close> says that the root has a pending commit.\<close>

definition Je_chosen :: "root \<Rightarrow> bool \<Rightarrow> lanes" where
  "Je_chosen l f =
     (let p = pendingLanes l; sus = suspendedLanes l; j = pingedLanes l; w = warmLanes l; Y = p AND 134217727 in
      if Y \<noteq> 0 then
        (if Y AND NOT sus \<noteq> 0 then it_getHighestPriorityLanes (Y AND NOT sus)
         else if j AND Y \<noteq> 0 then it_getHighestPriorityLanes (j AND Y)
         else if \<not> f \<and> Y AND NOT w \<noteq> 0 then it_getHighestPriorityLanes (Y AND NOT w)
         else 0)
      else
        (if p AND NOT sus \<noteq> 0 then it_getHighestPriorityLanes (p AND NOT sus)
         else if j \<noteq> 0 then it_getHighestPriorityLanes j
         else if \<not> f \<and> p AND NOT w \<noteq> 0 then it_getHighestPriorityLanes (p AND NOT w)
         else 0))"

definition Je_getNextLanes :: "root \<Rightarrow> lanes \<Rightarrow> bool \<Rightarrow> lanes" where
  "Je_getNextLanes l o1 f =
     (if pendingLanes l = 0 then 0
      else let x = Je_chosen l f in
        if x = 0 then 0
        else if o1 \<noteq> 0 \<and> o1 \<noteq> x \<and> o1 AND suspendedLanes l = 0 \<and>
          (lowest o1 \<le>s lowest x \<or> lowest x = 32 \<and> lowest o1 AND 4194048 \<noteq> 0) then o1
        else x)"

definition Tt_checkIfRootIsPrerendering :: "root \<Rightarrow> lanes \<Rightarrow> bool" where
  "Tt_checkIfRootIsPrerendering l o1 \<longleftrightarrow>
     pendingLanes l AND NOT (suspendedLanes l AND NOT (pingedLanes l)) AND o1 = 0"

definition yt_computeExpirationTime :: "lanes \<Rightarrow> rat \<Rightarrow> rat" where
  "yt_computeExpirationTime l t =
     (if l \<in> {1, 2, 4, 8, 64} then t + 250
      else if l \<in> {16, 32, 128, 256, 512, 1024, 2048, 4096, 8192, 16384, 32768, 65536, 131072,
        262144, 524288, 1048576, 2097152} then t + 5000
      else -1)"

text \<open>The module variables \<open>Ze\<close> and \<open>Be\<close> hold the next retry lane and the next transition lane.\<close>

definition Pr_claimNextRetryLane :: "lanes \<Rightarrow> lanes \<times> lanes" where
  "Pr_claimNextRetryLane Ze = (let Z = push_bit 1 Ze in (Ze, if Z AND 62914560 = 0 then 4194304 else Z))"

text \<open>
  The lane of a transition: the next one is claimed, once per event (\<open>Tu\<close>) unless an asynchronous
  action has entangled one (\<open>no\<close>).
\<close>

definition Ny_claimTransitionLane :: "lanes \<Rightarrow> lanes \<times> lanes" where
  "Ny_claimTransitionLane Be = (let B = push_bit 1 Be in (Be, if B AND 261888 = 0 then 256 else B))"

text \<open>\<open>Ny\<close> gives the lane with the new \<open>Tu\<close> and \<open>Be\<close>.\<close>

definition Ny_requestTransitionLane :: "lanes \<Rightarrow> lanes \<Rightarrow> lanes \<Rightarrow> lanes \<times> lanes \<times> lanes" where
  "Ny_requestTransitionLane Tu no Be =
     (if Tu = 0 then
        (if no = 0 then let (l, B) = Ny_claimTransitionLane Be in (l, l, B) else (no, no, Be))
      else (Tu, Tu, Be))"

text \<open>Within an event all transitions get one lane.\<close>

lemma transition_lane_kept:
  assumes "Ny_requestTransitionLane Tu no Be = (l, Tu', Be')" "Be \<noteq> 0"
  shows "Ny_requestTransitionLane Tu' no' Be' = (l, Tu', Be')"
  using assms by (auto simp: Ny_requestTransitionLane_def Ny_claimTransitionLane_def Let_def split: if_splits)

definition Gu_markRootUpdated :: "root \<Rightarrow> lanes \<Rightarrow> root" where
  "Gu_markRootUpdated l o1 = (let l = l\<lparr>pendingLanes := pendingLanes l OR o1\<rparr> in
     if o1 \<noteq> 268435456 then l\<lparr>suspendedLanes := 0, pingedLanes := 0, warmLanes := 0\<rparr> else l)"

definition id_markSpawnedDeferredLane :: "root \<Rightarrow> lanes \<Rightarrow> lanes \<Rightarrow> root" where
  "id_markSpawnedDeferredLane l o1 f =
     (let p = top_lane o1 in
      l\<lparr>pendingLanes := pendingLanes l OR o1, suspendedLanes := suspendedLanes l AND NOT o1,
        entangledLanes := entangledLanes l OR o1,
        entanglements := (entanglements l)[p := entanglements l ! p OR 1073741824 OR (f AND 261930)]\<rparr>)"

section \<open>Loops over the lanes of a set\<close>

lemma find_top:
  "find P (rev [0 ..< n]) = Some i \<longleftrightarrow> i < n \<and> P i \<and> (\<forall>j. i < j \<and> j < n \<longrightarrow> \<not> P j)"
  by (induction n) (auto simp: less_Suc_eq dest: not_less_less_Suc_eq)

lemma find_top_None: "find P (rev [0 ..< n]) = None \<longleftrightarrow> (\<forall>j < n. \<not> P j)"
  by (auto simp: find_None_iff)

lemma top_lane_bit:
  assumes "l \<noteq> (0 :: lanes)"
  shows "bit l (top_lane l)" and "top_lane l < 32" and "\<And>j. top_lane l < j \<Longrightarrow> \<not> bit l j"
proof -
  have "\<exists>i < 32. bit l i"
    using assms bit_imp_le_length [of l] by (auto simp: bit_eq_iff)
  then obtain i where i: "find (\<lambda>i. bit l i) (rev [0 ..< 32]) = Some i"
    using find_top_None [of "\<lambda>i. bit l i" 32] by (cases "find (\<lambda>i. bit l i) (rev [0 ..< 32])") auto
  then have "i < 32" "bit l i" "\<forall>j. i < j \<and> j < 32 \<longrightarrow> \<not> bit l j"
    unfolding find_top by auto
  moreover have "top_lane l = i" using i \<open>i < 32\<close> by (simp add: top_lane_def fr_clz32_def)
  ultimately show "bit l (top_lane l)" "top_lane l < 32" "\<And>j. top_lane l < j \<Longrightarrow> \<not> bit l j"
    using bit_imp_le_length [of l] by auto
qed

text \<open>\<open>1 << n\<close>.\<close>

abbreviation lane :: "nat \<Rightarrow> lanes" where
  "lane n \<equiv> 2 ^ n"

definition lane_bits :: "lanes \<Rightarrow> nat set" where
  "lane_bits l = {i. i < 32 \<and> bit l i}"

lemma bit_clear_top: "bit (l AND NOT (lane n)) i \<longleftrightarrow> bit l i \<and> i \<noteq> n" for l :: lanes
  using bit_imp_le_length [of l i] by (auto simp: bit_simps)

lemma clear_top_less:
  assumes "l \<noteq> (0 :: lanes)"
  shows "card (lane_bits (l AND NOT (lane (top_lane l)))) < card (lane_bits l)"
proof -
  have "lane_bits (l AND NOT (lane (top_lane l))) = lane_bits l - {top_lane l}"
    by (auto simp: lane_bits_def bit_clear_top)
  moreover have "top_lane l \<in> lane_bits l" using top_lane_bit [OF assms] by (simp add: lane_bits_def)
  moreover have "finite (lane_bits l)" by (simp add: lane_bits_def)
  ultimately show ?thesis using card_Diff1_less by metis
qed

text \<open>
  The loops over the lanes of a set take the highest lane, run their body on its index and remove
  it, while the set is not zero or, in the signed form, greater than zero.
\<close>

function lane_loop :: "bool \<Rightarrow> (nat \<Rightarrow> 's \<Rightarrow> 's) \<Rightarrow> lanes \<Rightarrow> 's \<Rightarrow> 's" where
  "lane_loop sg body f s =
     (if f \<noteq> 0 \<and> (sg \<longrightarrow> 0 <s f)
      then let Ce = top_lane f in lane_loop sg body (f AND NOT (lane Ce)) (body Ce s) else s)"
  by pat_completeness auto
termination
  by (relation "measure (\<lambda>(sg, body, f, s). card (lane_bits f))") (auto intro: clear_top_less)

declare lane_loop.simps [simp del]

definition lane_list :: "lanes \<Rightarrow> nat list" where
  "lane_list f = rev (filter (bit f) [0 ..< 32])"

lemma lane_list_0 [simp]: "lane_list 0 = []"
  by (simp add: lane_list_def)

lemma set_lane_list [simp]: "set (lane_list f) = {i. bit f i}"
  using bit_imp_le_length [of f] by (auto simp: lane_list_def)

lemma distinct_lane_list [simp]: "distinct (lane_list f)"
  by (simp add: lane_list_def)

lemma lane_list_top:
  assumes "f \<noteq> 0"
  shows "lane_list f = top_lane f # lane_list (f AND NOT (lane (top_lane f)))"
proof -
  define k where "k = top_lane f"
  have k: "bit f k" "k < 32" "\<And>j. k < j \<Longrightarrow> \<not> bit f j" using top_lane_bit [OF assms] by (simp_all add: k_def)
  have u: "[0 ..< 32] = [0 ..< k] @ k # [Suc k ..< 32]"
    using k(2) by (metis less_imp_le_nat upt_conv_Cons upt_add_eq_append le_add_diff_inverse zero_le)
  have "filter (bit f) [0 ..< 32] = filter (bit f) [0 ..< k] @ [k]"
    unfolding u using k by (auto simp: filter_empty_conv)
  moreover have "filter (bit (f AND NOT (lane k))) [0 ..< 32] = filter (bit f) [0 ..< k]"
    unfolding u using k by (auto simp: bit_clear_top filter_empty_conv intro!: filter_cong)
  ultimately show ?thesis by (simp add: lane_list_def k_def)
qed

lemma sless_0_iff: "0 <s f \<longleftrightarrow> f \<noteq> 0 \<and> \<not> bit f 31" for f :: lanes
proof -
  have "bit f 31 \<longleftrightarrow> sint f < 0" using bit_last_iff [of f] by simp
  moreover have "sint f = 0 \<longleftrightarrow> f = 0" by (fact signed_eq_0_iff)
  ultimately show ?thesis by (auto simp: word_sless_alt)
qed

lemma lane_loop_fold:
  assumes "sg \<longrightarrow> \<not> bit f 31"
  shows "lane_loop sg body f s = fold body (lane_list f) s"
  using assms
proof (induction "card (lane_bits f)" arbitrary: f s rule: less_induct)
  case less
  show ?case
  proof (cases "f = 0")
    case True
    then show ?thesis by (simp add: lane_loop.simps)
  next
    case False
    then have g: "f \<noteq> 0 \<and> (sg \<longrightarrow> 0 <s f)" using less.prems by (simp add: sless_0_iff)
    have "lane_loop sg body (f AND NOT (lane (top_lane f))) (body (top_lane f) s) =
        fold body (lane_list (f AND NOT (lane (top_lane f)))) (body (top_lane f) s)"
      using less.prems by (intro less.hyps clear_top_less False) (simp add: bit_clear_top)
    then show ?thesis
      by (subst lane_loop.simps) (simp add: g Let_def lane_list_top [OF False])
  qed
qed

text \<open>A loop that updates one entry per lane updates exactly the entries of the lanes.\<close>

lemma fold_update:
  assumes "distinct is"
  shows "length (fold (\<lambda>i xs. xs[i := h i (xs ! i)]) is xs) = length xs \<and>
     (\<forall>k < length xs. fold (\<lambda>i xs. xs[i := h i (xs ! i)]) is xs ! k = (if k \<in> set is then h k (xs ! k) else xs ! k))"
  using assms
proof (induction "is" arbitrary: xs)
  case (Cons i "is")
  then show ?case by (auto simp: nth_list_update) (metis nth_list_update_neq)
qed simp

section \<open>The operations with loops\<close>

text \<open>The updates hidden in an offscreen tree lose the offscreen lane: \<open>Te.lane &= -536870913\<close>.\<close>

definition clear_hidden :: "lanes option list option \<Rightarrow> lanes option list" where
  "clear_hidden xe = (case xe of None \<Rightarrow> [] | Some us \<Rightarrow> map (map_option (\<lambda>x. x AND - 536870913)) us)"

text \<open>
  \<open>markRootFinished\<close>.  The second component collects the update objects of the finished lanes with
  their new lanes: they are shared with the fibres, the root only drops its reference.
\<close>

definition ps_body :: "nat \<Rightarrow> root \<times> lanes option list \<Rightarrow> root \<times> lanes option list" where
  "ps_body Ce = (\<lambda>(l, us). (l\<lparr>entanglements := (entanglements l)[Ce := 0],
       expirationTimes := (expirationTimes l)[Ce := -1],
       hiddenUpdates := (hiddenUpdates l)[Ce := None]\<rparr>, us @ clear_hidden (hiddenUpdates l ! Ce)))"

definition ps_markRootFinished :: "root \<Rightarrow> lanes \<Rightarrow> lanes \<Rightarrow> lanes \<Rightarrow> lanes \<Rightarrow> lanes \<Rightarrow> root \<times> lanes option list" where
  "ps_markRootFinished l o1 f p x y =
     (let j = pendingLanes l;
          l = l\<lparr>pendingLanes := f, suspendedLanes := 0, pingedLanes := 0, warmLanes := 0,
                expiredLanes := expiredLanes l AND f, entangledLanes := entangledLanes l AND f,
                errorRecoveryDisabledLanes := errorRecoveryDisabledLanes l AND f, shellSuspendCounter := 0\<rparr>;
          (l, us) = lane_loop True ps_body (j AND NOT f) (l, []);
          l = (if p \<noteq> 0 then id_markSpawnedDeferredLane l p 0 else l) in
      (if y \<noteq> 0 \<and> x = 0 \<and> rtag l \<noteq> 0
       then l\<lparr>suspendedLanes := suspendedLanes l OR (y AND NOT (j AND NOT o1))\<rparr> else l, us))"

definition ll_markRootEntangled :: "root \<Rightarrow> lanes \<Rightarrow> root" where
  "ll_markRootEntangled l o1 =
     (let f = entangledLanes l OR o1 in
      l\<lparr>entangledLanes := f, entanglements :=
        lane_loop False (\<lambda>p e. if (lane p AND o1) OR (e ! p AND o1) \<noteq> 0 then e[p := e ! p OR o1] else e)
          f (entanglements l)\<rparr>)"

definition fp_getBumpedLane :: "lanes \<Rightarrow> lanes" where
  "fp_getBumpedLane l =
     (if l = 2 then 1 else if l = 8 then 4 else if l = 32 then 16
      else if l \<in> {256, 512, 1024, 2048, 4096, 8192, 16384, 32768, 65536, 131072, 262144, 524288,
        1048576, 2097152, 4194304, 8388608, 16777216, 33554432} then 128
      else if l = 268435456 then 134217728 else 0)"

definition ja_getBumpedLaneForHydration :: "root \<Rightarrow> lanes \<Rightarrow> lanes" where
  "ja_getBumpedLaneForHydration l o1 =
     (let f = lowest o1; f = (if f AND 42 \<noteq> 0 then 1 else fp_getBumpedLane f) in
      if f AND (suspendedLanes l OR o1) \<noteq> 0 then 0 else f)"

definition Ov_lanesToEventPriority :: "lanes \<Rightarrow> lanes" where
  "Ov_lanesToEventPriority l = (let l = lowest l in
     if 2 <s l then if 8 <s l then if l AND 134217727 \<noteq> 0 then 32 else 268435456 else 8 else 2)"

text \<open>\<open>Ay\<close> and \<open>_c\<close> are the pinged and the interleaved lanes of the render in progress.\<close>

definition Au_markRootSuspended :: "lanes \<Rightarrow> lanes \<Rightarrow> root \<Rightarrow> lanes \<Rightarrow> lanes \<Rightarrow> bool \<Rightarrow> root" where
  "Au_markRootSuspended Ay c1 l o0 f p =
     (let o1 = o0 AND NOT Ay AND NOT c1;
          l = l\<lparr>suspendedLanes := suspendedLanes l OR o1, pingedLanes := pingedLanes l AND NOT o1,
                warmLanes := if p then warmLanes l OR o1 else warmLanes l\<rparr>;
          l = l\<lparr>expirationTimes := lane_loop True (\<lambda>i e. e[i := -1]) o1 (expirationTimes l)\<rparr> in
      if f \<noteq> 0 then id_markSpawnedDeferredLane l f o1 else l)"

definition Jg_pingRoot :: "root \<Rightarrow> lanes \<Rightarrow> root" where
  "Jg_pingRoot l f = l\<lparr>pingedLanes := pingedLanes l OR (suspendedLanes l AND f), warmLanes := warmLanes l AND NOT f\<rparr>"

text \<open>The first loop of \<open>t0\<close>: a lane gets its expiration time, or has passed it.\<close>

definition t0_body :: "rat \<Rightarrow> nat \<Rightarrow> root \<Rightarrow> root" where
  "t0_body t j l =
     (let Y = lane j; te = expirationTimes l ! j in
      if te = -1 then
        (if Y AND suspendedLanes l = 0 \<or> Y AND pingedLanes l \<noteq> 0
         then l\<lparr>expirationTimes := (expirationTimes l)[j := yt_computeExpirationTime Y t]\<rparr> else l)
      else if te \<le> t then l\<lparr>expiredLanes := expiredLanes l OR Y\<rparr> else l)"

definition t0_markStarvedLanesAsExpired :: "root \<Rightarrow> rat \<Rightarrow> root" where
  "t0_markStarvedLanesAsExpired l t = lane_loop True (t0_body t) (pendingLanes l AND - 62914561) l"

section \<open>The lowest lane\<close>

lemma odd_and_minus: "odd m \<Longrightarrow> m AND - m = 1" for m :: lanes
proof -
  assume m: "odd m"
  have "m - 1 = m AND NOT 1"
    using m by (intro disjunctive_diff) (auto simp: bit_simps bit_0)
  with minus_eq_not_minus_1 [of m] have "- m = NOT (m AND NOT 1)" by (simp only:)
  then have "m AND - m = m AND 1" by (auto simp: bit_eq_iff bit_simps)
  also have "\<dots> = 1" using m by (simp add: and_one_eq odd_iff_mod_2_eq_one)
  finally show ?thesis .
qed

lemma low_bit_ex:
  assumes "l \<noteq> (0 :: lanes)"
  obtains k m where "k < 32" "bit l k" "\<forall>j < k. \<not> bit l j" "l = push_bit k m" "odd m"
proof -
  have "\<exists>i. bit l i" using assms by (auto simp: bit_eq_iff)
  define k where "k = (LEAST i. bit l i)"
  have k: "bit l k" unfolding k_def using \<open>\<exists>i. bit l i\<close> by (rule LeastI_ex)
  have low: "\<forall>j < k. \<not> bit l j" unfolding k_def using not_less_Least by blast
  have "l = push_bit k (drop_bit k l)"
  proof (rule bit_word_eqI)
    show "bit l n = bit (push_bit k (drop_bit k l)) n" if "n < LENGTH(32)" for n
      using low that by (cases "n < k") (auto simp: bit_simps)
  qed
  moreover have "odd (drop_bit k l)" using k by (simp add: bit_iff_odd_drop_bit)
  moreover have "k < 32" using bit_imp_le_length [OF k] by simp
  ultimately show ?thesis using k low by (intro that)
qed

lemma lowest_lane:
  assumes "l \<noteq> (0 :: lanes)"
  obtains k where "k < 32" "bit l k" "\<forall>j < k. \<not> bit l j" "lowest l = lane k"
proof -
  obtain k m where k: "k < 32" "bit l k" "\<forall>j < k. \<not> bit l j" "l = push_bit k m" "odd m"
    using assms by (rule low_bit_ex)
  have "lowest l = push_bit k (m AND - m)"
    by (simp only: k(4) push_bit_minus [symmetric] push_bit_and)
  also have "\<dots> = lane k" by (simp add: odd_and_minus [OF k(5)])
  finally show ?thesis using k that by blast
qed

text \<open>A set of lanes is a subset of another.\<close>

definition sub_lanes :: "lanes \<Rightarrow> lanes \<Rightarrow> bool" where
  "sub_lanes a b \<longleftrightarrow> a AND NOT b = 0"

lemma sub_lanes_bits: "sub_lanes a b \<longleftrightarrow> (\<forall>i. bit a i \<longrightarrow> bit b i)"
  using bit_imp_le_length [of a] by (auto simp: sub_lanes_def bit_eq_iff bit_simps)

lemma sub_lanes_and [simp]: "sub_lanes (a AND b) a" "sub_lanes (a AND b) b" "sub_lanes a a" "sub_lanes 0 a"
  by (auto simp: sub_lanes_bits bit_simps)

lemma sub_lanes_trans: "sub_lanes a b \<Longrightarrow> sub_lanes b c \<Longrightarrow> sub_lanes a c"
  by (simp add: sub_lanes_bits)

lemma it_sub: "sub_lanes (it_getHighestPriorityLanes l) l"
  by (simp add: it_getHighestPriorityLanes_def Let_def)



text \<open>The groups of lanes by index.\<close>

lemma lane_inj: "i < 32 \<Longrightarrow> j < 32 \<Longrightarrow> lane i = lane j \<longleftrightarrow> i = j"
proof -
  assume a: "i < 32" "j < 32"
  have "bit (lane i) j \<longleftrightarrow> i = j" using a by (auto simp: bit_simps)
  moreover have "bit (lane j) j" using a by (auto simp: bit_simps)
  ultimately show ?thesis by metis
qed

lemma in_lanes: "k < 32 \<Longrightarrow> \<forall>j \<in> set js. j < 32 \<Longrightarrow> lane k \<in> set (map (\<lambda>j. 2 ^ j) js) \<longleftrightarrow> k \<in> set js"
  by (auto simp: lane_inj)

lemma bit_mask_range: "n + m \<le> 32 \<Longrightarrow> bit (push_bit n (mask m) :: lanes) k \<longleftrightarrow> n \<le> k \<and> k < n + m"
  by (auto simp: bit_simps)

lemma lane_group_1: "k < 32 \<Longrightarrow> (2 ^ k \<in> {1, 2, 4, 8, 16, 32, 64, 128 :: lanes}) = (k < 8)"
  using in_lanes [of k "[0 ..< 8]"] by (simp add: upt_rec) arith

lemma lane_group_2: "k < 32 \<Longrightarrow> (2 ^ k \<in> {256, 512, 1024, 2048, 4096, 8192, 16384, 32768, 65536, 131072 :: lanes}) = (8 \<le> k \<and> k < 18)"
  using in_lanes [of k "[8 ..< 18]"] by (simp add: upt_rec) arith

lemma lane_group_3: "k < 32 \<Longrightarrow> (2 ^ k \<in> {262144, 524288, 1048576, 2097152 :: lanes}) = (18 \<le> k \<and> k < 22)"
  using in_lanes [of k "[18 ..< 22]"] by (simp add: upt_rec) arith

lemma lane_group_4: "k < 32 \<Longrightarrow> (2 ^ k \<in> {4194304, 8388608, 16777216, 33554432 :: lanes}) = (22 \<le> k \<and> k < 26)"
  using in_lanes [of k "[22 ..< 26]"] by (simp add: upt_rec) arith

lemma lane_group_5: "k < 32 \<Longrightarrow> (2 ^ k \<in> {67108864, 134217728, 268435456, 536870912 :: lanes}) = (26 \<le> k \<and> k < 30)"
  using in_lanes [of k "[26 ..< 30]"] by (simp add: upt_rec) arith

lemma bit_261888: "bit (261888 :: lanes) k = (8 \<le> k \<and> k < 18)"
  using bit_mask_range [of 8 10 k] by (simp add: mask_eq_exp_minus_1 push_bit_eq_mult)

lemma bit_3932160: "bit (3932160 :: lanes) k = (18 \<le> k \<and> k < 22)"
  using bit_mask_range [of 18 4 k] by (simp add: mask_eq_exp_minus_1 push_bit_eq_mult)

lemma bit_62914560: "bit (62914560 :: lanes) k = (22 \<le> k \<and> k < 26)"
  using bit_mask_range [of 22 4 k] by (simp add: mask_eq_exp_minus_1 push_bit_eq_mult)

lemma bit_134217727: "bit (134217727 :: lanes) k = (k < 27)"
  using bit_mask_range [of 0 27 k] by (simp add: mask_eq_exp_minus_1)

lemma and_lane: "bit l k \<Longrightarrow> bit c k \<Longrightarrow> l AND c \<noteq> 0" for l c :: lanes
  by (metis bit_0_eq bit_and_iff bot_apply bot_bool_def)

lemma lane_not_0 [simp]: "k < 32 \<Longrightarrow> lane k \<noteq> 0"
  using and_lane [of "lane k" k "lane k"] by (auto simp: bit_simps)

text \<open>The only non-empty set no lane of which is ever chosen is one without any lane below \<open>2^30\<close>.\<close>

lemma cascade:
  "(if p0 then x0 else if p1 then x1 else if p2 then x2 else if p3 then x3 else if p4 then x4
    else if p5 then x5 else if p6 then 0 else l) = (0 :: lanes) \<Longrightarrow>
   (p0 \<Longrightarrow> x0 \<noteq> 0) \<Longrightarrow> (p1 \<Longrightarrow> x1 \<noteq> 0) \<Longrightarrow> (p2 \<Longrightarrow> x2 \<noteq> 0) \<Longrightarrow> (p3 \<Longrightarrow> x3 \<noteq> 0) \<Longrightarrow> (p4 \<Longrightarrow> x4 \<noteq> 0) \<Longrightarrow>
   (p5 \<Longrightarrow> x5 \<noteq> 0) \<Longrightarrow> l \<noteq> 0 \<Longrightarrow> p6"
  by (cases p0, simp, cases p1, simp, cases p2, simp, cases p3, simp, cases p4, simp, cases p5, simp, cases p6, simp, simp)

lemma it_zero:
  assumes "it_getHighestPriorityLanes l = 0" and "l \<noteq> 0"
  shows "lowest l = 1073741824"
proof -
  obtain k where k: "k < 32" "bit l k" "lowest l = lane k" using lowest_lane [OF assms(2)] by metis
  note n = and_lane [OF k(2)]
  have "8 \<le> k \<and> k < 18 \<Longrightarrow> l AND 261888 \<noteq> 0" "18 \<le> k \<and> k < 22 \<Longrightarrow> l AND 3932160 \<noteq> 0"
    "22 \<le> k \<and> k < 26 \<Longrightarrow> l AND 62914560 \<noteq> 0"
    using n bit_261888 bit_3932160 bit_62914560 by blast+
  then have "lane k = 1073741824"
    using assms lane_not_0 [OF k(1)]
    unfolding it_getHighestPriorityLanes_def Let_def k(3) lane_group_1 [OF k(1)] lane_group_2 [OF k(1)]
      lane_group_3 [OF k(1)] lane_group_4 [OF k(1)] lane_group_5 [OF k(1)]
    by (elim cascade)
  then show ?thesis by (simp only: k(3))
qed

section \<open>The lanes to work on\<close>

lemma it_nonzero:
  assumes "bit l k" and "k < 30"
  shows "it_getHighestPriorityLanes l \<noteq> 0"
proof
  assume z: "it_getHighestPriorityLanes l = 0"
  have ne: "l \<noteq> 0" using assms(1) by auto
  obtain m where m: "m < 32" "\<forall>j < m. \<not> bit l j" "lowest l = lane m" using lowest_lane [OF ne] by metis
  have "lane m = 1073741824" using it_zero [OF z ne] m(3) by simp
  then have "m = 30" using lane_inj [OF m(1), of 30] by simp
  then show False using m(2) assms by auto
qed

text \<open>
  As long as a lane that is not idle is pending and not suspended, the root has work:
  \<open>getNextLanes\<close> returns a set of pending lanes that are not suspended, it is not empty, and it
  contains no idle lane.
\<close>

theorem getNextLanes_progress:
  assumes "bit (pendingLanes l) k" and "\<not> bit (suspendedLanes l) k" and "k < 27"
  shows "Je_getNextLanes l 0 f \<noteq> 0 \<and>
    sub_lanes (Je_getNextLanes l 0 f) (pendingLanes l AND NOT (suspendedLanes l) AND 134217727)"
proof -
  define Y where "Y = (pendingLanes l AND 134217727) AND NOT (suspendedLanes l)"
  have k: "bit (134217727 :: lanes) k" using assms(3) by (simp only: bit_134217727)
  then have "bit Y k" using assms by (simp add: Y_def bit_simps)
  then have ne: "Y \<noteq> 0" "pendingLanes l AND 134217727 \<noteq> 0" "pendingLanes l \<noteq> 0"
    using and_lane [OF assms(1) k] assms(1) by auto
  have c: "Je_chosen l f = it_getHighestPriorityLanes Y"
    using ne by (simp add: Je_chosen_def Let_def Y_def)
  have nz: "it_getHighestPriorityLanes Y \<noteq> 0" using it_nonzero [OF \<open>bit Y k\<close>] assms(3) by simp
  then have r: "Je_getNextLanes l 0 f = it_getHighestPriorityLanes Y"
    using ne by (simp add: Je_getNextLanes_def Let_def c)
  have "sub_lanes Y (pendingLanes l AND NOT (suspendedLanes l) AND 134217727)"
    by (simp add: Y_def sub_lanes_bits bit_simps)
  then show ?thesis using r nz it_sub [of Y] sub_lanes_trans by auto
qed

theorem getNextLanes_progress_witness:
  "Je_getNextLanes (x0_root\<lparr>pendingLanes := 268435488, suspendedLanes := 0\<rparr>) 0 False \<noteq> 0 \<and>
   sub_lanes (Je_getNextLanes (x0_root\<lparr>pendingLanes := 268435488, suspendedLanes := 0\<rparr>) 0 False)
     (pendingLanes (x0_root\<lparr>pendingLanes := 268435488, suspendedLanes := 0\<rparr>) AND
      NOT (suspendedLanes (x0_root\<lparr>pendingLanes := 268435488, suspendedLanes := 0\<rparr>)) AND 134217727)"
proof (rule getNextLanes_progress [where k = 5])
  show "bit (pendingLanes (x0_root\<lparr>pendingLanes := 268435488, suspendedLanes := 0\<rparr>)) 5" by code_simp
qed simp_all

section \<open>Finished, suspended and starved lanes\<close>

lemma lane_less_31: "bit l i \<Longrightarrow> \<not> bit l 31 \<Longrightarrow> i < 31" for l :: lanes
proof -
  assume a: "bit l i" "\<not> bit l 31"
  then have "i < 32" "i \<noteq> 31" using bit_imp_le_length [of l i] by auto
  then show "i < 31" by simp
qed

lemma fold_ps:
  assumes "distinct is" and "\<forall>i \<in> set is. i < 31" and "length (entanglements l) = 31"
    "length (expirationTimes l) = 31" "length (hiddenUpdates l) = 31"
  shows "fold ps_body is (l, us) =
    (l\<lparr>entanglements := map (\<lambda>i. if i \<in> set is then 0 else entanglements l ! i) [0 ..< 31],
       expirationTimes := map (\<lambda>i. if i \<in> set is then -1 else expirationTimes l ! i) [0 ..< 31],
       hiddenUpdates := map (\<lambda>i. if i \<in> set is then None else hiddenUpdates l ! i) [0 ..< 31]\<rparr>,
     us @ concat (map (\<lambda>i. clear_hidden (hiddenUpdates l ! i)) is))"
  using assms
proof (induction "is" arbitrary: l us)
  case Nil
  then show ?case using map_nth [of "entanglements l"] map_nth [of "expirationTimes l"] map_nth [of "hiddenUpdates l"] by simp
next
  case (Cons i "is")
  define l1 where "l1 = l\<lparr>entanglements := (entanglements l)[i := 0],
       expirationTimes := (expirationTimes l)[i := -1], hiddenUpdates := (hiddenUpdates l)[i := None]\<rparr>"
  have i: "i < 31" "i \<notin> set is" using Cons.prems by auto
  have l1: "fold ps_body (i # is) (l, us) = fold ps_body is (l1, us @ clear_hidden (hiddenUpdates l ! i))"
    by (simp add: ps_body_def l1_def)
  have e: "map (\<lambda>k. if k \<in> set is then v else (xs[i := v]) ! k) [0 ..< 31] =
           map (\<lambda>k. if k \<in> set (i # is) then v else xs ! k) [0 ..< 31]" if "length xs = 31" for v and xs :: "'x list"
    using i that by (intro map_cong) (auto simp: nth_list_update)
  have c: "map (\<lambda>k. clear_hidden ((hiddenUpdates l)[i := None] ! k)) is = map (\<lambda>k. clear_hidden (hiddenUpdates l ! k)) is"
    using i by (intro map_cong refl) (metis nth_list_update_neq)
  have len: "length (entanglements l) = 31" "length (expirationTimes l) = 31" "length (hiddenUpdates l) = 31"
    using Cons.prems by auto
  have "fold ps_body is (l1, us @ clear_hidden (hiddenUpdates l ! i)) =
    (l1\<lparr>entanglements := map (\<lambda>i. if i \<in> set is then 0 else entanglements l1 ! i) [0 ..< 31],
       expirationTimes := map (\<lambda>i. if i \<in> set is then -1 else expirationTimes l1 ! i) [0 ..< 31],
       hiddenUpdates := map (\<lambda>i. if i \<in> set is then None else hiddenUpdates l1 ! i) [0 ..< 31]\<rparr>,
     (us @ clear_hidden (hiddenUpdates l ! i)) @ concat (map (\<lambda>i. clear_hidden (hiddenUpdates l1 ! i)) is))"
    by (rule Cons.IH) (use Cons.prems in \<open>auto simp: l1_def\<close>)
  moreover have "entanglements l1 = (entanglements l)[i := 0]" "expirationTimes l1 = (expirationTimes l)[i := -1]"
    "hiddenUpdates l1 = (hiddenUpdates l)[i := None]" by (simp_all add: l1_def)
  ultimately have "fold ps_body (i # is) (l, us) =
    (l1\<lparr>entanglements := map (\<lambda>k. if k \<in> set (i # is) then 0 else entanglements l ! k) [0 ..< 31],
       expirationTimes := map (\<lambda>k. if k \<in> set (i # is) then -1 else expirationTimes l ! k) [0 ..< 31],
       hiddenUpdates := map (\<lambda>k. if k \<in> set (i # is) then None else hiddenUpdates l ! k) [0 ..< 31]\<rparr>,
     (us @ clear_hidden (hiddenUpdates l ! i)) @ concat (map (\<lambda>i. clear_hidden (hiddenUpdates l ! i)) is))"
    by (simp only: l1 e [OF len(1)] e [OF len(2)] e [OF len(3)] c)
  then show ?case by (simp add: l1_def)
qed

text \<open>The lane maps of a root have 31 entries and its lanes no sign bit.\<close>

definition root_ok :: "root \<Rightarrow> bool" where
  "root_ok l \<longleftrightarrow> length (entanglements l) = 31 \<and> length (expirationTimes l) = 31 \<and> length (hiddenUpdates l) = 31 \<and>
     \<not> bit (pendingLanes l) 31 \<and> \<not> bit (entangledLanes l) 31"

text \<open>
  When a render finishes with the lanes \<open>f\<close> left and none deferred, exactly the lanes that were
  pending and are no longer lose their entanglements, their expiration time and their hidden
  updates; the maps of all other lanes keep their entries.
\<close>

theorem markRootFinished_maps:
  assumes "root_ok l" and "i < 31"
  shows "pendingLanes (fst (ps_markRootFinished l o1 f 0 x y)) = f \<and>
    (if bit (pendingLanes l) i \<and> \<not> bit f i
     then entanglements (fst (ps_markRootFinished l o1 f 0 x y)) ! i = 0 \<and>
          expirationTimes (fst (ps_markRootFinished l o1 f 0 x y)) ! i = -1 \<and>
          hiddenUpdates (fst (ps_markRootFinished l o1 f 0 x y)) ! i = None
     else entanglements (fst (ps_markRootFinished l o1 f 0 x y)) ! i = entanglements l ! i \<and>
          expirationTimes (fst (ps_markRootFinished l o1 f 0 x y)) ! i = expirationTimes l ! i \<and>
          hiddenUpdates (fst (ps_markRootFinished l o1 f 0 x y)) ! i = hiddenUpdates l ! i)"
proof -
  define g where "g = pendingLanes l AND NOT f"
  have g31: "\<not> bit g 31" using assms(1) by (simp add: g_def root_ok_def bit_simps)
  then have all: "\<forall>k \<in> set (lane_list g). k < 31"
    using lane_less_31 by simp
  have gi: "bit g i \<longleftrightarrow> bit (pendingLanes l) i \<and> \<not> bit f i"
    using assms(2) by (simp add: g_def bit_simps)
  define l1 where "l1 = l\<lparr>pendingLanes := f, suspendedLanes := 0, pingedLanes := 0, warmLanes := 0,
                expiredLanes := expiredLanes l AND f, entangledLanes := entangledLanes l AND f,
                errorRecoveryDisabledLanes := errorRecoveryDisabledLanes l AND f, shellSuspendCounter := 0\<rparr>"
  have F: "lane_loop True ps_body g (l1, []) = fold ps_body (lane_list g) (l1, [])"
    by (rule lane_loop_fold) (simp add: g31)
  note fp = fold_ps [of "lane_list g" l1 "[]", OF distinct_lane_list all]
  show ?thesis
    using assms gi fp F
    by (simp add: ps_markRootFinished_def Let_def g_def [symmetric] l1_def [symmetric] root_ok_def)
      (simp add: l1_def)
qed

theorem markRootFinished_maps_witness:
  "expirationTimes (fst (ps_markRootFinished (x0_root\<lparr>pendingLanes := 34, expirationTimes := replicate 31 7\<rparr>) 2 32 0 0 0)) ! 1 = -1 \<and>
   expirationTimes (fst (ps_markRootFinished (x0_root\<lparr>pendingLanes := 34, expirationTimes := replicate 31 7\<rparr>) 2 32 0 0 0)) ! 5 = 7"
proof -
  have r: "root_ok (x0_root\<lparr>pendingLanes := 34, expirationTimes := replicate 31 7\<rparr>)" by code_simp
  have b: "bit (34 :: lanes) 1 \<and> \<not> bit (32 :: lanes) 1" "bit (32 :: lanes) 5" by code_simp+
  show ?thesis
    using markRootFinished_maps [OF r, of 1 2 32 0 0] markRootFinished_maps [OF r, of 5 2 32 0 0] b by simp
qed

section \<open>Entangled lanes\<close>

lemma fold_update_if:
  assumes "distinct is"
  shows "k < length e \<Longrightarrow> fold (\<lambda>p e. if P p (e ! p) then e[p := h p (e ! p)] else e) is e ! k =
    (if k \<in> set is \<and> P k (e ! k) then h k (e ! k) else e ! k)"
  using assms
proof (induction "is" arbitrary: e)
  case (Cons i "is")
  then show ?case by (cases "k = i") (auto simp: nth_list_update)
qed simp

text \<open>
  Entangling a set of lanes closes it: afterwards every lane of the set, and every entangled
  lane that was bound to one of them, is bound to all lanes of the set, and no binding is lost.
\<close>

theorem markRootEntangled_closed:
  assumes "length (entanglements l) = 31" and "i < 31"
  shows "(bit o1 j \<and> (bit o1 i \<or> bit (entangledLanes l) i \<and> entanglements l ! i AND o1 \<noteq> 0)
      \<longrightarrow> bit (entanglements (ll_markRootEntangled l o1) ! i) j) \<and>
    (bit (entanglements l ! i) j \<longrightarrow> bit (entanglements (ll_markRootEntangled l o1) ! i) j)"
proof -
  define f where "f = entangledLanes l OR o1"
  have "lane_loop False (\<lambda>p e. if (lane p AND o1) OR (e ! p AND o1) \<noteq> 0 then e[p := e ! p OR o1] else e) f (entanglements l) =
    fold (\<lambda>p e. if (lane p AND o1) OR (e ! p AND o1) \<noteq> 0 then e[p := e ! p OR o1] else e) (lane_list f) (entanglements l)"
    by (rule lane_loop_fold) simp
  then have "entanglements (ll_markRootEntangled l o1) ! i =
    (if bit f i \<and> (lane i AND o1) OR (entanglements l ! i AND o1) \<noteq> 0 then entanglements l ! i OR o1 else entanglements l ! i)"
    using assms(1,2) fold_update_if [of "lane_list f" i "entanglements l" "\<lambda>p x. (lane p AND o1) OR (x AND o1) \<noteq> 0" "\<lambda>p x. x OR o1"]
    by (simp add: ll_markRootEntangled_def Let_def f_def [symmetric])
  moreover have "bit o1 i \<Longrightarrow> lane i AND o1 \<noteq> 0"
    using and_lane [of "lane i" i o1] assms(2) by (simp add: bit_simps)
  moreover have "a \<noteq> 0 \<or> b \<noteq> 0 \<Longrightarrow> a OR b \<noteq> 0" for a b :: lanes by (metis or_eq_0_iff)
  ultimately show ?thesis by (auto simp: f_def bit_simps)
qed

theorem markRootEntangled_closed_witness:
  "bit (entanglements (ll_markRootEntangled (x0_root\<lparr>entangledLanes := 256, entanglements := (ai_createLaneMap 0)[8 := 1024]\<rparr>) 1536) ! 8) 9"
proof -
  let ?l = "x0_root\<lparr>entangledLanes := 256, entanglements := (ai_createLaneMap 0)[8 := 1024]\<rparr>"
  have "length (entanglements ?l) = 31" "bit (1536 :: lanes) 9" "bit (entangledLanes ?l) 8" "entanglements ?l ! 8 AND 1536 \<noteq> 0"
    by code_simp+
  then show ?thesis using markRootEntangled_closed [of ?l 8 1536 9] by simp
qed

section \<open>No lane starves\<close>

lemma t0_body_fields [simp]:
  "pendingLanes (t0_body t j l) = pendingLanes l" "suspendedLanes (t0_body t j l) = suspendedLanes l"
  "pingedLanes (t0_body t j l) = pingedLanes l" "length (expirationTimes (t0_body t j l)) = length (expirationTimes l)"
  by (simp_all add: t0_body_def Let_def)

lemma t0_fold_fields:
  "pendingLanes (fold (t0_body t) is l) = pendingLanes l \<and> suspendedLanes (fold (t0_body t) is l) = suspendedLanes l \<and>
  pingedLanes (fold (t0_body t) is l) = pingedLanes l \<and>
  length (expirationTimes (fold (t0_body t) is l)) = length (expirationTimes l)"
  by (induction "is" arbitrary: l) simp_all

lemma t0_body_other:
  assumes "i \<noteq> j" and "i < 32"
  shows "expirationTimes (t0_body t j l) ! i = expirationTimes l ! i"
    and "bit (expiredLanes (t0_body t j l)) i = bit (expiredLanes l) i"
  using assms by (auto simp: t0_body_def Let_def bit_simps)

lemma t0_fold_other:
  assumes "i \<notin> set is" and "i < 32"
  shows "expirationTimes (fold (t0_body t) is l) ! i = expirationTimes l ! i \<and>
    bit (expiredLanes (fold (t0_body t) is l)) i = bit (expiredLanes l) i"
  using assms(1) by (induction "is" arbitrary: l) (auto simp: t0_body_other [OF _ assms(2)])

lemma t0_fold_lane:
  assumes "distinct is" and "i \<in> set is" and "i < 32"
  shows "\<exists>l'. expirationTimes l' ! i = expirationTimes l ! i \<and> suspendedLanes l' = suspendedLanes l \<and>
    length (expirationTimes l') = length (expirationTimes l) \<and>
    expirationTimes (fold (t0_body t) is l) ! i = expirationTimes (t0_body t i l') ! i \<and>
    bit (expiredLanes (fold (t0_body t) is l)) i = bit (expiredLanes (t0_body t i l')) i"
proof -
  obtain as bs where s: "is = as @ i # bs" using split_list [OF assms(2)] by blast
  with assms(1) have "i \<notin> set as" "i \<notin> set bs" by auto
  then show ?thesis
    using t0_fold_other [OF _ assms(3)] t0_fold_fields [of t as l] by (intro exI [of _ "fold (t0_body t) as l"]) (simp add: s)
qed

lemma retry_mask: "k < 32 \<Longrightarrow> bit (- 62914561 :: lanes) k = (\<not> (22 \<le> k \<and> k < 26))"
proof -
  have "(- 62914561 :: lanes) = NOT 62914560" by simp
  then show "k < 32 \<Longrightarrow> ?thesis" using bit_62914560 [of k] by (simp only: bit_not_iff) simp
qed

lemma yt_lanes:
  assumes "k < 22"
  shows "yt_computeExpirationTime (2 ^ k) 0 \<in> {250, 5000}"
proof -
  have "2 ^ k \<in> {1, 2, 4, 8, 16, 32, 64, 128 :: lanes} \<or>
    2 ^ k \<in> {256, 512, 1024, 2048, 4096, 8192, 16384, 32768, 65536, 131072 :: lanes} \<or>
    2 ^ k \<in> {262144, 524288, 1048576, 2097152 :: lanes}"
    using lane_group_1 [of k] lane_group_2 [of k] lane_group_3 [of k] assms by linarith
  then show ?thesis unfolding yt_computeExpirationTime_def by (elim disjE insertE emptyE) simp_all
qed

lemma yt_bound:
  assumes "i < 22"
  shows "t < yt_computeExpirationTime (lane i) t \<and> yt_computeExpirationTime (lane i) t \<le> t + 5000"
proof -
  have "yt_computeExpirationTime (lane i) 0 \<in> {250, 5000}" by (rule yt_lanes [OF assms])
  moreover have "yt_computeExpirationTime (lane i) t = yt_computeExpirationTime (lane i) 0 + t \<or> yt_computeExpirationTime (lane i) 0 = -1"
    by (simp add: yt_computeExpirationTime_def)
  ultimately show ?thesis by auto
qed

lemma t0_loop:
  assumes "\<not> bit (pendingLanes l) 31"
  shows "t0_markStarvedLanesAsExpired l t = fold (t0_body t) (lane_list (pendingLanes l AND - 62914561)) l"
  unfolding t0_markStarvedLanesAsExpired_def
  by (rule lane_loop_fold) (use assms in \<open>simp add: bit_simps\<close>)

text \<open>
  No pending lane starves: a lane with a deadline (below the retry lanes) that is not
  suspended is marked as expired by the second of two passes over the root that are five seconds
  apart, whatever its priority.
\<close>

theorem lane_expires:
  assumes "root_ok l" and "i < 22" and "bit (pendingLanes l) i" and "\<not> bit (suspendedLanes l) i"
    and "expirationTimes l ! i = -1" and "0 \<le> t" and "t + 5000 \<le> t'"
  shows "bit (expiredLanes (t0_markStarvedLanesAsExpired (t0_markStarvedLanesAsExpired l t) t')) i"
proof -
  define is' where "is' = lane_list (pendingLanes l AND - 62914561)"
  define l1 where "l1 = fold (t0_body t) is' l"
  have p31: "\<not> bit (pendingLanes l) 31" using assms(1) by (simp add: root_ok_def)
  have "bit (- 62914561 :: lanes) i" using retry_mask [of i] assms(2) by simp
  then have i: "i \<in> set is'" "distinct is'" "i < 32" using assms(2,3) by (auto simp: is'_def bit_and_iff)
  have e1: "t0_markStarvedLanesAsExpired l t = l1" by (simp add: t0_loop [OF p31] l1_def is'_def)
  have f1: "pendingLanes l1 = pendingLanes l" using t0_fold_fields by (simp add: l1_def)
  have e2: "t0_markStarvedLanesAsExpired l1 t' = fold (t0_body t') is' l1"
    using t0_loop [of l1 t'] p31 f1 by (simp add: is'_def)
  have sus: "lane i AND suspendedLanes l = 0"
    using assms(2,4) by (intro bit_word_eqI) (auto simp: bit_simps)
  obtain l' where "expirationTimes l' ! i = -1" "suspendedLanes l' = suspendedLanes l" "length (expirationTimes l') = 31"
    "expirationTimes l1 ! i = expirationTimes (t0_body t i l') ! i"
    using t0_fold_lane [OF i(2,1,3), of l t] assms(1,5) by (auto simp: l1_def root_ok_def)
  then have x: "expirationTimes l1 ! i = yt_computeExpirationTime (lane i) t"
    using sus assms(2) by (simp add: t0_body_def Let_def)
  then have x': "expirationTimes l1 ! i \<noteq> -1" "expirationTimes l1 ! i \<le> t'"
    using yt_bound [OF assms(2), of t] assms(6,7) by auto
  obtain l2 where "expirationTimes l2 ! i = expirationTimes l1 ! i"
    "bit (expiredLanes (fold (t0_body t') is' l1)) i = bit (expiredLanes (t0_body t' i l2)) i"
    using t0_fold_lane [OF i(2,1,3), of l1 t'] by auto
  then show ?thesis
    using x' i(3) by (simp add: e1 e2 t0_body_def Let_def bit_simps)
qed

theorem lane_expires_witness:
  "bit (expiredLanes (t0_markStarvedLanesAsExpired (t0_markStarvedLanesAsExpired (x0_root\<lparr>pendingLanes := 32\<rparr>) 100) 5100)) 5"
proof -
  have "root_ok (x0_root\<lparr>pendingLanes := 32\<rparr>)" "bit (pendingLanes (x0_root\<lparr>pendingLanes := 32\<rparr>)) 5"
    "\<not> bit (suspendedLanes (x0_root\<lparr>pendingLanes := 32\<rparr>)) 5" "expirationTimes (x0_root\<lparr>pendingLanes := 32\<rparr>) ! 5 = -1"
    by code_simp+
  then show ?thesis by (intro lane_expires) simp_all
qed

section \<open>Event priorities\<close>

definition gh_discrete :: "string list" where
  "gh_discrete = [
    ''beforetoggle'', ''cancel'', ''click'', ''close'', ''contextmenu'', ''copy'', ''cut'', ''auxclick'',
    ''dblclick'', ''dragend'', ''dragstart'', ''drop'', ''focusin'', ''focusout'', ''input'', ''invalid'',
    ''keydown'', ''keypress'', ''keyup'', ''mousedown'', ''mouseup'', ''paste'', ''pause'', ''play'',
    ''pointercancel'', ''pointerdown'', ''pointerup'', ''ratechange'', ''reset'', ''resize'', ''seeked'',
    ''submit'', ''toggle'', ''touchcancel'', ''touchend'', ''touchstart'', ''volumechange'', ''change'',
    ''selectionchange'', ''textInput'', ''compositionstart'', ''compositionend'', ''compositionupdate'',
    ''beforeblur'', ''afterblur'', ''beforeinput'', ''blur'', ''fullscreenchange'', ''focus'',
    ''hashchange'', ''popstate'', ''select'', ''selectstart'']"

definition gh_continuous :: "string list" where
  "gh_continuous = [
    ''drag'', ''dragenter'', ''dragexit'', ''dragleave'', ''dragover'', ''mousemove'', ''mouseout'',
    ''mouseover'', ''pointermove'', ''pointerout'', ''pointerover'', ''scroll'', ''touchmove'', ''wheel'',
    ''mouseenter'', ''mouseleave'', ''pointerenter'', ''pointerleave'']"

text \<open>\<open>lvl\<close> is the scheduler's current priority level, read for \<open>message\<close> events only.\<close>

definition gh_getEventPriority :: "int \<Rightarrow> string \<Rightarrow> lanes" where
  "gh_getEventPriority lvl l =
     (if l \<in> set gh_discrete then 2
      else if l \<in> set gh_continuous then 8
      else if l = ''message'' then
        (if lvl = 1 then 2 else if lvl = 2 then 8 else if lvl = 3 \<or> lvl = 4 then 32
         else if lvl = 5 then 268435456 else 32)
      else 32)"

text \<open>\<open>W.p\<close> is the priority set by the caller, \<open>ev\<close> the type of the event being handled.\<close>

definition dp_resolveUpdatePriority :: "lanes \<Rightarrow> int \<Rightarrow> string option \<Rightarrow> lanes" where
  "dp_resolveUpdatePriority p lvl ev =
     (if p \<noteq> 0 then p else case ev of None \<Rightarrow> 32 | Some t \<Rightarrow> gh_getEventPriority lvl t)"

definition v_runWithPriority :: "lanes \<Rightarrow> (lanes \<Rightarrow> 'a \<times> lanes) \<Rightarrow> lanes \<Rightarrow> 'a \<times> lanes" where
  "v_runWithPriority l f p = (fst (f l), p)"

text \<open>
  The event priorities are exactly the lanes that \<open>lanesToEventPriority\<close> returns: the update
  lane of an event, and the priority class of every set of lanes, is one of the four, and
  converting it again does not change it.
\<close>

theorem event_priority_fixpoint:
  "gh_getEventPriority lvl e \<in> {2, 8, 32, 268435456} \<and> Ov_lanesToEventPriority l \<in> {2, 8, 32, 268435456} \<and>
   Ov_lanesToEventPriority (gh_getEventPriority lvl e) = gh_getEventPriority lvl e \<and>
   Ov_lanesToEventPriority (Ov_lanesToEventPriority l) = Ov_lanesToEventPriority l"
proof -
  have fx: "Ov_lanesToEventPriority 2 = 2" "Ov_lanesToEventPriority 8 = 8" "Ov_lanesToEventPriority 32 = 32"
    "Ov_lanesToEventPriority 268435456 = 268435456" by code_simp+
  have g: "gh_getEventPriority lvl e \<in> {2, 8, 32, 268435456}"
    by (simp add: gh_getEventPriority_def)
  have o: "Ov_lanesToEventPriority l \<in> {2, 8, 32, 268435456}"
    by (simp add: Ov_lanesToEventPriority_def Let_def)
  show ?thesis using fx g o by auto
qed

end
