(* ===== verification/Sched_Heap.thy ===== *)
theory Sched_Heap
  imports Complex_Main Js_Prelude "HOL-Library.Multiset"
begin

text \<open>
  The binary heap of React's scheduler (\<open>src/internal/admin/dist/index-DxrWcVFD.js\<close>, function
  \<open>V$\<close>): the array operations \<open>t\<close> (push), \<open>a\<close> (peek) and \<open>i\<close> (pop) and the comparison \<open>c\<close>.
  An array is a list, a task object a record that carries its identity in \<open>tid\<close> (the code's
  \<open>id\<close> field, unique per task); times are exact rationals.  The interface the scheduler relies on
  is the locale \<open>priority_queue\<close>, interpreted on these operations.
\<close>

record 'cb task =
  tid :: int
  callback :: "'cb option"
  priorityLevel :: int
  startTime :: rat
  expirationTime :: rat
  sortIndex :: rat

definition c_compare :: "'cb task \<Rightarrow> 'cb task \<Rightarrow> rat" where
  "c_compare V W = (let fe = sortIndex V - sortIndex W in
     if fe \<noteq> 0 then fe else of_int (tid V - tid W))"

text \<open>Sifting the pushed element \<open>W\<close>, now at index \<open>fe\<close>, towards the root.\<close>

function t_siftUp :: "'cb task list \<Rightarrow> 'cb task \<Rightarrow> nat \<Rightarrow> 'cb task list" where
  "t_siftUp V W fe =
     (if fe = 0 then V
      else let Ee = (fe - 1) div 2; ae = V ! Ee in
        if 0 < c_compare ae W then t_siftUp (V[Ee := W, fe := ae]) W Ee else V)"
  by pat_completeness auto
termination by (relation "measure (\<lambda>(V, W, fe). fe)") auto

declare t_siftUp.simps [simp del]

definition t_push :: "'cb task list \<Rightarrow> 'cb task \<Rightarrow> 'cb task list" where
  "t_push V W = t_siftUp (V @ [W]) W (length V)"

definition a_peek :: "'cb task list \<Rightarrow> 'cb task option" where
  "a_peek V = (if length V = 0 then None else Some (V ! 0))"

text \<open>
  Sifting \<open>fe\<close>, which sits at index \<open>Ee\<close>, towards the leaves.  The right child \<open>Ue\<close> is only
  looked at when its index is inside the array.
\<close>

function i_siftDown :: "'cb task list \<Rightarrow> 'cb task \<Rightarrow> nat \<Rightarrow> 'cb task list" where
  "i_siftDown V fe Ee =
     (if Ee < length V div 2 then
        let I = 2 * (Ee + 1) - 1; ce = V ! I; ye = I + 1; Ue = V ! ye in
        if 0 > c_compare ce fe then
          (if ye < length V \<and> 0 > c_compare Ue ce
           then i_siftDown (V[Ee := Ue, ye := fe]) fe ye
           else i_siftDown (V[Ee := ce, I := fe]) fe I)
        else if ye < length V \<and> 0 > c_compare Ue fe
          then i_siftDown (V[Ee := Ue, ye := fe]) fe ye
        else V
      else V)"
  by pat_completeness auto
termination by (relation "measure (\<lambda>(V, fe, Ee). length V - Ee)") auto

declare i_siftDown.simps [simp del]

definition i_pop :: "'cb task list \<Rightarrow> 'cb task option \<times> 'cb task list" where
  "i_pop V = (if length V = 0 then (None, V)
     else let W = V ! 0; fe = last V; V' = butlast V in
       (Some W, if tid fe \<noteq> tid W then i_siftDown (V'[0 := fe]) fe 0 else V'))"

section \<open>The order of tasks\<close>

definition task_le :: "'cb task \<Rightarrow> 'cb task \<Rightarrow> bool" where
  "task_le x y \<longleftrightarrow> sortIndex x < sortIndex y \<or> sortIndex x = sortIndex y \<and> tid x \<le> tid y"

lemma c_pos: "0 < c_compare x y \<longleftrightarrow> \<not> task_le x y"
  by (auto simp: c_compare_def task_le_def Let_def)

lemma c_neg: "0 > c_compare x y \<longleftrightarrow> \<not> task_le y x"
  by (auto simp: c_compare_def task_le_def Let_def)

lemma task_le_refl [simp]: "task_le x x"
  and task_le_trans: "task_le x y \<Longrightarrow> task_le y z \<Longrightarrow> task_le x z"
  and task_le_total: "task_le x y \<or> task_le y x"
  by (auto simp: task_le_def)

section \<open>The heap order\<close>

abbreviation par :: "nat \<Rightarrow> nat" where
  "par i \<equiv> (i - 1) div 2"

definition heap :: "'cb task list \<Rightarrow> bool" where
  "heap V \<longleftrightarrow> (\<forall>i < length V. 0 < i \<longrightarrow> task_le (V ! par i) (V ! i))"

definition heap_ok :: "'cb task list \<Rightarrow> bool" where
  "heap_ok V \<longleftrightarrow> heap V \<and> distinct (map tid V)"

lemma heap_root:
  assumes "heap V" and "i < length V"
  shows "task_le (V ! 0) (V ! i)"
  using assms(2)
proof (induction i rule: less_induct)
  case (less i)
  show ?case
  proof (cases "i = 0")
    case False
    have "task_le (V ! 0) (V ! par i)" using False less by simp
    moreover have "task_le (V ! par i) (V ! i)" using False assms less.prems by (auto simp: heap_def)
    ultimately show ?thesis by (rule task_le_trans)
  qed simp
qed

text \<open>The heap order up to the element at \<open>n\<close>: sifting up may break it against its parent only.\<close>

definition heap_up :: "'cb task list \<Rightarrow> nat \<Rightarrow> bool" where
  "heap_up V n \<longleftrightarrow>
     (\<forall>i < length V. 0 < i \<longrightarrow> i \<noteq> n \<longrightarrow> task_le (V ! par i) (V ! i)) \<and>
     (0 < n \<longrightarrow> (\<forall>i < length V. 0 < i \<longrightarrow> par i = n \<longrightarrow> task_le (V ! par n) (V ! i)))"

lemma mset_swap_at:
  assumes "i < length V" and "j < length V"
  shows "mset (V[i := V ! j, j := V ! i]) = mset V"
  by (cases "i = j") (use assms in \<open>simp_all add: mset_swap\<close>)

lemma t_siftUp_mset:
  assumes "n < length V" and "V ! n = W"
  shows "mset (t_siftUp V W n) = mset V"
  using assms
proof (induction V W n rule: t_siftUp.induct)
  case (1 V W n)
  show ?case
  proof (cases "n = 0 \<or> \<not> 0 < c_compare (V ! par n) W")
    case True
    then show ?thesis by (subst t_siftUp.simps) (auto simp: Let_def)
  next
    case False
    then have p: "par n < n" by auto
    have "mset (t_siftUp (V[par n := W, n := V ! par n]) W (par n)) = mset (V[par n := W, n := V ! par n])"
      using False p "1.prems" by (intro "1.IH") auto
    also have "\<dots> = mset V" using mset_swap_at [of "par n" V n] "1.prems" p by simp
    finally show ?thesis using False by (subst t_siftUp.simps) (simp add: Let_def)
  qed
qed

lemma heap_up_step:
  assumes "heap_up V n" and "0 < n" and "n < length V" and "\<not> task_le (V ! par n) (V ! n)"
  shows "heap_up (V[par n := V ! n, n := V ! par n]) (par n)"
proof -
  define p where "p = par n"
  define V' where "V' = V[p := V ! n, n := V ! p]"
  have p: "p < n" and pl: "p < length V" using assms by (auto simp: p_def)
  have v: "V' ! i = (if i = n then V ! p else if i = p then V ! n else V ! i)" if "i < length V" for i
    using p pl that by (auto simp: nth_list_update V'_def)
  have h: "\<And>i. i < length V \<Longrightarrow> 0 < i \<Longrightarrow> i \<noteq> n \<Longrightarrow> task_le (V ! par i) (V ! i)"
    and c: "\<And>i. i < length V \<Longrightarrow> 0 < i \<Longrightarrow> par i = n \<Longrightarrow> task_le (V ! p) (V ! i)"
    using assms(1,2) by (auto simp: heap_up_def p_def)
  have np: "task_le (V ! n) (V ! p)" using assms(4) task_le_total unfolding p_def by blast
  have "heap_up V' p"
    unfolding heap_up_def
  proof (intro conjI allI impI)
    fix i assume i: "i < length V'" "0 < i" "i \<noteq> p"
    define q where "q = par i"
    have il: "i < length V" "q < length V" "q < i" using i by (auto simp: q_def V'_def)
    have hq: "i \<noteq> n \<Longrightarrow> task_le (V ! q) (V ! i)" and cq: "q = n \<Longrightarrow> task_le (V ! p) (V ! i)"
      using h c il i(2) by (auto simp: q_def)
    have qn: "i = n \<Longrightarrow> q = p" by (simp add: q_def p_def)
    show "task_le (V' ! par i) (V' ! i)"
      unfolding q_def [symmetric] v [OF il(1)] v [OF il(2)]
      using hq cq qn np i(3) il(3) task_le_trans [of "V ! n" "V ! p" "V ! i"] by auto
  next
    fix i assume i: "0 < p" "i < length V'" "0 < i" "par i = p"
    define q where "q = par p"
    have il: "i < length V" "q < p" "q < length V" using i p pl by (auto simp: q_def V'_def)
    have ne: "i \<noteq> p" using i by auto
    have "task_le (V ! q) (V ! p)" using h [of p] i p pl by (simp add: q_def)
    moreover have "i \<noteq> n \<Longrightarrow> task_le (V ! p) (V ! i)" using h [of i] il(1) i by simp
    ultimately show "task_le (V' ! par p) (V' ! i)"
      unfolding q_def [symmetric] v [OF il(1)] v [OF il(3)]
      using il p ne task_le_trans [of "V ! q" "V ! p" "V ! i"] by auto
  qed
  then show ?thesis by (simp add: V'_def p_def)
qed

lemma t_siftUp_heap:
  assumes "heap_up V n" and "n < length V" and "V ! n = W"
  shows "heap (t_siftUp V W n)"
  using assms
proof (induction V W n rule: t_siftUp.induct)
  case (1 V W n)
  show ?case
  proof (cases "n = 0 \<or> \<not> 0 < c_compare (V ! par n) W")
    case True
    then show ?thesis
      using "1.prems" by (subst t_siftUp.simps) (auto simp: Let_def heap_def heap_up_def c_pos)
  next
    case False
    then have "heap (t_siftUp (V[par n := W, n := V ! par n]) W (par n))"
      using "1.prems" heap_up_step [of V n] by (intro "1.IH") (auto simp: c_pos nth_list_update)
    then show ?thesis using False by (subst t_siftUp.simps) (simp add: Let_def)
  qed
qed

lemma t_push_mset [simp]: "mset (t_push V W) = add_mset W (mset V)"
  by (simp add: t_push_def t_siftUp_mset)

lemma t_push_heap: "heap V \<Longrightarrow> heap (t_push V W)"
  unfolding t_push_def
  by (rule t_siftUp_heap) (auto simp: heap_up_def heap_def nth_append)

lemma mset_tids: "mset V = mset V' \<Longrightarrow> distinct (map tid V) = distinct (map tid V')"
  by (metis mset_eq_imp_distinct_iff mset_map)

lemma t_push_ok: "heap_ok V \<Longrightarrow> tid W \<notin> tid ` set V \<Longrightarrow> heap_ok (t_push V W)"
  using mset_tids [of "t_push V W" "W # V"] by (auto simp: heap_ok_def t_push_heap)

text \<open>Sifting down: the order may be broken against the children of \<open>n\<close> only.\<close>

definition heap_down :: "'cb task list \<Rightarrow> nat \<Rightarrow> bool" where
  "heap_down V n \<longleftrightarrow>
     (\<forall>i < length V. 0 < i \<longrightarrow> par i \<noteq> n \<longrightarrow> task_le (V ! par i) (V ! i)) \<and>
     (0 < n \<longrightarrow> (\<forall>i < length V. 0 < i \<longrightarrow> par i = n \<longrightarrow> task_le (V ! par n) (V ! i)))"

lemma heap_down_step:
  assumes "heap_down V n" and "m < length V" and "0 < m" and "par m = n"
    and m: "task_le (V ! m) (V ! n)"
    and kids: "\<And>i. i < length V \<Longrightarrow> 0 < i \<Longrightarrow> par i = n \<Longrightarrow> task_le (V ! m) (V ! i)"
  shows "heap_down (V[n := V ! m, m := V ! n]) m"
proof -
  define V' where "V' = V[n := V ! m, m := V ! n]"
  have nm: "n < m" and nl: "n < length V" using assms(2-4) by auto
  have v: "V' ! i = (if i = m then V ! n else if i = n then V ! m else V ! i)" if "i < length V" for i
    using nm nl that by (auto simp: nth_list_update V'_def)
  have h: "\<And>i. i < length V \<Longrightarrow> 0 < i \<Longrightarrow> par i \<noteq> n \<Longrightarrow> task_le (V ! par i) (V ! i)"
    and c: "\<And>i. 0 < n \<Longrightarrow> i < length V \<Longrightarrow> 0 < i \<Longrightarrow> par i = n \<Longrightarrow> task_le (V ! par n) (V ! i)"
    using assms(1) by (auto simp: heap_down_def)
  have "heap_down V' m"
    unfolding heap_down_def
  proof (intro conjI allI impI)
    fix i assume i: "i < length V'" "0 < i" "par i \<noteq> m"
    define q where "q = par i"
    have il: "i < length V" "q < length V" "q < i" using i by (auto simp: q_def V'_def)
    have hq: "q \<noteq> n \<Longrightarrow> task_le (V ! q) (V ! i)" and kq: "q = n \<Longrightarrow> task_le (V ! m) (V ! i)"
      using h kids il i(2) by (auto simp: q_def)
    have im: "i = m \<Longrightarrow> q = n" using assms(4) by (simp add: q_def)
    have inn: "i = n \<Longrightarrow> task_le (V ! q) (V ! m)" using c [of m] assms(2-4) i(2) by (simp add: q_def)
    show "task_le (V' ! par i) (V' ! i)"
      unfolding q_def [symmetric] v [OF il(1)] v [OF il(2)]
      using hq kq im inn m i(3) il(3) by (auto simp: q_def)
  next
    fix i assume i: "0 < m" "i < length V'" "0 < i" "par i = m"
    have il: "i < length V" using i by (simp add: V'_def)
    have "i \<noteq> m" "i \<noteq> n" using i nm by auto
    moreover have "task_le (V ! m) (V ! i)" using h [of i] il i nm by simp
    ultimately show "task_le (V' ! par m) (V' ! i)"
      unfolding assms(4) v [OF il] v [OF nl] using nm by simp
  qed
  then show ?thesis by (simp add: V'_def)
qed

lemma heap_down_stop:
  assumes "heap_down V n" and "\<And>i. i < length V \<Longrightarrow> 0 < i \<Longrightarrow> par i = n \<Longrightarrow> task_le (V ! n) (V ! i)"
  shows "heap V"
  using assms unfolding heap_def heap_down_def by metis

lemma child_cases: "0 < i \<Longrightarrow> par i = n \<Longrightarrow> i = 2 * n + 1 \<or> i = 2 * n + 2"
  by presburger

text \<open>The index the loop goes to next, or none when it stops.\<close>

definition down_child :: "'cb task list \<Rightarrow> nat \<Rightarrow> nat option" where
  "down_child V n =
     (if n < length V div 2 then
        if \<not> task_le (V ! n) (V ! (2 * n + 1)) then
          Some (if 2 * n + 2 < length V \<and> \<not> task_le (V ! (2 * n + 1)) (V ! (2 * n + 2)) then 2 * n + 2 else 2 * n + 1)
        else if 2 * n + 2 < length V \<and> \<not> task_le (V ! n) (V ! (2 * n + 2)) then Some (2 * n + 2)
        else None
      else None)"

lemma i_siftDown_unfold:
  assumes "V ! n = fe"
  shows "i_siftDown V fe n =
    (case down_child V n of None \<Rightarrow> V | Some m \<Rightarrow> i_siftDown (V[n := V ! m, m := fe]) fe m)"
  using assms by (subst i_siftDown.simps) (simp add: Let_def c_neg down_child_def)

lemma down_child_Some:
  assumes "down_child V n = Some m"
  shows "m < length V" "0 < m" "par m = n" "n < m" "task_le (V ! m) (V ! n)"
    "\<And>i. i < length V \<Longrightarrow> 0 < i \<Longrightarrow> par i = n \<Longrightarrow> task_le (V ! m) (V ! i)"
proof -
  show "m < length V" "0 < m" "par m = n" "n < m"
    using assms by (auto simp: down_child_def split: if_splits)
  have t: "\<not> task_le x y \<Longrightarrow> task_le y x" for x y :: "'a task" using task_le_total by blast
  show "task_le (V ! m) (V ! n)"
    using assms t [of "V ! n" "V ! (2 * n + 1)"] t [of "V ! n" "V ! (2 * n + 2)"]
      t [of "V ! (2 * n + 1)" "V ! (2 * n + 2)"]
      task_le_trans [of "V ! (2 * n + 2)" "V ! (2 * n + 1)" "V ! n"]
    by (auto simp: down_child_def split: if_splits)
  show "task_le (V ! m) (V ! i)" if "i < length V" "0 < i" "par i = n" for i
    using child_cases [OF that(2,3)] that(1) assms t [of "V ! n" "V ! (2 * n + 2)"]
      t [of "V ! (2 * n + 1)" "V ! (2 * n + 2)"]
      task_le_trans [of "V ! (2 * n + 2)" "V ! n" "V ! (2 * n + 1)"]
    by (auto simp: down_child_def split: if_splits)
qed

lemma down_child_None:
  assumes "down_child V n = None" and "i < length V" and "0 < i" and "par i = n"
  shows "task_le (V ! n) (V ! i)"
  using child_cases [OF assms(3,4)] assms(1,2)
  by (auto simp: down_child_def split: if_splits)

lemma i_siftDown_props:
  assumes "n < length V" and "V ! n = fe"
  shows "mset (i_siftDown V fe n) = mset V \<and> (heap_down V n \<longrightarrow> heap (i_siftDown V fe n))"
  using assms
proof (induction "length V - n" arbitrary: V n rule: less_induct)
  case less
  show ?case
  proof (cases "down_child V n")
    case None
    then show ?thesis
      using heap_down_stop [of V n] down_child_None [OF None]
      by (simp add: i_siftDown_unfold [OF less.prems(2)])
  next
    case (Some m)
    note m = down_child_Some [OF Some]
    define V' where "V' = V[n := V ! m, m := V ! n]"
    have V': "m < length V'" "V' ! m = fe" "length V' - m < length V - n"
      using m(1,4) less.prems by (auto simp: V'_def)
    have "mset (i_siftDown V' fe m) = mset V'" "heap_down V' m \<Longrightarrow> heap (i_siftDown V' fe m)"
      using less.hyps [OF V'(3,1,2)] by auto
    moreover have "mset V' = mset V" unfolding V'_def by (rule mset_swap_at) (use m less.prems in auto)
    moreover have "heap_down V n \<Longrightarrow> heap_down V' m" unfolding V'_def by (rule heap_down_step) (use m in auto)
    ultimately show ?thesis
      using Some by (simp add: i_siftDown_unfold [OF less.prems(2)] V'_def less.prems)
  qed
qed

lemmas i_siftDown_mset = i_siftDown_props [THEN conjunct1]
lemmas i_siftDown_heap = i_siftDown_props [THEN conjunct2, THEN mp]

lemma i_pop_empty [simp]: "i_pop [] = (None, [])"
  by (simp add: i_pop_def)

lemma i_pop_Some:
  assumes "heap_ok V" and "V \<noteq> []"
  obtains V' where "i_pop V = (Some (V ! 0), V')" "add_mset (V ! 0) (mset V') = mset V" "heap_ok V'"
proof (cases "butlast V = []")
  case True
  then obtain x where "V = [x]" using assms(2) by (cases V rule: rev_cases) auto
  then show ?thesis by (intro that [of "[]"]) (auto simp: i_pop_def heap_ok_def heap_def)
next
  case False
  then obtain x xs y where V: "V = x # xs @ [y]"
    by (cases V; cases "tl V" rule: rev_cases) auto
  define U where "U = y # xs"
  have U: "mset (i_siftDown U y 0) = mset U \<and> (heap_down U 0 \<longrightarrow> heap (i_siftDown U y 0))"
    by (rule i_siftDown_props) (simp_all add: U_def)
  have "heap_down U 0"
    unfolding heap_down_def
  proof (intro conjI allI impI)
    fix i assume i: "i < length U" "0 < i" "par i \<noteq> 0"
    then have "U ! i = V ! i" "U ! par i = V ! par i" "i < length V"
      by (auto simp: U_def V nth_Cons nth_append split: nat.splits)
    then show "task_le (U ! par i) (U ! i)" using assms(1) i by (simp add: heap_ok_def heap_def)
  qed simp
  with U have "heap (i_siftDown U y 0)" by blast
  moreover have "distinct (map tid (i_siftDown U y 0))"
    using mset_tids [of "i_siftDown U y 0" U] U assms(1) by (auto simp: U_def V heap_ok_def)
  moreover have "i_pop V = (Some (V ! 0), i_siftDown U y 0)"
    using assms(1) by (auto simp: i_pop_def V U_def heap_ok_def butlast_append)
  ultimately show ?thesis using U by (intro that) (auto simp: heap_ok_def U_def V)
qed

lemma a_peek_Some: "a_peek V = Some x \<longleftrightarrow> V \<noteq> [] \<and> x = V ! 0"
  by (auto simp: a_peek_def)

lemma a_peek_Nil [simp]: "a_peek [] = None"
  by (simp add: a_peek_def)

lemma a_peek_None [simp]: "a_peek V = None \<longleftrightarrow> V = []"
  by (simp add: a_peek_def)

section \<open>The interface of the queue\<close>

text \<open>
  What the scheduler needs from a queue: the contents are those of the abstract multiset, \<open>peek\<close>
  and \<open>pop\<close> agree and give an element that comes before every other one.
\<close>

locale priority_queue =
  fixes before :: "'a \<Rightarrow> 'a \<Rightarrow> bool"
    and fresh :: "'a \<Rightarrow> 'a multiset \<Rightarrow> bool"
    and good :: "'q \<Rightarrow> bool"
    and elems :: "'q \<Rightarrow> 'a multiset"
    and push :: "'q \<Rightarrow> 'a \<Rightarrow> 'q"
    and peek :: "'q \<Rightarrow> 'a option"
    and pop :: "'q \<Rightarrow> 'a option \<times> 'q"
  assumes push_good: "good q \<Longrightarrow> fresh x (elems q) \<Longrightarrow> good (push q x)"
    and push_elems: "good q \<Longrightarrow> elems (push q x) = add_mset x (elems q)"
    and peek_none: "peek q = None \<longleftrightarrow> elems q = {#}"
    and peek_least: "good q \<Longrightarrow> peek q = Some x \<Longrightarrow> x \<in># elems q \<and> (\<forall>y \<in># elems q. before x y)"
    and pop_none: "elems q = {#} \<Longrightarrow> pop q = (None, q)"
    and pop_some: "good q \<Longrightarrow> peek q = Some x \<Longrightarrow> fst (pop q) = Some x"
    and pop_good: "good q \<Longrightarrow> good (snd (pop q))"
    and pop_elems: "good q \<Longrightarrow> peek q = Some x \<Longrightarrow> elems q = add_mset x (elems (snd (pop q)))"
begin

lemma pop_least:
  assumes "good q" and "pop q = (Some x, q')"
  shows "peek q = Some x" and "\<forall>y \<in># elems q'. before x y" and "elems q = add_mset x (elems q')"
proof -
  obtain z where z: "peek q = Some z"
    using assms(2) pop_none [of q] peek_none [of q] by (cases "peek q") auto
  then show p: "peek q = Some x" using pop_some [OF assms(1) z] assms(2) by simp
  show e: "elems q = add_mset x (elems q')" using pop_elems [OF assms(1) p] assms(2) by simp
  show "\<forall>y \<in># elems q'. before x y" using peek_least [OF assms(1) p] e by auto
qed

lemma pops_in_order:
  assumes "good q" and "pop q = (Some x, q')" and "pop q' = (Some y, q'')"
  shows "before x y"
proof -
  have "good q'" using pop_good [OF assms(1)] assms(2) by simp
  from peek_least [OF this pop_least(1) [OF this assms(3)]] have "y \<in># elems q'" by simp
  with pop_least(2) [OF assms(1,2)] show ?thesis by auto
qed

lemma pop_push_least:
  assumes "good q" and "fresh x (elems q)" and "pop (push q x) = (Some y, q')"
  shows "before y x" and "y = x \<or> y \<in># elems q"
  using peek_least [OF push_good [OF assms(1,2)] pop_least(1) [OF push_good [OF assms(1,2)] assms(3)]]
    push_elems [OF assms(1), of x] by auto

end

interpretation task_queue: priority_queue task_le "\<lambda>x M. tid x \<notin># image_mset tid M" heap_ok mset t_push a_peek i_pop
proof
  fix q :: "'a task list" and x
  show "heap_ok q \<Longrightarrow> tid x \<notin># image_mset tid (mset q) \<Longrightarrow> heap_ok (t_push q x)"
    by (rule t_push_ok) auto
  show "heap_ok q \<Longrightarrow> mset (t_push q x) = add_mset x (mset q)" by simp
  show "a_peek q = None \<longleftrightarrow> mset q = {#}" by simp
  show "heap_ok q \<Longrightarrow> a_peek q = Some x \<Longrightarrow> x \<in># mset q \<and> (\<forall>y \<in># mset q. task_le x y)"
    by (auto simp: a_peek_Some in_set_conv_nth heap_ok_def intro: heap_root)
  show "mset q = {#} \<Longrightarrow> i_pop q = (None, q)" by simp
  show "heap_ok q \<Longrightarrow> a_peek q = Some x \<Longrightarrow> fst (i_pop q) = Some x"
    by (auto simp: a_peek_Some elim: i_pop_Some)
  show "heap_ok q \<Longrightarrow> heap_ok (snd (i_pop q))"
    by (cases "q = []") (auto elim: i_pop_Some)
  show "heap_ok q \<Longrightarrow> a_peek q = Some x \<Longrightarrow> mset q = add_mset x (mset (snd (i_pop q)))"
    by (auto simp: a_peek_Some elim: i_pop_Some)
qed

section \<open>Emptying the heap\<close>

text \<open>What a client sees that calls \<open>pop\<close> until the heap is empty.\<close>

function drain :: "'cb task list \<Rightarrow> 'cb task list" where
  "drain V = (case i_pop V of (None, _) \<Rightarrow> [] | (Some x, V') \<Rightarrow> if length V' < length V then x # drain V' else [x])"
  by pat_completeness auto
termination by (relation "measure length") auto

declare drain.simps [simp del]

lemma drain_step:
  assumes "heap_ok V" and "V \<noteq> []"
  obtains V' where "drain V = V ! 0 # drain V'" "heap_ok V'" "mset V = add_mset (V ! 0) (mset V')"
    "length V' < length V" "\<forall>y \<in> set V'. task_le (V ! 0) y"
proof -
  obtain V' where V': "i_pop V = (Some (V ! 0), V')" "add_mset (V ! 0) (mset V') = mset V" "heap_ok V'"
    using assms by (rule i_pop_Some)
  have l: "length V = Suc (length V')" using arg_cong [OF V'(2), of size] by simp
  show ?thesis
    using task_queue.pop_least(2) [OF assms(1) V'(1)] V' l
    by (intro that [of V']) (auto simp: drain.simps [of V])
qed

lemma drain_sorted:
  "heap_ok V \<Longrightarrow> sorted_wrt task_le (drain V) \<and> mset (drain V) = mset V"
proof (induction "length V" arbitrary: V rule: less_induct)
  case less
  show ?case
  proof (cases "V = []")
    case True
    then show ?thesis by (simp add: drain.simps)
  next
    case False
    obtain V' where V': "drain V = V ! 0 # drain V'" "heap_ok V'" "mset V = add_mset (V ! 0) (mset V')"
        "length V' < length V" "\<forall>y \<in> set V'. task_le (V ! 0) y"
      using drain_step [OF less.prems False] by blast
    have IH: "sorted_wrt task_le (drain V')" "mset (drain V') = mset V'"
      using less.hyps [OF V'(4,2)] by auto
    then have "set (drain V') = set V'" by (metis set_mset_mset)
    then show ?thesis using V' IH by simp
  qed
qed

lemma foldl_push_ok:
  assumes "distinct (map tid xs)"
  shows "heap_ok (foldl t_push [] xs) \<and> mset (foldl t_push [] xs) = mset xs"
  using assms
proof (induction xs rule: rev_induct)
  case (snoc x xs)
  then have IH: "heap_ok (foldl t_push [] xs)" "mset (foldl t_push [] xs) = mset xs" by auto
  then have "set (foldl t_push [] xs) = set xs" by (metis set_mset_mset)
  with IH snoc.prems show ?case by (simp add: t_push_ok)
qed (simp add: heap_ok_def heap_def)

text \<open>
  C24. Tasks with different identifiers that are pushed into an empty heap in any order and then
  popped come out complete and sorted: by their sort index and, for equal ones, by their
  identifier, so that tasks of equal urgency keep their order of creation.
\<close>

theorem heap_sorts:
  assumes "distinct (map tid xs)"
  shows "sorted_wrt task_le (drain (foldl t_push [] xs)) \<and> mset (drain (foldl t_push [] xs)) = mset xs"
  using foldl_push_ok [OF assms] drain_sorted by fastforce

definition demo_tasks :: "unit task list" where
  "demo_tasks = map (\<lambda>(n, s). \<lparr>tid = n, callback = None, priorityLevel = 3, startTime = 0, expirationTime = s, sortIndex = s\<rparr>)
     [(1, 5), (2, 3), (3, 5), (4, 1), (5, 3)]"

theorem heap_sorts_witness:
  "map tid (drain (foldl t_push [] demo_tasks)) = [4, 2, 5, 1, 3] \<and>
   sorted_wrt task_le (drain (foldl t_push [] demo_tasks))"
proof -
  have d: "distinct (map tid demo_tasks)" by (simp add: demo_tasks_def)
  have "map tid (drain (foldl t_push [] demo_tasks)) = [4, 2, 5, 1, 3]" by code_simp
  with heap_sorts [OF d] show ?thesis by blast
qed

end
