(* ===== verification/Scheduler.thy ===== *)
theory Scheduler
  imports Sched_Heap
begin

text \<open>
  React's cooperative scheduler (\<open>src/internal/admin/dist/index-DxrWcVFD.js\<close>, function \<open>V$\<close>): the
  task and timer queues, the delayed and immediate scheduling of callbacks, the host callbacks
  \<open>M\<close> (a timeout fires) and \<open>oe\<close> (a message arrives) and the work loop.  The module's variables
  are the fields of one record; the host's message port and timeouts are the fields after them.
  A callback is a name, and what it does when called is given by a parameter: the calls of the
  scheduler's interface it makes and how it ends.  Time passes only where a callback or the
  environment says so.
\<close>

record 'cb sched =
  g_taskQueue :: "'cb task list"
  b_timerQueue :: "'cb task list"
  O_taskIdCounter :: int
  S_currentTask :: "int option"
  E_currentPriorityLevel :: int
  w_isPerformingWork :: bool
  D_isHostCallbackScheduled :: bool
  C_isHostTimeoutScheduled :: bool
  R_needsPaint :: bool
  B_isMessageLoopRunning :: bool
  k_taskTimeoutID :: int
  X_frameInterval :: int
  F_startTime :: rat
  now :: rat
  messages :: nat
  timeouts :: "(int \<times> rat) list"
  nextTimeout :: int
  ran :: "('cb task \<times> rat) list" \<comment> \<open>the calls made so far, with the time of each\<close>

definition sched_init :: "'cb sched" where
  "sched_init = \<lparr>g_taskQueue = [], b_timerQueue = [], O_taskIdCounter = 1, S_currentTask = None,
     E_currentPriorityLevel = 3, w_isPerformingWork = False, D_isHostCallbackScheduled = False,
     C_isHostTimeoutScheduled = False, R_needsPaint = False, B_isMessageLoopRunning = False,
     k_taskTimeoutID = -1, X_frameInterval = 5, F_startTime = -1, now = 0, messages = 0,
     timeouts = [], nextTimeout = 1, ran = []\<rparr>"

section \<open>The host\<close>

definition Q_schedulePerformWork :: "'cb sched \<Rightarrow> 'cb sched" where
  "Q_schedulePerformWork s = s\<lparr>messages := messages s + 1\<rparr>"

definition L_clearTimeout :: "int \<Rightarrow> 'cb sched \<Rightarrow> 'cb sched" where
  "L_clearTimeout n s = s\<lparr>timeouts := filter (\<lambda>t. fst t \<noteq> n) (timeouts s)\<rparr>"

text \<open>The only function that is ever passed to \<open>be\<close> is the timeout handler \<open>M\<close>.\<close>

definition be_requestHostTimeout :: "rat \<Rightarrow> 'cb sched \<Rightarrow> 'cb sched" where
  "be_requestHostTimeout W s = s\<lparr>k_taskTimeoutID := nextTimeout s,
     timeouts := timeouts s @ [(nextTimeout s, now s + max 0 W)], nextTimeout := nextTimeout s + 1\<rparr>"

section \<open>Timers\<close>

lemma length_siftDown [simp]: "length (i_siftDown V fe n) = length V"
proof (induction V fe n rule: i_siftDown.induct)
  case (1 V fe n)
  then show ?case by (subst i_siftDown.simps) (auto simp: Let_def)
qed

lemma length_i_pop [simp]: "length (snd (i_pop V)) = length V - 1"
  by (auto simp: i_pop_def Let_def)

function dl_advanceTimers :: "rat \<Rightarrow> 'cb task list \<times> 'cb task list \<Rightarrow> 'cb task list \<times> 'cb task list" where
  "dl_advanceTimers V (g, b) =
     (case a_peek b of None \<Rightarrow> (g, b)
      | Some W \<Rightarrow>
          if callback W = None then dl_advanceTimers V (g, snd (i_pop b))
          else if startTime W \<le> V
          then dl_advanceTimers V (t_push g (W\<lparr>sortIndex := expirationTime W\<rparr>), snd (i_pop b))
          else (g, b))"
  by pat_completeness auto
termination
  by (relation "measure (\<lambda>(V, g, b). length b)") (auto simp: a_peek_Some)

declare dl_advanceTimers.simps [simp del]

definition advance :: "rat \<Rightarrow> 'cb sched \<Rightarrow> 'cb sched" where
  "advance V s = (let r = dl_advanceTimers V (g_taskQueue s, b_timerQueue s) in
     s\<lparr>g_taskQueue := fst r, b_timerQueue := snd r\<rparr>)"

definition M_handleTimeout :: "rat \<Rightarrow> 'cb sched \<Rightarrow> 'cb sched" where
  "M_handleTimeout V s = (let s = advance V (s\<lparr>C_isHostTimeoutScheduled := False\<rparr>) in
     if \<not> D_isHostCallbackScheduled s then
       (if a_peek (g_taskQueue s) \<noteq> None then
          let s = s\<lparr>D_isHostCallbackScheduled := True\<rparr> in
          if B_isMessageLoopRunning s then s
          else Q_schedulePerformWork (s\<lparr>B_isMessageLoopRunning := True\<rparr>)
        else case a_peek (b_timerQueue s) of None \<Rightarrow> s
             | Some W \<Rightarrow> be_requestHostTimeout (startTime W - V) s)
     else s)"

definition re_shouldYield :: "'cb sched \<Rightarrow> bool" where
  "re_shouldYield s \<longleftrightarrow> R_needsPaint s \<or> \<not> (now s - F_startTime s < of_int (X_frameInterval s))"

section \<open>The interface\<close>

definition timeout_of :: "int \<Rightarrow> rat" where
  "timeout_of V = (if V = 1 then -1 else if V = 2 then 250 else if V = 5 then 1073741823
     else if V = 4 then 10000 else 5000)"

text \<open>\<open>fe\<close> is the \<open>delay\<close> option when it is a number, and none otherwise.\<close>

definition e_scheduleCallback :: "int \<Rightarrow> 'cb \<Rightarrow> rat option \<Rightarrow> 'cb sched \<Rightarrow> 'cb task \<times> 'cb sched" where
  "e_scheduleCallback V W fe s =
     (let Ee = now s;
          st = (case fe of Some d \<Rightarrow> if 0 < d then Ee + d else Ee | None \<Rightarrow> Ee);
          ae = st + timeout_of V;
          task = \<lparr>tid = O_taskIdCounter s, callback = Some W, priorityLevel = V, startTime = st,
                  expirationTime = ae, sortIndex = -1\<rparr>;
          s = s\<lparr>O_taskIdCounter := O_taskIdCounter s + 1\<rparr> in
      if Ee < st then
        let task = task\<lparr>sortIndex := st\<rparr>;
            s = s\<lparr>b_timerQueue := t_push (b_timerQueue s) task\<rparr> in
        (task,
         if a_peek (g_taskQueue s) = None \<and> map_option tid (a_peek (b_timerQueue s)) = Some (tid task) then
           be_requestHostTimeout (st - Ee)
             (if C_isHostTimeoutScheduled s then (L_clearTimeout (k_taskTimeoutID s) s)\<lparr>k_taskTimeoutID := -1\<rparr>
              else s\<lparr>C_isHostTimeoutScheduled := True\<rparr>)
         else s)
      else
        let task = task\<lparr>sortIndex := ae\<rparr>;
            s = s\<lparr>g_taskQueue := t_push (g_taskQueue s) task\<rparr> in
        (task,
         if D_isHostCallbackScheduled s \<or> w_isPerformingWork s then s
         else let s = s\<lparr>D_isHostCallbackScheduled := True\<rparr> in
           if B_isMessageLoopRunning s then s
           else Q_schedulePerformWork (s\<lparr>B_isMessageLoopRunning := True\<rparr>)))"

text \<open>A task object is updated in the queue that holds it.\<close>

definition set_callback :: "int \<Rightarrow> 'cb option \<Rightarrow> 'cb task list \<Rightarrow> 'cb task list" where
  "set_callback n f V = map (\<lambda>x. if tid x = n then x\<lparr>callback := f\<rparr> else x) V"

definition put_callback :: "int \<Rightarrow> 'cb option \<Rightarrow> 'cb sched \<Rightarrow> 'cb sched" where
  "put_callback n f s = s\<lparr>g_taskQueue := set_callback n f (g_taskQueue s),
     b_timerQueue := set_callback n f (b_timerQueue s)\<rparr>"

definition e_cancelCallback :: "int \<Rightarrow> 'cb sched \<Rightarrow> 'cb sched" where
  "e_cancelCallback n = put_callback n None"

definition e_forceFrameRate :: "int \<Rightarrow> 'cb sched \<Rightarrow> 'cb sched" where
  "e_forceFrameRate V s = (if 0 > V \<or> 125 < V then s
     else s\<lparr>X_frameInterval := if 0 < V then 1000 div V else 5\<rparr>)"

definition e_requestPaint :: "'cb sched \<Rightarrow> 'cb sched" where
  "e_requestPaint s = s\<lparr>R_needsPaint := True\<rparr>"

definition with_priority :: "int \<Rightarrow> ('cb sched \<Rightarrow> 'cb sched) \<Rightarrow> 'cb sched \<Rightarrow> 'cb sched" where
  "with_priority V f s = (let fe = E_currentPriorityLevel s in
     (f (s\<lparr>E_currentPriorityLevel := V\<rparr>))\<lparr>E_currentPriorityLevel := fe\<rparr>)"

definition e_runWithPriority :: "int \<Rightarrow> ('cb sched \<Rightarrow> 'cb sched) \<Rightarrow> 'cb sched \<Rightarrow> 'cb sched" where
  "e_runWithPriority V = with_priority (if V \<in> {1, 2, 3, 4, 5} then V else 3)"

definition e_next :: "('cb sched \<Rightarrow> 'cb sched) \<Rightarrow> 'cb sched \<Rightarrow> 'cb sched" where
  "e_next f s = with_priority (if E_currentPriorityLevel s \<in> {1, 2, 3} then 3 else E_currentPriorityLevel s) f s"

definition e_wrapCallback :: "'cb sched \<Rightarrow> ('cb sched \<Rightarrow> 'cb sched) \<Rightarrow> 'cb sched \<Rightarrow> 'cb sched" where
  "e_wrapCallback s0 f = with_priority (E_currentPriorityLevel s0) f"

text \<open>What code outside the scheduler may do: call its interface, nest such calls, or take time.\<close>

datatype 'cb api =
    Schedule int 'cb "rat option"
  | Cancel int
  | ForceFrameRate int
  | RequestPaint
  | RunWithPriority int "'cb api list"
  | Next "'cb api list"
  | Elapse rat

primrec run_api :: "'cb api \<Rightarrow> 'cb sched \<Rightarrow> 'cb sched" where
  "run_api (Schedule V W d) = (\<lambda>s. snd (e_scheduleCallback V W d s))"
| "run_api (Cancel n) = e_cancelCallback n"
| "run_api (ForceFrameRate V) = e_forceFrameRate V"
| "run_api RequestPaint = e_requestPaint"
| "run_api (RunWithPriority V fs) = e_runWithPriority V (fold id (map run_api fs))"
| "run_api (Next fs) = e_next (fold id (map run_api fs))"
| "run_api (Elapse d) = (\<lambda>s. s\<lparr>now := now s + max 0 d\<rparr>)"

datatype 'cb outcome = Cont 'cb | Done | Throws

text \<open>The parameter: the calls a callback makes, and how it ends, given \<open>didTimeout\<close>.\<close>

type_synonym 'cb behaviour = "'cb \<Rightarrow> bool \<Rightarrow> 'cb api list \<times> 'cb outcome"

section \<open>The work loop\<close>

datatype loop_exit = More | Idle | Threw

text \<open>
  The loop of \<open>oe\<close> over the task queue.  A callback that keeps scheduling urgent work keeps it
  going, so it has fuel.
\<close>

fun oe_loop :: "'cb behaviour \<Rightarrow> nat \<Rightarrow> rat \<Rightarrow> 'cb sched \<Rightarrow> (loop_exit \<times> 'cb sched) option" where
  "oe_loop beh 0 V s = None"
| "oe_loop beh (Suc n) V s =
     (case a_peek (g_taskQueue s) of
        None \<Rightarrow> Some (Idle, case a_peek (b_timerQueue s) of None \<Rightarrow> s
                             | Some q \<Rightarrow> be_requestHostTimeout (startTime q - V) s)
      | Some S \<Rightarrow>
          if expirationTime S > V \<and> re_shouldYield s then Some (More, s)
          else case callback S of
            Some Ee \<Rightarrow>
              let s1 = (put_callback (tid S) None s)\<lparr>S_currentTask := Some (tid S),
                         E_currentPriorityLevel := priorityLevel S, ran := ran s @ [(S, now s)]\<rparr>;
                  (acts, out) = beh Ee (expirationTime S \<le> V);
                  s2 = fold run_api acts s1;
                  V' = now s2 in
              (case out of
                 Throws \<Rightarrow> Some (Threw, s2)
               | Cont ae \<Rightarrow> Some (More, advance V' (put_callback (tid S) (Some ae) s2))
               | Done \<Rightarrow> oe_loop beh n V' (advance V'
                   (if Some (tid S) = map_option tid (a_peek (g_taskQueue s2))
                    then s2\<lparr>g_taskQueue := snd (i_pop (g_taskQueue s2))\<rparr> else s2)))
          | None \<Rightarrow> oe_loop beh n V (s\<lparr>g_taskQueue := snd (i_pop (g_taskQueue s))\<rparr>))"

text \<open>
  The message handler.  Every way out of the loop resets the current task, restores the priority
  level and clears \<open>w\<close>; unless the loop ended with nothing left to run the next message is posted,
  also when a callback threw.
\<close>

definition oe_performWorkUntilDeadline :: "'cb behaviour \<Rightarrow> nat \<Rightarrow> 'cb sched \<Rightarrow> 'cb sched option" where
  "oe_performWorkUntilDeadline beh fuel s0 =
     (let s = s0\<lparr>R_needsPaint := False\<rparr> in
      if \<not> B_isMessageLoopRunning s then Some s
      else
        let V = now s;
            s = s\<lparr>F_startTime := V, D_isHostCallbackScheduled := False\<rparr>;
            s = (if C_isHostTimeoutScheduled s
                 then (L_clearTimeout (k_taskTimeoutID s) (s\<lparr>C_isHostTimeoutScheduled := False\<rparr>))\<lparr>k_taskTimeoutID := -1\<rparr>
                 else s);
            fe = E_currentPriorityLevel s in
        (case oe_loop beh fuel V (advance V (s\<lparr>w_isPerformingWork := True\<rparr>)) of
           None \<Rightarrow> None
         | Some (x, s) \<Rightarrow>
             let s = s\<lparr>S_currentTask := None, E_currentPriorityLevel := fe, w_isPerformingWork := False\<rparr> in
             Some (if x = Idle then s\<lparr>B_isMessageLoopRunning := False\<rparr> else Q_schedulePerformWork s)))"

text \<open>
  The scheduler in its environment: other code runs, the posted message is delivered, or a
  timeout that is due fires.
\<close>

inductive sched_step :: "'cb behaviour \<Rightarrow> 'cb sched \<Rightarrow> 'cb sched \<Rightarrow> bool" for beh where
  outside: "sched_step beh s (run_api f s)"
| message: "0 < messages s \<Longrightarrow> oe_performWorkUntilDeadline beh fuel (s\<lparr>messages := messages s - 1\<rparr>) = Some s' \<Longrightarrow>
    sched_step beh s s'"
| timeout: "(n, due) \<in> set (timeouts s) \<Longrightarrow> due \<le> now s \<Longrightarrow>
    sched_step beh s (M_handleTimeout (now s) (L_clearTimeout n s))"

inductive sched_reach :: "'cb behaviour \<Rightarrow> 'cb sched \<Rightarrow> bool" for beh where
  start: "sched_reach beh sched_init"
| step: "sched_reach beh s \<Longrightarrow> sched_step beh s s' \<Longrightarrow> sched_reach beh s'"

section \<open>The invariant of the queues\<close>

definition queues_ok :: "int \<Rightarrow> rat \<Rightarrow> 'cb task list \<times> 'cb task list \<Rightarrow> bool" where
  "queues_ok n T q \<longleftrightarrow> heap_ok (fst q) \<and> heap_ok (snd q) \<and> tid ` set (fst q) \<inter> tid ` set (snd q) = {} \<and>
     (\<forall>x \<in> set (fst q). sortIndex x = expirationTime x \<and> startTime x \<le> T \<and> tid x < n) \<and>
     (\<forall>x \<in> set (snd q). sortIndex x = startTime x \<and> tid x < n)"

lemma set_t_push [simp]: "set (t_push V W) = insert W (set V)"
  by (metis set_mset_add_mset_insert set_mset_mset t_push_mset)

lemma set_i_pop: "heap_ok V \<Longrightarrow> a_peek V = Some x \<Longrightarrow> set V = insert x (set (snd (i_pop V)))"
  by (metis set_mset_add_mset_insert set_mset_mset task_queue.pop_elems)

lemma tid_i_pop: "heap_ok V \<Longrightarrow> a_peek V = Some x \<Longrightarrow> tid x \<notin> tid ` set (snd (i_pop V))"
proof -
  assume a: "heap_ok V" "a_peek V = Some x"
  then have "mset V = mset (x # snd (i_pop V))" using task_queue.pop_elems by simp
  with mset_tids [OF this] a(1) show ?thesis by (auto simp: heap_ok_def)
qed

lemma set_i_pop_subset: "heap_ok V \<Longrightarrow> set (snd (i_pop V)) \<subseteq> set V"
  by (cases "a_peek V") (use set_i_pop in fastforce)+

lemma queues_ok_pop_g:
  "queues_ok n T (g, b) \<Longrightarrow> queues_ok n T (snd (i_pop g), b)"
  using set_i_pop_subset [of g] task_queue.pop_good [of g] by (auto simp: queues_ok_def)

lemma queues_ok_pop_b:
  "queues_ok n T (g, b) \<Longrightarrow> queues_ok n T (g, snd (i_pop b))"
  using set_i_pop_subset [of b] task_queue.pop_good [of b] by (auto simp: queues_ok_def)

lemma queues_ok_move:
  assumes "queues_ok n T (g, b)" and "a_peek b = Some W" and "startTime W \<le> T"
  shows "queues_ok n T (t_push g (W\<lparr>sortIndex := expirationTime W\<rparr>), snd (i_pop b))"
proof -
  have hb: "heap_ok b" using assms(1) by (simp add: queues_ok_def)
  have W: "W \<in> set b" using set_i_pop [OF hb assms(2)] by simp
  then have "tid W \<notin> tid ` set g" using assms(1) by (auto simp: queues_ok_def)
  then have "heap_ok (t_push g (W\<lparr>sortIndex := expirationTime W\<rparr>))"
    using assms(1) by (intro t_push_ok) (auto simp: queues_ok_def)
  then show ?thesis
    using assms W tid_i_pop [OF hb assms(2)] set_i_pop_subset [OF hb] task_queue.pop_good [OF hb]
    by (auto simp: queues_ok_def)
qed

lemma advance_cases:
  obtains (stop) "dl_advanceTimers V (g, b) = (g, b)" "\<forall>W. a_peek b = Some W \<longrightarrow> callback W \<noteq> None \<and> V < startTime W"
  | (skip) W where "a_peek b = Some W" "callback W = None"
      "dl_advanceTimers V (g, b) = dl_advanceTimers V (g, snd (i_pop b))" "length (snd (i_pop b)) < length b"
  | (move) W where "a_peek b = Some W" "callback W \<noteq> None" "startTime W \<le> V"
      "dl_advanceTimers V (g, b) = dl_advanceTimers V (t_push g (W\<lparr>sortIndex := expirationTime W\<rparr>), snd (i_pop b))"
      "length (snd (i_pop b)) < length b"
proof (cases "a_peek b")
  case None
  then show ?thesis by (intro stop) (simp_all add: dl_advanceTimers.simps)
next
  case (Some W)
  then have l: "length (snd (i_pop b)) < length b" by (auto simp: a_peek_Some)
  consider "callback W = None" | "callback W \<noteq> None" "startTime W \<le> V" | "callback W \<noteq> None" "V < startTime W"
    by fastforce
  then show ?thesis
  proof cases
    case 1
    then show ?thesis using Some l by (intro skip) (simp_all add: dl_advanceTimers.simps [of V g b])
  next
    case 2
    then show ?thesis using Some l by (intro move) (auto simp: dl_advanceTimers.simps [of V g b])
  next
    case 3
    then show ?thesis using Some by (intro stop) (auto simp: dl_advanceTimers.simps [of V g b])
  qed
qed

lemma advance_queues_ok:
  assumes "queues_ok n T (g, b)" and "V \<le> T"
  shows "queues_ok n T (dl_advanceTimers V (g, b))"
  using assms(1)
proof (induction "length b" arbitrary: g b rule: less_induct)
  case less
  show ?case
  proof (cases rule: advance_cases [of V g b])
    case stop
    then show ?thesis using less.prems by simp
  next
    case (skip W)
    then show ?thesis using less.hyps [OF skip(4)] queues_ok_pop_b [OF less.prems] by simp
  next
    case (move W)
    then have "startTime W \<le> T" using assms(2) by simp
    from queues_ok_move [OF less.prems move(1) this] less.hyps [OF move(5)] move(4)
    show ?thesis by simp
  qed
qed

text \<open>What \<open>advanceTimers\<close> does: the timers that are due move to the task queue, nothing else does.\<close>

lemma advance_sets:
  assumes "queues_ok n T (g, b)" and "V \<le> T" and "dl_advanceTimers V (g, b) = (g', b')"
  shows "set g' = set g \<union> {x\<lparr>sortIndex := expirationTime x\<rparr> |x. x \<in> set b - set b' \<and> callback x \<noteq> None} \<and>
         set b' \<subseteq> set b \<and> (\<forall>x \<in> set b - set b'. callback x = None \<or> startTime x \<le> V) \<and>
         (\<forall>x \<in> set b'. V < startTime x)"
  using assms(1,3)
proof (induction "length b" arbitrary: g b rule: less_induct)
  case less
  have hb: "heap_ok b" and sb: "\<forall>x \<in> set b. sortIndex x = startTime x"
    using less.prems(1) by (auto simp: queues_ok_def)
  show ?case
  proof (cases rule: advance_cases [of V g b])
    case stop
    have "V < startTime x" if x: "x \<in> set b" for x
    proof -
      obtain W where W: "a_peek b = Some W" using x by (cases "a_peek b") auto
      then have "task_le W x" "W \<in> set b" using task_queue.peek_least [OF hb W] x by auto
      then have "startTime W \<le> startTime x" using sb x by (auto simp: task_le_def)
      then show ?thesis using stop W by fastforce
    qed
    then show ?thesis using stop(1) less.prems(2) by auto
  next
    case (skip W)
    note p = set_i_pop [OF hb skip(1)] and q = tid_i_pop [OF hb skip(1)]
    have IH: "set g' = set g \<union> {x\<lparr>sortIndex := expirationTime x\<rparr> |x. x \<in> set (snd (i_pop b)) - set b' \<and> callback x \<noteq> None} \<and>
         set b' \<subseteq> set (snd (i_pop b)) \<and> (\<forall>x \<in> set (snd (i_pop b)) - set b'. callback x = None \<or> startTime x \<le> V) \<and>
         (\<forall>x \<in> set b'. V < startTime x)"
      using less.hyps [OF skip(4)] queues_ok_pop_b [OF less.prems(1)] less.prems(2) skip(3) by simp
    then have "W \<notin> set b'" using q by blast
    with IH p skip(2) show ?thesis by auto
  next
    case (move W)
    note p = set_i_pop [OF hb move(1)] and q = tid_i_pop [OF hb move(1)]
    have "startTime W \<le> T" using move(3) assms(2) by simp
    from less.hyps [OF move(5) queues_ok_move [OF less.prems(1) move(1) this]] less.prems(2) move(4)
    have IH: "set g' = insert (W\<lparr>sortIndex := expirationTime W\<rparr>) (set g) \<union>
           {x\<lparr>sortIndex := expirationTime x\<rparr> |x. x \<in> set (snd (i_pop b)) - set b' \<and> callback x \<noteq> None} \<and>
         set b' \<subseteq> set (snd (i_pop b)) \<and> (\<forall>x \<in> set (snd (i_pop b)) - set b'. callback x = None \<or> startTime x \<le> V) \<and>
         (\<forall>x \<in> set b'. V < startTime x)"
      by simp
    then have "W \<notin> set b'" using q by blast
    with IH p move(2,3) show ?thesis by auto
  qed
qed

section \<open>Invariants under the interface\<close>

text \<open>
  A property of scheduler states that the elementary calls keep is kept by whatever code outside
  the scheduler does, nested priority blocks included.
\<close>

locale api_invariant =
  fixes P :: "'cb sched \<Rightarrow> bool"
  assumes schedule: "P s \<Longrightarrow> P (snd (e_scheduleCallback V W d s))"
    and cancel: "P s \<Longrightarrow> P (e_cancelCallback n s)"
    and priority: "P s \<Longrightarrow> P (s\<lparr>E_currentPriorityLevel := V\<rparr>)"
    and frame: "P s \<Longrightarrow> P (s\<lparr>X_frameInterval := X\<rparr>)"
    and paint: "P s \<Longrightarrow> P (s\<lparr>R_needsPaint := True\<rparr>)"
    and elapse: "P s \<Longrightarrow> 0 \<le> e \<Longrightarrow> P (s\<lparr>now := now s + e\<rparr>)"
begin

lemma fold_inv: "(\<And>f s. f \<in> set fs \<Longrightarrow> P s \<Longrightarrow> P (run_api f s)) \<Longrightarrow> P s \<Longrightarrow> P (fold run_api fs s)"
  by (induction fs arbitrary: s) auto

lemma run_api: "P s \<Longrightarrow> P (run_api f s)"
proof (induction f arbitrary: s)
  case (RunWithPriority V fs)
  then show ?case
    using fold_inv [of fs] by (simp add: e_runWithPriority_def with_priority_def Let_def fold_map priority)
next
  case (Next fs)
  then show ?case
    using fold_inv [of fs] by (simp add: e_next_def with_priority_def Let_def fold_map priority)
qed (simp_all add: schedule cancel frame paint elapse e_forceFrameRate_def e_requestPaint_def)

lemma run_apis: "P s \<Longrightarrow> P (fold run_api fs s)"
  by (rule fold_inv) (rule run_api)

end

definition sched_ok :: "'cb sched \<Rightarrow> bool" where
  "sched_ok s \<longleftrightarrow> queues_ok (O_taskIdCounter s) (now s) (g_taskQueue s, b_timerQueue s) \<and>
     (\<forall>(x, t) \<in> set (ran s). startTime x \<le> t)"

lemma tid_set_callback [simp]: "map tid (set_callback n f V) = map tid V"
  by (simp add: set_callback_def comp_def if_distrib cong: if_cong)

lemma set_callback_nth:
  "i < length V \<Longrightarrow> sortIndex (set_callback n f V ! i) = sortIndex (V ! i) \<and> tid (set_callback n f V ! i) = tid (V ! i)"
  by (simp add: set_callback_def)

lemma length_set_callback [simp]: "length (set_callback n f V) = length V"
  by (simp add: set_callback_def)

lemma set_callback_le:
  "i < length V \<Longrightarrow> j < length V \<Longrightarrow> task_le (set_callback n f V ! i) (set_callback n f V ! j) = task_le (V ! i) (V ! j)"
  by (simp add: task_le_def set_callback_nth)

lemma heap_set_callback: "heap_ok V \<Longrightarrow> heap_ok (set_callback n f V)"
  by (auto simp: heap_ok_def heap_def set_callback_le)

lemma set_set_callback: "x \<in> set (set_callback n f V) \<longleftrightarrow>
   (\<exists>y \<in> set V. x = (if tid y = n then y\<lparr>callback := f\<rparr> else y))"
  unfolding set_callback_def set_map image_iff ..

lemma tids_set_callback [simp]: "tid ` set (set_callback n f V) = tid ` set V"
  by (metis set_map tid_set_callback)

lemma set_callback_Nil [simp]: "set_callback n f V = [] \<longleftrightarrow> V = []" "set_callback n f [] = []"
  by (auto simp: set_callback_def)

lemma put_callback_ok: "sched_ok s \<Longrightarrow> sched_ok (put_callback n f s)"
  by (auto simp: sched_ok_def queues_ok_def put_callback_def heap_set_callback set_set_callback)

lemma queues_ok_later: "queues_ok n T q \<Longrightarrow> T \<le> T' \<Longrightarrow> n \<le> n' \<Longrightarrow> queues_ok n' T' q"
  unfolding queues_ok_def by (blast intro: order_trans order_less_le_trans)

lemma queues_ok_push_g:
  "queues_ok n T (g, b) \<Longrightarrow> tid x = n \<Longrightarrow> sortIndex x = expirationTime x \<Longrightarrow> startTime x \<le> T \<Longrightarrow>
   queues_ok (n + 1) T (t_push g x, b)"
  by (fastforce simp: queues_ok_def intro: t_push_ok)

lemma queues_ok_push_b:
  "queues_ok n T (g, b) \<Longrightarrow> tid x = n \<Longrightarrow> sortIndex x = startTime x \<Longrightarrow>
   queues_ok (n + 1) T (g, t_push b x)"
  by (fastforce simp: queues_ok_def intro: t_push_ok)

lemmas host_defs = Q_schedulePerformWork_def L_clearTimeout_def be_requestHostTimeout_def

lemma schedule_ok: "sched_ok s \<Longrightarrow> sched_ok (snd (e_scheduleCallback V W d s))"
  by (auto simp: sched_ok_def e_scheduleCallback_def Let_def host_defs
      intro!: queues_ok_push_g queues_ok_push_b split: option.splits)

interpretation ok: api_invariant sched_ok
proof
  show "sched_ok (s\<lparr>now := now s + e\<rparr>)" if "sched_ok s" "0 \<le> e" for s :: "'b sched" and e
    using that queues_ok_later [of _ "now s" _ "now s + e"] by (auto simp: sched_ok_def)
qed (simp_all add: schedule_ok put_callback_ok e_cancelCallback_def, simp_all add: sched_ok_def)

text \<open>Inside the message handler: its flags, and a task queue that holds the task being run.\<close>

definition working :: "'cb sched \<Rightarrow> bool" where
  "working s \<longleftrightarrow> w_isPerformingWork s \<and> B_isMessageLoopRunning s \<and> messages s = 0 \<and> \<not> D_isHostCallbackScheduled s"

definition running :: "'cb sched \<Rightarrow> bool" where
  "running s \<longleftrightarrow> working s \<and> g_taskQueue s \<noteq> []"

lemma t_push_not_Nil [simp]: "t_push V W \<noteq> []"
  using t_push_mset [of V W] by (metis add_mset_not_empty mset.simps(1))

interpretation run: api_invariant running
  by unfold_locales
    (auto simp: running_def working_def e_scheduleCallback_def Let_def e_cancelCallback_def put_callback_def host_defs
      split: option.splits)

section \<open>The work loop keeps the invariants\<close>

lemma advance_sel [simp]:
  "now (advance V s) = now s" "ran (advance V s) = ran s" "working (advance V s) = working s"
  "messages (advance V s) = messages s" "timeouts (advance V s) = timeouts s"
  "B_isMessageLoopRunning (advance V s) = B_isMessageLoopRunning s"
  "D_isHostCallbackScheduled (advance V s) = D_isHostCallbackScheduled s"
  "w_isPerformingWork (advance V s) = w_isPerformingWork s"
  "O_taskIdCounter (advance V s) = O_taskIdCounter s"
  by (simp_all add: advance_def working_def Let_def)

lemma advance_ok:
  assumes "sched_ok s" and "V \<le> now s"
  shows "sched_ok (advance V s)"
  using assms advance_queues_ok [of "O_taskIdCounter s" "now s" "g_taskQueue s" "b_timerQueue s" V]
  by (simp add: sched_ok_def advance_def Let_def)

lemma advance_g:
  assumes "sched_ok s" and "V \<le> now s"
  shows "set (g_taskQueue s) \<subseteq> set (g_taskQueue (advance V s))"
  using assms advance_sets [of "O_taskIdCounter s" "now s" "g_taskQueue s" "b_timerQueue s" V]
  by (cases "dl_advanceTimers V (g_taskQueue s, b_timerQueue s)") (auto simp: sched_ok_def advance_def Let_def)

lemma advance_g_Nil: "sched_ok s \<Longrightarrow> V \<le> now s \<Longrightarrow> g_taskQueue s \<noteq> [] \<Longrightarrow> g_taskQueue (advance V s) \<noteq> []"
  using advance_g [of s V] by (cases "g_taskQueue s") auto

lemma pop_g_ok: "sched_ok s \<Longrightarrow> sched_ok (s\<lparr>g_taskQueue := snd (i_pop (g_taskQueue s))\<rparr>)"
  by (auto simp: sched_ok_def intro: queues_ok_pop_g)

text \<open>The state in which the callback of the task at the head of the queue starts.\<close>

definition start_task :: "'cb task \<Rightarrow> 'cb sched \<Rightarrow> 'cb sched" where
  "start_task S s = (put_callback (tid S) None s)\<lparr>S_currentTask := Some (tid S),
     E_currentPriorityLevel := priorityLevel S, ran := ran s @ [(S, now s)]\<rparr>"

lemma start_task_ok:
  assumes "sched_ok s" and "a_peek (g_taskQueue s) = Some S"
  shows "sched_ok (start_task S s)"
proof -
  have "S \<in> set (g_taskQueue s)" using assms(2) by (auto simp: a_peek_Some)
  then have "startTime S \<le> now s" using assms(1) by (auto simp: sched_ok_def queues_ok_def)
  then show ?thesis
    using put_callback_ok [OF assms(1), of "tid S" None] by (auto simp: sched_ok_def start_task_def put_callback_def)
qed

lemma start_task_running: "working s \<Longrightarrow> a_peek (g_taskQueue s) = Some S \<Longrightarrow> running (start_task S s)"
  by (auto simp: running_def working_def start_task_def put_callback_def a_peek_Some)

lemma put_callback_running: "running s \<Longrightarrow> running (put_callback n f s)"
  by (simp add: running_def working_def put_callback_def)

text \<open>The cases of one round of the loop.\<close>

lemma oe_loop_cases:
  assumes "oe_loop beh (Suc n) V s = Some (x, s')"
  obtains "g_taskQueue s = []" "x = Idle"
      "s' = (case a_peek (b_timerQueue s) of None \<Rightarrow> s | Some q \<Rightarrow> be_requestHostTimeout (startTime q - V) s)"
  | S where "a_peek (g_taskQueue s) = Some S" "x = More" "s' = s"
  | S where "a_peek (g_taskQueue s) = Some S" "callback S = None"
      "oe_loop beh n V (s\<lparr>g_taskQueue := snd (i_pop (g_taskQueue s))\<rparr>) = Some (x, s')"
  | S f acts where "a_peek (g_taskQueue s) = Some S" "callback S = Some f"
      "beh f (expirationTime S \<le> V) = (acts, Throws)" "x = Threw" "s' = fold run_api acts (start_task S s)"
  | S f acts ae where "a_peek (g_taskQueue s) = Some S" "callback S = Some f"
      "beh f (expirationTime S \<le> V) = (acts, Cont ae)" "x = More"
      "s' = advance (now (fold run_api acts (start_task S s))) (put_callback (tid S) (Some ae) (fold run_api acts (start_task S s)))"
  | S f acts where "a_peek (g_taskQueue s) = Some S" "callback S = Some f"
      "beh f (expirationTime S \<le> V) = (acts, Done)"
      "let s2 = fold run_api acts (start_task S s) in oe_loop beh n (now s2) (advance (now s2)
         (if Some (tid S) = map_option tid (a_peek (g_taskQueue s2))
          then s2\<lparr>g_taskQueue := snd (i_pop (g_taskQueue s2))\<rparr> else s2)) = Some (x, s')"
proof (cases "a_peek (g_taskQueue s)")
  case None
  then show ?thesis using assms by (intro that(1)) simp_all
next
  case (Some S)
  show ?thesis
  proof (cases "expirationTime S > V \<and> re_shouldYield s")
    case True
    then show ?thesis using assms Some by (intro that(2)) simp_all
  next
    case False
    show ?thesis
    proof (cases "callback S")
      case None
      then show ?thesis using assms Some False by (intro that(3)) (simp_all split: if_splits)
    next
      case f: (Some f)
      obtain acts out where b: "beh f (expirationTime S \<le> V) = (acts, out)" by fastforce
      show ?thesis
      proof (cases out)
        case Throws
        then show ?thesis using assms Some False f b
          by (intro that(4) [of S f acts]) (simp_all add: Let_def start_task_def split: if_splits)
      next
        case (Cont ae)
        then show ?thesis using assms Some False f b
          by (intro that(5) [of S f acts ae]) (simp_all add: Let_def start_task_def split: if_splits)
      next
        case Done
        then show ?thesis using assms Some False f b
          by (intro that(6) [of S f acts]) (simp_all add: Let_def start_task_def split: if_splits)
      qed
    qed
  qed
qed

definition loop_post :: "loop_exit \<Rightarrow> 'cb sched \<Rightarrow> bool" where
  "loop_post x s \<longleftrightarrow> sched_ok s \<and> working s \<and>
     (if x = Idle then g_taskQueue s = [] \<and>
        (\<forall>W. a_peek (b_timerQueue s) = Some W \<longrightarrow> (\<exists>t \<in> set (timeouts s). snd t \<le> max (now s) (startTime W)))
      else g_taskQueue s \<noteq> [])"

lemma be_ok [simp]: "sched_ok (be_requestHostTimeout d s) = sched_ok s" "working (be_requestHostTimeout d s) = working s"
  by (simp_all add: sched_ok_def working_def be_requestHostTimeout_def)

lemma oe_loop_post:
  assumes "oe_loop beh n (now s) s = Some (x, s')" and "sched_ok s" and "working s"
  shows "loop_post x s'"
  using assms
proof (induction n arbitrary: s)
  case (Suc n)
  show ?case
  proof (cases rule: oe_loop_cases [OF Suc.prems(1)])
    case 1
    show ?thesis
    proof (cases "a_peek (b_timerQueue s)")
      case None
      then show ?thesis using 1 Suc.prems by (simp add: loop_post_def)
    next
      case (Some q)
      have "sched_ok s'" "working s'" using 1 Some Suc.prems by simp_all
      then show ?thesis using 1 Some
        by (auto simp: loop_post_def be_requestHostTimeout_def max_def)
    qed
  next
    case (2 S)
    then show ?thesis using Suc.prems by (auto simp: loop_post_def a_peek_Some)
  next
    case (3 S)
    show ?thesis
      by (rule Suc.IH [OF _ pop_g_ok [OF Suc.prems(2)]]) (use 3 Suc.prems in \<open>simp_all add: working_def\<close>)
  next
    case (4 S f acts)
    then show ?thesis
      using ok.run_apis [OF start_task_ok [OF Suc.prems(2) 4(1)]] run.run_apis [OF start_task_running [OF Suc.prems(3) 4(1)]]
      by (simp add: loop_post_def running_def)
  next
    case (5 S f acts ae)
    define s2 where "s2 = put_callback (tid S) (Some ae) (fold run_api acts (start_task S s))"
    have n: "now (fold run_api acts (start_task S s)) = now s2" by (simp add: s2_def put_callback_def)
    have "sched_ok s2" "running s2"
      unfolding s2_def
      using ok.run_apis [OF start_task_ok [OF Suc.prems(2) 5(1)]] run.run_apis [OF start_task_running [OF Suc.prems(3) 5(1)]]
      by (simp_all add: put_callback_ok put_callback_running)
    then show ?thesis
      using 5 n advance_ok [of s2 "now s2"] advance_g_Nil [of s2 "now s2"]
      by (simp add: loop_post_def running_def s2_def [symmetric])
  next
    case (6 S f acts)
    define s2 where "s2 = fold run_api acts (start_task S s)"
    define s3 where "s3 = (if Some (tid S) = map_option tid (a_peek (g_taskQueue s2))
          then s2\<lparr>g_taskQueue := snd (i_pop (g_taskQueue s2))\<rparr> else s2)"
    have "sched_ok s2" "working s2"
      unfolding s2_def
      using ok.run_apis [OF start_task_ok [OF Suc.prems(2) 6(1)]] run.run_apis [OF start_task_running [OF Suc.prems(3) 6(1)]]
      by (simp_all add: running_def)
    then have s3: "sched_ok s3" "working s3" "now s3 = now s2"
      using pop_g_ok [of s2] by (auto simp: s3_def working_def)
    have "oe_loop beh n (now (advance (now s2) s3)) (advance (now s2) s3) = Some (x, s')"
      using 6(4) s3(3) by (simp add: Let_def s2_def [symmetric] s3_def [symmetric])
    then show ?thesis
      by (rule Suc.IH) (use s3 advance_ok [of s3 "now s2"] in simp_all)
  qed
qed simp

section \<open>No wake-up is lost\<close>

text \<open>
  Between two events: exactly one message is on its way when the message loop is running, it is
  running whenever the task queue holds something, and when only timers are left a pending
  timeout fires no later than the first of them is due.
\<close>

definition flags_ok :: "'cb sched \<Rightarrow> bool" where
  "flags_ok s \<longleftrightarrow> \<not> w_isPerformingWork s \<and> messages s = (if B_isMessageLoopRunning s then 1 else 0) \<and>
     (g_taskQueue s \<noteq> [] \<longrightarrow> B_isMessageLoopRunning s) \<and> (D_isHostCallbackScheduled s \<longrightarrow> g_taskQueue s \<noteq> [])"

definition timer_ok :: "'cb sched \<Rightarrow> bool" where
  "timer_ok s \<longleftrightarrow> (g_taskQueue s = [] \<longrightarrow> (\<forall>W. a_peek (b_timerQueue s) = Some W \<longrightarrow>
     (\<exists>t \<in> set (timeouts s). snd t \<le> max (now s) (startTime W))))"

definition wake_ok :: "'cb sched \<Rightarrow> bool" where
  "wake_ok s \<longleftrightarrow> sched_ok s \<and> flags_ok s \<and> timer_ok s"

lemma a_peek_set_callback:
  "a_peek (set_callback n f V) = Some W \<Longrightarrow> \<exists>W'. a_peek V = Some W' \<and> startTime W = startTime W'"
  by (auto simp: a_peek_Some set_callback_def)

lemma peek_push_other:
  assumes "heap_ok V" and "tid x \<notin> tid ` set V" and "a_peek (t_push V x) = Some W" and "tid W \<noteq> tid x"
  shows "a_peek V = Some W"
proof -
  have W: "W \<in> set V" "\<forall>y \<in> set V. task_le W y"
    using task_queue.peek_least [OF t_push_ok [OF assms(1,2)] assms(3)] assms(4) by auto
  then obtain Z where Z: "a_peek V = Some Z" by (cases "a_peek V") auto
  have "Z \<in> set V" "task_le Z W" using task_queue.peek_least [OF assms(1) Z] W by auto
  with W have "tid W = tid Z" by (auto simp: task_le_def)
  then have "W = Z" using assms(1) W \<open>Z \<in> set V\<close> by (auto simp: heap_ok_def distinct_map inj_on_def)
  with Z show ?thesis by simp
qed

lemma schedule_flags: "flags_ok s \<Longrightarrow> flags_ok (snd (e_scheduleCallback V W d s))"
  by (auto simp: flags_ok_def e_scheduleCallback_def Let_def host_defs split: option.splits)

lemma timer_ok_be: "timer_ok (be_requestHostTimeout (startTime W - now s) s)"
  if "a_peek (b_timerQueue s) = Some W"
  using that by (auto simp: timer_ok_def be_requestHostTimeout_def max_def)

lemma schedule_timer:
  assumes "sched_ok s" and "timer_ok s"
  shows "timer_ok (snd (e_scheduleCallback V W d s))"
proof (cases "\<exists>e. d = Some e \<and> 0 < e")
  case False
  then show ?thesis
    by (cases d) (auto simp: e_scheduleCallback_def Let_def timer_ok_def host_defs)
next
  case True
  then obtain e where e: "d = Some e" "0 < e" by blast
  define x where "x = \<lparr>tid = O_taskIdCounter s, callback = Some W, priorityLevel = V, startTime = now s + e,
                  expirationTime = now s + e + timeout_of V, sortIndex = now s + e\<rparr>"
  define s1 where "s1 = s\<lparr>O_taskIdCounter := O_taskIdCounter s + 1, b_timerQueue := t_push (b_timerQueue s) x\<rparr>"
  have r: "snd (e_scheduleCallback V W d s) =
     (if a_peek (g_taskQueue s1) = None \<and> map_option tid (a_peek (b_timerQueue s1)) = Some (tid x) then
           be_requestHostTimeout e
             (if C_isHostTimeoutScheduled s1 then (L_clearTimeout (k_taskTimeoutID s1) s1)\<lparr>k_taskTimeoutID := -1\<rparr>
              else s1\<lparr>C_isHostTimeoutScheduled := True\<rparr>)
         else s1)"
    using e by (auto simp: e_scheduleCallback_def Let_def s1_def x_def)
  have hb: "heap_ok (b_timerQueue s)" "tid x \<notin> tid ` set (b_timerQueue s)"
    using assms(1) by (auto simp: sched_ok_def queues_ok_def x_def)
  show ?thesis
  proof (cases "map_option tid (a_peek (b_timerQueue s1)) = Some (tid x)")
    case True
    then obtain Z where Z: "a_peek (b_timerQueue s1) = Some Z" "tid Z = tid x" by auto
    have "Z \<in> set (t_push (b_timerQueue s) x)"
      using Z(1) nth_mem [of 0 "t_push (b_timerQueue s) x"] by (simp add: a_peek_Some s1_def del: set_t_push)
    then have "Z = x" using Z(2) hb(2) by (metis image_eqI insert_iff set_t_push)
    then show ?thesis
      unfolding r using Z e
      by (auto simp: timer_ok_def host_defs x_def s1_def max_def)
  next
    case False
    then have "a_peek (b_timerQueue s) = Some Z" if "a_peek (b_timerQueue s1) = Some Z" for Z
      using that peek_push_other [OF hb, of Z] by (auto simp: s1_def)
    then show ?thesis
      unfolding r using assms(2) False by (auto simp: timer_ok_def s1_def)
  qed
qed

interpretation wake: api_invariant wake_ok
proof
  fix s :: "'b sched"
  assume s: "wake_ok s"
  show "wake_ok (snd (e_scheduleCallback V W d s))" for V W d
    using s by (simp add: wake_ok_def schedule_ok schedule_flags schedule_timer)
  show "wake_ok (e_cancelCallback n s)" for n
    using s put_callback_ok [of s n None]
    by (fastforce simp: wake_ok_def flags_ok_def timer_ok_def e_cancelCallback_def put_callback_def dest!: a_peek_set_callback)
  show "wake_ok (s\<lparr>now := now s + e\<rparr>)" if "0 \<le> e" for e
  proof -
    have "max (now s) y \<le> max (now s + e) y" for y using that by (simp add: max_def)
    then have "timer_ok (s\<lparr>now := now s + e\<rparr>)" using s unfolding wake_ok_def timer_ok_def
      by (simp del: max.bounded_iff) (meson order_trans)
    then show ?thesis using s ok.elapse [of s e] that by (simp add: wake_ok_def flags_ok_def)
  qed
qed (simp_all add: wake_ok_def flags_ok_def timer_ok_def sched_ok_def)

lemma M_wake_ok:
  assumes "sched_ok s" and "flags_ok s"
  shows "wake_ok (M_handleTimeout (now s) s)"
proof -
  define s1 where "s1 = advance (now s) (s\<lparr>C_isHostTimeoutScheduled := False\<rparr>)"
  have so: "sched_ok s1" using advance_ok [of "s\<lparr>C_isHostTimeoutScheduled := False\<rparr>" "now s"] assms(1)
    by (simp add: s1_def sched_ok_def)
  have g: "g_taskQueue s \<noteq> [] \<Longrightarrow> g_taskQueue s1 \<noteq> []"
    using advance_g_Nil [of "s\<lparr>C_isHostTimeoutScheduled := False\<rparr>" "now s"] assms(1)
    by (simp add: s1_def sched_ok_def)
  have f: "now s1 = now s" "messages s1 = messages s" "w_isPerformingWork s1 = w_isPerformingWork s"
    "B_isMessageLoopRunning s1 = B_isMessageLoopRunning s" "D_isHostCallbackScheduled s1 = D_isHostCallbackScheduled s"
    by (simp_all add: s1_def)
  have M: "M_handleTimeout (now s) s = (if \<not> D_isHostCallbackScheduled s1 then
       (if a_peek (g_taskQueue s1) \<noteq> None then
          if B_isMessageLoopRunning s1 then s1\<lparr>D_isHostCallbackScheduled := True\<rparr>
          else Q_schedulePerformWork (s1\<lparr>D_isHostCallbackScheduled := True, B_isMessageLoopRunning := True\<rparr>)
        else case a_peek (b_timerQueue s1) of None \<Rightarrow> s1
             | Some W \<Rightarrow> be_requestHostTimeout (startTime W - now s1) s1)
     else s1)"
    by (simp add: M_handleTimeout_def Let_def s1_def [symmetric] f(1) split: option.split)
  show ?thesis
  proof (cases "g_taskQueue s1 = []")
    case True
    then have "\<not> D_isHostCallbackScheduled s1" "g_taskQueue s = []" using g f assms(2) by (auto simp: flags_ok_def)
    then have fl: "flags_ok s1" "flags_ok (be_requestHostTimeout d s1)" for d
      using True f assms(2) by (simp_all add: flags_ok_def be_requestHostTimeout_def)
    show ?thesis
    proof (cases "a_peek (b_timerQueue s1)")
      case None
      then show ?thesis
        unfolding M using True so fl \<open>\<not> D_isHostCallbackScheduled s1\<close> by (simp add: wake_ok_def timer_ok_def)
    next
      case (Some W)
      then show ?thesis
        unfolding M using True so fl timer_ok_be [OF Some] \<open>\<not> D_isHostCallbackScheduled s1\<close>
        by (simp add: wake_ok_def)
    qed
  next
    case False
    then show ?thesis
      unfolding M using so f assms(2)
      by (auto simp: wake_ok_def flags_ok_def timer_ok_def Q_schedulePerformWork_def sched_ok_def)
  qed
qed

lemma oe_wake_ok:
  assumes "wake_ok s" and "0 < messages s"
    and "oe_performWorkUntilDeadline beh fuel (s\<lparr>messages := messages s - 1\<rparr>) = Some s'"
  shows "wake_ok s'"
proof -
  have B: "B_isMessageLoopRunning s" "messages s = 1" using assms(1,2) by (auto simp: wake_ok_def flags_ok_def split: if_splits)
  define s1 where "s1 = (let s = s\<lparr>messages := messages s - 1, R_needsPaint := False, F_startTime := now s, D_isHostCallbackScheduled := False\<rparr> in
     (if C_isHostTimeoutScheduled s
                 then (L_clearTimeout (k_taskTimeoutID s) (s\<lparr>C_isHostTimeoutScheduled := False\<rparr>))\<lparr>k_taskTimeoutID := -1\<rparr>
                 else s))\<lparr>w_isPerformingWork := True\<rparr>"
  have s1: "sched_ok s1" "working s1" "now s1 = now s"
    using assms(1) B by (auto simp: s1_def wake_ok_def sched_ok_def working_def L_clearTimeout_def Let_def)
  have adv: "sched_ok (advance (now s) s1)" "working (advance (now s) s1)" using s1 advance_ok [of s1 "now s"] by simp_all
  obtain x s2 where x: "oe_loop beh fuel (now s) (advance (now s) s1) = Some (x, s2)"
    and s': "s' = (let s3 = s2\<lparr>S_currentTask := None, E_currentPriorityLevel := E_currentPriorityLevel s, w_isPerformingWork := False\<rparr>
      in if x = Idle then s3\<lparr>B_isMessageLoopRunning := False\<rparr> else Q_schedulePerformWork s3)"
    using assms(3) B by (auto simp: oe_performWorkUntilDeadline_def Let_def s1_def L_clearTimeout_def split: option.splits if_splits)
  have "loop_post x s2" using oe_loop_post [of beh fuel "advance (now s) s1"] x adv s1 by simp
  then show ?thesis
    by (auto simp: s' loop_post_def wake_ok_def sched_ok_def flags_ok_def timer_ok_def working_def
        Q_schedulePerformWork_def Let_def)
qed

lemma wake_ok_step: "sched_step beh s s' \<Longrightarrow> wake_ok s \<Longrightarrow> wake_ok s'"
proof (induction rule: sched_step.cases)
  case (outside s f)
  then show ?case using wake.run_api by simp
next
  case (message s fuel s')
  then show ?case using oe_wake_ok by blast
next
  case (timeout n due s)
  then have "sched_ok (L_clearTimeout n s)" "flags_ok (L_clearTimeout n s)" "now (L_clearTimeout n s) = now s"
    by (simp_all add: wake_ok_def sched_ok_def flags_ok_def L_clearTimeout_def)
  then show ?case using M_wake_ok [of "L_clearTimeout n s"] timeout by simp
qed

lemma heap_ok_Nil [simp]: "heap_ok []"
  by (simp add: heap_ok_def heap_def)

lemma reach_wake_ok: "sched_reach beh s \<Longrightarrow> wake_ok s"
proof (induction rule: sched_reach.induct)
  case start
  show ?case
    by (simp add: wake_ok_def sched_ok_def flags_ok_def timer_ok_def sched_init_def queues_ok_def)
next
  case (step s s')
  then show ?case using wake_ok_step by blast
qed

text \<open>
  C7. No wake-up is lost: in every state the scheduler can reach, whatever the callbacks and the
  code around it do, a message is on its way whenever the task queue holds a task, and when only
  delayed tasks are left a pending timeout fires no later than the first of them is due.
\<close>

theorem sched_no_lost_wakeup:
  assumes "sched_reach beh s"
  shows "(g_taskQueue s \<noteq> [] \<longrightarrow> messages s = 1) \<and>
    (g_taskQueue s = [] \<longrightarrow> (\<forall>W \<in> set (b_timerQueue s).
       \<exists>t \<in> set (timeouts s). snd t \<le> max (now s) (startTime W)))"
proof -
  have w: "wake_ok s" using assms by (rule reach_wake_ok)
  have "\<exists>t \<in> set (timeouts s). snd t \<le> max (now s) (startTime W)"
    if e: "g_taskQueue s = []" and W: "W \<in> set (b_timerQueue s)" for W
  proof -
    have q: "heap_ok (b_timerQueue s)" "\<forall>x \<in> set (b_timerQueue s). sortIndex x = startTime x"
      using w by (auto simp: wake_ok_def sched_ok_def queues_ok_def)
    obtain Z where Z: "a_peek (b_timerQueue s) = Some Z" using W by (cases "a_peek (b_timerQueue s)") auto
    then have "task_le Z W" "Z \<in> set (b_timerQueue s)" using task_queue.peek_least [OF q(1) Z] W by auto
    then have "startTime Z \<le> startTime W" using q(2) W by (auto simp: task_le_def)
    moreover obtain t where "t \<in> set (timeouts s)" "snd t \<le> max (now s) (startTime Z)"
      using w e Z by (auto simp: wake_ok_def timer_ok_def)
    ultimately show ?thesis by (intro bexI [of _ t]) auto
  qed
  then show ?thesis using w by (auto simp: wake_ok_def flags_ok_def)
qed


section \<open>Cancelled tasks\<close>

text \<open>The task \<open>n\<close> exists and has no callback any more.\<close>

definition dead :: "int \<Rightarrow> 'cb sched \<Rightarrow> bool" where
  "dead n s \<longleftrightarrow> n < O_taskIdCounter s \<and>
     (\<forall>x \<in> set (g_taskQueue s) \<union> set (b_timerQueue s). tid x = n \<longrightarrow> callback x = None)"

text \<open>
  The calls that cancel the task \<open>n\<close>, at any depth of nested priority blocks.
\<close>

primrec cancels :: "int \<Rightarrow> 'cb api \<Rightarrow> bool" where
  "cancels n (Schedule V W d) = False"
| "cancels n (Cancel m) = (m = n)"
| "cancels n (ForceFrameRate V) = False"
| "cancels n RequestPaint = False"
| "cancels n (RunWithPriority V fs) = list_ex id (map (cancels n) fs)"
| "cancels n (Next fs) = list_ex id (map (cancels n) fs)"
| "cancels n (Elapse d) = False"

text \<open>
  The logged call of a callback cancels the task \<open>n\<close>: its code makes the cancelling call, and it
  does not hand a continuation to this same task (the loop then stores it in the task's callback
  again, see \<open>self_cancel_is_undone\<close>).
\<close>

definition cancelled_by :: "'cb behaviour \<Rightarrow> int \<Rightarrow> 'cb task \<times> rat \<Rightarrow> bool" where
  "cancelled_by beh n c = (case callback (fst c) of None \<Rightarrow> False
     | Some f \<Rightarrow> let r = beh f (expirationTime (fst c) \<le> snd c) in
         list_ex (cancels n) (fst r) \<and> (case snd r of Cont ae \<Rightarrow> tid (fst c) \<noteq> n | _ \<Rightarrow> True))"

text \<open>Once the task \<open>n\<close> is cancelled (from the start if \<open>b\<close>), no call in the log is one of it.\<close>

fun silent :: "'cb behaviour \<Rightarrow> int \<Rightarrow> bool \<Rightarrow> ('cb task \<times> rat) list \<Rightarrow> bool" where
  "silent beh n b [] = True"
| "silent beh n b (c # l) = ((b \<longrightarrow> tid (fst c) \<noteq> n) \<and> silent beh n (b \<or> cancelled_by beh n c) l)"

lemma silent_snoc: "silent beh n b (l @ [c]) \<longleftrightarrow>
    silent beh n b l \<and> (b \<or> list_ex (cancelled_by beh n) l \<longrightarrow> tid (fst c) \<noteq> n)"
  by (induction l arbitrary: b) auto

lemma silent_True: "silent beh n True l \<Longrightarrow> filter (\<lambda>c. tid (fst c) = n) l = []"
  by (induction l) auto

lemma silent_after: "silent beh n b (l1 @ c # l2) \<Longrightarrow> cancelled_by beh n c \<Longrightarrow> \<forall>x \<in> set l2. tid (fst x) \<noteq> n"
  using silent_True [of beh n l2] by (induction l1 arbitrary: b) (auto simp: filter_empty_conv)

definition dead_if :: "int \<Rightarrow> bool \<Rightarrow> ('cb task \<times> rat) list \<Rightarrow> 'cb sched \<Rightarrow> bool" where
  "dead_if n b l s \<longleftrightarrow> sched_ok s \<and> n < O_taskIdCounter s \<and> ran s = l \<and> (b \<longrightarrow> dead n s)"

lemma dead_put_callback: "dead n s \<Longrightarrow> m \<noteq> n \<or> f = None \<Longrightarrow> dead n (put_callback m f s)"
  by (auto simp: dead_def put_callback_def set_set_callback split: if_splits)

lemma dead_if_put_callback:
  "dead_if n b l s \<Longrightarrow> b \<longrightarrow> m \<noteq> n \<or> f = None \<Longrightarrow> dead_if n b l (put_callback m f s)"
  using put_callback_ok [of s m f] dead_put_callback [of n s m f]
  by (simp add: dead_if_def) (simp add: put_callback_def)

interpretation dead: api_invariant "dead_if n b l"
proof
  fix s :: "'a sched"
  assume s: "dead_if n b l s"
  show "dead_if n b l (snd (e_scheduleCallback V W d s))" for V W d
    using s schedule_ok [of s V W d]
    by (auto simp: dead_if_def dead_def e_scheduleCallback_def Let_def host_defs split: option.splits)
  show "dead_if n b l (e_cancelCallback m s)" for m
    unfolding e_cancelCallback_def using s by (rule dead_if_put_callback) simp
  show "dead_if n b l (s\<lparr>now := now s + e\<rparr>)" if "0 \<le> e" for e
    using s ok.elapse [of s e] that by (simp add: dead_if_def dead_def)
qed (auto simp: dead_if_def dead_def sched_ok_def)

lemma set_callback_None: "\<forall>x \<in> set (set_callback n None V). tid x = n \<longrightarrow> callback x = None"
proof (intro ballI impI)
  fix x assume "x \<in> set (set_callback n None V)" and n: "tid x = n"
  then obtain y where y: "x = (if tid y = n then y\<lparr>callback := None\<rparr> else y)" unfolding set_set_callback by blast
  show "callback x = None"
  proof (cases "tid y = n")
    case False
    with y n show ?thesis by (simp only: if_False)
  qed (simp add: y)
qed

lemma put_None_dead: "n < O_taskIdCounter s \<Longrightarrow> dead n (put_callback n None s)"
  by (simp add: dead_def put_callback_def ball_Un set_callback_None)

lemma dead_if_cancel: "dead_if n b l s \<Longrightarrow> dead_if n True l (put_callback n None s)"
  using dead_if_put_callback [of n b l s n None] put_None_dead [of n s] by (simp add: dead_if_def)

text \<open>A list of calls one of which cancels the task, each of the others keeping what it finds.\<close>

lemma fold_cancel:
  assumes "\<And>f s. f \<in> set fs \<Longrightarrow> cancels n f \<Longrightarrow> dead_if n b l s \<Longrightarrow> dead_if n True l (run_api f s)"
    and "list_ex (cancels n) fs" and "dead_if n b l s"
  shows "dead_if n True l (fold run_api fs s)"
  using assms
proof (induction fs arbitrary: s)
  case (Cons f fs)
  show ?case
  proof (cases "cancels n f")
    case True
    then have "dead_if n True l (run_api f s)" using Cons.prems by simp
    from dead.run_apis [OF this] show ?thesis by simp
  next
    case False
    then show ?thesis using Cons.IH [of "run_api f s"] Cons.prems dead.run_api [of n b l s f] by simp
  qed
qed simp

lemma cancels_run_api: "cancels n f \<Longrightarrow> dead_if n b l s \<Longrightarrow> dead_if n True l (run_api f s)"
proof (induction f arbitrary: s)
  case (Cancel m)
  then show ?case using dead_if_cancel [of n b l s] by (simp add: e_cancelCallback_def)
next
  case (RunWithPriority V fs)
  have "list_ex (cancels n) fs" using RunWithPriority.prems(1) by (simp add: list_ex_iff)
  from fold_cancel [of fs n b l, OF RunWithPriority.IH this] RunWithPriority.prems(2) show ?case
    by (simp add: e_runWithPriority_def with_priority_def Let_def fold_map dead.priority)
next
  case (Next fs)
  have "list_ex (cancels n) fs" using Next.prems(1) by (simp add: list_ex_iff)
  from fold_cancel [of fs n b l, OF Next.IH this] Next.prems(2) show ?case
    by (simp add: e_next_def with_priority_def Let_def fold_map dead.priority)
qed simp_all

lemma cancels_run_apis: "list_ex (cancels n) fs \<Longrightarrow> dead_if n b l s \<Longrightarrow> dead_if n True l (fold run_api fs s)"
  using fold_cancel [of fs n b l s] cancels_run_api by blast

text \<open>The invariant: the log since \<open>l0\<close> is silent, and the task is dead once something cancelled it.\<close>

definition dead_ok :: "'cb behaviour \<Rightarrow> int \<Rightarrow> bool \<Rightarrow> ('cb task \<times> rat) list \<Rightarrow> 'cb sched \<Rightarrow> bool" where
  "dead_ok beh n b l0 s \<longleftrightarrow>
     (\<exists>l. dead_if n (b \<or> list_ex (cancelled_by beh n) l) (l0 @ l) s \<and> silent beh n b l)"

text \<open>A step that keeps the queues' tasks or drops some of them keeps the invariant.\<close>

lemma dead_ok_mono:
  assumes "dead_ok beh n b l0 s" and "\<And>b l. dead_if n b l s \<Longrightarrow> dead_if n b l s'"
  shows "dead_ok beh n b l0 s'"
  using assms unfolding dead_ok_def by blast

lemma dead_if_advance:
  assumes "dead_if n b l s" and "V \<le> now s"
  shows "dead_if n b l (advance V s)"
proof -
  obtain g' b' where r: "dl_advanceTimers V (g_taskQueue s, b_timerQueue s) = (g', b')" by fastforce
  have so: "sched_ok s" using assms(1) by (simp add: dead_if_def)
  note a = advance_sets [OF _ assms(2) r]
  have "set g' \<subseteq> set (g_taskQueue s) \<union> {x\<lparr>sortIndex := expirationTime x\<rparr> |x. x \<in> set (b_timerQueue s)}"
    "set b' \<subseteq> set (b_timerQueue s)"
    using a [of "O_taskIdCounter s"] so by (auto simp: sched_ok_def)
  then have "b \<longrightarrow> dead n (advance V s)" using assms(1) r by (fastforce simp: dead_if_def dead_def advance_def)
  then show ?thesis using assms advance_ok [OF so assms(2)] by (simp add: dead_if_def)
qed

lemma dead_if_pop_g:
  assumes "dead_if n b l s"
  shows "dead_if n b l (s\<lparr>g_taskQueue := snd (i_pop (g_taskQueue s))\<rparr>)"
proof -
  have so: "sched_ok s" using assms by (simp add: dead_if_def)
  then have "heap_ok (g_taskQueue s)" by (simp add: sched_ok_def queues_ok_def)
  from set_i_pop_subset [OF this] show ?thesis using assms pop_g_ok [OF so] by (auto simp: dead_if_def dead_def)
qed

text \<open>The host's flags, timers and messages are no part of it.\<close>

lemma dead_if_cong:
  assumes "g_taskQueue s' = g_taskQueue s" and "b_timerQueue s' = b_timerQueue s"
    and "O_taskIdCounter s' = O_taskIdCounter s" and "now s' = now s" and "ran s' = ran s"
  shows "dead_if n b l s' = dead_if n b l s"
  using assms by (simp add: dead_if_def dead_def sched_ok_def)

lemma dead_ok_advance: "dead_ok beh n b l0 s \<Longrightarrow> V \<le> now s \<Longrightarrow> dead_ok beh n b l0 (advance V s)"
  unfolding dead_ok_def by (blast intro: dead_if_advance)

lemma dead_ok_pop_g:
  "dead_ok beh n b l0 s \<Longrightarrow> dead_ok beh n b l0 (s\<lparr>g_taskQueue := snd (i_pop (g_taskQueue s))\<rparr>)"
  unfolding dead_ok_def by (blast intro: dead_if_pop_g)

lemmas dead_ok_host = dead_ok_mono [OF _ dead_if_cong [THEN iffD2]]

lemma dead_if_start:
  assumes "dead_if n b l s" and "a_peek (g_taskQueue s) = Some S" and "callback S = Some f"
  shows "dead_if n (b \<or> tid S = n) (l @ [(S, now s)]) (start_task S s)" and "b \<Longrightarrow> tid S \<noteq> n"
proof -
  have "S \<in> set (g_taskQueue s)" using assms(2) by (auto simp: a_peek_Some)
  then show "b \<Longrightarrow> tid S \<noteq> n" using assms(1,3) by (auto simp: dead_if_def dead_def)
  have p: "dead_if n (b \<or> tid S = n) l (put_callback (tid S) None s)"
  proof (cases "tid S = n")
    case True
    then show ?thesis using dead_if_cancel [OF assms(1)] by simp
  next
    case False
    then show ?thesis using dead_if_put_callback [OF assms(1), of "tid S" None] by simp
  qed
  have "sched_ok s" using assms(1) by (simp add: dead_if_def)
  from start_task_ok [OF this assms(2)] show "dead_if n (b \<or> tid S = n) (l @ [(S, now s)]) (start_task S s)"
    using p by (simp add: dead_if_def start_task_def dead_def) (simp add: put_callback_def)
qed

text \<open>A callback runs and ends with \<open>out\<close>; a continuation is stored in its task.\<close>

lemma dead_ok_call:
  assumes "dead_ok beh n b l0 s" and S: "a_peek (g_taskQueue s) = Some S" "callback S = Some f"
    and beh: "beh f (expirationTime S \<le> now s) = (acts, out)"
  shows "dead_ok beh n b l0 (case out of Cont ae \<Rightarrow> put_callback (tid S) (Some ae) (fold run_api acts (start_task S s))
           | _ \<Rightarrow> fold run_api acts (start_task S s))"
proof -
  obtain l where l: "dead_if n (b \<or> list_ex (cancelled_by beh n) l) (l0 @ l) s" "silent beh n b l"
    using assms(1) unfolding dead_ok_def by blast
  define c where "c = (S, now s)"
  define b' where "b' = (b \<or> list_ex (cancelled_by beh n) l)"
  note st = dead_if_start [OF l(1) [folded b'_def] S, folded c_def]
  have sil: "silent beh n b (l @ [c])" using l(2) st(2) by (simp add: silent_snoc b'_def c_def)
  have canc: "cancelled_by beh n c \<longleftrightarrow> list_ex (cancels n) acts \<and> (case out of Cont ae \<Rightarrow> tid S \<noteq> n | _ \<Rightarrow> True)"
    using S(2) beh by (simp add: cancelled_by_def c_def split: outcome.split)
  have s2: "dead_if n (b' \<or> tid S = n \<or> list_ex (cancels n) acts) (l0 @ l @ [c]) (fold run_api acts (start_task S s))"
    using dead.run_apis [OF st(1)] cancels_run_apis [OF _ st(1), of acts] by (cases "list_ex (cancels n) acts") simp_all
  have "dead_if n (b' \<or> cancelled_by beh n c) (l0 @ l @ [c]) (case out of Cont ae \<Rightarrow>
      put_callback (tid S) (Some ae) (fold run_api acts (start_task S s)) | _ \<Rightarrow> fold run_api acts (start_task S s))"
  proof (cases out)
    case (Cont ae)
    have "dead_if n (b' \<or> cancelled_by beh n c) (l0 @ l @ [c]) (fold run_api acts (start_task S s))"
      using s2 canc by (auto simp: dead_if_def)
    then show ?thesis using Cont canc st(2) by (auto intro: dead_if_put_callback)
  qed (use s2 canc in \<open>auto simp: dead_if_def\<close>)
  then show ?thesis using sil unfolding dead_ok_def by (intro exI [of _ "l @ [c]"]) (simp add: b'_def)
qed

lemma dead_loop:
  assumes "oe_loop beh m (now s) s = Some (x, s')" and "dead_ok beh n b l0 s"
  shows "dead_ok beh n b l0 s'"
  using assms
proof (induction m arbitrary: s)
  case (Suc m)
  show ?case
  proof (cases rule: oe_loop_cases [OF Suc.prems(1)])
    case 1
    show ?thesis using Suc.prems(2)
      by (rule dead_ok_host) (simp_all add: 1 be_requestHostTimeout_def split: option.split)
  next
    case (2 S)
    then show ?thesis using Suc.prems by simp
  next
    case (3 S)
    show ?thesis by (rule Suc.IH [OF _ dead_ok_pop_g [OF Suc.prems(2)]]) (use 3 in simp)
  next
    case (4 S f acts)
    then show ?thesis using dead_ok_call [where beh = beh, OF Suc.prems(2) 4(1-3)] by simp
  next
    case (5 S f acts ae)
    have "dead_ok beh n b l0 (put_callback (tid S) (Some ae) (fold run_api acts (start_task S s)))"
      using dead_ok_call [where beh = beh, OF Suc.prems(2) 5(1-3)] by simp
    then show ?thesis unfolding 5(5) by (rule dead_ok_advance) (simp add: put_callback_def)
  next
    case (6 S f acts)
    define s2 where "s2 = fold run_api acts (start_task S s)"
    define s3 where "s3 = (if Some (tid S) = map_option tid (a_peek (g_taskQueue s2))
          then s2\<lparr>g_taskQueue := snd (i_pop (g_taskQueue s2))\<rparr> else s2)"
    have "dead_ok beh n b l0 s2"
      using dead_ok_call [where beh = beh, OF Suc.prems(2) 6(1-3)] by (simp add: s2_def)
    then have s3: "dead_ok beh n b l0 s3" "now s3 = now s2" using dead_ok_pop_g [of beh n b l0 s2] by (auto simp: s3_def)
    have "oe_loop beh m (now (advance (now s2) s3)) (advance (now s2) s3) = Some (x, s')"
      using 6(4) s3(2) by (simp add: Let_def s2_def [symmetric] s3_def [symmetric])
    then show ?thesis by (rule Suc.IH) (use s3 dead_ok_advance [of beh n b l0 s3 "now s2"] in simp)
  qed
qed simp

lemma dead_M:
  assumes "dead_ok beh n b l0 s"
  shows "dead_ok beh n b l0 (M_handleTimeout (now s) s)"
proof -
  have "dead_ok beh n b l0 (s\<lparr>C_isHostTimeoutScheduled := False\<rparr>)"
    using assms by (rule dead_ok_host) simp_all
  from dead_ok_advance [OF this, of "now s"]
  have "dead_ok beh n b l0 (advance (now s) (s\<lparr>C_isHostTimeoutScheduled := False\<rparr>))" by simp
  then show ?thesis
    by (rule dead_ok_host) (simp_all add: M_handleTimeout_def Let_def host_defs split: option.split)
qed

lemma dead_oe:
  assumes "dead_ok beh n b l0 s" and "oe_performWorkUntilDeadline beh fuel s = Some s'"
  shows "dead_ok beh n b l0 s'"
proof (cases "B_isMessageLoopRunning s")
  case True
  define s1 where "s1 = (let s = s\<lparr>R_needsPaint := False, F_startTime := now s, D_isHostCallbackScheduled := False\<rparr> in
     (if C_isHostTimeoutScheduled s
                 then (L_clearTimeout (k_taskTimeoutID s) (s\<lparr>C_isHostTimeoutScheduled := False\<rparr>))\<lparr>k_taskTimeoutID := -1\<rparr>
                 else s))\<lparr>w_isPerformingWork := True\<rparr>"
  have n1: "now s1 = now s" by (simp add: s1_def L_clearTimeout_def Let_def)
  have s1: "dead_ok beh n b l0 s1"
    using assms(1) by (rule dead_ok_host) (simp_all add: s1_def L_clearTimeout_def Let_def)
  obtain x s2 where x: "oe_loop beh fuel (now s) (advance (now s) s1) = Some (x, s2)"
    and s': "s' = (let s3 = s2\<lparr>S_currentTask := None, E_currentPriorityLevel := E_currentPriorityLevel s, w_isPerformingWork := False\<rparr>
      in if x = Idle then s3\<lparr>B_isMessageLoopRunning := False\<rparr> else Q_schedulePerformWork s3)"
    using assms(2) True by (auto simp: oe_performWorkUntilDeadline_def Let_def s1_def L_clearTimeout_def split: option.splits if_splits)
  have "dead_ok beh n b l0 s2" using dead_loop [of beh fuel "advance (now s) s1"] x dead_ok_advance [OF s1] n1 by simp
  then show ?thesis by (rule dead_ok_host) (simp_all add: s' Q_schedulePerformWork_def Let_def)
next
  case False
  then have "s' = s\<lparr>R_needsPaint := False\<rparr>" using assms(2) by (simp add: oe_performWorkUntilDeadline_def)
  then show ?thesis using dead_ok_host [OF assms(1)] by simp
qed

lemma dead_step:
  assumes "sched_step beh s s'" and "dead_ok beh n b l0 s"
  shows "dead_ok beh n b l0 s'"
  using assms(1)
proof cases
  case (outside f)
  then show ?thesis using dead_ok_mono [OF assms(2) dead.run_api] by simp
next
  case (message fuel)
  have "dead_ok beh n b l0 (s\<lparr>messages := messages s - 1\<rparr>)" using assms(2) by (rule dead_ok_host) simp_all
  from dead_oe [OF this message(2)] show ?thesis .
next
  case (timeout m due)
  have "dead_ok beh n b l0 (L_clearTimeout m s)"
    using assms(2) by (rule dead_ok_host) (simp_all add: L_clearTimeout_def)
  moreover have "now (L_clearTimeout m s) = now s" by (simp add: L_clearTimeout_def)
  ultimately show ?thesis using dead_M [of beh n b l0 "L_clearTimeout m s"] timeout by simp
qed

inductive sched_steps :: "'cb behaviour \<Rightarrow> 'cb sched \<Rightarrow> 'cb sched \<Rightarrow> bool" for beh where
  refl: "sched_steps beh s s"
| more: "sched_steps beh s s' \<Longrightarrow> sched_step beh s' s'' \<Longrightarrow> sched_steps beh s s''"

lemma dead_steps: "sched_steps beh s s' \<Longrightarrow> dead_ok beh n b l0 s \<Longrightarrow> dead_ok beh n b l0 s'"
  by (induction rule: sched_steps.induct) (auto intro: dead_step)

text \<open>
  C8. A task that is cancelled is never called after that.  Code outside the callbacks cancels it:
  whatever happens next, the calls made for it are the ones that had been made before.  A callback
  cancels it, its own task or another's: no later call is one of it, unless the callback cancelled
  its own task and then returned a continuation, which puts a callback back into the task.
\<close>

theorem sched_cancelled_never_runs:
  assumes "sched_reach beh s" and "n < O_taskIdCounter s"
  shows "(cancels n f \<and> sched_steps beh (run_api f s) s' \<longrightarrow>
            filter (\<lambda>c. tid (fst c) = n) (ran s') = filter (\<lambda>c. tid (fst c) = n) (ran s)) \<and>
         (sched_steps beh s s' \<and> ran s' = ran s @ l1 @ c # l2 \<and> cancelled_by beh n c \<longrightarrow>
            (\<forall>x \<in> set l2. tid (fst x) \<noteq> n))"
proof (intro conjI impI)
  have s: "dead_if n False (ran s) s" using reach_wake_ok [OF assms(1)] assms(2) by (simp add: wake_ok_def dead_if_def)
  show "filter (\<lambda>c. tid (fst c) = n) (ran s') = filter (\<lambda>c. tid (fst c) = n) (ran s)"
    if "cancels n f \<and> sched_steps beh (run_api f s) s'"
  proof -
    have "dead_ok beh n True (ran s) (run_api f s)"
      using cancels_run_api [OF _ s] that unfolding dead_ok_def by (intro exI [of _ "[]"]) simp
    with that have "dead_ok beh n True (ran s) s'" using dead_steps by blast
    then show ?thesis using silent_True by (fastforce simp: dead_ok_def dead_if_def)
  qed
  show "\<forall>x \<in> set l2. tid (fst x) \<noteq> n"
    if c: "sched_steps beh s s' \<and> ran s' = ran s @ l1 @ c # l2 \<and> cancelled_by beh n c"
  proof -
    have "dead_ok beh n False (ran s) s" using s unfolding dead_ok_def by (intro exI [of _ "[]"]) simp
    with c have "dead_ok beh n False (ran s) s'" using dead_steps by blast
    then have "silent beh n False (l1 @ c # l2)" using c by (auto simp: dead_ok_def dead_if_def)
    then show ?thesis using silent_after c by blast
  qed
qed

section \<open>The work loop ends\<close>

primrec no_schedule :: "'cb api \<Rightarrow> bool" where
  "no_schedule (Schedule V W d) = False"
| "no_schedule (Cancel n) = True"
| "no_schedule (ForceFrameRate V) = True"
| "no_schedule RequestPaint = True"
| "no_schedule (RunWithPriority V fs) = list_all id (map no_schedule fs)"
| "no_schedule (Next fs) = list_all id (map no_schedule fs)"
| "no_schedule (Elapse d) = True"

definition same_tasks :: "'cb sched \<Rightarrow> 'cb sched \<Rightarrow> bool" where
  "same_tasks s s' \<longleftrightarrow> map tid (g_taskQueue s') = map tid (g_taskQueue s) \<and> length (b_timerQueue s') = length (b_timerQueue s)"

lemma fold_same:
  "(\<And>f s. f \<in> set fs \<Longrightarrow> same_tasks s (run_api f s)) \<Longrightarrow> same_tasks s (fold run_api fs s)"
  by (induction fs arbitrary: s) (fastforce simp: same_tasks_def)+

lemma no_schedule_same: "no_schedule f \<Longrightarrow> same_tasks s (run_api f s)"
proof (induction f arbitrary: s)
  case (RunWithPriority V fs)
  then show ?case using fold_same [of fs]
    by (simp add: list_all_iff e_runWithPriority_def with_priority_def Let_def fold_map) (simp add: same_tasks_def)
next
  case (Next fs)
  then show ?case using fold_same [of fs]
    by (simp add: list_all_iff e_next_def with_priority_def Let_def fold_map) (simp add: same_tasks_def)
qed (simp_all add: same_tasks_def e_cancelCallback_def put_callback_def e_forceFrameRate_def e_requestPaint_def)

lemma length_t_push [simp]: "length (t_push V W) = Suc (length V)"
  by (metis size_add_mset size_mset t_push_mset)

abbreviation work_left :: "'cb sched \<Rightarrow> nat" where
  "work_left s \<equiv> length (g_taskQueue s) + length (b_timerQueue s)"

lemma advance_length:
  "length (fst (dl_advanceTimers V (g, b))) + length (snd (dl_advanceTimers V (g, b))) \<le> length g + length b"
proof (induction "length b" arbitrary: g b rule: less_induct)
  case less
  show ?case
  proof (cases rule: advance_cases [of V g b])
    case (skip W)
    then show ?thesis using less [OF skip(4), of g] by simp
  next
    case (move W)
    then show ?thesis using less [OF move(5), of "t_push g (W\<lparr>sortIndex := expirationTime W\<rparr>)"] by simp
  qed simp
qed

lemma advance_work_left: "work_left (advance V s) \<le> work_left s"
  using advance_length [of V "g_taskQueue s" "b_timerQueue s"] by (simp add: advance_def Let_def)

lemma peek_tid: "map_option tid (a_peek V) = (if V = [] then None else Some (hd (map tid V)))"
  by (simp add: a_peek_def hd_conv_nth)

lemma oe_loop_ends:
  assumes "\<And>f d. list_all no_schedule (fst (beh f d))" and "work_left s < n"
  shows "oe_loop beh n V s \<noteq> None"
  using assms(2)
proof (induction n arbitrary: V s)
  case (Suc n)
  show ?case
  proof (cases "a_peek (g_taskQueue s)")
    case (Some S)
    then have ne: "g_taskQueue s \<noteq> []" by (auto simp: a_peek_Some)
    show ?thesis
    proof (cases "callback S")
      case None
      have "work_left (s\<lparr>g_taskQueue := snd (i_pop (g_taskQueue s))\<rparr>) < n"
        using Suc.prems ne by (cases "g_taskQueue s") auto
      then show ?thesis using Some None Suc.IH [of "s\<lparr>g_taskQueue := snd (i_pop (g_taskQueue s))\<rparr>" V] by simp
    next
      case f: (Some f)
      obtain acts out where b: "beh f (expirationTime S \<le> V) = (acts, out)" by fastforce
      define s2 where "s2 = fold run_api acts (start_task S s)"
      have "\<forall>f \<in> set acts. no_schedule f" using assms(1) [of f "expirationTime S \<le> V"] b by (simp add: list_all_iff)
      then have "same_tasks (start_task S s) s2" unfolding s2_def by (intro fold_same) (simp add: no_schedule_same)
      then have s2: "map tid (g_taskQueue s2) = map tid (g_taskQueue s)" "length (b_timerQueue s2) = length (b_timerQueue s)"
        by (simp_all add: same_tasks_def start_task_def put_callback_def)
      then have top: "map_option tid (a_peek (g_taskQueue s2)) = Some (tid S)"
        using Some ne peek_tid [of "g_taskQueue s"] peek_tid [of "g_taskQueue s2"] by (auto simp: map_eq_conv)
      have len: "length (g_taskQueue s2) = length (g_taskQueue s)" using s2(1) by (metis length_map)
      define s3 where "s3 = advance (now s2) (s2\<lparr>g_taskQueue := snd (i_pop (g_taskQueue s2))\<rparr>)"
      have "work_left s3 \<le> work_left (s2\<lparr>g_taskQueue := snd (i_pop (g_taskQueue s2))\<rparr>)"
        unfolding s3_def by (rule advance_work_left)
      also have "\<dots> < n" using len s2(2) Suc.prems ne by (cases "g_taskQueue s") auto
      finally have "oe_loop beh n (now s2) s3 \<noteq> None" by (rule Suc.IH)
      then show ?thesis
        using Some f b
        by (cases out) (simp_all add: Let_def top start_task_def [symmetric] s2_def [symmetric] s3_def [symmetric])
    qed
  qed simp
qed simp

text \<open>
  C23. The message handler returns: when the callbacks schedule nothing themselves, one round per
  task and timer in the queues is enough.
\<close>

theorem oe_terminates:
  assumes "\<And>f d. list_all no_schedule (fst (beh f d))"
    and "length (g_taskQueue s) + length (b_timerQueue s) < fuel"
  shows "\<exists>s'. oe_performWorkUntilDeadline beh fuel s = Some s'"
proof -
  define s1 where "s1 = (let s = s\<lparr>R_needsPaint := False, F_startTime := now s, D_isHostCallbackScheduled := False\<rparr> in
     (if C_isHostTimeoutScheduled s
                 then (L_clearTimeout (k_taskTimeoutID s) (s\<lparr>C_isHostTimeoutScheduled := False\<rparr>))\<lparr>k_taskTimeoutID := -1\<rparr>
                 else s))\<lparr>w_isPerformingWork := True\<rparr>"
  have "work_left (advance (now s) s1) \<le> work_left s1" by (rule advance_work_left)
  also have "work_left s1 = work_left s" by (simp add: s1_def L_clearTimeout_def Let_def)
  finally have "oe_loop beh fuel (now s) (advance (now s) s1) \<noteq> None"
    using assms(2) by (intro oe_loop_ends assms(1)) simp
  then show ?thesis
    by (auto simp: oe_performWorkUntilDeadline_def Let_def s1_def split: option.splits if_splits)
qed

section \<open>A run\<close>

text \<open>
  A task that is scheduled for later and one for now; the callback of the latter takes two
  milliseconds.  The message is delivered, then the timeout fires.
\<close>

definition demo_beh :: "nat behaviour" where
  "demo_beh f d = (if f = 1 then ([Elapse 2], Done) else ([], Done))"

definition demo_s1 :: "nat sched" where
  "demo_s1 = run_api (Schedule 3 1 None) (run_api (Schedule 2 0 (Some 10)) sched_init)"

definition demo_s2 :: "nat sched" where
  "demo_s2 = the (oe_performWorkUntilDeadline demo_beh 5 (demo_s1\<lparr>messages := messages demo_s1 - 1\<rparr>))"

definition returned :: "'a option \<Rightarrow> bool" where
  "returned x = (case x of None \<Rightarrow> False | Some _ \<Rightarrow> True)"

lemma returned_Some: "returned x \<Longrightarrow> x = Some (the x)"
  by (cases x) (simp_all add: returned_def)

lemma demo_reach: "sched_reach demo_beh demo_s1" "sched_reach demo_beh demo_s2"
proof -
  show s1: "sched_reach demo_beh demo_s1"
    unfolding demo_s1_def
    by (rule sched_reach.step [OF sched_reach.step [OF sched_reach.start sched_step.outside] sched_step.outside])
  have m: "0 < messages demo_s1"
    and r: "returned (oe_performWorkUntilDeadline demo_beh 5 (demo_s1\<lparr>messages := messages demo_s1 - 1\<rparr>))"
    by code_simp+
  have "oe_performWorkUntilDeadline demo_beh 5 (demo_s1\<lparr>messages := messages demo_s1 - 1\<rparr>) = Some demo_s2"
    unfolding demo_s2_def by (intro returned_Some r)
  with m show "sched_reach demo_beh demo_s2"
    using s1 sched_step.message by (intro sched_reach.step [OF s1]) blast
qed

theorem sched_no_lost_wakeup_witness:
  "g_taskQueue demo_s1 \<noteq> [] \<and> messages demo_s1 = 1 \<and> g_taskQueue demo_s2 = [] \<and>
   (\<exists>t \<in> set (timeouts demo_s2). snd t \<le> max (now demo_s2) (startTime (hd (b_timerQueue demo_s2))))"
proof -
  have "g_taskQueue demo_s1 \<noteq> []" "g_taskQueue demo_s2 = []" "hd (b_timerQueue demo_s2) \<in> set (b_timerQueue demo_s2)"
    by code_simp+
  then show ?thesis
    using sched_no_lost_wakeup [OF demo_reach(1)] sched_no_lost_wakeup [OF demo_reach(2)] by blast
qed


text \<open>
  Three tasks for now.  The callback of the first cancels the second.  In the second behaviour it
  cancels its own task instead and returns a continuation.
\<close>

definition cancel_beh :: "nat behaviour" where
  "cancel_beh f d = (if f = 1 then ([ForceFrameRate 60, RunWithPriority 1 [Elapse 1, Cancel 2]], Done) else ([], Done))"

definition self_beh :: "nat behaviour" where
  "self_beh f d = (if f = 1 then ([Cancel 1], Cont 9) else ([], Done))"

definition three_tasks :: "nat sched" where
  "three_tasks = run_api (Schedule 3 7 None) (run_api (Schedule 3 5 None) (run_api (Schedule 3 1 None) sched_init))"

definition after_message :: "nat behaviour \<Rightarrow> nat sched \<Rightarrow> nat sched" where
  "after_message beh s = the (oe_performWorkUntilDeadline beh 9 (s\<lparr>messages := messages s - 1\<rparr>))"

lemma three_reach: "sched_reach beh three_tasks"
  unfolding three_tasks_def
  by (rule sched_reach.step [OF sched_reach.step [OF sched_reach.step [OF sched_reach.start sched_step.outside]
        sched_step.outside] sched_step.outside])

lemma after_message_step:
  assumes "0 < messages s" and "returned (oe_performWorkUntilDeadline beh 9 (s\<lparr>messages := messages s - 1\<rparr>))"
  shows "sched_step beh s (after_message beh s)"
  using sched_step.message [OF assms(1)] returned_Some [OF assms(2)] unfolding after_message_def by blast

theorem sched_cancelled_never_runs_witness:
  "map (\<lambda>c. tid (fst c)) (ran (after_message cancel_beh three_tasks)) = [1, 3] \<and>
   filter (\<lambda>c. tid (fst c) = 2) (drop 1 (ran (after_message cancel_beh three_tasks))) = [] \<and>
   filter (\<lambda>c. tid (fst c) = 3) (ran (after_message cancel_beh (run_api (Cancel 3) three_tasks))) = []"
proof -
  have ids: "map (\<lambda>c. tid (fst c)) (ran (after_message cancel_beh three_tasks)) = [1, 3]" by code_simp
  have "sched_step cancel_beh three_tasks (after_message cancel_beh three_tasks)"
    by (rule after_message_step; code_simp)
  then have "sched_steps cancel_beh three_tasks (after_message cancel_beh three_tasks)"
    using sched_steps.refl sched_steps.more by metis
  moreover have "ran (after_message cancel_beh three_tasks) =
      ran three_tasks @ [] @ hd (ran (after_message cancel_beh three_tasks)) # drop 1 (ran (after_message cancel_beh three_tasks))"
    and "cancelled_by cancel_beh 2 (hd (ran (after_message cancel_beh three_tasks)))"
    and "2 < O_taskIdCounter three_tasks" by code_simp+
  ultimately have inside: "filter (\<lambda>c. tid (fst c) = 2) (drop 1 (ran (after_message cancel_beh three_tasks))) = []"
    using sched_cancelled_never_runs [OF three_reach] unfolding filter_empty_conv by blast
  have "sched_step cancel_beh (run_api (Cancel 3) three_tasks) (after_message cancel_beh (run_api (Cancel 3) three_tasks))"
    by (rule after_message_step; code_simp)
  then have "sched_steps cancel_beh (run_api (Cancel 3) three_tasks) (after_message cancel_beh (run_api (Cancel 3) three_tasks))"
    using sched_steps.refl sched_steps.more by metis
  moreover have "3 < O_taskIdCounter three_tasks" "cancels 3 (Cancel 3 :: nat api)"
    "filter (\<lambda>c. tid (fst c) = 3) (ran three_tasks) = []" by code_simp+
  ultimately show ?thesis using ids inside sched_cancelled_never_runs [OF three_reach] by metis
qed

text \<open>A callback that cancels its own task and returns a continuation is called again.\<close>

lemma self_cancel_is_undone:
  "map (\<lambda>c. (tid (fst c), callback (fst c))) (ran (after_message self_beh (after_message self_beh three_tasks))) =
     [(1, Some 1), (1, Some 9), (2, Some 5), (3, Some 7)] \<and>
   list_ex (cancels 1) (fst (self_beh 1 False))"
  by code_simp

theorem oe_terminates_witness: "\<exists>s'. oe_performWorkUntilDeadline demo_beh 5 demo_s1 = Some s'"
proof (rule oe_terminates)
  show "list_all no_schedule (fst (demo_beh f d))" for f d by (simp add: demo_beh_def)
  show "length (g_taskQueue demo_s1) + length (b_timerQueue demo_s1) < 5" by code_simp
qed

end
