(* ===== verification/Root_Schedule.thy ===== *)
theory Root_Schedule
  imports React_Lanes Scheduler
begin

text \<open>
  How a React root gets its turn (\<open>src/internal/admin/dist/index-DxrWcVFD.js\<close>, function \<open>t0\<close>): the
  lanes to work on are chosen, and a task for them is kept in the scheduler, replaced when the
  priority changes and cancelled when there is nothing to do.  The root's \<open>callbackNode\<close> is the
  identifier of the task.
\<close>

text \<open>The state of the render in progress that \<open>t0\<close> reads.\<close>

record render =
  rn_isRoot :: bool \<comment> \<open>\<open>l === rn\<close>\<close>
  wt_renderLanes :: lanes
  Ft_suspendedReason :: int
  hasPendingCommit :: bool \<comment> \<open>\<open>l.cancelPendingCommit !== null\<close>\<close>
  hasTimeout :: bool \<comment> \<open>\<open>l.timeoutHandle !== -1\<close>\<close>

definition t0_nextLanes :: "render \<Rightarrow> root \<Rightarrow> lanes" where
  "t0_nextLanes r l = Je_getNextLanes l (if rn_isRoot r then wt_renderLanes r else 0) (hasPendingCommit r \<or> hasTimeout r)"

definition t0_schedulerPriority :: "lanes \<Rightarrow> int" where
  "t0_schedulerPriority f = (let e = Ov_lanesToEventPriority f in
     if e = 2 \<or> e = 8 then 2 else if e = 32 then 3 else if e = 268435456 then 5 else 3)"

definition cancel_node :: "int option \<Rightarrow> 'cb sched \<Rightarrow> 'cb sched" where
  "cancel_node p s = (case p of None \<Rightarrow> s | Some n \<Rightarrow> e_cancelCallback n s)"

text \<open>\<open>cb\<close> is the root's bound work function \<open>lh\<close>; the result is the lane, the root, its node and the scheduler.\<close>

definition t0_scheduleTaskForRoot ::
  "'cb \<Rightarrow> render \<Rightarrow> root \<Rightarrow> int option \<Rightarrow> rat \<Rightarrow> 'cb sched \<Rightarrow> lanes \<times> root \<times> int option \<times> 'cb sched" where
  "t0_scheduleTaskForRoot cb r l0 p t s =
     (let l = t0_markStarvedLanesAsExpired l0 t; f = t0_nextLanes r l in
      if f = 0 \<or> rn_isRoot r \<and> (Ft_suspendedReason r = 2 \<or> Ft_suspendedReason r = 9) \<or> hasPendingCommit r
      then (0, l\<lparr>callbackPriority := 0\<rparr>, None, cancel_node p s)
      else if f AND 3 = 0 \<or> Tt_checkIfRootIsPrerendering l f then
        let o1 = lowest f in
        if o1 = callbackPriority l then (o1, l, p, s)
        else let (task, s) = e_scheduleCallback (t0_schedulerPriority f) cb None (cancel_node p s) in
          (o1, l\<lparr>callbackPriority := o1\<rparr>, Some (tid task), s)
      else (2, l\<lparr>callbackPriority := 2\<rparr>, None, cancel_node p s))"

section \<open>The root's task\<close>

definition live :: "int \<Rightarrow> 'cb sched \<Rightarrow> bool" where
  "live n s \<longleftrightarrow> (\<exists>x \<in> set (g_taskQueue s). tid x = n \<and> callback x \<noteq> None)"

definition node_ok :: "root \<Rightarrow> int option \<Rightarrow> 'cb sched \<Rightarrow> bool" where
  "node_ok l p s \<longleftrightarrow> wake_ok s \<and>
     (case p of None \<Rightarrow> callbackPriority l \<in> {0, 2} | Some n \<Rightarrow> live n s \<and> n < O_taskIdCounter s)"

lemma schedule_now:
  "fst (e_scheduleCallback V W None s) = \<lparr>tid = O_taskIdCounter s, callback = Some W, priorityLevel = V,
     startTime = now s, expirationTime = now s + timeout_of V, sortIndex = now s + timeout_of V\<rparr>"
  "set (g_taskQueue (snd (e_scheduleCallback V W None s))) =
     insert (fst (e_scheduleCallback V W None s)) (set (g_taskQueue s))"
  "b_timerQueue (snd (e_scheduleCallback V W None s)) = b_timerQueue s"
  "O_taskIdCounter (snd (e_scheduleCallback V W None s)) = O_taskIdCounter s + 1"
  by (auto simp: e_scheduleCallback_def Let_def Q_schedulePerformWork_def)

lemma cancel_node_wake: "wake_ok s \<Longrightarrow> wake_ok (cancel_node p s)"
  by (cases p) (auto simp: cancel_node_def wake.cancel)

lemma cancel_node_dead:
  assumes "wake_ok s" and "n < O_taskIdCounter s"
  shows "dead n (cancel_node (Some n) s)"
  using assms(2) by (simp add: dead_def cancel_node_def e_cancelCallback_def put_callback_def ball_Un set_callback_None)

lemma cancel_node_fields: "O_taskIdCounter (cancel_node p s) = O_taskIdCounter s"
  by (cases p) (simp_all add: cancel_node_def e_cancelCallback_def put_callback_def)

lemma t0_fields: "callbackPriority (t0_markStarvedLanesAsExpired l t) = callbackPriority l"
proof -
  have "callbackPriority (t0_body t j l) = callbackPriority l" for j l by (simp add: t0_body_def Let_def)
  then have "callbackPriority (lane_loop True (t0_body t) f l) = callbackPriority l" for f
    by (induction True "t0_body t" f l rule: lane_loop.induct) (subst lane_loop.simps, simp add: Let_def)
  then show ?thesis by (simp add: t0_markStarvedLanesAsExpired_def)
qed

lemma lowest_small: "f AND 3 = 0 \<Longrightarrow> f \<noteq> 0 \<Longrightarrow> lowest f \<notin> {0, 2}" for f :: lanes
proof -
  assume f: "f AND 3 = 0" "f \<noteq> 0"
  obtain k where k: "k < 32" "bit f k" "lowest f = lane k" using lowest_lane [OF f(2)] by metis
  have "k \<noteq> 1" using and_lane [OF k(2), of 3] f(1) by (auto simp: bit_simps numeral_eq_Suc)
  then have "lane k \<noteq> 2" using lane_inj [OF k(1), of 1] by simp
  then show ?thesis using k(1,3) lane_not_0 [OF k(1)] by simp
qed

text \<open>
  A root with work that is not synchronous has its task: after \<open>t0\<close> the root's node is a task
  in the scheduler's queue that still has its callback, a message is on its way to run it, and
  the task the root had before, if it was replaced, has been cancelled.
\<close>

theorem root_is_scheduled:
  assumes "node_ok l p s"
    and "t0_nextLanes r (t0_markStarvedLanesAsExpired l t) \<noteq> 0"
    and "t0_nextLanes r (t0_markStarvedLanesAsExpired l t) AND 3 = 0"
    and "\<not> rn_isRoot r" and "\<not> hasPendingCommit r"
    and "t0_scheduleTaskForRoot cb r l p t s = (o1, l', p', s')"
  shows "\<exists>n. p' = Some n \<and> live n s' \<and> messages s' = 1 \<and> node_ok l' p' s' \<and>
    (\<forall>m. p = Some m \<and> m \<noteq> n \<longrightarrow> dead m s')"
proof -
  define f where "f = t0_nextLanes r (t0_markStarvedLanesAsExpired l t)"
  define s1 where "s1 = cancel_node p s"
  define x where "x = fst (e_scheduleCallback (t0_schedulerPriority f) cb None s1)"
  define s2 where "s2 = snd (e_scheduleCallback (t0_schedulerPriority f) cb None s1)"
  have w: "wake_ok s" using assms(1) by (simp add: node_ok_def)
  have msg: "messages s = 1" if "wake_ok s" "live n s" for s :: "'a sched" and n
    using that by (auto simp: wake_ok_def flags_ok_def live_def)
  show ?thesis
  proof (cases "lowest f = callbackPriority l")
    case True
    then have r: "l' = t0_markStarvedLanesAsExpired l t" "p' = p" "s' = s"
      using assms(2-6) by (auto simp: t0_scheduleTaskForRoot_def Let_def f_def t0_fields)
    have "callbackPriority l \<notin> {0, 2}" using lowest_small [of f] assms(2,3) True by (simp add: f_def)
    then obtain n where "p = Some n" "live n s" using assms(1) by (cases p) (auto simp: node_ok_def)
    then show ?thesis using r assms(1) msg [OF w] by (auto simp: node_ok_def t0_fields)
  next
    case False
    then have r: "p' = Some (tid x)" "s' = s2"
      using assms(2-6) by (auto simp: t0_scheduleTaskForRoot_def Let_def f_def t0_fields s1_def x_def s2_def split: prod.splits)
    have w1: "wake_ok s1" unfolding s1_def by (rule cancel_node_wake [OF w])
    have w2: "wake_ok s2" unfolding s2_def by (rule wake.schedule [OF w1])
    have x: "tid x = O_taskIdCounter s" "callback x \<noteq> None" "O_taskIdCounter s2 = O_taskIdCounter s + 1"
      "set (g_taskQueue s2) = insert x (set (g_taskQueue s1))" "b_timerQueue s2 = b_timerQueue s1"
      by (simp_all add: x_def s2_def schedule_now s1_def cancel_node_fields)
    have lv: "live (tid x) s2" using x by (auto simp: live_def)
    have "dead m s2" if "p = Some m" "m \<noteq> tid x" for m
    proof -
      have "m < O_taskIdCounter s" using assms(1) that(1) by (simp add: node_ok_def)
      from cancel_node_dead [OF w this] show ?thesis
        using that x by (auto simp: dead_def s1_def cancel_node_fields)
    qed
    then show ?thesis using r x lv msg [OF w2 lv] w2 by (auto simp: node_ok_def)
  qed
qed

text \<open>A root with a default update, scheduled for the first time.\<close>

definition demo_render :: render where
  "demo_render = \<lparr>rn_isRoot = False, wt_renderLanes = 0, Ft_suspendedReason = 0, hasPendingCommit = False, hasTimeout = False\<rparr>"

theorem root_is_scheduled_witness:
  "\<exists>l' s'. t0_scheduleTaskForRoot () demo_render (Gu_markRootUpdated x0_root 32) None 0 sched_init = (32, l', Some 1, s') \<and>
     live 1 s' \<and> messages s' = 1"
proof -
  let ?l = "Gu_markRootUpdated x0_root 32"
  have f: "t0_nextLanes demo_render (t0_markStarvedLanesAsExpired ?l 0) = 32" by code_simp
  have n: "node_ok ?l None sched_init"
    by (simp add: node_ok_def reach_wake_ok [OF sched_reach.start] Gu_markRootUpdated_def x0_root_def)
  have l: "lowest (32 :: lanes) = 32" "(32 :: lanes) AND 3 = 0" by code_simp+
  obtain o1 l' p' s' where r: "t0_scheduleTaskForRoot () demo_render ?l None 0 sched_init = (o1, l', p', s')"
    by (metis prod_cases4)
  have "fst (t0_scheduleTaskForRoot () demo_render ?l None 0 sched_init) = 32"
    "fst (snd (snd (t0_scheduleTaskForRoot () demo_render ?l None 0 sched_init))) = Some 1"
    by code_simp+
  then have "o1 = 32" "p' = Some 1" using r by simp_all
  then show ?thesis
    using root_is_scheduled [OF n _ _ _ _ r] f l r by (auto simp: demo_render_def)
qed

end
