(* ===== verification/Root_List.thy ===== *)
theory Root_List
  imports Root_Schedule
begin

text \<open>
  The roots that wait for their turn (\<open>src/internal/admin/dist/index-DxrWcVFD.js\<close>, \<open>Nl\<close>, \<open>wu\<close>, \<open>e0\<close>,
  \<open>lh\<close>, \<open>Tc\<close>, \<open>uh\<close>): roots are queued when they are updated, a microtask gives each of them a task in
  the scheduler or drops it, and synchronous work is done at once.  The linked list from \<open>lf\<close> to
  \<open>Ac\<close> is a list of root numbers.  The work itself, rendering and committing a root and running the effects
  of the last commit, is an argument of the functions that start it.
\<close>

unbundle bit_operations_syntax

section \<open>The list of roots\<close>

text \<open>What roots put into the scheduler: the bound work function of a root, or the processing of the list.\<close>

datatype root_task = Lh nat | Dy

record roots =
  rs_list :: "nat list" \<comment> \<open>\<open>lf\<close> to \<open>Ac\<close>\<close>
  rs_root :: "nat \<Rightarrow> root"
  rs_node :: "nat \<Rightarrow> int option" \<comment> \<open>\<open>callbackNode\<close>\<close>
  rs_render :: "nat \<Rightarrow> render"
  jy_mightHaveSync :: bool
  Fg_microtask :: bool
  Wg_flushing :: bool
  Tu_transition :: lanes
  lr_commit :: int
  rs_sched :: "root_task sched"
  rs_microtasks :: nat

record works =
  wk_af :: "roots \<Rightarrow> bool \<times> roots"
  wk_S :: "nat \<Rightarrow> lanes \<Rightarrow> bool \<Rightarrow> roots \<Rightarrow> roots"

definition uh_scheduleMicrotask :: "roots \<Rightarrow> roots" where
  "uh_scheduleMicrotask s = s\<lparr>rs_microtasks := Suc (rs_microtasks s)\<rparr>"

definition Nl_ensureRootIsScheduled :: "nat \<Rightarrow> roots \<Rightarrow> roots" where
  "Nl_ensureRootIsScheduled l s =
     (let s = (if l \<in> set (rs_list s) then s else s\<lparr>rs_list := rs_list s @ [l]\<rparr>);
          s = s\<lparr>jy_mightHaveSync := True\<rparr> in
      if Fg_microtask s then s else uh_scheduleMicrotask (s\<lparr>Fg_microtask := True\<rparr>))"

definition t0_at :: "rat \<Rightarrow> nat \<Rightarrow> roots \<Rightarrow> lanes \<times> roots" where
  "t0_at t p s =
     (let (x, l, n, sc) = t0_scheduleTaskForRoot (Lh p) (rs_render s p) (rs_root s p) (rs_node s p) t (rs_sched s) in
      (x, s\<lparr>rs_root := (rs_root s)(p := l), rs_node := (rs_node s)(p := n), rs_sched := sc\<rparr>))"

section \<open>Synchronous work\<close>

definition Tc_performSyncWork :: "works \<Rightarrow> nat \<Rightarrow> lanes \<Rightarrow> roots \<Rightarrow> roots" where
  "Tc_performSyncWork w p x s = (let (b, s) = wk_af w s in if b then s else wk_S w p x True s)"

definition wu_flushLanes :: "lanes \<Rightarrow> root \<Rightarrow> lanes" where
  "wu_flushLanes l r =
     (if pendingLanes r = 0 then 0
      else
        let m = push_bit ((top_lane (42 OR l) + 1) mod 32) 1 - 1;
            m = m AND (pendingLanes r AND NOT (suspendedLanes r AND NOT (pingedLanes r)))
        in if m AND 201326741 \<noteq> 0 then m AND 201326741 OR 1 else if m \<noteq> 0 then m OR 2 else 0)"

text \<open>The lanes \<open>wu\<close> performs on a root, none when it passes it over.\<close>

definition wu_due :: "lanes \<Rightarrow> nat \<Rightarrow> roots \<Rightarrow> lanes" where
  "wu_due l p s =
     (if l \<noteq> 0 then wu_flushLanes l (rs_root s p)
      else let f = t0_nextLanes (rs_render s p) (rs_root s p) in
        if f AND 3 = 0 \<or> Tt_checkIfRootIsPrerendering (rs_root s p) f then 0 else f)"

text \<open>
  The loops of \<open>wu\<close>, with fuel: \<open>k\<close> is the position in the list, which work may extend at its end, and
  \<open>f\<close> says whether work was done in this pass.
\<close>

fun wu_loop :: "nat \<Rightarrow> works \<Rightarrow> lanes \<Rightarrow> nat \<Rightarrow> bool \<Rightarrow> roots \<Rightarrow> roots option" where
  "wu_loop 0 w l k f s = None"
| "wu_loop (Suc n) w l k f s =
     (if k < length (rs_list s) then
        let p = rs_list s ! k; x = wu_due l p s in
        if x \<noteq> 0 then wu_loop n w l (Suc k) True (Tc_performSyncWork w p x s) else wu_loop n w l (Suc k) f s
      else if f then wu_loop n w l 0 False s else Some s)"

definition wu_flushSyncWork :: "nat \<Rightarrow> works \<Rightarrow> lanes \<Rightarrow> roots \<Rightarrow> roots option" where
  "wu_flushSyncWork n w l s =
     (if \<not> Wg_flushing s \<and> jy_mightHaveSync s
      then map_option (\<lambda>s. s\<lparr>Wg_flushing := False\<rparr>) (wu_loop n w l 0 False (s\<lparr>Wg_flushing := True\<rparr>)) else Some s)"

section \<open>Processing the list\<close>

fun e0_loop :: "lanes \<Rightarrow> rat \<Rightarrow> nat list \<Rightarrow> roots \<Rightarrow> nat list \<times> roots" where
  "e0_loop l t [] s = ([], s)"
| "e0_loop l t (p # ps) s =
     (let (x, s) = t0_at t p s in
      if x = 0 then e0_loop l t ps s
      else
        let (ks, s) = e0_loop l t ps (s\<lparr>jy_mightHaveSync := (jy_mightHaveSync s \<or> l \<noteq> 0 \<or> x AND 3 \<noteq> 0)\<rparr>) in (p # ks, s))"

text \<open>The part of \<open>e0\<close> before the flush; \<open>pop\<close> is what \<open>SE\<close> says of the current event.\<close>

definition e0_syncLane :: "bool \<Rightarrow> roots \<Rightarrow> lanes" where
  "e0_syncLane pop s = (if Tu_transition s \<noteq> 0 \<and> pop then Tu_transition s else 0)"

definition e0_scan :: "bool \<Rightarrow> roots \<Rightarrow> roots" where
  "e0_scan pop s =
     (let s = s\<lparr>jy_mightHaveSync := False, Fg_microtask := False\<rparr>;
          (ks, s) = e0_loop (e0_syncLane pop s) (now (rs_sched s)) (rs_list s) s in s\<lparr>rs_list := ks\<rparr>)"

definition e0_processRootSchedule :: "nat \<Rightarrow> works \<Rightarrow> bool \<Rightarrow> roots \<Rightarrow> roots option" where
  "e0_processRootSchedule n w pop s =
     (let l = e0_syncLane pop s; s = e0_scan pop s in
      map_option (\<lambda>s. s\<lparr>Tu_transition := 0\<rparr>) (if lr_commit s \<noteq> 0 \<and> lr_commit s \<noteq> 5 then Some s else wu_flushSyncWork n w l s))"

text \<open>The microtask, which while React is at work leaves the list to a task of the highest priority.\<close>

definition uh_microtask :: "nat \<Rightarrow> works \<Rightarrow> bool \<Rightarrow> bool \<Rightarrow> roots \<Rightarrow> roots option" where
  "uh_microtask n w pop executing s =
     (let s = s\<lparr>rs_microtasks := rs_microtasks s - 1\<rparr> in
      if executing then Some (s\<lparr>rs_sched := snd (e_scheduleCallback 1 Dy None (rs_sched s))\<rparr>)
      else e0_processRootSchedule n w pop s)"

text \<open>The task of a root; the result is its continuation, if there is one.\<close>

definition lh_performWork :: "works \<Rightarrow> nat \<Rightarrow> bool \<Rightarrow> roots \<Rightarrow> root_task option \<times> roots" where
  "lh_performWork w p o' s =
     (if lr_commit s \<noteq> 0 \<and> lr_commit s \<noteq> 5
      then (None, s\<lparr>rs_node := (rs_node s)(p := None), rs_root := (rs_root s)(p := (rs_root s p)\<lparr>callbackPriority := 0\<rparr>)\<rparr>)
      else
        let f = rs_node s p; (b, s) = wk_af w s in
        if b \<and> rs_node s p \<noteq> f then (None, s)
        else
          let x = t0_nextLanes (rs_render s p) (rs_root s p) in
          if x = 0 then (None, s)
          else
            let s = wk_S w p x o' s; s = snd (t0_at (now (rs_sched s)) p s) in
            (if rs_node s p \<noteq> None \<and> rs_node s p = f then Some (Lh p) else None, s))"

section \<open>Every root gets its turn\<close>

text \<open>The task of a root is in the scheduler and still has the root's work function.\<close>

definition own :: "nat \<Rightarrow> int \<Rightarrow> root_task sched \<Rightarrow> bool" where
  "own p n sc \<longleftrightarrow> (\<exists>x \<in> set (g_taskQueue sc). tid x = n \<and> callback x = Some (Lh p))"

definition node_fine :: "roots \<Rightarrow> nat \<Rightarrow> bool" where
  "node_fine s p \<longleftrightarrow> (case rs_node s p of None \<Rightarrow> callbackPriority (rs_root s p) \<in> {0, 2}
     | Some n \<Rightarrow> own p n (rs_sched s) \<and> n < O_taskIdCounter (rs_sched s))"

definition roots_ok :: "roots \<Rightarrow> bool" where
  "roots_ok s \<longleftrightarrow> wake_ok (rs_sched s) \<and> (\<forall>p. node_fine s p) \<and>
     (\<forall>p q n. rs_node s p = Some n \<and> rs_node s q = Some n \<longrightarrow> p = q)"

lemma own_cancel: "own p n sc \<Longrightarrow> m \<noteq> Some n \<Longrightarrow> own p n (cancel_node m sc)"
  by (cases m) (force simp: own_def cancel_node_def e_cancelCallback_def put_callback_def set_callback_def)+

lemma own_schedule:
  "own p n sc \<Longrightarrow> own p n (snd (e_scheduleCallback V W None sc))"
  "own p (O_taskIdCounter sc) (snd (e_scheduleCallback V (Lh p) None sc))"
  by (auto simp: own_def schedule_now)

text \<open>What \<open>t0\<close> does, in all its branches: nothing to do, the old task is kept, a new one, or synchronous work.\<close>

definition waits :: "rat \<Rightarrow> render \<Rightarrow> root \<Rightarrow> bool" where
  "waits t r l \<longleftrightarrow> t0_nextLanes r (t0_markStarvedLanesAsExpired l t) = 0 \<or>
     rn_isRoot r \<and> (Ft_suspendedReason r = 2 \<or> Ft_suspendedReason r = 9) \<or> hasPendingCommit r"

definition async :: "rat \<Rightarrow> render \<Rightarrow> root \<Rightarrow> bool" where
  "async t r l \<longleftrightarrow> (let l = t0_markStarvedLanesAsExpired l t; f = t0_nextLanes r l in
     f AND 3 = 0 \<or> Tt_checkIfRootIsPrerendering l f)"

lemma t0_waits:
  "waits t r l \<Longrightarrow> t0_scheduleTaskForRoot cb r l p t sc =
     (0, (t0_markStarvedLanesAsExpired l t)\<lparr>callbackPriority := 0\<rparr>, None, cancel_node p sc)"
  by (simp add: t0_scheduleTaskForRoot_def waits_def Let_def)

lemma t0_sync:
  "\<not> waits t r l \<Longrightarrow> \<not> async t r l \<Longrightarrow> t0_scheduleTaskForRoot cb r l p t sc =
     (2, (t0_markStarvedLanesAsExpired l t)\<lparr>callbackPriority := 2\<rparr>, None, cancel_node p sc)"
  unfolding t0_scheduleTaskForRoot_def waits_def async_def Let_def by (simp only: if_False simp_thms)

lemma t0_async:
  assumes "\<not> waits t r l" "async t r l"
  shows "t0_scheduleTaskForRoot cb r l p t sc =
    (let m = t0_markStarvedLanesAsExpired l t; f = t0_nextLanes r m; o1 = lowest f in
     if o1 = callbackPriority l then (o1, m, p, sc)
     else let e = e_scheduleCallback (t0_schedulerPriority f) cb None (cancel_node p sc) in
       (o1, m\<lparr>callbackPriority := o1\<rparr>, Some (tid (fst e)), snd e))"
  using assms unfolding t0_scheduleTaskForRoot_def waits_def async_def Let_def t0_fields case_prod_beta by (simp only: if_False if_True simp_thms)

lemma t0_cases:
  assumes "t0_scheduleTaskForRoot cb r l p t sc = (x, l', p', sc')"
  obtains
    (none) "p' = None" "callbackPriority l' \<in> {0, 2}" "sc' = cancel_node p sc" "waits t r l \<or> \<not> async t r l"
  | (same) "p' = p" "callbackPriority l' = callbackPriority l" "sc' = sc"
      "lowest (t0_nextLanes r (t0_markStarvedLanesAsExpired l t)) = callbackPriority l"
  | (new) V where "p' = Some (O_taskIdCounter sc)" "sc' = snd (e_scheduleCallback V cb None (cancel_node p sc))"
proof (cases "waits t r l \<or> \<not> async t r l")
  case True
  then show thesis using none assms t0_waits [of t r l cb p sc] t0_sync [of t r l cb p sc] by (cases "waits t r l") auto
next
  case False
  then have "\<not> waits t r l" "async t r l" by blast+
  from t0_async [OF this, of cb p sc] show thesis
    using same new assms by (auto simp: Let_def t0_fields schedule_now cancel_node_fields split: if_splits)
qed

lemma lowest_zero: "lowest f = 0 \<longleftrightarrow> f = 0" for f :: lanes
  using lowest_lane [of f] lane_not_0 by fastforce

lemma t0_result:
  "fst (t0_scheduleTaskForRoot cb r l p t sc) = 0 \<longleftrightarrow> waits t r l"
  "\<not> waits t r l \<Longrightarrow> \<not> async t r l \<Longrightarrow> fst (t0_scheduleTaskForRoot cb r l p t sc) = 2"
proof -
  show "fst (t0_scheduleTaskForRoot cb r l p t sc) = 0 \<longleftrightarrow> waits t r l"
  proof (cases "waits t r l \<or> \<not> async t r l")
    case True
    then show ?thesis using t0_waits [of t r l cb p sc] t0_sync [of t r l cb p sc] by (cases "waits t r l") auto
  next
    case False
    then have w: "\<not> waits t r l" "async t r l" by blast+
    then have "lowest (t0_nextLanes r (t0_markStarvedLanesAsExpired l t)) \<noteq> 0" unfolding lowest_zero by (simp add: waits_def)
    then show ?thesis using w t0_async [OF w, of cb p sc] by (auto simp: Let_def)
  qed
qed (simp add: t0_sync)

lemma t0_at_other:
  "q \<noteq> p \<Longrightarrow> rs_root (snd (t0_at t p s)) q = rs_root s q" "q \<noteq> p \<Longrightarrow> rs_node (snd (t0_at t p s)) q = rs_node s q"
  "rs_render (snd (t0_at t p s)) = rs_render s" "rs_list (snd (t0_at t p s)) = rs_list s"
  by (simp_all add: t0_at_def split: prod.splits)

lemma t0_at_result:
  "fst (t0_at t p s) = 0 \<longleftrightarrow> waits t (rs_render s p) (rs_root s p)"
  "\<not> waits t (rs_render s p) (rs_root s p) \<Longrightarrow> \<not> async t (rs_render s p) (rs_root s p) \<Longrightarrow> fst (t0_at t p s) = 2"
  using t0_result [where cb = "Lh p" and r = "rs_render s p" and l = "rs_root s p" and p = "rs_node s p" and t = t and sc = "rs_sched s"]
  by (auto simp: t0_at_def split: prod.splits)

lemma t0_at_ok:
  assumes "roots_ok s"
  shows "roots_ok (snd (t0_at t p s))"
proof -
  let ?sc = "rs_sched s"
  obtain x l' p' sc' where e: "t0_scheduleTaskForRoot (Lh p) (rs_render s p) (rs_root s p) (rs_node s p) t ?sc = (x, l', p', sc')"
    by (metis prod_cases4)
  have w: "wake_ok ?sc" "\<And>q. node_fine s q" "\<And>q q' n. rs_node s q = Some n \<Longrightarrow> rs_node s q' = Some n \<Longrightarrow> q = q'"
    using assms by (auto simp: roots_ok_def)
  have other: "own q n (cancel_node (rs_node s p) ?sc)" if "q \<noteq> p" "rs_node s q = Some n" for q n
    using own_cancel [of q n ?sc "rs_node s p"] w(2) [of q] w(3) [of q n p] that by (auto simp: node_fine_def)
  have less: "n < O_taskIdCounter ?sc" if "rs_node s q = Some n" for q n
    using w(2) [of q] that by (simp add: node_fine_def)
  have owns: "own q n ?sc" if "rs_node s q = Some n" for q n
    using w(2) [of q] that by (simp add: node_fine_def)
  have prio: "callbackPriority (rs_root s q) = 0 \<or> callbackPriority (rs_root s q) = 2" if "rs_node s q = None" for q
    using w(2) [of q] that by (simp add: node_fine_def)
  from e show ?thesis
  proof (cases rule: t0_cases)
    case none
    then show ?thesis using w(3) e other less prio cancel_node_wake [OF w(1)]
      by (auto simp: roots_ok_def node_fine_def t0_at_def cancel_node_fields split: option.splits)
  next
    case same
    then show ?thesis using w(1,3) owns less prio e by (auto simp: roots_ok_def node_fine_def t0_at_def split: option.splits)
  next
    case (new V)
    have "wake_ok sc'" using new wake.schedule [OF cancel_node_wake [OF w(1)]] by simp
    moreover have "O_taskIdCounter sc' = O_taskIdCounter ?sc + 1" "own p (O_taskIdCounter ?sc) sc'"
      using new own_schedule(2) [of p "cancel_node (rs_node s p) ?sc" V] by (simp_all add: schedule_now cancel_node_fields)
    moreover have "own q n sc'" if "q \<noteq> p" "rs_node s q = Some n" for q n
      using new own_schedule(1) [OF other [OF that]] by simp
    moreover have "snd (t0_at t p s) = s\<lparr>rs_root := (rs_root s)(p := l'), rs_node := (rs_node s)(p := p'), rs_sched := sc'\<rparr>"
      using e by (simp add: t0_at_def)
    ultimately have fine: "node_fine (snd (t0_at t p s)) q" for q
      using new(1) less [of q] prio [of q] by (cases "q = p"; cases "rs_node s q") (simp_all add: node_fine_def less_SucI)
    have "q = q'" if "rs_node (snd (t0_at t p s)) q = Some n" "rs_node (snd (t0_at t p s)) q' = Some n" for q q' n
      using that e new(1) less [of q n] less [of q' n] w(3) [of q n q'] by (cases "q = p"; cases "q' = p") (auto simp: t0_at_def)
    moreover have "rs_sched (snd (t0_at t p s)) = sc'" using e by (simp add: t0_at_def)
    ultimately show ?thesis using fine \<open>wake_ok sc'\<close> unfolding roots_ok_def by metis
  qed
qed

lemma t0_at_task:
  assumes "roots_ok s" "\<not> waits t (rs_render s p) (rs_root s p)"
    "t0_nextLanes (rs_render s p) (t0_markStarvedLanesAsExpired (rs_root s p) t) AND 3 = 0"
  shows "rs_node (snd (t0_at t p s)) p \<noteq> None"
proof -
  let ?f = "t0_nextLanes (rs_render s p) (t0_markStarvedLanesAsExpired (rs_root s p) t)"
  obtain x l' p' sc' where e: "t0_scheduleTaskForRoot (Lh p) (rs_render s p) (rs_root s p) (rs_node s p) t (rs_sched s) = (x, l', p', sc')"
    by (metis prod_cases4)
  have a: "async t (rs_render s p) (rs_root s p)" "?f \<noteq> 0" using assms(2,3) by (simp_all add: async_def Let_def waits_def)
  from e show ?thesis
  proof (cases rule: t0_cases)
    case none
    then show ?thesis using assms(2) a by blast
  next
    case same
    then have "rs_node s p \<noteq> None" using assms(1) lowest_small [OF assms(3) a(2)] by (auto simp: roots_ok_def node_fine_def split: option.splits)
    then show ?thesis using same e by (simp add: t0_at_def)
  next
    case new
    then show ?thesis using e by (simp add: t0_at_def)
  qed
qed

definition live_lanes :: "rat \<Rightarrow> roots \<Rightarrow> nat \<Rightarrow> lanes" where
  "live_lanes t s p = t0_nextLanes (rs_render s p) (t0_markStarvedLanesAsExpired (rs_root s p) t)"

abbreviation idle :: "rat \<Rightarrow> roots \<Rightarrow> nat \<Rightarrow> bool" where
  "idle t s p \<equiv> waits t (rs_render s p) (rs_root s p)"

abbreviation asyn :: "rat \<Rightarrow> roots \<Rightarrow> nat \<Rightarrow> bool" where
  "asyn t s p \<equiv> async t (rs_render s p) (rs_root s p)"

lemma t0_at_views:
  assumes "q \<noteq> p"
  shows "idle t (snd (t0_at u p s)) q = idle t s q" "asyn t (snd (t0_at u p s)) q = asyn t s q"
    "live_lanes t (snd (t0_at u p s)) q = live_lanes t s q"
  using assms by (simp_all add: t0_at_other live_lanes_def)

lemma node_fine_fields [simp]:
  "node_fine (s\<lparr>jy_mightHaveSync := b\<rparr>) p = node_fine s p" "node_fine (s\<lparr>Fg_microtask := b\<rparr>) p = node_fine s p"
  "node_fine (s\<lparr>rs_list := ks\<rparr>) p = node_fine s p"
  by (simp_all add: node_fine_def split: option.split)

lemma roots_ok_fields [simp]:
  "roots_ok (s\<lparr>jy_mightHaveSync := b\<rparr>) = roots_ok s" "roots_ok (s\<lparr>Fg_microtask := b\<rparr>) = roots_ok s"
  "roots_ok (s\<lparr>rs_list := ks\<rparr>) = roots_ok s"
  by (simp_all add: roots_ok_def)

lemma jy_same: "jy_mightHaveSync s = b \<Longrightarrow> s\<lparr>jy_mightHaveSync := b\<rparr> = s"
  by (cases s) simp

text \<open>One turn of the loop.\<close>

definition e0_mark :: "lanes \<Rightarrow> rat \<Rightarrow> nat \<Rightarrow> roots \<Rightarrow> roots" where
  "e0_mark l t p s = (snd (t0_at t p s))\<lparr>jy_mightHaveSync := (jy_mightHaveSync s \<or> \<not> idle t s p \<and> (l \<noteq> 0 \<or> fst (t0_at t p s) AND 3 \<noteq> 0))\<rparr>"

lemma t0_at_jy [simp]: "jy_mightHaveSync (snd (t0_at t p s)) = jy_mightHaveSync s"
  by (simp add: t0_at_def split: prod.splits)

lemma e0_loop_Cons:
  "e0_loop l t (p # ps) s = (if idle t s p then e0_loop l t ps (e0_mark l t p s)
     else (p # fst (e0_loop l t ps (e0_mark l t p s)), snd (e0_loop l t ps (e0_mark l t p s))))"
  using t0_at_result(1) [of t p s] t0_at_jy [of t p s]
  by (cases "t0_at t p s") (auto simp: e0_mark_def case_prod_beta Let_def jy_same)

declare e0_loop.simps(2) [simp del] e0_loop_Cons [simp]

lemma e0_mark_fields:
  "q \<noteq> p \<Longrightarrow> rs_node (e0_mark l t p s) q = rs_node s q" "q \<noteq> p \<Longrightarrow> idle u (e0_mark l t p s) q = idle u s q"
  "q \<noteq> p \<Longrightarrow> asyn u (e0_mark l t p s) q = asyn u s q" "q \<noteq> p \<Longrightarrow> live_lanes u (e0_mark l t p s) q = live_lanes u s q"
  "rs_node (e0_mark l t p s) p = rs_node (snd (t0_at t p s)) p" "roots_ok s \<Longrightarrow> roots_ok (e0_mark l t p s)"
  "jy_mightHaveSync s \<Longrightarrow> jy_mightHaveSync (e0_mark l t p s)"
  "\<not> idle t s p \<Longrightarrow> \<not> asyn t s p \<Longrightarrow> jy_mightHaveSync (e0_mark l t p s)"
  by (simp_all add: e0_mark_def t0_at_other live_lanes_def t0_at_ok t0_at_result)

lemma e0_loop_other: "q \<notin> set ps \<Longrightarrow> rs_node (snd (e0_loop l t ps s)) q = rs_node s q"
  by (induction ps arbitrary: s) (simp_all add: e0_mark_fields)

lemma e0_loop_jy: "jy_mightHaveSync s \<Longrightarrow> jy_mightHaveSync (snd (e0_loop l t ps s))"
  by (induction ps arbitrary: s) (simp_all add: e0_mark_fields)

lemma e0_loop_ok: "roots_ok s \<Longrightarrow> roots_ok (snd (e0_loop l t ps s))"
  by (induction ps arbitrary: s) (simp_all add: e0_mark_fields)

lemma e0_loop_keeps: "distinct ps \<Longrightarrow> fst (e0_loop l t ps s) = filter (\<lambda>p. \<not> idle t s p) ps"
proof (induction ps arbitrary: s)
  case (Cons p ps)
  have "filter (\<lambda>q. \<not> idle t (e0_mark l t p s) q) ps = filter (\<lambda>q. \<not> idle t s q) ps"
    using Cons.prems by (intro filter_cong) (simp, metis distinct.simps(2) e0_mark_fields(2))
  then show ?case using Cons by simp
qed simp

lemma t0_at_idle: "idle t s p \<Longrightarrow> rs_node (snd (t0_at t p s)) p = None"
  by (simp add: t0_at_def t0_waits)

lemma e0_loop_nodes:
  assumes "distinct ps" "roots_ok s" "p \<in> set ps"
  shows "(idle t s p \<longrightarrow> rs_node (snd (e0_loop l t ps s)) p = None) \<and>
    (\<not> idle t s p \<and> live_lanes t s p AND 3 = 0 \<longrightarrow> rs_node (snd (e0_loop l t ps s)) p \<noteq> None) \<and>
    (\<not> idle t s p \<and> \<not> asyn t s p \<longrightarrow> jy_mightHaveSync (snd (e0_loop l t ps s)))"
  using assms
proof (induction ps arbitrary: s)
  case (Cons q ps)
  show ?case
  proof (cases "p = q")
    case True
    then have n: "rs_node (snd (e0_loop l t ps (e0_mark l t q s))) q = rs_node (snd (t0_at t q s)) q"
      using Cons.prems by (simp add: e0_loop_other e0_mark_fields)
    show ?thesis using True n t0_at_idle [of t s q] t0_at_task [OF Cons.prems(2), of t q] e0_mark_fields(8) [of t s q l]
      by (auto simp: live_lanes_def e0_loop_jy)
  next
    case False
    then have "p \<in> set ps" "distinct ps" "roots_ok (e0_mark l t q s)" using Cons.prems by (simp_all add: e0_mark_fields)
    from Cons.IH [OF this(2,3,1)] show ?thesis using False by (simp add: e0_mark_fields)
  qed
qed simp

text \<open>
  C38. Every root that waits gets its turn: when the list is processed, a root without work is dropped and its
  task cancelled, and the others stay in the list in their order; a root with work that is not synchronous
  then has a task of its own in the scheduler, and a message is on its way to run it, no other root's task having been cancelled
  for it; and for a root with synchronous work the flush is not skipped.
\<close>

theorem roots_get_their_turn:
  assumes "roots_ok s" "distinct (rs_list s)" "t = now (rs_sched s)"
  shows "roots_ok (e0_scan pop s) \<and> rs_list (e0_scan pop s) = filter (\<lambda>p. \<not> idle t s p) (rs_list s) \<and>
    (\<forall>p \<in> set (rs_list s).
       (idle t s p \<longrightarrow> rs_node (e0_scan pop s) p = None) \<and>
       (\<not> idle t s p \<and> live_lanes t s p AND 3 = 0 \<longrightarrow>
          (\<exists>n. rs_node (e0_scan pop s) p = Some n \<and> own p n (rs_sched (e0_scan pop s))) \<and> messages (rs_sched (e0_scan pop s)) = 1) \<and>
       (\<not> idle t s p \<and> \<not> asyn t s p \<longrightarrow> jy_mightHaveSync (e0_scan pop s)))"
proof -
  define s0 where "s0 = s\<lparr>jy_mightHaveSync := False, Fg_microtask := False\<rparr>"
  define r where "r = e0_loop (e0_syncLane pop s0) t (rs_list s) s0"
  have e: "e0_scan pop s = (snd r)\<lparr>rs_list := fst r\<rparr>" using assms(3) by (simp add: e0_scan_def r_def s0_def Let_def split: prod.splits)
  have v: "rs_render s0 = rs_render s" "rs_root s0 = rs_root s" "live_lanes t s0 = live_lanes t s"
    by (simp_all add: s0_def live_lanes_def fun_eq_iff)
  have ok: "roots_ok s0" "roots_ok (snd r)" using assms(1) e0_loop_ok by (simp_all add: s0_def r_def)
  have task: "own p n (rs_sched (snd r))" if "rs_node (snd r) p = Some n" for p n
    using ok(2) that by (force simp: roots_ok_def node_fine_def split: option.splits)
  have msg: "messages (rs_sched (snd r)) = 1" if "rs_node (snd r) p = Some n" for p n
    using ok(2) task [OF that] by (auto simp: roots_ok_def own_def wake_ok_def flags_ok_def)
  have nodes: "idle t s p \<Longrightarrow> rs_node (snd r) p = None" "\<not> idle t s p \<Longrightarrow> live_lanes t s p AND 3 = 0 \<Longrightarrow> rs_node (snd r) p \<noteq> None"
      "\<not> idle t s p \<Longrightarrow> \<not> asyn t s p \<Longrightarrow> jy_mightHaveSync (snd r)" if "p \<in> set (rs_list s)" for p
    using e0_loop_nodes [OF assms(2) ok(1) that, of t "e0_syncLane pop s0"] unfolding r_def v by blast+
  have l: "fst r = filter (\<lambda>p. \<not> idle t s p) (rs_list s)" by (simp add: r_def e0_loop_keeps [OF assms(2)] v)
  show ?thesis
  proof (intro conjI ballI)
    show "roots_ok (e0_scan pop s)" "rs_list (e0_scan pop s) = filter (\<lambda>p. \<not> idle t s p) (rs_list s)" using ok(2) l by (simp_all add: e)
  next
    fix p assume p: "p \<in> set (rs_list s)"
    show "idle t s p \<longrightarrow> rs_node (e0_scan pop s) p = None" using nodes(1) [OF p] by (simp add: e)
    show "\<not> idle t s p \<and> \<not> asyn t s p \<longrightarrow> jy_mightHaveSync (e0_scan pop s)" using nodes(3) [OF p] by (simp add: e)
    show "\<not> idle t s p \<and> live_lanes t s p AND 3 = 0 \<longrightarrow>
        (\<exists>n. rs_node (e0_scan pop s) p = Some n \<and> own p n (rs_sched (e0_scan pop s))) \<and> messages (rs_sched (e0_scan pop s)) = 1"
      using nodes(2) [OF p] task [of p] msg [of p] by (cases "rs_node (snd r) p") (auto simp: e)
  qed
qed

definition demo_roots :: roots where
  "demo_roots = \<lparr>rs_list = [0, 1], rs_root = (\<lambda>p. Gu_markRootUpdated x0_root (if p = 1 then 32 else 0)), rs_node = (\<lambda>p. None),
     rs_render = (\<lambda>p. demo_render), jy_mightHaveSync = True, Fg_microtask = True, Wg_flushing = False, Tu_transition = 0,
     lr_commit = 0, rs_sched = sched_init, rs_microtasks = 1\<rparr>"

theorem roots_get_their_turn_witness:
  "rs_list (e0_scan False demo_roots) = [1] \<and> rs_node (e0_scan False demo_roots) 0 = None \<and>
   (\<exists>n. rs_node (e0_scan False demo_roots) 1 = Some n \<and> own 1 n (rs_sched (e0_scan False demo_roots)))"
proof -
  have "roots_ok demo_roots"
    by (simp add: roots_ok_def node_fine_def demo_roots_def reach_wake_ok [OF sched_reach.start] Gu_markRootUpdated_def x0_root_def)
  moreover have "distinct (rs_list demo_roots)" "0 = now (rs_sched demo_roots)" by (simp_all add: demo_roots_def sched_init_def)
  moreover have "idle 0 demo_roots 0" "\<not> idle 0 demo_roots 1" "live_lanes 0 demo_roots 1 AND 3 = 0" by code_simp+
  moreover have "rs_list demo_roots = [0, 1]" by (simp add: demo_roots_def)
  ultimately show ?thesis using roots_get_their_turn [of demo_roots 0 False] by simp
qed

section \<open>The flush ends\<close>

lemma wu_loop_ends:
  assumes work: "\<And>s p. I s \<Longrightarrow> p \<in> set (rs_list s) \<Longrightarrow> wu_due l p s \<noteq> 0 \<Longrightarrow>
      I (Tc_performSyncWork w p (wu_due l p s) s) \<and> \<mu> (Tc_performSyncWork w p (wu_due l p s) s) < (\<mu> s :: nat)"
    and len: "\<And>s. I s \<Longrightarrow> length (rs_list s) \<le> N"
  shows "I s \<Longrightarrow> (\<not> f \<Longrightarrow> \<forall>i < k. i < length (rs_list s) \<longrightarrow> wu_due l (rs_list s ! i) s = 0) \<Longrightarrow>
    \<exists>n s'. wu_loop n w l k f s = Some s' \<and> (\<forall>p \<in> set (rs_list s'). wu_due l p s' = 0)"
proof (induction "(k, f, s)" arbitrary: k f s
    rule: wf_induct_rule [OF wf_measures [where fs = "[\<lambda>(k, f, s). \<mu> s, \<lambda>(k, f, s). of_bool f, \<lambda>(k, f, s). N - k]"]])
  case (1 k f s)
  let ?p = "rs_list s ! k"
  consider (due) "k < length (rs_list s)" "wu_due l ?p s \<noteq> 0" | (pass) "k < length (rs_list s)" "wu_due l ?p s = 0"
    | (again) "\<not> k < length (rs_list s)" f | (finished) "\<not> k < length (rs_list s)" "\<not> f" by blast
  then show ?case
  proof cases
    case due
    then have d: "I (Tc_performSyncWork w ?p (wu_due l ?p s) s)" "\<mu> (Tc_performSyncWork w ?p (wu_due l ?p s) s) < \<mu> s"
      using work [OF 1(2), of ?p] by simp_all
    obtain n s' where "wu_loop n w l (Suc k) True (Tc_performSyncWork w ?p (wu_due l ?p s) s) = Some s'" "\<forall>p \<in> set (rs_list s'). wu_due l p s' = 0"
      using 1(1) [of "Suc k" True] d by fastforce
    then show ?thesis using due by (intro exI [of _ "Suc n"] exI [of _ s']) (simp add: Let_def)
  next
    case pass
    have "\<not> f \<Longrightarrow> \<forall>i < Suc k. i < length (rs_list s) \<longrightarrow> wu_due l (rs_list s ! i) s = 0" using 1(3) pass(2) by (auto simp: less_Suc_eq)
    moreover have "N - Suc k < N - k" using pass(1) len [OF 1(2)] by linarith
    ultimately obtain n s' where "wu_loop n w l (Suc k) f s = Some s'" "\<forall>p \<in> set (rs_list s'). wu_due l p s' = 0"
      using 1(1) [of "Suc k" f s] 1(2) by fastforce
    then show ?thesis using pass by (intro exI [of _ "Suc n"] exI [of _ s']) (simp add: Let_def)
  next
    case again
    then obtain n s' where "wu_loop n w l 0 False s = Some s'" "\<forall>p \<in> set (rs_list s'). wu_due l p s' = 0"
      using 1(1) [of 0 False s] 1(2) by fastforce
    then show ?thesis using again by (intro exI [of _ "Suc n"] exI [of _ s']) simp
  next
    case finished
    then have "\<forall>p \<in> set (rs_list s). wu_due l p s = 0" using 1(3) by (auto simp: in_set_conv_nth)
    then show ?thesis using finished by (intro exI [of _ "Suc 0"] exI [of _ s]) simp
  qed
qed

lemma wu_due_flag [simp]: "wu_due l p (s\<lparr>Wg_flushing := b\<rparr>) = wu_due l p s"
  by (simp add: wu_due_def Let_def)

text \<open>
  The flush of synchronous work ends and leaves none: if each piece of work makes progress, by whatever
  measure, and there are at most \<open>N\<close> roots, then \<open>wu\<close> returns, and no root of the list it leaves has
  lanes that it would have worked on, however roots were added or updated by the work.
\<close>

theorem sync_work_flushed:
  assumes "\<And>s p. I s \<Longrightarrow> p \<in> set (rs_list s) \<Longrightarrow> wu_due l p s \<noteq> 0 \<Longrightarrow>
      I (Tc_performSyncWork w p (wu_due l p s) s) \<and> \<mu> (Tc_performSyncWork w p (wu_due l p s) s) < (\<mu> s :: nat)"
    and "\<And>s. I s \<Longrightarrow> length (rs_list s) \<le> N"
    and "I (s\<lparr>Wg_flushing := True\<rparr>)" "\<not> Wg_flushing s" "jy_mightHaveSync s"
  shows "\<exists>n s'. wu_flushSyncWork n w l s = Some s' \<and> \<not> Wg_flushing s' \<and> (\<forall>p \<in> set (rs_list s'). wu_due l p s' = 0)"
proof -
  obtain n s' where "wu_loop n w l 0 False (s\<lparr>Wg_flushing := True\<rparr>) = Some s'" "\<forall>p \<in> set (rs_list s'). wu_due l p s' = 0"
    using wu_loop_ends [of I l w \<mu> N "s\<lparr>Wg_flushing := True\<rparr>" False 0] assms(1-3) by auto
  then show ?thesis using assms(4,5) by (intro exI [of _ n] exI [of _ "s'\<lparr>Wg_flushing := False\<rparr>"]) (simp add: wu_flushSyncWork_def)
qed

text \<open>Work that finishes a root, on a list with a synchronous update.\<close>

definition demo_works :: works where
  "demo_works = \<lparr>wk_af = (\<lambda>s. (False, s)), wk_S = (\<lambda>p x b s. s\<lparr>rs_root := (rs_root s)(p := x0_root)\<rparr>)\<rparr>"

theorem sync_work_flushed_witness:
  "\<exists>n s'. wu_flushSyncWork n demo_works 0 (demo_roots\<lparr>rs_list := [0], rs_root := \<lambda>p. Gu_markRootUpdated x0_root 2\<rparr>) = Some s' \<and>
     (\<forall>p \<in> set (rs_list s'). wu_due 0 p s' = 0)"
proof -
  let ?I = "\<lambda>s. rs_list s = [0]" and ?m = "\<lambda>s. of_bool (pendingLanes (rs_root s 0) \<noteq> 0) :: nat"
  let ?s = "demo_roots\<lparr>rs_list := [0], rs_root := \<lambda>p. Gu_markRootUpdated x0_root 2\<rparr>"
  have "pendingLanes (rs_root s p) \<noteq> 0" if "wu_due 0 p s \<noteq> 0" for s p
    using that by (auto simp: wu_due_def t0_nextLanes_def Je_getNextLanes_def Let_def split: if_splits)
  then have "?I (Tc_performSyncWork demo_works p (wu_due 0 p s) s) \<and> ?m (Tc_performSyncWork demo_works p (wu_due 0 p s) s) < ?m s"
    if "?I s" "p \<in> set (rs_list s)" "wu_due 0 p s \<noteq> 0" for s p
    using that by (simp add: Tc_performSyncWork_def demo_works_def x0_root_def)
  moreover have "length (rs_list s) \<le> 1" if "?I s" for s using that by simp
  ultimately have "\<exists>n s'. wu_flushSyncWork n demo_works 0 ?s = Some s' \<and> \<not> Wg_flushing s' \<and> (\<forall>p \<in> set (rs_list s'). wu_due 0 p s' = 0)"
    by (rule sync_work_flushed [of ?I 0 demo_works ?m 1 ?s]) (simp_all add: demo_roots_def)
  then show ?thesis by blast
qed

end
