(* ===== verification/Event_Emitter.thy ===== *)
theory Event_Emitter
  imports Js_Prelude
begin

text \<open>
  The event emitter of the chart library (\<open>src/internal/admin/dist/index-DxrWcVFD.js\<close>, function
  \<open>Bne\<close>).  The code stores a single listener bare and several in an array, and counts the events;
  functions and contexts are compared by identity, so they are names here.  Event names are the
  keys themselves (\<open>a\<close> is false in every engine with \<open>Object.create\<close>).  The abstract store maps an
  event to its listeners in the order of registration.
\<close>

record ('f, 'c) ee =
  fn :: 'f
  ctx :: 'c
  once :: bool

datatype ('f, 'c) slot = One "('f, 'c) ee" | Many "('f, 'c) ee list"

record ('f, 'c) emitter =
  events :: "(string \<times> ('f, 'c) slot) list"
  eventsCount :: int
  self :: 'c \<comment> \<open>the emitter itself, the default context\<close>

definition y_EventEmitter :: "'c \<Rightarrow> ('f, 'c) emitter" where
  "y_EventEmitter me = \<lparr>events = [], eventsCount = 0, self = me\<rparr>"

definition put_event :: "string \<Rightarrow> ('f, 'c) slot \<Rightarrow> (string \<times> ('f, 'c) slot) list \<Rightarrow> (string \<times> ('f, 'c) slot) list" where
  "put_event k v xs = (if k \<in> fst ` set xs then map (\<lambda>e. if fst e = k then (k, v) else e) xs else xs @ [(k, v)])"

definition del_event :: "string \<Rightarrow> (string \<times> ('f, 'c) slot) list \<Rightarrow> (string \<times> ('f, 'c) slot) list" where
  "del_event k xs = filter (\<lambda>e. fst e \<noteq> k) xs"

definition s_addListener :: "('f, 'c) emitter \<Rightarrow> string \<Rightarrow> 'f \<Rightarrow> 'c option \<Rightarrow> bool \<Rightarrow> ('f, 'c) emitter" where
  "s_addListener g b f S E =
     (let w = \<lparr>fn = f, ctx = (case S of None \<Rightarrow> self g | Some c \<Rightarrow> c), once = E\<rparr> in
      case map_of (events g) b of
        None \<Rightarrow> g\<lparr>events := put_event b (One w) (events g), eventsCount := eventsCount g + 1\<rparr>
      | Some (One v) \<Rightarrow> g\<lparr>events := put_event b (Many [v, w]) (events g)\<rparr>
      | Some (Many vs) \<Rightarrow> g\<lparr>events := put_event b (Many (vs @ [w])) (events g)\<rparr>)"

definition h_clearEvent :: "('f, 'c) emitter \<Rightarrow> string \<Rightarrow> ('f, 'c) emitter" where
  "h_clearEvent g b = (let n = eventsCount g - 1 in
     if n = 0 then g\<lparr>events := [], eventsCount := n\<rparr>
     else g\<lparr>events := del_event b (events g), eventsCount := n\<rparr>)"

definition y_eventNames :: "('f, 'c) emitter \<Rightarrow> string list" where
  "y_eventNames g = (if eventsCount g = 0 then [] else map fst (events g))"

definition y_listeners :: "('f, 'c) emitter \<Rightarrow> string \<Rightarrow> 'f list" where
  "y_listeners g b = (case map_of (events g) b of None \<Rightarrow> [] | Some (One v) \<Rightarrow> [fn v] | Some (Many vs) \<Rightarrow> map fn vs)"

definition y_listenerCount :: "('f, 'c) emitter \<Rightarrow> string \<Rightarrow> nat" where
  "y_listenerCount g b = (case map_of (events g) b of None \<Rightarrow> 0 | Some (One v) \<Rightarrow> 1 | Some (Many vs) \<Rightarrow> length vs)"

text \<open>\<open>f\<close> is the listener to remove, all of them when it is missing; \<open>S\<close> and \<open>E\<close> narrow the removal.\<close>

definition keeps :: "'f \<Rightarrow> 'c option \<Rightarrow> bool \<Rightarrow> ('f, 'c) ee \<Rightarrow> bool" where
  "keeps f S E v \<longleftrightarrow> fn v \<noteq> f \<or> E \<and> \<not> once v \<or> (\<exists>c. S = Some c \<and> ctx v \<noteq> c)"

definition y_removeListener :: "('f, 'c) emitter \<Rightarrow> string \<Rightarrow> 'f option \<Rightarrow> 'c option \<Rightarrow> bool \<Rightarrow> ('f, 'c) emitter" where
  "y_removeListener g b O1 S E =
     (case map_of (events g) b of
        None \<Rightarrow> g
      | Some D \<Rightarrow>
         (case O1 of
            None \<Rightarrow> h_clearEvent g b
          | Some f \<Rightarrow>
             (case D of
                One v \<Rightarrow> if \<not> keeps f S E v then h_clearEvent g b else g
              | Many vs \<Rightarrow>
                  let R = filter (keeps f S E) vs in
                  if R \<noteq> [] then g\<lparr>events := put_event b (if length R = 1 then One (hd R) else Many R) (events g)\<rparr>
                  else h_clearEvent g b)))"

definition y_removeAllListeners :: "('f, 'c) emitter \<Rightarrow> string option \<Rightarrow> ('f, 'c) emitter" where
  "y_removeAllListeners g b =
     (case b of
        Some k \<Rightarrow> if k \<noteq> [] then (if map_of (events g) k \<noteq> None then h_clearEvent g k else g)
                  else g\<lparr>events := [], eventsCount := 0\<rparr>
      | None \<Rightarrow> g\<lparr>events := [], eventsCount := 0\<rparr>)"

definition y_on :: "('f, 'c) emitter \<Rightarrow> string \<Rightarrow> 'f \<Rightarrow> 'c option \<Rightarrow> ('f, 'c) emitter" where
  "y_on g b f S = s_addListener g b f S False"

definition y_once :: "('f, 'c) emitter \<Rightarrow> string \<Rightarrow> 'f \<Rightarrow> 'c option \<Rightarrow> ('f, 'c) emitter" where
  "y_once g b f S = s_addListener g b f S True"

text \<open>
  \<open>emit\<close> walks the array it found: listeners that are added or removed by a listener do not change
  who is called in this round.  The parameter says what a listener does to the emitter; the
  result has the calls made, each with its context and all the arguments.
\<close>

type_synonym ('f, 'c, 'a) called = "('f \<times> 'c \<times> 'a list) list"

fun emit_each :: "('f \<Rightarrow> 'c \<Rightarrow> 'a list \<Rightarrow> ('f, 'c) emitter \<Rightarrow> ('f, 'c) emitter) \<Rightarrow> string \<Rightarrow> 'a list \<Rightarrow>
    ('f, 'c) ee list \<Rightarrow> ('f, 'c) emitter \<Rightarrow> ('f, 'c, 'a) called \<times> ('f, 'c) emitter" where
  "emit_each run b args [] g = ([], g)"
| "emit_each run b args (v # vs) g =
     (let g = (if once v then y_removeListener g b (Some (fn v)) None True else g);
          (cs, g) = emit_each run b args vs (run (fn v) (ctx v) args g) in
      ((fn v, ctx v, args) # cs, g))"

definition y_emit :: "('f \<Rightarrow> 'c \<Rightarrow> 'a list \<Rightarrow> ('f, 'c) emitter \<Rightarrow> ('f, 'c) emitter) \<Rightarrow> ('f, 'c) emitter \<Rightarrow> string \<Rightarrow> 'a list \<Rightarrow>
    bool \<times> ('f, 'c, 'a) called \<times> ('f, 'c) emitter" where
  "y_emit run g b args =
     (case map_of (events g) b of
        None \<Rightarrow> (False, [], g)
      | Some (One v) \<Rightarrow> (True, emit_each run b args [v] g)
      | Some (Many vs) \<Rightarrow> (True, emit_each run b args vs g))"

section \<open>The abstract store\<close>

definition slot_list :: "('f, 'c) slot option \<Rightarrow> ('f, 'c) ee list" where
  "slot_list s = (case s of None \<Rightarrow> [] | Some (One v) \<Rightarrow> [v] | Some (Many vs) \<Rightarrow> vs)"

definition em_abs :: "('f, 'c) emitter \<Rightarrow> string \<Rightarrow> ('f, 'c) ee list" where
  "em_abs g b = slot_list (map_of (events g) b)"

fun slot_ok :: "('f, 'c) slot \<Rightarrow> bool" where
  "slot_ok (One v) = True"
| "slot_ok (Many vs) = (2 \<le> length vs)"

definition em_ok :: "('f, 'c) emitter \<Rightarrow> bool" where
  "em_ok g \<longleftrightarrow> distinct (map fst (events g)) \<and> eventsCount g = int (length (events g)) \<and>
     list_all (\<lambda>e. slot_ok (snd e)) (events g)"

lemma map_of_replace:
  "map_of (map (\<lambda>e. if fst e = k then (k, v) else e) xs) x = (if x = k \<and> map_of xs k \<noteq> None then Some v else map_of xs x)"
  by (induction xs) auto

lemma map_of_put [simp]: "map_of (put_event k v xs) = (map_of xs)(k \<mapsto> v)"
proof (cases "k \<in> fst ` set xs")
  case True
  then have "map_of xs k \<noteq> None" by (simp add: map_of_eq_None_iff)
  with True show ?thesis by (intro ext) (simp add: put_event_def map_of_replace)
next
  case False
  then have "map_of xs k = None" by (simp add: map_of_eq_None_iff)
  with False show ?thesis by (simp add: put_event_def map_add_def fun_eq_iff split: option.split)
qed

lemma map_of_del [simp]: "map_of (del_event k xs) = (map_of xs)(k := None)"
proof
  show "map_of (del_event k xs) x = ((map_of xs)(k := None)) x" for x
    unfolding del_event_def by (induction xs) auto
qed

lemma fst_put: "map fst (put_event k v xs) = (if k \<in> fst ` set xs then map fst xs else map fst xs @ [k])"
  by (simp add: put_event_def comp_def if_distrib cong: if_cong)

lemma length_put: "length (put_event k v xs) = (if k \<in> fst ` set xs then length xs else Suc (length xs))"
  by (simp add: put_event_def)

lemma put_slots: "list_all (\<lambda>e. slot_ok (snd e)) xs \<Longrightarrow> slot_ok v \<Longrightarrow> list_all (\<lambda>e. slot_ok (snd e)) (put_event k v xs)"
  by (auto simp: put_event_def list_all_iff)

lemma length_del: "distinct (map fst xs) \<Longrightarrow> k \<in> fst ` set xs \<Longrightarrow> Suc (length (del_event k xs)) = length xs"
proof (induction xs)
  case (Cons x xs)
  show ?case
  proof (cases "fst x = k")
    case True
    then have "del_event k (x # xs) = xs" using Cons.prems(1) by (auto simp: del_event_def filter_id_conv image_iff)
    then show ?thesis by simp
  next
    case False
    then show ?thesis using Cons by (auto simp: del_event_def)
  qed
qed simp

lemma del_keys: "distinct (map fst xs) \<Longrightarrow> distinct (map fst (del_event k xs))"
  by (simp add: del_event_def distinct_map_filter)

lemma map_of_Some_key: "map_of xs k = Some v \<Longrightarrow> k \<in> fst ` set xs"
  by (metis map_of_eq_None_iff option.distinct(1))

lemma h_clear:
  assumes "em_ok g" and "map_of (events g) b = Some s"
  shows "em_ok (h_clearEvent g b)" and "em_abs (h_clearEvent g b) = (em_abs g)(b := [])"
proof -
  have k: "b \<in> fst ` set (events g)" using assms(2) by (rule map_of_Some_key)
  have l: "Suc (length (del_event b (events g))) = length (events g)"
    using assms(1) k by (intro length_del) (auto simp: em_ok_def)
  show "em_ok (h_clearEvent g b)"
    using assms(1) l by (auto simp: em_ok_def h_clearEvent_def Let_def del_keys list_all_iff) (auto simp: del_event_def)
  have "events g = [(b, s)]" if "eventsCount g = 1"
    using that assms by (cases "events g") (auto simp: em_ok_def split: if_splits)
  then show "em_abs (h_clearEvent g b) = (em_abs g)(b := [])"
    by (auto simp: h_clearEvent_def Let_def em_abs_def fun_eq_iff slot_list_def)
qed

lemma put_ok:
  assumes "em_ok g" and "slot_ok v"
  shows "em_ok (g\<lparr>events := put_event b v (events g),
    eventsCount := if map_of (events g) b = None then eventsCount g + 1 else eventsCount g\<rparr>)"
  using assms by (auto simp: em_ok_def fst_put length_put put_slots map_of_eq_None_iff)

lemma put_abs: "em_abs (g\<lparr>events := put_event b v (events g), eventsCount := n\<rparr>) = (em_abs g)(b := slot_list (Some v))"
  by (auto simp: em_abs_def fun_eq_iff)

lemma add_refines:
  assumes "em_ok g"
  shows "em_ok (s_addListener g b f S E)"
    and "em_abs (s_addListener g b f S E) =
      (em_abs g)(b := em_abs g b @ [\<lparr>fn = f, ctx = (case S of None \<Rightarrow> self g | Some c \<Rightarrow> c), once = E\<rparr>])"
proof -
  let ?w = "\<lparr>fn = f, ctx = (case S of None \<Rightarrow> self g | Some c \<Rightarrow> c), once = E\<rparr>"
  define v where "v = (case map_of (events g) b of None \<Rightarrow> One ?w | Some (One u) \<Rightarrow> Many [u, ?w] | Some (Many us) \<Rightarrow> Many (us @ [?w]))"
  have a: "s_addListener g b f S E = g\<lparr>events := put_event b v (events g),
      eventsCount := if map_of (events g) b = None then eventsCount g + 1 else eventsCount g\<rparr>"
    by (auto simp: s_addListener_def Let_def v_def split: option.split slot.split)
  have "list_all (\<lambda>e. slot_ok (snd e)) (events g)" using assms by (simp add: em_ok_def)
  then have "map_of (events g) b = Some (Many us) \<Longrightarrow> 2 \<le> length us" for us
    by (fastforce simp: list_all_iff dest: map_of_SomeD)
  then have sv: "slot_ok v" by (auto simp: v_def split: option.split slot.split) 
  show "em_ok (s_addListener g b f S E)" unfolding a by (rule put_ok [OF assms sv])
  show "em_abs (s_addListener g b f S E) = (em_abs g)(b := em_abs g b @ [?w])"
    unfolding a put_abs by (simp add: v_def em_abs_def slot_list_def split: option.split slot.split)
qed

lemma remove_refines:
  assumes "em_ok g"
  shows "em_ok (y_removeListener g b (Some f) S E)"
    and "em_abs (y_removeListener g b (Some f) S E) = (em_abs g)(b := filter (keeps f S E) (em_abs g b))"
proof -
  have "em_ok (y_removeListener g b (Some f) S E) \<and>
    em_abs (y_removeListener g b (Some f) S E) = (em_abs g)(b := filter (keeps f S E) (em_abs g b))"
  proof (cases "map_of (events g) b")
    case None
    then have "em_abs g b = []" by (simp add: em_abs_def slot_list_def)
    then show ?thesis using assms None by (simp add: y_removeListener_def fun_upd_idem)
  next
    case (Some D)
    then have ab: "em_abs g b = slot_list (Some D)" by (simp add: em_abs_def)
    show ?thesis
    proof (cases D)
      case (One v)
      then show ?thesis
        using Some ab h_clear [OF assms Some] assms
        by (auto simp: y_removeListener_def slot_list_def fun_upd_idem_iff)
    next
      case (Many vs)
      define R where "R = filter (keeps f S E) vs"
      show ?thesis
      proof (cases "R = []")
        case True
        then show ?thesis
          using Some Many ab h_clear [OF assms Some] by (simp add: y_removeListener_def slot_list_def Let_def R_def)
      next
        case False
        define v where "v = (if length R = 1 then One (hd R) else Many R)"
        have sv: "slot_ok v" "slot_list (Some v) = R"
          using False by (cases R; cases "tl R"; simp add: v_def slot_list_def)+
        have r: "y_removeListener g b (Some f) S E = g\<lparr>events := put_event b v (events g), eventsCount := eventsCount g\<rparr>"
          using Some Many False by (simp add: y_removeListener_def Let_def R_def [symmetric] v_def)
        show ?thesis
          unfolding r put_abs sv(2) using put_ok [OF assms sv(1), of b] Some Many ab
          by (simp add: slot_list_def R_def)
      qed
    qed
  qed
  then show "em_ok (y_removeListener g b (Some f) S E)"
    "em_abs (y_removeListener g b (Some f) S E) = (em_abs g)(b := filter (keeps f S E) (em_abs g b))" by auto
qed

section \<open>The interface\<close>

text \<open>A store of listeners as a client of the emitter sees it.\<close>

locale listener_store =
  fixes good :: "'e \<Rightarrow> bool"
    and abs :: "'e \<Rightarrow> string \<Rightarrow> ('f, 'c) ee list"
    and add :: "'e \<Rightarrow> string \<Rightarrow> 'f \<Rightarrow> 'c option \<Rightarrow> bool \<Rightarrow> 'e"
    and remove :: "'e \<Rightarrow> string \<Rightarrow> 'f \<Rightarrow> 'c option \<Rightarrow> bool \<Rightarrow> 'e"
    and me :: "'e \<Rightarrow> 'c"
  assumes add_good: "good g \<Longrightarrow> good (add g b f S E)"
    and add_abs: "good g \<Longrightarrow> abs (add g b f S E) = (abs g)(b := abs g b @ [\<lparr>fn = f, ctx = (case S of None \<Rightarrow> me g | Some c \<Rightarrow> c), once = E\<rparr>])"
    and remove_good: "good g \<Longrightarrow> good (remove g b f S E)"
    and remove_abs: "good g \<Longrightarrow> abs (remove g b f S E) = (abs g)(b := filter (keeps f S E) (abs g b))"
begin

lemma remove_add:
  assumes "good g" and "\<forall>v \<in> set (abs g b). fn v \<noteq> f"
  shows "abs (remove (add g b f S E) b f None False) = abs g"
proof -
  have "filter (keeps f None False) (abs g b) = abs g b"
    using assms(2) by (auto simp: filter_id_conv keeps_def)
  then show ?thesis
    using remove_abs [OF add_good [OF assms(1)]] add_abs [OF assms(1)]
    by (simp add: keeps_def fun_upd_idem_iff)
qed

lemma removed_gone: "good g \<Longrightarrow> v \<in> set (abs (remove g b f None False) b) \<Longrightarrow> fn v \<noteq> f"
  by (simp add: remove_abs keeps_def)

end

interpretation em: listener_store em_ok em_abs s_addListener "\<lambda>g b f. y_removeListener g b (Some f)" self
  by unfold_locales (simp_all add: add_refines remove_refines)

lemma y_listeners_abs: "y_listeners g b = map fn (em_abs g b)"
  by (simp add: y_listeners_def em_abs_def slot_list_def split: option.split slot.split)

lemma y_emit_abs:
  "y_emit run g b args = (if map_of (events g) b = None then (False, [], g) else (True, emit_each run b args (em_abs g b) g))"
  by (simp add: y_emit_def em_abs_def slot_list_def split: option.split slot.split)

lemma map_of_None_abs: "em_ok g \<Longrightarrow> map_of (events g) b = None \<longleftrightarrow> em_abs g b = []"
  by (force simp: em_ok_def em_abs_def slot_list_def list_all_iff dest: map_of_SomeD split: option.split slot.split)

lemma emit_each_calls: "fst (emit_each run b args vs g) = map (\<lambda>v. (fn v, ctx v, args)) vs"
  by (induction vs arbitrary: g) (simp_all add: Let_def case_prod_beta)

lemma emit_each_quiet:
  assumes "em_ok g" and "\<And>f c g. run f c args g = g"
  shows "em_ok (snd (emit_each run b args vs g)) \<and> em_abs (snd (emit_each run b args vs g)) =
    (em_abs g)(b := filter (\<lambda>w. \<not> (once w \<and> (\<exists>v \<in> set vs. once v \<and> fn v = fn w))) (em_abs g b))"
  using assms(1)
proof (induction vs arbitrary: g)
  case (Cons v vs)
  define g1 where "g1 = (if once v then y_removeListener g b (Some (fn v)) None True else g)"
  have e: "snd (emit_each run b args (v # vs) g) = snd (emit_each run b args vs g1)"
    by (simp add: Let_def g1_def assms(2) split: prod.split)
  have k: "keeps (fn v) None True = (\<lambda>w. once w \<longrightarrow> fn w \<noteq> fn v)" by (auto simp: fun_eq_iff keeps_def)
  have g1: "em_ok g1" "em_abs g1 = (em_abs g)(b := filter (\<lambda>w. \<not> (once v \<and> once w \<and> fn w = fn v)) (em_abs g b))"
    by (cases "once v"; simp add: g1_def Cons.prems em.remove_good [OF Cons.prems] em.remove_abs [OF Cons.prems] k)+
  have "filter (\<lambda>w. \<not> (once w \<and> (\<exists>v \<in> set vs. once v \<and> fn v = fn w))) (filter (\<lambda>w. \<not> (once v \<and> once w \<and> fn w = fn v)) xs) =
      filter (\<lambda>w. \<not> (once w \<and> (\<exists>v' \<in> set (v # vs). once v' \<and> fn v' = fn w))) xs" for xs
    by (induction xs) auto
  note f = this
  show ?case
    unfolding e using Cons.IH [OF g1(1)] by (simp only: g1(2) fun_upd_upd fun_upd_same f simp_thms)
qed (simp add: fun_upd_idem_iff)

text \<open>
  C25. Emitting an event calls every listener that is registered for it at that moment exactly
  once, in the order of registration, with its own context and all the arguments, whatever the
  listeners do to the emitter meanwhile; the result says whether there was one.  When they leave
  the emitter alone, exactly the listeners added with \<open>once\<close> are gone afterwards.
\<close>

theorem emit_spec:
  assumes "em_ok g"
  shows "(case y_emit run g b args of (r, cs, g') \<Rightarrow>
      r = (em_abs g b \<noteq> []) \<and> cs = map (\<lambda>v. (fn v, ctx v, args)) (em_abs g b) \<and>
      ((\<forall>f c g. run f c args g = g) \<longrightarrow> em_ok g' \<and> em_abs g' = (em_abs g)(b := filter (\<lambda>v. \<not> once v) (em_abs g b))))"
proof -
  have f: "filter (\<lambda>w. once w \<longrightarrow> (\<forall>v \<in> set xs. once v \<longrightarrow> fn v \<noteq> fn w)) xs = filter (\<lambda>v. \<not> once v) xs" for xs :: "('a, 'b) ee list"
    by (rule filter_cong) auto
  show ?thesis
  proof (cases "em_abs g b = []")
    case True
    then show ?thesis using assms map_of_None_abs [OF assms, of b] by (simp add: y_emit_abs fun_upd_idem)
  next
    case False
    then show ?thesis
      using map_of_None_abs [OF assms, of b] emit_each_calls [of run b args "em_abs g b" g]
        emit_each_quiet [OF assms, of run args b "em_abs g b"]
      by (auto simp: y_emit_abs f split: prod.splits)
  qed
qed

theorem emit_spec_witness:
  "case y_emit (\<lambda>f c a g. g) (y_once (y_on (y_EventEmitter (0 :: nat)) ''sync'' (1 :: nat) None) ''sync'' 2 (Some 5)) ''sync'' [True] of
     (r, cs, g') \<Rightarrow> r \<and> cs = [(1, 0, [True]), (2, 5, [True])] \<and> y_listeners g' ''sync'' = [1]"
proof -
  define g where "g = y_once (y_on (y_EventEmitter (0 :: nat)) ''sync'' (1 :: nat) None) ''sync'' 2 (Some 5)"
  have "em_ok (y_EventEmitter (0 :: nat) :: (nat, nat) emitter)" by (simp add: em_ok_def y_EventEmitter_def)
  then have ok: "em_ok g" by (simp add: g_def y_on_def y_once_def em.add_good)
  have a: "em_abs g ''sync'' = [\<lparr>fn = 1, ctx = 0, once = False\<rparr>, \<lparr>fn = 2, ctx = 5, once = True\<rparr>]"
    unfolding g_def by code_simp
  show ?thesis
    using emit_spec [OF ok, where run = "\<lambda>f c a g. g" and b = "''sync''" and args = "[True]"] a
    unfolding g_def [symmetric] by (auto simp: y_listeners_abs split: prod.splits)
qed

text \<open>
  Adding a listener that was not registered and removing it again leaves every event with
  the listeners it had, and a removed listener is not called by the next emit.
\<close>

theorem on_off_roundtrip:
  assumes "em_ok g" and "f \<notin> set (y_listeners g b)"
  shows "em_abs (y_removeListener (y_on g b f S) b (Some f) None False) = em_abs g \<and>
    f \<notin> fst ` set (fst (snd (y_emit run (y_removeListener g b (Some f) None False) b args)))"
proof -
  have nf: "\<forall>v \<in> set (em_abs g b). fn v \<noteq> f" using assms(2) by (auto simp: y_listeners_abs)
  have ok: "em_ok (y_removeListener g b (Some f) None False)" using em.remove_good [OF assms(1)] .
  have "fst (snd (y_emit run (y_removeListener g b (Some f) None False) b args)) =
      map (\<lambda>v. (fn v, ctx v, args)) (em_abs (y_removeListener g b (Some f) None False) b)"
    using map_of_None_abs [OF ok, of b] by (simp add: y_emit_abs emit_each_calls)
  then show ?thesis
    using em.remove_add [OF assms(1) nf, of S False] em.removed_gone [OF assms(1), of _ b f] by (force simp: y_on_def)
qed

theorem on_off_roundtrip_witness:
  "em_abs (y_removeListener (y_on (y_EventEmitter (0 :: nat)) ''sync'' (1 :: nat) None) ''sync'' (Some 1) None False) =
   em_abs (y_EventEmitter 0)"
proof -
  have "em_ok (y_EventEmitter (0 :: nat) :: (nat, nat) emitter)" "(1 :: nat) \<notin> set (y_listeners (y_EventEmitter (0 :: nat)) ''sync'')"
    by (simp_all add: em_ok_def y_EventEmitter_def y_listeners_def)
  from on_off_roundtrip [OF this] show ?thesis by blast
qed

end
