(* ===== verification/Admin_Client.thy ===== *)
theory Admin_Client
  imports Js_Uri
begin

text \<open>
  The dashboard's API client (\<open>src/internal/admin/dist/index-DxrWcVFD.js\<close>, class \<open>n8\<close>): the request
  each method sends and what it makes of the response, and the table of admin routes the backend
  registers (\<open>src/internal/server/server.go\<close>).  JSON and URLSearchParams of the standard library are
  modelled as far as the client uses them; the only numbers the client sends are integers.  The
  browser's \<open>fetch\<close> is outside: a method gives the call, and the response is an argument.
\<close>

section \<open>JSON\<close>

datatype json =
    JNull
  | JBool bool
  | JNum int
  | JStr string
  | JArr "json list"
  | JObj "(string \<times> json) list"

definition json_escape :: "char \<Rightarrow> string" where
  "json_escape c =
     (if c = CHR 0x22 then [CHR 0x5C, CHR 0x22]
      else if c = CHR 0x5C then [CHR 0x5C, CHR 0x5C]
      else if c = CHR 0x08 then [CHR 0x5C, CHR ''b'']
      else if c = CHR 0x0C then [CHR 0x5C, CHR ''f'']
      else if c = CHR 0x0A then [CHR 0x5C, CHR ''n'']
      else if c = CHR 0x0D then [CHR 0x5C, CHR ''r'']
      else if c = CHR 0x09 then [CHR 0x5C, CHR ''t'']
      else if (of_char c :: nat) < 32
      then [CHR 0x5C, CHR ''u'', CHR ''0'', CHR ''0'', hex_digit (of_char c div 16), lower_char (hex_digit (of_char c mod 16))]
      else [c])"

definition json_quote :: "string \<Rightarrow> string" where
  "json_quote s = CHR 0x22 # concat (map json_escape s) @ [CHR 0x22]"

text \<open>\<open>JSON.stringify\<close> without an indentation.\<close>

fun stringify :: "json \<Rightarrow> string" where
  "stringify JNull = ''null''"
| "stringify (JBool b) = (if b then ''true'' else ''false'')"
| "stringify (JNum n) = int_str n"
| "stringify (JStr s) = json_quote s"
| "stringify (JArr xs) = ''['' @ js_join CHR '','' (map stringify xs) @ '']''"
| "stringify (JObj kvs) = ''{'' @ js_join CHR '','' (map (\<lambda>(k, v). json_quote k @ '':'' @ stringify v) kvs) @ ''}''"

text \<open>Properties that are \<open>undefined\<close> are left out of an object.\<close>

definition json_obj :: "(string \<times> json option) list \<Rightarrow> json" where
  "json_obj kvs = JObj (concat (map (\<lambda>(k, v). case v of None \<Rightarrow> [] | Some x \<Rightarrow> [(k, x)]) kvs))"

text \<open>\<open>x?.k\<close> on a parsed JSON value: a member of an object, and \<open>undefined\<close> on everything else.\<close>

fun member_of :: "string \<Rightarrow> json option \<Rightarrow> json option" where
  "member_of k (Some (JObj kvs)) = map_of (rev kvs) k"
| "member_of k _ = None"

text \<open>\<open>x ?? y\<close>.\<close>

fun nullish :: "json option \<Rightarrow> json \<Rightarrow> json" where
  "nullish (Some JNull) y = y"
| "nullish (Some x) y = x"
| "nullish None y = y"

text \<open>The string conversion that \<open>Error\<close> applies to its message.\<close>

fun to_string :: "json \<Rightarrow> string" where
  "to_string JNull = ''null''"
| "to_string (JBool b) = (if b then ''true'' else ''false'')"
| "to_string (JNum n) = int_str n"
| "to_string (JStr s) = s"
| "to_string (JArr xs) = js_join CHR '','' (map (\<lambda>x. if x = JNull then '''' else to_string x) xs)"
| "to_string (JObj kvs) = ''[object Object]''"

section \<open>Query strings\<close>

text \<open>The form encoding of URLSearchParams: a space is a plus sign.\<close>

definition form_plain :: "nat \<Rightarrow> bool" where
  "form_plain n \<longleftrightarrow> 48 \<le> n \<and> n \<le> 57 \<or> 65 \<le> n \<and> n \<le> 90 \<or> 97 \<le> n \<and> n \<le> 122 \<or> n \<in> {42, 45, 46, 95}"

definition form_char :: "char \<Rightarrow> string" where
  "form_char c = (if c = CHR '' '' then ''+'' else if form_plain (of_char c) then [c] else pct (of_char c))"

definition form_encode :: "string \<Rightarrow> string" where
  "form_encode s = concat (map form_char s)"

type_synonym params = "(string \<times> string) list"

definition usp_string :: "params \<Rightarrow> string" where
  "usp_string ps = js_join CHR ''&'' (map (\<lambda>(k, v). form_encode k @ CHR ''='' # form_encode v) ps)"

text \<open>\<open>set\<close> replaces the first entry of the name and drops the others.\<close>

fun usp_set :: "string \<Rightarrow> string \<Rightarrow> params \<Rightarrow> params" where
  "usp_set k v [] = [(k, v)]"
| "usp_set k v (p # ps) = (if fst p = k then (k, v) # filter (\<lambda>q. fst q \<noteq> k) ps else p # usp_set k v ps)"

text \<open>How the query string is read back: the parser of the same standard.\<close>

fun form_decode :: "string \<Rightarrow> string" where
  "form_decode [] = []"
| "form_decode (c # cs) =
     (if c = CHR ''+'' then CHR '' '' # form_decode cs
      else case read_pct (c # cs) of
             Some (b, r) \<Rightarrow> char_of b # form_decode (drop 2 cs)
           | None \<Rightarrow> c # form_decode cs)"

definition parse_pair :: "string \<Rightarrow> string \<times> string" where
  "parse_pair s = (case indexOf s CHR ''='' of
     None \<Rightarrow> (form_decode s, [])
   | Some i \<Rightarrow> (form_decode (take i s), form_decode (drop (Suc i) s)))"

definition parse_query :: "string \<Rightarrow> params" where
  "parse_query s = map parse_pair (filter (\<lambda>x. x \<noteq> []) (js_split CHR ''&'' s))"

section \<open>Requests\<close>

record req_init =
  ri_method :: "string option"
  ri_headers :: "(string \<times> string) list option"
  ri_body :: "string option"

record fetch_call =
  fc_url :: string
  fc_method :: string
  fc_headers :: "(string \<times> string) list"
  fc_body :: "string option"

record response =
  rs_status :: int
  rs_statusText :: string
  rs_json :: "json option" \<comment> \<open>none when the body is not JSON\<close>

datatype api_error =
    ApiRequestError (ae_status: int) (ae_message: string) (ae_code: "json option")
  | BadJson
  | NetworkError

text \<open>\<open>{a: x, ...b}\<close> on objects of strings: later entries win, the position of the first is kept.\<close>

definition spread :: "(string \<times> string) list \<Rightarrow> (string \<times> string) list \<Rightarrow> (string \<times> string) list" where
  "spread a b = map (\<lambda>(k, v). (k, case map_of b k of None \<Rightarrow> v | Some w \<Rightarrow> w)) a @
     filter (\<lambda>p. fst p \<notin> fst ` set a) b"

text \<open>The options object: the spread of \<open>a\<close> comes last, so its own headers replace the merged ones.\<close>

definition n8_call :: "string \<Rightarrow> string \<Rightarrow> req_init option \<Rightarrow> fetch_call" where
  "n8_call baseUrl t a =
     (let ct = [(''Content-Type'', ''application/json'')];
          merged = (case a of None \<Rightarrow> ct | Some i \<Rightarrow> (case ri_headers i of None \<Rightarrow> ct | Some h \<Rightarrow> spread ct h)) in
      case a of
        None \<Rightarrow> \<lparr>fc_url = baseUrl @ t, fc_method = ''GET'', fc_headers = merged, fc_body = None\<rparr>
      | Some i \<Rightarrow> \<lparr>fc_url = baseUrl @ t,
           fc_method = (case ri_method i of None \<Rightarrow> ''GET'' | Some m \<Rightarrow> m),
           fc_headers = (case ri_headers i of None \<Rightarrow> merged | Some h \<Rightarrow> h),
           fc_body = ri_body i\<rparr>)"

definition rs_ok :: "response \<Rightarrow> bool" where
  "rs_ok i \<longleftrightarrow> 200 \<le> rs_status i \<and> rs_status i \<le> 299"

text \<open>What the request's promise settles to; \<open>Inr None\<close> is \<open>undefined\<close>.\<close>

definition n8_settle :: "response \<Rightarrow> (api_error, json option) res" where
  "n8_settle i =
     (if \<not> rs_ok i then
        let h = (case rs_json i of None \<Rightarrow> JObj [] | Some j \<Rightarrow> j);
            e = member_of ''error'' (Some h) in
        Inl (ApiRequestError (rs_status i)
          (to_string (nullish (member_of ''message'' e) (JStr (rs_statusText i)))) (member_of ''code'' e))
      else if rs_status i \<noteq> 204 then (case rs_json i of None \<Rightarrow> Inl BadJson | Some j \<Rightarrow> Inr (Some j))
      else Inr None)"

text \<open>A whole request against a server: a function from calls to responses, none when unreachable.\<close>

definition n8_request :: "(fetch_call \<Rightarrow> response option) \<Rightarrow> string \<Rightarrow> string \<Rightarrow> req_init option \<Rightarrow> (api_error, json option) res" where
  "n8_request fetch baseUrl t a =
     (case fetch (n8_call baseUrl t a) of None \<Rightarrow> Inl NetworkError | Some i \<Rightarrow> n8_settle i)"

section \<open>The methods\<close>

text \<open>Each method passes a path and options to \<open>request\<close>.\<close>

type_synonym call_args = "string \<times> req_init option"

definition post :: "string \<Rightarrow> call_args" where
  "post p = (p, Some \<lparr>ri_method = Some ''POST'', ri_headers = None, ri_body = None\<rparr>)"

definition get :: "string \<Rightarrow> call_args" where
  "get p = (p, None)"

definition delete :: "string \<Rightarrow> call_args" where
  "delete p = (p, Some \<lparr>ri_method = Some ''DELETE'', ri_headers = None, ri_body = None\<rparr>)"

definition send :: "string \<Rightarrow> string \<Rightarrow> json \<Rightarrow> call_args" where
  "send m p j = (p, Some \<lparr>ri_method = Some m, ri_headers = None, ri_body = Some (stringify j)\<rparr>)"

text \<open>A value in a filter object.\<close>

datatype filter_val = Undef | FStr string | FNum int

fun fval_string :: "filter_val \<Rightarrow> string" where
  "fval_string (FStr s) = s"
| "fval_string (FNum n) = int_str n"
| "fval_string Undef = ''undefined''"

type_synonym filters = "(string \<times> filter_val) list"

definition filter_params :: "filters \<Rightarrow> params" where
  "filter_params t = fold (\<lambda>(i, c) a. if c \<noteq> Undef then usp_set i (fval_string c) a else a) t []"

definition n8_manifest :: call_args where
  "n8_manifest = get ''/ojs/manifest''"

definition n8_stats :: call_args where
  "n8_stats = get ''/ojs/v1/admin/stats''"

definition n8_statsHistory :: "string \<Rightarrow> string option \<Rightarrow> string option \<Rightarrow> call_args" where
  "n8_statsHistory t a i =
     (let c = [(''period'', t)];
          c = (case a of Some s \<Rightarrow> if s \<noteq> [] then usp_set ''since'' s c else c | None \<Rightarrow> c);
          c = (case i of Some s \<Rightarrow> if s \<noteq> [] then usp_set ''queue'' s c else c | None \<Rightarrow> c) in
      get (''/ojs/v1/admin/stats/history?'' @ usp_string c))"

definition n8_queues :: "int \<Rightarrow> int \<Rightarrow> call_args" where
  "n8_queues t a = get (''/ojs/v1/admin/queues?page='' @ int_str t @ ''&per_page='' @ int_str a)"

definition n8_queue :: "string \<Rightarrow> call_args" where
  "n8_queue t = get (''/ojs/v1/admin/queues/'' @ encodeURIComponent t)"

definition n8_pauseQueue :: "string \<Rightarrow> call_args" where
  "n8_pauseQueue t = post (''/ojs/v1/admin/queues/'' @ encodeURIComponent t @ ''/pause'')"

definition n8_resumeQueue :: "string \<Rightarrow> call_args" where
  "n8_resumeQueue t = post (''/ojs/v1/admin/queues/'' @ encodeURIComponent t @ ''/resume'')"

definition n8_purgeQueue :: "string \<Rightarrow> json option \<Rightarrow> json option \<Rightarrow> call_args" where
  "n8_purgeQueue t a i = send ''DELETE'' (''/ojs/v1/admin/queues/'' @ encodeURIComponent t @ ''/jobs'')
     (json_obj [(''states'', a), (''older_than'', i), (''confirm'', Some (JBool True))])"

definition n8_jobs :: "filters \<Rightarrow> call_args" where
  "n8_jobs t = get (''/ojs/v1/admin/jobs?'' @ usp_string (filter_params t))"

definition n8_job :: "string \<Rightarrow> call_args" where
  "n8_job t = get (''/ojs/v1/admin/jobs/'' @ encodeURIComponent t)"

definition n8_retryJob :: "string \<Rightarrow> call_args" where
  "n8_retryJob t = post (''/ojs/v1/admin/jobs/'' @ encodeURIComponent t @ ''/retry'')"

definition n8_cancelJob :: "string \<Rightarrow> call_args" where
  "n8_cancelJob t = post (''/ojs/v1/admin/jobs/'' @ encodeURIComponent t @ ''/cancel'')"

definition n8_bulkRetry :: "json \<Rightarrow> call_args" where
  "n8_bulkRetry t = send ''POST'' ''/ojs/v1/admin/jobs/bulk/retry'' (json_obj [(''filter'', Some t), (''confirm'', Some (JBool True))])"

definition n8_bulkCancel :: "json \<Rightarrow> call_args" where
  "n8_bulkCancel t = send ''POST'' ''/ojs/v1/admin/jobs/bulk/cancel'' (json_obj [(''filter'', Some t), (''confirm'', Some (JBool True))])"

definition n8_workers :: "int \<Rightarrow> int \<Rightarrow> call_args" where
  "n8_workers t a = get (''/ojs/v1/admin/workers?page='' @ int_str t @ ''&per_page='' @ int_str a)"

definition n8_quietWorker :: "string \<Rightarrow> call_args" where
  "n8_quietWorker t = post (''/ojs/v1/admin/workers/'' @ encodeURIComponent t @ ''/quiet'')"

definition n8_deregisterWorker :: "string \<Rightarrow> call_args" where
  "n8_deregisterWorker t = delete (''/ojs/v1/admin/workers/'' @ encodeURIComponent t)"

definition n8_deadLetter :: "filters \<Rightarrow> call_args" where
  "n8_deadLetter t = get (''/ojs/v1/admin/dead-letter?'' @ usp_string (filter_params t))"

definition n8_deadLetterStats :: call_args where
  "n8_deadLetterStats = get ''/ojs/v1/admin/dead-letter/stats''"

definition n8_retryDeadLetter :: "string \<Rightarrow> call_args" where
  "n8_retryDeadLetter t = post (''/ojs/v1/admin/dead-letter/'' @ encodeURIComponent t @ ''/retry'')"

definition n8_deleteDeadLetter :: "string \<Rightarrow> call_args" where
  "n8_deleteDeadLetter t = delete (''/ojs/v1/admin/dead-letter/'' @ encodeURIComponent t)"

definition n8_bulkRetryDeadLetter :: "json \<Rightarrow> call_args" where
  "n8_bulkRetryDeadLetter t = send ''POST'' ''/ojs/v1/admin/dead-letter/retry'' (json_obj [(''filter'', Some t), (''confirm'', Some (JBool True))])"

definition n8_health :: call_args where
  "n8_health = get ''/ojs/v1/health''"

section \<open>The backend's admin routes\<close>

text \<open>A segment of a registered pattern: literal text, or a parameter that takes one segment.\<close>

datatype seg = Lit string | Param

text \<open>
  The two system endpoints the client uses, and the table of the admin endpoints.  No other route of
  the backend has a path that begins like one of the client's.
\<close>

type_synonym api_route = "string \<times> seg list"

definition system_api :: "api_route list" where
  "system_api =
    [(''GET'', [Lit ''ojs'', Lit ''manifest'']),
     (''GET'', [Lit ''ojs'', Lit ''v1'', Lit ''health''])]"

definition admin_api :: "api_route list" where
  "admin_api =
    [(''GET'', [Lit ''ojs'', Lit ''v1'', Lit ''admin'', Lit ''stats'']),
     (''GET'', [Lit ''ojs'', Lit ''v1'', Lit ''admin'', Lit ''queues'']),
     (''GET'', [Lit ''ojs'', Lit ''v1'', Lit ''admin'', Lit ''queues'', Param]),
     (''POST'', [Lit ''ojs'', Lit ''v1'', Lit ''admin'', Lit ''queues'', Param, Lit ''pause'']),
     (''POST'', [Lit ''ojs'', Lit ''v1'', Lit ''admin'', Lit ''queues'', Param, Lit ''resume'']),
     (''GET'', [Lit ''ojs'', Lit ''v1'', Lit ''admin'', Lit ''jobs'']),
     (''GET'', [Lit ''ojs'', Lit ''v1'', Lit ''admin'', Lit ''jobs'', Param]),
     (''POST'', [Lit ''ojs'', Lit ''v1'', Lit ''admin'', Lit ''jobs'', Param, Lit ''retry'']),
     (''POST'', [Lit ''ojs'', Lit ''v1'', Lit ''admin'', Lit ''jobs'', Param, Lit ''cancel'']),
     (''POST'', [Lit ''ojs'', Lit ''v1'', Lit ''admin'', Lit ''jobs'', Lit ''bulk'', Lit ''retry'']),
     (''GET'', [Lit ''ojs'', Lit ''v1'', Lit ''admin'', Lit ''workers'']),
     (''POST'', [Lit ''ojs'', Lit ''v1'', Lit ''admin'', Lit ''workers'', Param, Lit ''quiet'']),
     (''GET'', [Lit ''ojs'', Lit ''v1'', Lit ''admin'', Lit ''dead-letter'']),
     (''GET'', [Lit ''ojs'', Lit ''v1'', Lit ''admin'', Lit ''dead-letter'', Lit ''stats'']),
     (''POST'', [Lit ''ojs'', Lit ''v1'', Lit ''admin'', Lit ''dead-letter'', Param, Lit ''retry'']),
     (''DELETE'', [Lit ''ojs'', Lit ''v1'', Lit ''admin'', Lit ''dead-letter'', Param]),
     (''POST'', [Lit ''ojs'', Lit ''v1'', Lit ''admin'', Lit ''dead-letter'', Lit ''retry''])]"

fun seg_ok :: "seg \<Rightarrow> string \<Rightarrow> bool" where
  "seg_ok (Lit s) t \<longleftrightarrow> s = t"
| "seg_ok Param t \<longleftrightarrow> t \<noteq> []"

text \<open>
  The URL parser that \<open>fetch\<close> applies resolves dot segments: a single dot is dropped, a double dot
  takes the previous segment with it, and at the end of the path either leaves an empty segment.
\<close>

fun drop_dots :: "string list \<Rightarrow> string list \<Rightarrow> string list" where
  "drop_dots acc [] = rev acc"
| "drop_dots acc (s # ss) =
     (if s = ''..'' then drop_dots ((if ss = [] then [[]] else []) @ tl acc) ss
      else if s = ''.'' then drop_dots ((if ss = [] then [[]] else []) @ acc) ss
      else drop_dots (s # acc) ss)"

definition path_segs :: "string \<Rightarrow> string list" where
  "path_segs u = drop_dots [] (tl (js_split slash (hd (js_split qmark u))))"

definition call_method :: "call_args \<Rightarrow> string" where
  "call_method c = fc_method (n8_call [] (fst c) (snd c))"

definition route_takes :: "api_route \<Rightarrow> call_args \<Rightarrow> bool" where
  "route_takes r c \<longleftrightarrow> fst r = call_method c \<and> list_all2 seg_ok (snd r) (path_segs (fst c))"

definition served :: "call_args \<Rightarrow> bool" where
  "served c \<longleftrightarrow> list_ex (\<lambda>r. route_takes r c) (system_api @ admin_api)"

section \<open>Round trips\<close>

lemma form_plain_char: "form_plain (of_char c) \<Longrightarrow> c \<noteq> CHR ''+'' \<and> c \<noteq> CHR ''%'' \<and> c \<noteq> CHR ''&'' \<and> c \<noteq> CHR ''='' \<and> c \<noteq> CHR '' ''"
  by (auto simp: form_plain_def)

lemma form_decode_char: "form_decode (form_char c @ r) = c # form_decode r"
proof (cases "c = CHR '' '' \<or> form_plain (of_char c)")
  case True
  then show ?thesis
    using form_plain_char [of c] by (cases "c # r" rule: read_pct.cases) (auto simp: form_char_def)
next
  case False
  have p: "read_pct (pct (of_char c) @ r) = Some (of_char c, r)" by (rule read_pct_pct) simp
  obtain x y where xy: "pct (of_char c) = [CHR ''%'', x, y]" by (simp add: pct_def)
  have "form_decode (CHR ''%'' # x # y # r) = c # form_decode r"
    using p xy by (simp del: read_pct.simps)
  then show ?thesis using False xy by (simp add: form_char_def)
qed

lemma form_decode_encode: "form_decode (form_encode s) = s"
  by (induction s) (simp_all add: form_encode_def form_decode_char)

lemma form_char_no_sep: "x \<in> set (form_char c) \<Longrightarrow> x \<noteq> CHR ''&'' \<and> x \<noteq> CHR ''=''"
proof -
  have d: "hex_digit n \<noteq> CHR ''&'' \<and> hex_digit n \<noteq> CHR ''=''" if "n < 16" for n
    using hex_digit_plain [OF that] by (auto simp: uri_unreserved_def)
  have "(of_char c :: nat) div 16 < 16" by (rule less_mult_imp_div_less) simp
  then show "x \<in> set (form_char c) \<Longrightarrow> ?thesis"
    using form_plain_char [of c] d by (auto simp: form_char_def pct_def split: if_splits)
qed

lemma form_encode_no_sep: "x \<in> set (form_encode s) \<Longrightarrow> x \<noteq> CHR ''&'' \<and> x \<noteq> CHR ''=''"
  using form_char_no_sep by (auto simp: form_encode_def)

lemma parse_pair_string: "parse_pair (form_encode k @ CHR ''='' # form_encode v) = (k, v)"
proof -
  have "indexOf (form_encode k @ CHR ''='' # form_encode v) CHR ''='' = Some (length (form_encode k))"
    using form_encode_no_sep by (intro indexOf_append) blast
  then show ?thesis by (simp add: parse_pair_def form_decode_encode)
qed

lemma parse_query_string: "parse_query (usp_string ps) = ps"
proof (cases "ps = []")
  case True
  then show ?thesis by (simp add: parse_query_def usp_string_def)
next
  case False
  let ?f = "\<lambda>(k, v). form_encode k @ CHR ''='' # form_encode v"
  have "js_split CHR ''&'' (usp_string ps) = map ?f ps"
    unfolding usp_string_def using False form_encode_no_sep by (intro js_split_join) fastforce+
  moreover have "filter (\<lambda>x. x \<noteq> []) (map ?f ps) = map ?f ps" by (auto simp: filter_id_conv)
  ultimately show ?thesis by (simp add: parse_query_def map_idI parse_pair_string case_prod_beta)
qed

lemma usp_set_new: "k \<notin> fst ` set ps \<Longrightarrow> usp_set k v ps = ps @ [(k, v)]"
  by (induction ps) auto

definition defined_filters :: "filters \<Rightarrow> params" where
  "defined_filters t = map (\<lambda>(k, v). (k, fval_string v)) (filter (\<lambda>(k, v). v \<noteq> Undef) t)"

lemma filter_params_defined:
  assumes "distinct (map fst t)"
  shows "filter_params t = defined_filters t"
proof -
  have "distinct (map fst t) \<Longrightarrow> fst ` set t \<inter> fst ` set a = {} \<Longrightarrow>
      fold (\<lambda>(i, c) a. if c \<noteq> Undef then usp_set i (fval_string c) a else a) t a = a @ defined_filters t" for a
  proof (induction t arbitrary: a)
    case (Cons x t)
    then show ?case
      by (cases x; cases "snd x = Undef") (auto simp: defined_filters_def usp_set_new image_iff)
  qed (simp add: defined_filters_def)
  then show ?thesis using assms by (simp add: filter_params_def)
qed

lemma qmark_free: "qmark \<notin> set a \<Longrightarrow> js_split qmark (a @ qmark # b) = a # js_split qmark b"
  by (simp add: js_split_append js_split_no_occ)

text \<open>The query part of a URL.\<close>

definition query_of :: "string \<Rightarrow> string" where
  "query_of u = (case indexOf u qmark of None \<Rightarrow> [] | Some i \<Rightarrow> drop (Suc i) u)"

text \<open>
  The filters of a list reach the backend unchanged: reading the query string of the request gives
  every filter that is set, in order and with its text, and none of the others.
\<close>

lemma jobs_query:
  assumes "distinct (map fst t)"
  shows "parse_query (query_of (fst (n8_jobs t))) = defined_filters t"
    "parse_query (query_of (fst (n8_deadLetter t))) = defined_filters t"
proof -
  have q: "query_of (a @ qmark # b) = b" if "qmark \<notin> set a" for a b
    using that by (simp add: query_of_def indexOf_append)
  have "fst (n8_jobs t) = ''/ojs/v1/admin/jobs'' @ qmark # usp_string (filter_params t)"
    "fst (n8_deadLetter t) = ''/ojs/v1/admin/dead-letter'' @ qmark # usp_string (filter_params t)"
    by (simp_all add: n8_jobs_def n8_deadLetter_def get_def)
  then show "parse_query (query_of (fst (n8_jobs t))) = defined_filters t"
    "parse_query (query_of (fst (n8_deadLetter t))) = defined_filters t"
    using q [of "''/ojs/v1/admin/jobs''" "usp_string (filter_params t)"]
      q [of "''/ojs/v1/admin/dead-letter''" "usp_string (filter_params t)"]
    by (simp_all add: parse_query_string filter_params_defined [OF assms])
qed

section \<open>Paths\<close>

lemma slash_encode: "slash \<notin> set (encodeURIComponent t)" "qmark \<notin> set (encodeURIComponent t)"
  by (simp_all add: encode_no_separator)

lemma encode_nonempty: "encodeURIComponent t = [] \<longleftrightarrow> t = []"
  by (cases t) (auto simp: encodeURIComponent_def pct_def)

lemma split_two: "slash \<notin> set e \<Longrightarrow> js_split slash (e @ slash # b) = e # js_split slash b"
  by (simp add: js_split_append js_split_no_occ)

lemma encode_dot_Cons: "encodeURIComponent (c # s) = CHR ''.'' # r \<longleftrightarrow> c = CHR ''.'' \<and> encodeURIComponent s = r"
  by (auto simp: encodeURIComponent_def pct_def uri_unreserved_def)

lemma encode_dot: "encodeURIComponent t = ''.'' \<longleftrightarrow> t = ''.''"
  by (cases t) (simp_all add: encode_dot_Cons encode_nonempty, simp add: encodeURIComponent_def)

lemma encode_dots: "encodeURIComponent t = ''..'' \<longleftrightarrow> t = ''..''"
  by (cases t) (simp_all add: encode_dot_Cons encode_dot, simp add: encodeURIComponent_def)

lemma path_segs_plain: "qmark \<notin> set u \<Longrightarrow> path_segs (slash # u) = drop_dots [] (js_split slash u)"
  by (simp add: path_segs_def js_split_no_occ js_split_slash_Cons)

lemma path_segs_query: "qmark \<notin> set a \<Longrightarrow> path_segs (slash # a @ qmark # b) = drop_dots [] (js_split slash a)"
  by (simp add: path_segs_def js_split_slash_Cons qmark_free [of "slash # a" b, simplified])

lemmas path_simps = path_segs_plain slash_encode split_two js_split_no_occ

lemma drop_dots_plain:
  "list_all (\<lambda>s. s \<noteq> ''.'' \<and> s \<noteq> ''..'') ss \<Longrightarrow> drop_dots acc ss = rev acc @ ss"
  by (induction ss arbitrary: acc) auto

text \<open>An identifier that is a segment of its own: not empty and not a dot segment.\<close>

definition path_id :: "string \<Rightarrow> bool" where
  "path_id t \<longleftrightarrow> t \<noteq> [] \<and> t \<noteq> ''.'' \<and> t \<noteq> ''..''"

lemmas call_defs = n8_queue_def n8_pauseQueue_def n8_resumeQueue_def n8_job_def n8_retryJob_def
  n8_cancelJob_def n8_quietWorker_def n8_retryDeadLetter_def n8_deleteDeadLetter_def n8_queues_def
  n8_jobs_def n8_workers_def n8_deadLetter_def n8_manifest_def n8_stats_def n8_health_def
  n8_deadLetterStats_def n8_bulkRetry_def n8_bulkRetryDeadLetter_def n8_statsHistory_def
  n8_deregisterWorker_def n8_purgeQueue_def n8_bulkCancel_def

lemmas call_kinds = get_def post_def delete_def send_def

lemma call_method_kinds [simp]:
  "call_method (get p) = ''GET''" "call_method (post p) = ''POST''" "call_method (delete p) = ''DELETE''"
  "call_method (send m p j) = m"
  by (simp_all add: call_method_def n8_call_def call_kinds)

text \<open>The methods that name one resource, each with the segments of its address.\<close>

definition id_calls :: "(string \<Rightarrow> call_args) list" where
  "id_calls = [n8_queue, n8_pauseQueue, n8_resumeQueue, n8_job, n8_retryJob, n8_cancelJob, n8_quietWorker,
     n8_retryDeadLetter, n8_deleteDeadLetter]"

lemma id_calls_segs:
  assumes "path_id t" "f \<in> set (n8_deregisterWorker # (\<lambda>t. n8_purgeQueue t a i) # id_calls)"
  shows "\<exists>r act. path_segs (fst (f t)) = [''ojs'', ''v1'', ''admin'', r, encodeURIComponent t] @ act \<and>
    (\<forall>t'. path_id t' \<longrightarrow> path_segs (fst (f t')) = [''ojs'', ''v1'', ''admin'', r, encodeURIComponent t'] @ act)"
  using assms
  by (auto simp: id_calls_def call_defs call_kinds path_simps drop_dots_plain path_id_def encode_dot encode_dots)

lemma id_paths:
  assumes "path_id t"
  shows "path_segs (fst (n8_queue t)) = [''ojs'', ''v1'', ''admin'', ''queues'', encodeURIComponent t]"
    "path_segs (fst (n8_pauseQueue t)) = [''ojs'', ''v1'', ''admin'', ''queues'', encodeURIComponent t, ''pause'']"
    "path_segs (fst (n8_resumeQueue t)) = [''ojs'', ''v1'', ''admin'', ''queues'', encodeURIComponent t, ''resume'']"
    "path_segs (fst (n8_job t)) = [''ojs'', ''v1'', ''admin'', ''jobs'', encodeURIComponent t]"
    "path_segs (fst (n8_retryJob t)) = [''ojs'', ''v1'', ''admin'', ''jobs'', encodeURIComponent t, ''retry'']"
    "path_segs (fst (n8_cancelJob t)) = [''ojs'', ''v1'', ''admin'', ''jobs'', encodeURIComponent t, ''cancel'']"
    "path_segs (fst (n8_quietWorker t)) = [''ojs'', ''v1'', ''admin'', ''workers'', encodeURIComponent t, ''quiet'']"
    "path_segs (fst (n8_retryDeadLetter t)) = [''ojs'', ''v1'', ''admin'', ''dead-letter'', encodeURIComponent t, ''retry'']"
    "path_segs (fst (n8_deleteDeadLetter t)) = [''ojs'', ''v1'', ''admin'', ''dead-letter'', encodeURIComponent t]"
  using assms
  by (simp_all add: call_defs call_kinds path_simps drop_dots_plain path_id_def encode_dot encode_dots)

lemma query_history: "\<exists>b. fst (n8_statsHistory t a i) = ''/ojs/v1/admin/stats/history'' @ qmark # b"
  by (simp add: n8_statsHistory_def get_def Let_def)

lemma history_path:
  "path_segs (fst (n8_statsHistory per since q)) = [''ojs'', ''v1'', ''admin'', ''stats'', ''history'']"
proof -
  obtain b where "fst (n8_statsHistory per since q) = ''/ojs/v1/admin/stats/history'' @ qmark # b"
    using query_history by blast
  then show ?thesis
    using path_segs_query [of "''ojs/v1/admin/stats/history''" b] by (simp add: split_two js_split_no_occ)
qed

lemma query_paths:
  "path_segs (fst (n8_queues p n)) = [''ojs'', ''v1'', ''admin'', ''queues'']"
  "path_segs (fst (n8_workers p n)) = [''ojs'', ''v1'', ''admin'', ''workers'']"
  "path_segs (fst (n8_jobs fs)) = [''ojs'', ''v1'', ''admin'', ''jobs'']"
  "path_segs (fst (n8_deadLetter fs)) = [''ojs'', ''v1'', ''admin'', ''dead-letter'']"
proof -
  have q: "path_segs (''/ojs/v1/admin/queues'' @ qmark # b) = [''ojs'', ''v1'', ''admin'', ''queues'']"
    "path_segs (''/ojs/v1/admin/workers'' @ qmark # b) = [''ojs'', ''v1'', ''admin'', ''workers'']"
    "path_segs (''/ojs/v1/admin/jobs'' @ qmark # b) = [''ojs'', ''v1'', ''admin'', ''jobs'']"
    "path_segs (''/ojs/v1/admin/dead-letter'' @ qmark # b) = [''ojs'', ''v1'', ''admin'', ''dead-letter'']" for b
    using path_segs_query [of "''ojs/v1/admin/queues''" b] path_segs_query [of "''ojs/v1/admin/workers''" b]
      path_segs_query [of "''ojs/v1/admin/jobs''" b] path_segs_query [of "''ojs/v1/admin/dead-letter''" b]
    by (simp_all add: split_two js_split_no_occ)
  show "path_segs (fst (n8_queues p n)) = [''ojs'', ''v1'', ''admin'', ''queues'']"
    "path_segs (fst (n8_workers p n)) = [''ojs'', ''v1'', ''admin'', ''workers'']"
    "path_segs (fst (n8_jobs fs)) = [''ojs'', ''v1'', ''admin'', ''jobs'']"
    "path_segs (fst (n8_deadLetter fs)) = [''ojs'', ''v1'', ''admin'', ''dead-letter'']"
    using q by (simp_all add: call_defs call_kinds)
qed

lemma fixed_paths:
  "path_segs (fst n8_manifest) = [''ojs'', ''manifest'']"
  "path_segs (fst n8_health) = [''ojs'', ''v1'', ''health'']"
  "path_segs (fst n8_stats) = [''ojs'', ''v1'', ''admin'', ''stats'']"
  "path_segs (fst n8_deadLetterStats) = [''ojs'', ''v1'', ''admin'', ''dead-letter'', ''stats'']"
  "path_segs (fst (n8_bulkRetry j)) = [''ojs'', ''v1'', ''admin'', ''jobs'', ''bulk'', ''retry'']"
  "path_segs (fst (n8_bulkCancel j)) = [''ojs'', ''v1'', ''admin'', ''jobs'', ''bulk'', ''cancel'']"
  "path_segs (fst (n8_bulkRetryDeadLetter j)) = [''ojs'', ''v1'', ''admin'', ''dead-letter'', ''retry'']"
  by (simp_all add: call_defs call_kinds path_simps)

lemma call_methods:
  "call_method (n8_statsHistory per since q) = ''GET''"
  "call_method (n8_queues p n) = ''GET''" "call_method (n8_workers p n) = ''GET''"
  "call_method (n8_jobs fs) = ''GET''" "call_method (n8_deadLetter fs) = ''GET''"
  "call_method n8_manifest = ''GET''" "call_method n8_health = ''GET''" "call_method n8_stats = ''GET''"
  "call_method n8_deadLetterStats = ''GET''" "call_method (n8_queue t) = ''GET''" "call_method (n8_job t) = ''GET''"
  "call_method (n8_pauseQueue t) = ''POST''" "call_method (n8_resumeQueue t) = ''POST''"
  "call_method (n8_retryJob t) = ''POST''" "call_method (n8_cancelJob t) = ''POST''"
  "call_method (n8_quietWorker t) = ''POST''" "call_method (n8_retryDeadLetter t) = ''POST''"
  "call_method (n8_bulkRetry j) = ''POST''" "call_method (n8_bulkCancel j) = ''POST''"
  "call_method (n8_bulkRetryDeadLetter j) = ''POST''" "call_method (n8_deleteDeadLetter t) = ''DELETE''"
  "call_method (n8_deregisterWorker t) = ''DELETE''" "call_method (n8_purgeQueue t a i) = ''DELETE''"
  by (simp_all add: call_defs Let_def)

lemmas call_addresses = id_paths query_paths fixed_paths history_path call_methods

lemma served_id_calls:
  assumes "path_id t"
  shows "served (n8_queue t)" "served (n8_pauseQueue t)" "served (n8_resumeQueue t)" "served (n8_job t)"
    "served (n8_retryJob t)" "served (n8_cancelJob t)" "served (n8_quietWorker t)"
    "served (n8_retryDeadLetter t)" "served (n8_deleteDeadLetter t)"
  using assms
  by (simp_all add: served_def route_takes_def system_api_def admin_api_def call_addresses encode_nonempty, simp_all add: path_id_def)

section \<open>Every request of the client\<close>

text \<open>The methods of the client with their arguments, and the request each sends.\<close>

datatype api_call =
    C_manifest | C_stats | C_statsHistory string "string option" "string option"
  | C_queues int int | C_queue string | C_pauseQueue string | C_resumeQueue string
  | C_purgeQueue string "json option" "json option"
  | C_jobs filters | C_job string | C_retryJob string | C_cancelJob string | C_bulkRetry json | C_bulkCancel json
  | C_workers int int | C_quietWorker string | C_deregisterWorker string
  | C_deadLetter filters | C_deadLetterStats | C_retryDeadLetter string | C_deleteDeadLetter string
  | C_bulkRetryDeadLetter json | C_health

primrec n8_send :: "api_call \<Rightarrow> call_args" where
  "n8_send C_manifest = n8_manifest"
| "n8_send C_stats = n8_stats"
| "n8_send (C_statsHistory t a i) = n8_statsHistory t a i"
| "n8_send (C_queues t a) = n8_queues t a"
| "n8_send (C_queue t) = n8_queue t"
| "n8_send (C_pauseQueue t) = n8_pauseQueue t"
| "n8_send (C_resumeQueue t) = n8_resumeQueue t"
| "n8_send (C_purgeQueue t a i) = n8_purgeQueue t a i"
| "n8_send (C_jobs t) = n8_jobs t"
| "n8_send (C_job t) = n8_job t"
| "n8_send (C_retryJob t) = n8_retryJob t"
| "n8_send (C_cancelJob t) = n8_cancelJob t"
| "n8_send (C_bulkRetry t) = n8_bulkRetry t"
| "n8_send (C_bulkCancel t) = n8_bulkCancel t"
| "n8_send (C_workers t a) = n8_workers t a"
| "n8_send (C_quietWorker t) = n8_quietWorker t"
| "n8_send (C_deregisterWorker t) = n8_deregisterWorker t"
| "n8_send (C_deadLetter t) = n8_deadLetter t"
| "n8_send C_deadLetterStats = n8_deadLetterStats"
| "n8_send (C_retryDeadLetter t) = n8_retryDeadLetter t"
| "n8_send (C_deleteDeadLetter t) = n8_deleteDeadLetter t"
| "n8_send (C_bulkRetryDeadLetter t) = n8_bulkRetryDeadLetter t"
| "n8_send C_health = n8_health"

text \<open>The identifiers in a call.\<close>

fun call_ids :: "api_call \<Rightarrow> string list" where
  "call_ids (C_queue t) = [t]"
| "call_ids (C_pauseQueue t) = [t]"
| "call_ids (C_resumeQueue t) = [t]"
| "call_ids (C_purgeQueue t a i) = [t]"
| "call_ids (C_job t) = [t]"
| "call_ids (C_retryJob t) = [t]"
| "call_ids (C_cancelJob t) = [t]"
| "call_ids (C_quietWorker t) = [t]"
| "call_ids (C_deregisterWorker t) = [t]"
| "call_ids (C_retryDeadLetter t) = [t]"
| "call_ids (C_deleteDeadLetter t) = [t]"
| "call_ids _ = []"

text \<open>
  The route meant for each call, written as in the table of the backend: a resource below the admin
  prefix, and the action on it.  None where the backend has no such route.
\<close>

abbreviation admin_route :: "string \<Rightarrow> seg list \<Rightarrow> api_route option" where
  "admin_route m ps \<equiv> Some (m, [Lit ''ojs'', Lit ''v1'', Lit ''admin''] @ ps)"

fun route_for :: "api_call \<Rightarrow> api_route option" where
  "route_for C_manifest = Some (''GET'', [Lit ''ojs'', Lit ''manifest''])"
| "route_for C_health = Some (''GET'', [Lit ''ojs'', Lit ''v1'', Lit ''health''])"
| "route_for C_stats = admin_route ''GET'' [Lit ''stats'']"
| "route_for (C_statsHistory t a i) = None"
| "route_for (C_queues t a) = admin_route ''GET'' [Lit ''queues'']"
| "route_for (C_queue t) = admin_route ''GET'' [Lit ''queues'', Param]"
| "route_for (C_pauseQueue t) = admin_route ''POST'' [Lit ''queues'', Param, Lit ''pause'']"
| "route_for (C_resumeQueue t) = admin_route ''POST'' [Lit ''queues'', Param, Lit ''resume'']"
| "route_for (C_purgeQueue t a i) = None"
| "route_for (C_jobs t) = admin_route ''GET'' [Lit ''jobs'']"
| "route_for (C_job t) = admin_route ''GET'' [Lit ''jobs'', Param]"
| "route_for (C_retryJob t) = admin_route ''POST'' [Lit ''jobs'', Param, Lit ''retry'']"
| "route_for (C_cancelJob t) = admin_route ''POST'' [Lit ''jobs'', Param, Lit ''cancel'']"
| "route_for (C_bulkRetry t) = admin_route ''POST'' [Lit ''jobs'', Lit ''bulk'', Lit ''retry'']"
| "route_for (C_bulkCancel t) = None"
| "route_for (C_workers t a) = admin_route ''GET'' [Lit ''workers'']"
| "route_for (C_quietWorker t) = admin_route ''POST'' [Lit ''workers'', Param, Lit ''quiet'']"
| "route_for (C_deregisterWorker t) = None"
| "route_for (C_deadLetter t) = admin_route ''GET'' [Lit ''dead-letter'']"
| "route_for C_deadLetterStats = admin_route ''GET'' [Lit ''dead-letter'', Lit ''stats'']"
| "route_for (C_retryDeadLetter t) = admin_route ''POST'' [Lit ''dead-letter'', Param, Lit ''retry'']"
| "route_for (C_deleteDeadLetter t) = admin_route ''DELETE'' [Lit ''dead-letter'', Param]"
| "route_for (C_bulkRetryDeadLetter t) = admin_route ''POST'' [Lit ''dead-letter'', Lit ''retry'']"

lemma purge_dereg_paths:
  assumes "path_id t"
  shows "path_segs (fst (n8_deregisterWorker t)) = [''ojs'', ''v1'', ''admin'', ''workers'', encodeURIComponent t]"
    "path_segs (fst (n8_purgeQueue t a i)) = [''ojs'', ''v1'', ''admin'', ''queues'', encodeURIComponent t, ''jobs'']"
  using assms
  by (simp_all add: call_defs call_kinds path_simps drop_dots_plain path_id_def encode_dot encode_dots)

text \<open>
  C9. Of all requests of the client, with identifiers that are path segments of their own (not empty
  and no dot segment) and whatever the filters, pages and bodies are: a call the backend has a route
  for is taken by that registered route; the bulk cancellation, for which there is none, is
  taken by the route that cancels one job, with ``bulk'' as the job; and the history of the
  statistics, the purge of a queue and the removal of a worker are taken by no route.
\<close>

theorem client_requests_served:
  assumes "list_all path_id (call_ids x)"
  shows "case route_for x of
      Some r \<Rightarrow> r \<in> set (system_api @ admin_api) \<and> route_takes r (n8_send x)
    | None \<Rightarrow> (case x of
          C_bulkCancel j \<Rightarrow> filter (\<lambda>r. route_takes r (n8_send x)) (system_api @ admin_api) =
            [(''POST'', [Lit ''ojs'', Lit ''v1'', Lit ''admin'', Lit ''jobs'', Param, Lit ''cancel''])]
        | _ \<Rightarrow> filter (\<lambda>r. route_takes r (n8_send x)) (system_api @ admin_api) = [])"
  using assms
  by (cases x) (simp_all add: route_takes_def system_api_def admin_api_def call_addresses purge_dereg_paths
      encode_nonempty, simp_all add: path_id_def)

theorem client_requests_served_witness:
  "route_takes (''POST'', [Lit ''ojs'', Lit ''v1'', Lit ''admin'', Lit ''queues'', Param, Lit ''pause'']) (n8_pauseQueue ''a/b?c'')"
  using client_requests_served [of "C_pauseQueue ''a/b?c''"] by (simp add: path_id_def)



text \<open>
  C27. Identifiers reach the backend unchanged: in the address of each method that names one resource
  the identifier takes exactly the fifth segment, decoding that segment gives the identifier back,
  and every other segment is the same for all identifiers.
\<close>

theorem client_ids_roundtrip:
  assumes "path_id t" "well_formed t"
    "f \<in> set [n8_queue, n8_pauseQueue, n8_resumeQueue, n8_job, n8_retryJob, n8_cancelJob, n8_quietWorker,
      n8_retryDeadLetter, n8_deleteDeadLetter, n8_deregisterWorker]"
  shows "decodeURIComponent (path_segs (fst (f t)) ! 4) = Some t \<and>
    path_segs (fst (f t)) = (path_segs (fst (f ''x'')))[4 := encodeURIComponent t]"
proof -
  have "f \<in> set (n8_deregisterWorker # (\<lambda>t. n8_purgeQueue t None None) # id_calls)"
    using assms(3) by (auto simp: id_calls_def)
  from id_calls_segs [OF assms(1) this] obtain r act where
    s: "path_segs (fst (f t)) = [''ojs'', ''v1'', ''admin'', r, encodeURIComponent t] @ act"
    "path_segs (fst (f ''x'')) = [''ojs'', ''v1'', ''admin'', r, encodeURIComponent ''x''] @ act"
    by (auto simp: path_id_def)
  then show ?thesis using assms(2) by (simp add: decode_encode)
qed

theorem client_ids_roundtrip_witness: "decodeURIComponent (path_segs (fst (n8_retryJob ''a/..%'')) ! 4) = Some ''a/..%''"
proof -
  have "path_id ''a/..%''" "well_formed ''a/..%''"
    by (simp_all add: path_id_def well_formed_def code_units_def utf8_len_def utf8_tail_ok_def)
  note this and client_ids_roundtrip [OF this, of n8_retryJob, THEN conjunct1]
  then show ?thesis by (simp only: list.set insert_iff simp_thms)
qed

section \<open>Responses\<close>

text \<open>
  What a request settles to: the decoded body exactly for a 2xx response with a JSON body other
  than 204, \<open>undefined\<close> exactly for 204, and for a status outside 2xx an error that carries the
  status and, when the body is an error object with a message, that message, and otherwise the
  status text.
\<close>

theorem request_settles:
  "(n8_settle i = Inr (Some j) \<longleftrightarrow> rs_ok i \<and> rs_status i \<noteq> 204 \<and> rs_json i = Some j) \<and>
   (n8_settle i = Inr None \<longleftrightarrow> rs_status i = 204) \<and>
   (\<not> rs_ok i \<longrightarrow> rs_json i = Some (JObj [(''error'', JObj [(''code'', c), (''message'', JStr msg)])]) \<longrightarrow>
      n8_settle i = Inl (ApiRequestError (rs_status i) msg (Some c))) \<and>
   (\<not> rs_ok i \<longrightarrow> rs_json i = None \<longrightarrow> n8_settle i = Inl (ApiRequestError (rs_status i) (rs_statusText i) None)) \<and>
   ((\<exists>msg c. n8_settle i = Inl (ApiRequestError (rs_status i) msg c)) \<longleftrightarrow> \<not> rs_ok i)"
  by (auto simp: n8_settle_def Let_def rs_ok_def split: option.splits)

theorem request_settles_witness:
  "n8_settle \<lparr>rs_status = 404, rs_statusText = ''Not Found'', rs_json = Some (JObj [(''error'', JObj [(''code'', JStr ''not_found''), (''message'', JStr ''no job'')])])\<rparr> =
     Inl (ApiRequestError 404 ''no job'' (Some (JStr ''not_found'')))"
  using request_settles [of "\<lparr>rs_status = 404, rs_statusText = ''Not Found'', rs_json = Some (JObj [(''error'', JObj [(''code'', JStr ''not_found''), (''message'', JStr ''no job'')])])\<rparr>" JNull "JStr ''not_found''" "''no job''"]
  by (simp add: rs_ok_def)

end
