(* ===== verification/Js_Number.thy ===== *)
theory Js_Number
  imports Js_Prelude Complex_Main "HOL-Library.Log_Nat"
begin

text \<open>
  Numbers of the language as exact rationals with the rounding of binary64 written out: \<open>fl\<close> is the
  nearest representable number, ties to even, for magnitudes in the normal range (subnormal numbers
  and overflow are outside the values the dashboard computes with).  On top of it the conversions to
  text that the dashboard uses, \<open>toFixed\<close> and \<open>toLocaleString\<close>.
\<close>

section \<open>Rounding\<close>

text \<open>The exponent of a positive rational: \<open>2 powi ilog2 x \<le> x < 2 powi (ilog2 x + 1)\<close>.\<close>

definition ilog2 :: "rat \<Rightarrow> int" where
  "ilog2 x = (let (p, q) = quotient_of x; k = bitlen p - bitlen q in
     if 2 powi k \<le> x then k else k - 1)"

definition round_even :: "rat \<Rightarrow> int" where
  "round_even y = (let f = \<lfloor>y\<rfloor>; r = y - of_int f in
     if r < 1/2 then f else if r > 1/2 then f + 1 else if even f then f else f + 1)"

definition fl_pos :: "rat \<Rightarrow> rat" where
  "fl_pos x = (let u = 2 powi (ilog2 x - 52) in of_int (round_even (x / u)) * u)"

definition fl :: "rat \<Rightarrow> rat" where
  "fl x = (if x = 0 then 0 else if x < 0 then - fl_pos (- x) else fl_pos x)"

section \<open>Conversions to text\<close>

definition pad_zero :: "nat \<Rightarrow> string \<Rightarrow> string" where
  "pad_zero n s = replicate (n - length s) CHR ''0'' @ s"

text \<open>\<open>toFixed\<close>: the closest multiple of the last place, the larger one on a tie.\<close>

definition to_fixed_nat :: "nat \<Rightarrow> rat \<Rightarrow> nat" where
  "to_fixed_nat f x = nat \<lfloor>x * 10 ^ f + 1/2\<rfloor>"

definition toFixed :: "nat \<Rightarrow> rat \<Rightarrow> string" where
  "toFixed f x =
     (let a = \<bar>x\<bar>;
          m = pad_zero (Suc f) (nat_str (to_fixed_nat f a));
          k = length m - f in
      (if x < 0 then ''-'' else []) @ (if f = 0 then m else take k m @ ''.'' @ drop k m))"

text \<open>\<open>toLocaleString\<close> of an integer: groups of three digits, with the commas of the English locale.\<close>

function group3 :: "string \<Rightarrow> string" where
  "group3 s = (if length s \<le> 3 then s else group3 (take (length s - 3) s) @ CHR '','' # drop (length s - 3) s)"
  by pat_completeness auto
termination by (relation "measure length") auto

declare group3.simps [simp del]

definition toLocaleString :: "int \<Rightarrow> string" where
  "toLocaleString n = (if n < 0 then ''-'' else []) @ group3 (nat_str (nat \<bar>n\<bar>))"

text \<open>The values of a division, with the ones that are not finite.\<close>

datatype jsnum = Fin rat | Infinity | NegInfinity | NotANumber

definition js_div :: "rat \<Rightarrow> rat \<Rightarrow> jsnum" where
  "js_div a b = (if b \<noteq> 0 then Fin (fl (a / b)) else if a > 0 then Infinity else if a < 0 then NegInfinity else NotANumber)"

section \<open>Error of the rounding\<close>

lemma bitlen_powi:
  assumes "p > 0"
  shows "2 powi (bitlen p - 1) \<le> (of_int p :: rat) \<and> (of_int p :: rat) < 2 powi bitlen p"
proof -
  have b: "2 ^ nat (bitlen p - 1) \<le> p" "p < 2 ^ nat (bitlen p)" using bitlen_bounds [OF assms] by auto
  have n: "bitlen p \<ge> 1" using assms bitlen_nonneg [of p] bitlen_eq_zero_iff [of p] by linarith
  have "(2 :: rat) ^ nat (bitlen p - 1) \<le> of_int p" using b(1) by (metis of_int_le_iff of_int_numeral of_int_power)
  moreover have "(of_int p :: rat) < 2 ^ nat (bitlen p)" using b(2) by (metis of_int_less_iff of_int_numeral of_int_power)
  ultimately show ?thesis using n by (simp add: power_int_nonneg_exp)
qed

lemma ilog2_bounds:
  assumes "x > 0"
  shows "2 powi ilog2 x \<le> x" "x < 2 powi (ilog2 x + 1)"
proof -
  obtain p q where pq: "quotient_of x = (p, q)" by fastforce
  have q: "q > 0" using pq by (rule quotient_of_denom_pos)
  have x: "x = of_int p / of_int q" using pq by (rule quotient_of_div)
  have p: "p > 0" using x q assms by (simp add: zero_less_divide_iff)
  define k where "k = bitlen p - bitlen q"
  have "x < 2 powi bitlen p / 2 powi (bitlen q - 1)"
    using bitlen_powi [OF p] bitlen_powi [OF q] p unfolding x by (intro frac_less) auto
  also have "\<dots> = 2 powi (k + 1)"
    by (simp add: k_def power_int_diff [symmetric] algebra_simps)
  finally have up: "x < 2 powi (k + 1)" .
  have "2 powi (k - 1) = 2 powi (bitlen p - 1) / (2 powi bitlen q :: rat)"
    by (simp add: k_def power_int_diff [symmetric] algebra_simps)
  also have "\<dots> \<le> x"
    using bitlen_powi [OF p] bitlen_powi [OF q] q p unfolding x by (intro frac_le) auto
  finally have low: "2 powi (k - 1) \<le> x" .
  have i: "ilog2 x = (if 2 powi k \<le> x then k else k - 1)" by (simp add: ilog2_def pq k_def Let_def)
  show "2 powi ilog2 x \<le> x" using low by (simp add: i)
  show "x < 2 powi (ilog2 x + 1)" using up by (simp add: i)
qed

lemma round_even_err: "\<bar>of_int (round_even y) - y\<bar> \<le> 1/2"
proof -
  have "of_int \<lfloor>y\<rfloor> \<le> y" "y < of_int \<lfloor>y\<rfloor> + 1" by (auto simp: floor_less_cancel)
  then show ?thesis unfolding round_even_def Let_def by auto
qed

lemma fl_pos: "x > 0 \<Longrightarrow> fl x = fl_pos x"
  by (simp add: fl_def)

lemma fl_err_ulp:
  assumes "x > 0"
  shows "\<bar>fl x - x\<bar> \<le> 2 powi (ilog2 x - 52) / 2"
proof -
  define u :: rat where "u = 2 powi (ilog2 x - 52)"
  have u: "u > 0" by (simp add: u_def)
  have "fl x - x = (of_int (round_even (x / u)) - x / u) * u"
    using u assms by (simp add: fl_pos fl_pos_def u_def [symmetric] Let_def algebra_simps)
  then have "\<bar>fl x - x\<bar> = \<bar>of_int (round_even (x / u)) - x / u\<bar> * u" using u by (simp add: abs_mult)
  also have "\<dots> \<le> 1/2 * u" using round_even_err u by (intro mult_right_mono) auto
  finally show ?thesis by (simp add: u_def)
qed

lemma fl_err:
  assumes "x > 0"
  shows "\<bar>fl x - x\<bar> \<le> x / 2 ^ 53"
proof -
  have "2 powi (ilog2 x - 52) / 2 = 2 powi ilog2 x / (2 ^ 53 :: rat)" by (simp add: power_int_diff)
  also have "\<dots> \<le> x / 2 ^ 53" using ilog2_bounds(1) [OF assms] by (intro divide_right_mono) auto
  finally show ?thesis using fl_err_ulp [OF assms] by linarith
qed

lemma fl_nonneg: "x \<ge> 0 \<Longrightarrow> fl x \<ge> 0"
proof (cases "x = 0")
  case False
  assume "x \<ge> 0"
  then have "x / 2 ^ 53 \<le> x" "\<bar>fl x - x\<bar> \<le> x / 2 ^ 53"
    using False fl_err [of x] by (simp_all add: divide_simps)
  then show ?thesis by linarith
qed (simp add: fl_def)

lemma round_even_ge: "of_int k \<le> y \<Longrightarrow> k \<le> round_even y"
  unfolding round_even_def Let_def using le_floor_iff [of k y] by auto

lemma round_even_of_int [simp]: "round_even (of_int k) = k"
  by (simp add: round_even_def)

text \<open>Integers up to \<open>2 ^ 53\<close> are representable, and rounding does not pass them.\<close>

lemma fl_ge_int:
  assumes "x \<ge> of_int k" "0 < k" "k \<le> 2 ^ 53"
  shows "fl x \<ge> of_int k"
proof -
  have x: "x > 0" using assms by (meson less_le_trans of_int_0_less_iff)
  define i where "i = ilog2 x"
  define u :: rat where "u = 2 powi (i - 52)"
  have u: "u > 0" by (simp add: u_def)
  have f: "fl x = of_int (round_even (x / u)) * u"
    using x by (simp add: fl_pos fl_pos_def u_def [symmetric] i_def [symmetric] Let_def)
  show ?thesis
  proof (cases "i \<le> 52")
    case True
    then have "of_int k / u = of_int (k * 2 ^ nat (52 - i))"
      by (simp add: u_def power_int_diff power_int_nonneg_exp [symmetric] divide_simps power_int_add [symmetric])
    moreover have "of_int k / u \<le> x / u" using assms(1) u by (intro divide_right_mono) auto
    ultimately have "k * 2 ^ nat (52 - i) \<le> round_even (x / u)" by (intro round_even_ge) simp
    then have "of_int (k * 2 ^ nat (52 - i)) \<le> (of_int (round_even (x / u)) :: rat)" by (simp only: of_int_le_iff)
    then have "of_int k / u \<le> of_int (round_even (x / u))"
      using \<open>of_int k / u = of_int (k * 2 ^ nat (52 - i))\<close> by simp
    then show ?thesis using u by (simp add: f pos_divide_le_eq)
  next
    case False
    have "of_int (2 ^ 52) \<le> x / u"
      using ilog2_bounds(1) [OF x] u by (simp add: u_def i_def [symmetric] power_int_diff divide_simps)
    then have "2 ^ 52 \<le> round_even (x / u)" by (rule round_even_ge)
    then have "(2 ^ 52 :: rat) \<le> of_int (round_even (x / u))" by (metis of_int_le_iff of_int_numeral of_int_power)
    then have "2 ^ 52 * u \<le> fl x" using u by (simp add: f)
    moreover have "2 ^ 53 \<le> 2 ^ 52 * u"
      using False power_int_increasing [of 1 "i - 52" "2 :: rat"] by (simp add: u_def)
    moreover have "(of_int k :: rat) \<le> 2 ^ 53" using assms(3) by (metis of_int_le_iff of_int_numeral of_int_power)
    ultimately show ?thesis by linarith
  qed
qed

lemma fl_less_int:
  assumes "0 \<le> x" "x + x / 2 ^ 53 < of_int k"
  shows "fl x < of_int k"
proof (cases "x = 0")
  case False
  then have "\<bar>fl x - x\<bar> \<le> x / 2 ^ 53" using assms(1) fl_err [of x] by simp
  then show ?thesis using assms(2) by linarith
qed (use assms in \<open>simp add: fl_def\<close>)

lemma floor_fl:
  assumes "0 \<le> x" "x + x / 2 ^ 53 < of_int (\<lfloor>x\<rfloor> + 1)" "\<lfloor>x\<rfloor> \<le> 2 ^ 53"
  shows "\<lfloor>fl x\<rfloor> = \<lfloor>x\<rfloor>"
proof -
  have "fl x < of_int (\<lfloor>x\<rfloor> + 1)" using assms by (intro fl_less_int)
  moreover have "of_int \<lfloor>x\<rfloor> \<le> fl x"
    using assms fl_nonneg [of x] by (cases "\<lfloor>x\<rfloor> = 0") (auto intro!: fl_ge_int simp: order_less_le)
  ultimately show ?thesis by (simp add: floor_eq_iff)
qed

text \<open>The nearest multiple: a number printed with \<open>f\<close> places is off by at most half a unit in the last.\<close>

lemma to_fixed_nat_err:
  assumes "x \<ge> 0"
  shows "\<bar>of_nat (to_fixed_nat f x) - x * 10 ^ f\<bar> \<le> 1/2"
proof -
  have "0 \<le> x * 10 ^ f" using assms by simp
  then have "(of_nat (to_fixed_nat f x) :: rat) = of_int \<lfloor>x * 10 ^ f + 1/2\<rfloor>"
    by (simp add: to_fixed_nat_def of_nat_nat)
  moreover have "of_int \<lfloor>x * 10 ^ f + 1/2\<rfloor> \<le> x * 10 ^ f + 1/2" "x * 10 ^ f + 1/2 < of_int \<lfloor>x * 10 ^ f + 1/2\<rfloor> + 1"
    by (simp_all add: floor_less_cancel)
  ultimately show ?thesis by linarith
qed

lemma nat_str_length: "n < 10 \<Longrightarrow> length (nat_str n) = 1"
  by (simp add: nat_str.simps)

lemma toFixed_one:
  assumes "x \<ge> 0"
  shows "toFixed 1 x = nat_str (to_fixed_nat 1 x div 10) @ ''.'' @ nat_str (to_fixed_nat 1 x mod 10)"
proof (cases "to_fixed_nat 1 x < 10")
  case True
  then show ?thesis using assms
    by (simp add: toFixed_def pad_zero_def nat_str_length Let_def) (simp add: nat_str.simps char_of_def bit_simps)
next
  case False
  have ne: "nat_str n \<noteq> []" for n by (subst nat_str.simps) simp
  have d: "nat_str (to_fixed_nat 1 x) = nat_str (to_fixed_nat 1 x div 10) @ nat_str (to_fixed_nat 1 x mod 10)"
    using False by (subst nat_str.simps) (simp add: nat_str.simps [of "_ mod 10"])
  have "length (nat_str (to_fixed_nat 1 x div 10)) \<ge> 1" using ne by (simp add: Suc_le_eq)
  then show ?thesis using assms
    by (simp add: toFixed_def pad_zero_def d [unfolded One_nat_def] nat_str_length Let_def)
qed

lemma toFixed_zero:
  assumes "x \<ge> 0"
  shows "toFixed 0 x = nat_str (to_fixed_nat 0 x)"
proof -
  have "nat_str n \<noteq> []" for n by (subst nat_str.simps) simp
  then have "Suc 0 \<le> length (nat_str n)" for n by (simp add: Suc_le_eq)
  then show ?thesis using assms by (simp add: toFixed_def pad_zero_def)
qed

lemma round_even_le: "y \<le> of_int k \<Longrightarrow> round_even y \<le> k"
  unfolding round_even_def Let_def using floor_le_iff [of y k] le_floor_iff [of k y]
  by (auto simp: floor_less_iff not_less le_less)

lemma fl_le_int:
  assumes "0 \<le> x" "x \<le> of_int k" "k \<le> 2 ^ 53"
  shows "fl x \<le> of_int k"
proof (cases "x = 0")
  case False
  then have x: "x > 0" using assms by simp
  define i where "i = ilog2 x"
  define u :: rat where "u = 2 powi (i - 52)"
  have u: "u > 0" by (simp add: u_def)
  have f: "fl x = of_int (round_even (x / u)) * u"
    using x by (simp add: fl_pos fl_pos_def u_def [symmetric] i_def [symmetric] Let_def)
  have "i \<le> 53"
  proof (rule ccontr)
    assume "\<not> i \<le> 53"
    then have "(2 :: rat) powi 54 \<le> 2 powi i" by (intro power_int_increasing) auto
    moreover have "(of_int k :: rat) \<le> 2 ^ 53" using assms(3) by (metis of_int_le_iff of_int_numeral of_int_power)
    ultimately show False using ilog2_bounds(1) [OF x] assms(2) by (simp add: i_def)
  qed
  consider "i \<le> 52" | "i = 53" using \<open>i \<le> 53\<close> by linarith
  then show ?thesis
  proof cases
    case 1
    then have k: "of_int k / u = of_int (k * 2 ^ nat (52 - i))"
      by (simp add: u_def power_int_diff power_int_nonneg_exp [symmetric] divide_simps power_int_add [symmetric])
    moreover have "x / u \<le> of_int k / u" using assms(2) u by (intro divide_right_mono) auto
    ultimately have "round_even (x / u) \<le> k * 2 ^ nat (52 - i)" by (intro round_even_le) simp
    then have "of_int (round_even (x / u)) \<le> (of_int (k * 2 ^ nat (52 - i)) :: rat)" by (simp only: of_int_le_iff)
    then show ?thesis using u k by (simp add: f pos_le_divide_eq [symmetric])
  next
    case 2
    have "(of_int k :: rat) \<le> 2 ^ 53" using assms(3) by (metis of_int_le_iff of_int_numeral of_int_power)
    then have e: "x = 2 ^ 53" "of_int k = (2 ^ 53 :: rat)" using ilog2_bounds(1) [OF x] assms(2) 2 by (simp_all add: i_def [symmetric])
    then have q: "x / u = of_int (2 ^ 52)" by (simp add: u_def 2)
    have "fl x = 2 ^ 52 * u" unfolding f q by (simp only: round_even_of_int) simp
    then show ?thesis using e by (simp add: u_def 2)
  qed
qed (use assms in \<open>simp add: fl_def\<close>)

lemma ceiling_fl:
  assumes "0 \<le> x" "of_int (\<lceil>x\<rceil> - 1) < x - x / 2 ^ 53" "\<lceil>x\<rceil> \<le> 2 ^ 53"
  shows "\<lceil>fl x\<rceil> = \<lceil>x\<rceil>"
proof -
  have "fl x \<le> of_int \<lceil>x\<rceil>" using assms by (intro fl_le_int) auto
  moreover have "of_int (\<lceil>x\<rceil> - 1) < fl x"
  proof (cases "x = 0")
    case False
    then have "\<bar>fl x - x\<bar> \<le> x / 2 ^ 53" using assms(1) by (intro fl_err) simp
    then show ?thesis using assms(2) by linarith
  qed (use assms in \<open>simp add: fl_def\<close>)
  ultimately show ?thesis by (simp add: ceiling_eq_iff)
qed

end
