(* ===== verification/Admin_Elements.thy ===== *)
theory Admin_Elements
  imports Admin_Client Js_Number
begin

text \<open>
  What the dashboard's components render, and the data they render.  An element carries its tag, its
  properties and its children; a handler is the action it triggers, an input handler a function of
  the text.  The records are the responses of the admin API as far as the dashboard reads them.
\<close>

section \<open>Elements\<close>

datatype 'a pval =
    PStr string
  | PBool bool
  | PNum int
  | PRat rat
  | PObj "(string \<times> json) list"
  | PData json
  | PDo 'a
  | PInput "string \<Rightarrow> 'a"

datatype 'a node =
    Null \<comment> \<open>\<open>null\<close>, \<open>false\<close>, \<open>undefined\<close> and the empty string: nothing is rendered\<close>
  | Txt string
  | El (el_tag: string) (el_props: "(string \<times> 'a pval) list") (el_children: "'a node list")
  | Frag "'a node list"

abbreviation num_node :: "int \<Rightarrow> 'a node" where
  "num_node n \<equiv> Txt (int_str n)"

text \<open>The text a reader sees.\<close>

fun text_of :: "'a node \<Rightarrow> string" where
  "text_of Null = []"
| "text_of (Txt s) = s"
| "text_of (El t ps ns) = concat (map text_of ns)"
| "text_of (Frag ns) = concat (map text_of ns)"

text \<open>The same piece by piece, in the order of the page.\<close>

fun texts :: "'a node \<Rightarrow> string list" where
  "texts Null = []"
| "texts (Txt s) = [s]"
| "texts (El t ps ns) = concat (map texts ns)"
| "texts (Frag ns) = concat (map texts ns)"

fun do_of :: "'a pval option \<Rightarrow> 'a list" where
  "do_of (Some (PDo a)) = [a]"
| "do_of _ = []"

fun is_true :: "'a pval option \<Rightarrow> bool" where
  "is_true (Some (PBool b)) = b"
| "is_true _ = False"

text \<open>The buttons in a tree: label, whether disabled, and what a click does.\<close>

fun buttons :: "'a node \<Rightarrow> (string \<times> bool \<times> 'a list) list" where
  "buttons Null = []"
| "buttons (Txt s) = []"
| "buttons (El t ps ns) =
     (if t = ''button'' then [(concat (map text_of ns), is_true (map_of ps ''disabled''), do_of (map_of ps ''onClick''))]
      else concat (map buttons ns))"
| "buttons (Frag ns) = concat (map buttons ns)"

text \<open>The elements of a tree with a tag, from the root down.\<close>

fun tagged :: "string \<Rightarrow> 'a node \<Rightarrow> 'a node list" where
  "tagged t Null = []"
| "tagged t (Txt s) = []"
| "tagged t (El t' ps ns) = (if t = t' then [El t' ps ns] else []) @ concat (map (tagged t) ns)"
| "tagged t (Frag ns) = concat (map (tagged t) ns)"

text \<open>What a click on a button of this label does, for each such button that is not disabled.\<close>

definition clicks :: "string \<Rightarrow> 'a node \<Rightarrow> 'a list" where
  "clicks l n = concat (map (\<lambda>(l', d, a). if l' = l \<and> \<not> d then a else []) (buttons n))"

section \<open>Data\<close>

record host =
  now :: int \<comment> \<open>\<open>Date.now()\<close>\<close>
  parse_date :: "string \<Rightarrow> int option" \<comment> \<open>\<open>new Date(s).getTime()\<close>\<close>
  locale_date :: "string \<Rightarrow> string" \<comment> \<open>\<open>new Date(s).toLocaleString()\<close>\<close>
  locale_time :: "string \<Rightarrow> string" \<comment> \<open>\<open>toLocaleTimeString\<close>, two-digit hour and minute\<close>

record implementation =
  im_name :: string
  im_version :: string
  im_language :: string

record extension =
  ex_name :: string
  ex_version :: string
  ex_uri :: string

datatype extensions = ExtArray "string list" | ExtObject "extension list option" "extension list option"

record manifest =
  mf_implementation :: implementation
  mf_backend :: string
  mf_conformance_level :: int
  mf_conformance_tier :: "string option"
  mf_protocols :: "string list"
  mf_capabilities :: "(string \<times> bool) list option"
  mf_extensions :: "extensions option"
  mf_json :: json \<comment> \<open>the whole response\<close>

record counts =
  available :: int
  active :: int
  scheduled :: int
  retryable :: int
  completed :: int
  discarded :: int

record rates =
  processed_per_minute :: rat
  failed_per_minute :: rat

record stats =
  st_jobs :: counts
  st_throughput :: rates
  st_queues :: int
  st_workers :: int

record history_point =
  hp_timestamp :: string
  hp_processed :: int
  hp_failed :: int

record queue_info =
  q_name :: string
  q_counts :: counts
  q_paused :: bool
  q_throughput :: "rates option"

record job_info =
  j_id :: string
  j_type :: string
  j_queue :: string
  j_state :: string
  j_attempt :: int
  j_created_at :: string

record pagination =
  pg_page :: int
  pg_per_page :: int
  pg_total :: int

record job_list =
  jl_items :: "job_info list"
  jl_pagination :: pagination

record job_times =
  tm_created_at :: "string option"
  tm_enqueued_at :: "string option"
  tm_started_at :: "string option"
  tm_completed_at :: "string option"
  tm_cancelled_at :: "string option"
  tm_discarded_at :: "string option"

record job_error =
  er_type :: string
  er_attempt :: int
  er_occurred_at :: string
  er_message :: string
  er_backtrace :: "string list option"

record job_detail =
  jd_id :: string
  jd_type :: string
  jd_state :: string
  jd_attempt :: int
  jd_max_attempts :: "int option"
  jd_created_at :: string
  jd_metadata :: "job_times option"
  jd_args :: json
  jd_meta :: "(string \<times> json) list"
  jd_errors :: "job_error list"
  jd_result :: "json option"
  jd_retry_policy :: "json option"

record worker =
  w_id :: string
  w_hostname :: "string option"
  w_state :: string
  w_queues :: "string list"
  w_active_jobs :: int
  w_last_heartbeat_at :: string

record worker_summary =
  ws_running :: int
  ws_quiet :: int
  ws_stale :: int

record worker_list =
  wl_items :: "worker list"
  wl_summary :: "worker_summary option"

record dead_stats =
  ds_total :: int
  ds_by_error_type :: "(string \<times> int) list option"

definition str_truthy :: "string option \<Rightarrow> bool" where
  "str_truthy s \<longleftrightarrow> s \<noteq> None \<and> s \<noteq> Some []"

fun json_truthy :: "json option \<Rightarrow> bool" where
  "json_truthy None \<longleftrightarrow> False"
| "json_truthy (Some j) \<longleftrightarrow> j \<noteq> JNull \<and> j \<noteq> JBool False \<and> j \<noteq> JNum 0 \<and> j \<noteq> JStr []"

text \<open>\<open>xs.join(sep)\<close> with a separator of more than one character.\<close>

fun join_with :: "string \<Rightarrow> string list \<Rightarrow> string" where
  "join_with sep [] = []"
| "join_with sep [x] = x"
| "join_with sep (x # y # ys) = x @ sep @ join_with sep (y # ys)"

text \<open>\<open>JSON.stringify(x, null, 2)\<close>; the first argument is the indentation reached.\<close>

fun stringify2 :: "string \<Rightarrow> json \<Rightarrow> string" where
  "stringify2 ind (JArr xs) =
     (if xs = [] then ''[]'' else
      ''['' @ [CHR 0x0A] @ join_with ('','' @ [CHR 0x0A]) (map (\<lambda>x. ind @ ''  '' @ stringify2 (ind @ ''  '') x) xs) @
      [CHR 0x0A] @ ind @ '']'')"
| "stringify2 ind (JObj kvs) =
     (if kvs = [] then ''{}'' else
      ''{'' @ [CHR 0x0A] @
      join_with ('','' @ [CHR 0x0A]) (map (\<lambda>(k, v). ind @ ''  '' @ json_quote k @ '': '' @ stringify2 (ind @ ''  '') v) kvs) @
      [CHR 0x0A] @ ind @ ''}'')"
| "stringify2 ind j = stringify j"

end
