(* ===== verification/Admin_Styles.thy ===== *)
theory Admin_Styles
  imports Main
begin

text \<open>
  The class names in the dashboard's elements (\<open>src/internal/admin/dist/index-DxrWcVFD.js\<close>), one
  constant for each; the pieces of composed names are constants of their own.
\<close>

definition cn_text_xs_text_gray_400_mt_1 :: string where
  "cn_text_xs_text_gray_400_mt_1 = ''text-xs text-gray-400 mt-1''"

definition cn_h_12_bg_white_dark_bg_gray_900 :: string where
  "cn_h_12_bg_white_dark_bg_gray_900 = ''h-12 bg-white dark:bg-gray-900 border-b border-gray-200 dark:border-gray-800 flex items-center justify-between px-4''"

definition cn_text_sm_text_gray_500 :: string where
  "cn_text_sm_text_gray_500 = ''text-sm text-gray-500''"

definition cn_text_sm_px_2_py_1_rounded_hover :: string where
  "cn_text_sm_px_2_py_1_rounded_hover = ''text-sm px-2 py-1 rounded hover:bg-gray-100 dark:hover:bg-gray-800 text-gray-600 dark:text-gray-400''"

definition cn_flex_h_screen_overflow_hidden :: string where
  "cn_flex_h_screen_overflow_hidden = ''flex h-screen overflow-hidden''"

definition cn_flex_1_flex_flex_col_overflow_h :: string where
  "cn_flex_1_flex_flex_col_overflow_h = ''flex-1 flex flex-col overflow-hidden''"

definition cn_flex_1_overflow_auto_p_6_bg_gra :: string where
  "cn_flex_1_overflow_auto_p_6_bg_gra = ''flex-1 overflow-auto p-6 bg-gray-50 dark:bg-gray-950''"

definition cn_bg_white_dark_bg_gray_900_round :: string where
  "cn_bg_white_dark_bg_gray_900_round = ''bg-white dark:bg-gray-900 rounded-lg border border-gray-200 dark:border-gray-800 p-4''"

definition cn_text_xs_text_gray_500_uppercase :: string where
  "cn_text_xs_text_gray_500_uppercase = ''text-xs text-gray-500 uppercase tracking-wide''"

definition cn_text_2xl_font_bold_mt_1 :: string where
  "cn_text_2xl_font_bold_mt_1 = ''text-2xl font-bold mt-1 ''"

definition cn_grid_grid_cols_2_md_grid_cols_4 :: string where
  "cn_grid_grid_cols_2_md_grid_cols_4 = ''grid grid-cols-2 md:grid-cols-4 lg:grid-cols-6 gap-4''"

definition cn_text_blue_600 :: string where
  "cn_text_blue_600 = ''text-blue-600''"

definition cn_text_green_600 :: string where
  "cn_text_green_600 = ''text-green-600''"

definition cn_text_red_600 :: string where
  "cn_text_red_600 = ''text-red-600''"

definition cn_text_gray_900_dark_text_gray_10 :: string where
  "cn_text_gray_900_dark_text_gray_10 = ''text-gray-900 dark:text-gray-100''"

definition cn_text_purple_600 :: string where
  "cn_text_purple_600 = ''text-purple-600''"

definition cn_text_amber_600 :: string where
  "cn_text_amber_600 = ''text-amber-600''"

definition cn_inline_flex_items_center_px_2_p :: string where
  "cn_inline_flex_items_center_px_2_p = ''inline-flex items-center px-2 py-0.5 rounded-full text-xs font-medium ''"

definition cn_w_1_5_h_1_5_rounded_full_bg_amb :: string where
  "cn_w_1_5_h_1_5_rounded_full_bg_amb = ''w-1.5 h-1.5 rounded-full bg-amber-500 animate-pulse-dot mr-1''"

definition cn_bg_gray_100_text_gray_700 :: string where
  "cn_bg_gray_100_text_gray_700 = ''bg-gray-100 text-gray-700''"

definition cn_h_48 :: string where
  "cn_h_48 = ''h-48''"

definition cn_flex_items_center_justify_cente :: string where
  "cn_flex_items_center_justify_cente = ''flex items-center justify-center h-64 text-gray-500''"

definition cn_bg_red_50_dark_bg_red_950_borde :: string where
  "cn_bg_red_50_dark_bg_red_950_borde = ''bg-red-50 dark:bg-red-950 border border-red-200 dark:border-red-800 rounded-lg p-6 text-center''"

definition cn_text_lg_font_semibold_text_red :: string where
  "cn_text_lg_font_semibold_text_red = ''text-lg font-semibold text-red-700 dark:text-red-400''"

definition cn_text_sm_text_red_600_dark_text :: string where
  "cn_text_sm_text_red_600_dark_text = ''text-sm text-red-600 dark:text-red-300 mt-2''"

definition cn_text_xs_text_gray_500_mt_4 :: string where
  "cn_text_xs_text_gray_500_mt_4 = ''text-xs text-gray-500 mt-4''"

definition cn_space_y_6 :: string where
  "cn_space_y_6 = ''space-y-6''"

definition cn_text_xl_font_bold :: string where
  "cn_text_xl_font_bold = ''text-xl font-bold''"

definition cn_grid_grid_cols_1_lg_grid_cols_2 :: string where
  "cn_grid_grid_cols_1_lg_grid_cols_2 = ''grid grid-cols-1 lg:grid-cols-2 gap-6''"

definition cn_text_sm_font_semibold_text_gray :: string where
  "cn_text_sm_font_semibold_text_gray = ''text-sm font-semibold text-gray-600 dark:text-gray-400 mb-3''"

definition cn_bg_white_dark_bg_gray_900_round_2 :: string where
  "cn_bg_white_dark_bg_gray_900_round_2 = ''bg-white dark:bg-gray-900 rounded-lg border border-gray-200 dark:border-gray-800 overflow-hidden''"

definition cn_w_full_text_sm :: string where
  "cn_w_full_text_sm = ''w-full text-sm''"

definition cn_bg_gray_50_dark_bg_gray_800_tex :: string where
  "cn_bg_gray_50_dark_bg_gray_800_tex = ''bg-gray-50 dark:bg-gray-800 text-gray-600 dark:text-gray-400 text-xs uppercase''"

definition cn_text_left_px_4_py_3 :: string where
  "cn_text_left_px_4_py_3 = ''text-left px-4 py-3''"

definition cn_text_right_px_3_py_3 :: string where
  "cn_text_right_px_3_py_3 = ''text-right px-3 py-3''"

definition cn_text_center_px_3_py_3 :: string where
  "cn_text_center_px_3_py_3 = ''text-center px-3 py-3''"

definition cn_divide_y_divide_gray_100_dark_d :: string where
  "cn_divide_y_divide_gray_100_dark_d = ''divide-y divide-gray-100 dark:divide-gray-800''"

definition cn_hover_bg_gray_50_dark_hover_bg :: string where
  "cn_hover_bg_gray_50_dark_hover_bg = ''hover:bg-gray-50 dark:hover:bg-gray-800/50''"

definition cn_px_4_py_3_font_medium :: string where
  "cn_px_4_py_3_font_medium = ''px-4 py-3 font-medium''"

definition cn_px_3_py_3_text_right_text_blue :: string where
  "cn_px_3_py_3_text_right_text_blue = ''px-3 py-3 text-right text-blue-600''"

definition cn_px_3_py_3_text_right_text_amber :: string where
  "cn_px_3_py_3_text_right_text_amber = ''px-3 py-3 text-right text-amber-600''"

definition cn_px_3_py_3_text_right_text_purpl :: string where
  "cn_px_3_py_3_text_right_text_purpl = ''px-3 py-3 text-right text-purple-600''"

definition cn_px_3_py_3_text_right_text_orang :: string where
  "cn_px_3_py_3_text_right_text_orang = ''px-3 py-3 text-right text-orange-600''"

definition cn_px_3_py_3_text_right_text_green :: string where
  "cn_px_3_py_3_text_right_text_green = ''px-3 py-3 text-right text-green-600''"

definition cn_px_3_py_3_text_right_text_red_6 :: string where
  "cn_px_3_py_3_text_right_text_red_6 = ''px-3 py-3 text-right text-red-600''"

definition cn_px_3_py_3_text_right_text_gray :: string where
  "cn_px_3_py_3_text_right_text_gray = ''px-3 py-3 text-right text-gray-500''"

definition cn_px_3_py_3_text_center :: string where
  "cn_px_3_py_3_text_center = ''px-3 py-3 text-center''"

definition cn_text_xs_px_2_py_0_5_bg_yellow_1 :: string where
  "cn_text_xs_px_2_py_0_5_bg_yellow_1 = ''text-xs px-2 py-0.5 bg-yellow-100 text-yellow-800 rounded-full''"

definition cn_text_xs_px_2_py_0_5_bg_green_10 :: string where
  "cn_text_xs_px_2_py_0_5_bg_green_10 = ''text-xs px-2 py-0.5 bg-green-100 text-green-800 rounded-full''"

definition cn_text_xs_px_2_py_1_rounded_borde :: string where
  "cn_text_xs_px_2_py_1_rounded_borde = ''text-xs px-2 py-1 rounded border border-gray-300 dark:border-gray-600 hover:bg-gray-100 dark:hover:bg-gray-800 disabled:opacity-40''"

definition cn_text_center_py_8_text_gray_500 :: string where
  "cn_text_center_py_8_text_gray_500 = ''text-center py-8 text-gray-500 text-sm''"

definition cn_space_y_4 :: string where
  "cn_space_y_4 = ''space-y-4''"

definition cn_flex_items_center_justify_betwe :: string where
  "cn_flex_items_center_justify_betwe = ''flex items-center justify-between''"

definition cn_text_sm_px_3_py_1_5_border_bord :: string where
  "cn_text_sm_px_3_py_1_5_border_bord = ''text-sm px-3 py-1.5 border border-gray-300 dark:border-gray-600 rounded hover:bg-gray-100 dark:hover:bg-gray-800''"

definition cn_text_left_px_3_py_3 :: string where
  "cn_text_left_px_3_py_3 = ''text-left px-3 py-3''"

definition cn_text_right_px_4_py_3 :: string where
  "cn_text_right_px_4_py_3 = ''text-right px-4 py-3''"

definition cn_hover_bg_gray_50_dark_hover_bg_2 :: string where
  "cn_hover_bg_gray_50_dark_hover_bg_2 = ''hover:bg-gray-50 dark:hover:bg-gray-800/50 cursor-pointer''"

definition cn_px_4_py_3_font_mono_text_xs_tex :: string where
  "cn_px_4_py_3_font_mono_text_xs_tex = ''px-4 py-3 font-mono text-xs text-gray-500''"

definition cn_px_3_py_3_font_medium :: string where
  "cn_px_3_py_3_font_medium = ''px-3 py-3 font-medium''"

definition cn_px_3_py_3_text_gray_500 :: string where
  "cn_px_3_py_3_text_gray_500 = ''px-3 py-3 text-gray-500''"

definition cn_px_3_py_3_text_center_text_gray :: string where
  "cn_px_3_py_3_text_center_text_gray = ''px-3 py-3 text-center text-gray-500''"

definition cn_px_4_py_3_text_right_text_gray :: string where
  "cn_px_4_py_3_text_right_text_gray = ''px-4 py-3 text-right text-gray-500 text-xs''"

definition cn_relative :: string where
  "cn_relative = ''relative''"

definition cn_absolute_top_2_right_2_text_xs :: string where
  "cn_absolute_top_2_right_2_text_xs = ''absolute top-2 right-2 text-xs text-gray-500 hover:text-gray-700 dark:hover:text-gray-300''"

definition cn_absolute_top_2_right_14_text_xs :: string where
  "cn_absolute_top_2_right_14_text_xs = ''absolute top-2 right-14 text-xs text-gray-500 hover:text-gray-700 dark:hover:text-gray-300''"

definition cn_bg_gray_50_dark_bg_gray_900_bor :: string where
  "cn_bg_gray_50_dark_bg_gray_900_bor = ''bg-gray-50 dark:bg-gray-900 border border-gray-200 dark:border-gray-700 rounded p-3 text-xs overflow-auto max-h-96 font-mono''"

definition cn_flex_justify_between_text_gray :: string where
  "cn_flex_justify_between_text_gray = ''flex justify-between text-gray-600 dark:text-gray-400''"

definition cn_font_mono :: string where
  "cn_font_mono = ''font-mono''"

definition cn_flex_justify_between_text_sm :: string where
  "cn_flex_justify_between_text_sm = ''flex justify-between text-sm''"

definition cn_text_gray_500 :: string where
  "cn_text_gray_500 = ''text-gray-500''"

definition cn_font_medium :: string where
  "cn_font_medium = ''font-medium''"

definition cn_flex_items_center_justify_betwe_2 :: string where
  "cn_flex_items_center_justify_betwe_2 = ''flex items-center justify-between px-4 py-3 border-t border-gray-200 dark:border-gray-700''"

definition cn_flex_gap_1 :: string where
  "cn_flex_gap_1 = ''flex gap-1''"

definition cn_px_3_py_1_text_sm_rounded_borde :: string where
  "cn_px_3_py_1_text_sm_rounded_borde = ''px-3 py-1 text-sm rounded border border-gray-300 dark:border-gray-600 disabled:opacity-40 hover:bg-gray-100 dark:hover:bg-gray-800''"

definition cn_px_3_py_1_text_sm_text_gray_500 :: string where
  "cn_px_3_py_1_text_sm_text_gray_500 = ''px-3 py-1 text-sm text-gray-500''"

definition cn_fixed_inset_0_z_50_flex_items_c :: string where
  "cn_fixed_inset_0_z_50_flex_items_c = ''fixed inset-0 z-50 flex items-center justify-center bg-black/50''"

definition cn_bg_white_dark_bg_gray_800_round :: string where
  "cn_bg_white_dark_bg_gray_800_round = ''bg-white dark:bg-gray-800 rounded-lg shadow-xl max-w-md w-full p-6''"

definition cn_text_lg_font_semibold_mb_2 :: string where
  "cn_text_lg_font_semibold_mb_2 = ''text-lg font-semibold mb-2''"

definition cn_text_sm_text_gray_600_dark_text :: string where
  "cn_text_sm_text_gray_600_dark_text = ''text-sm text-gray-600 dark:text-gray-400 mb-6''"

definition cn_flex_justify_end_gap_3 :: string where
  "cn_flex_justify_end_gap_3 = ''flex justify-end gap-3''"

definition cn_px_4_py_2_text_sm_rounded_borde :: string where
  "cn_px_4_py_2_text_sm_rounded_borde = ''px-4 py-2 text-sm rounded border border-gray-300 dark:border-gray-600 hover:bg-gray-100 dark:hover:bg-gray-700''"

definition cn_px_4_py_2_text_sm_rounded_text :: string where
  "cn_px_4_py_2_text_sm_rounded_text = ''px-4 py-2 text-sm rounded text-white ''"

definition cn_bg_red_600_hover_bg_red_700 :: string where
  "cn_bg_red_600_hover_bg_red_700 = ''bg-red-600 hover:bg-red-700''"

definition cn_bg_blue_600_hover_bg_blue_700 :: string where
  "cn_bg_blue_600_hover_bg_blue_700 = ''bg-blue-600 hover:bg-blue-700''"

definition cn_disabled_opacity_50 :: string where
  "cn_disabled_opacity_50 = '' disabled:opacity-50''"

definition cn_w_56_bg_white_dark_bg_gray_900 :: string where
  "cn_w_56_bg_white_dark_bg_gray_900 = ''w-56 bg-white dark:bg-gray-900 border-r border-gray-200 dark:border-gray-800 flex flex-col''"

definition cn_px_4_py_4_border_b_border_gray :: string where
  "cn_px_4_py_4_border_b_border_gray = ''px-4 py-4 border-b border-gray-200 dark:border-gray-800''"

definition cn_text_lg_font_bold_text_blue_600 :: string where
  "cn_text_lg_font_bold_text_blue_600 = ''text-lg font-bold text-blue-600 dark:text-blue-400''"

definition cn_text_xs_text_gray_500_mt_0_5 :: string where
  "cn_text_xs_text_gray_500_mt_0_5 = ''text-xs text-gray-500 mt-0.5''"

definition cn_flex_1_py_2 :: string where
  "cn_flex_1_py_2 = ''flex-1 py-2''"

definition cn_flex_items_center_gap_2_px_4_py :: string where
  "cn_flex_items_center_gap_2_px_4_py = ''flex items-center gap-2 px-4 py-2 text-sm ''"

definition cn_bg_blue_50_dark_bg_blue_950_tex :: string where
  "cn_bg_blue_50_dark_bg_blue_950_tex = ''bg-blue-50 dark:bg-blue-950 text-blue-700 dark:text-blue-300 font-medium border-r-2 border-blue-600''"

definition cn_text_gray_600_dark_text_gray_40 :: string where
  "cn_text_gray_600_dark_text_gray_40 = ''text-gray-600 dark:text-gray-400 hover:bg-gray-50 dark:hover:bg-gray-800''"

definition cn_text_base :: string where
  "cn_text_base = ''text-base''"

definition cn_px_4_py_3_border_t_border_gray :: string where
  "cn_px_4_py_3_border_t_border_gray = ''px-4 py-3 border-t border-gray-200 dark:border-gray-800 text-xs text-gray-500''"

definition cn_flex_flex_wrap_gap_3_items_cent :: string where
  "cn_flex_flex_wrap_gap_3_items_cent = ''flex flex-wrap gap-3 items-center''"

definition cn_text_sm_border_border_gray_300 :: string where
  "cn_text_sm_border_border_gray_300 = ''text-sm border border-gray-300 dark:border-gray-600 rounded px-3 py-1.5 bg-white dark:bg-gray-800''"

definition cn_text_sm_border_border_gray_300_2 :: string where
  "cn_text_sm_border_border_gray_300_2 = ''text-sm border border-gray-300 dark:border-gray-600 rounded px-3 py-1.5 bg-white dark:bg-gray-800 w-48''"

definition cn_text_sm_px_3_py_1_5_bg_blue_600 :: string where
  "cn_text_sm_px_3_py_1_5_bg_blue_600 = ''text-sm px-3 py-1.5 bg-blue-600 text-white rounded hover:bg-blue-700''"

definition cn_text_xs_text_gray_500_hover_tex :: string where
  "cn_text_xs_text_gray_500_hover_tex = ''text-xs text-gray-500 hover:text-gray-700 underline''"

definition cn_p_4_text_red_500 :: string where
  "cn_p_4_text_red_500 = ''p-4 text-red-500''"

definition cn_fixed_inset_0_z_40_flex :: string where
  "cn_fixed_inset_0_z_40_flex = ''fixed inset-0 z-40 flex''"

definition cn_flex_1_bg_black_30 :: string where
  "cn_flex_1_bg_black_30 = ''flex-1 bg-black/30''"

definition cn_w_full_max_w_xl_bg_white_dark_b :: string where
  "cn_w_full_max_w_xl_bg_white_dark_b = ''w-full max-w-xl bg-white dark:bg-gray-900 border-l border-gray-200 dark:border-gray-800 overflow-auto''"

definition cn_sticky_top_0_bg_white_dark_bg_g :: string where
  "cn_sticky_top_0_bg_white_dark_bg_g = ''sticky top-0 bg-white dark:bg-gray-900 border-b border-gray-200 dark:border-gray-800 px-4 py-3 flex items-center justify-between''"

definition cn_font_semibold :: string where
  "cn_font_semibold = ''font-semibold''"

definition cn_text_xs_text_gray_500_font_mono :: string where
  "cn_text_xs_text_gray_500_font_mono = ''text-xs text-gray-500 font-mono''"

definition cn_text_gray_400_hover_text_gray_6 :: string where
  "cn_text_gray_400_hover_text_gray_6 = ''text-gray-400 hover:text-gray-600 text-xl''"

definition cn_p_4_space_y_4 :: string where
  "cn_p_4_space_y_4 = ''p-4 space-y-4''"

definition cn_flex_items_center_gap_3 :: string where
  "cn_flex_items_center_gap_3 = ''flex items-center gap-3''"

definition cn_text_xs_text_gray_400 :: string where
  "cn_text_xs_text_gray_400 = ''text-xs text-gray-400''"

definition cn_flex_1 :: string where
  "cn_flex_1 = ''flex-1''"

definition cn_text_xs_px_3_py_1_bg_blue_600_t :: string where
  "cn_text_xs_px_3_py_1_bg_blue_600_t = ''text-xs px-3 py-1 bg-blue-600 text-white rounded hover:bg-blue-700''"

definition cn_text_xs_px_3_py_1_bg_red_600_te :: string where
  "cn_text_xs_px_3_py_1_bg_red_600_te = ''text-xs px-3 py-1 bg-red-600 text-white rounded hover:bg-red-700''"

definition cn_text_xs_font_semibold_text_gray :: string where
  "cn_text_xs_font_semibold_text_gray = ''text-xs font-semibold text-gray-500 uppercase mb-2''"

definition cn_space_y_1_text_xs :: string where
  "cn_space_y_1_text_xs = ''space-y-1 text-xs''"

definition cn_space_y_2 :: string where
  "cn_space_y_2 = ''space-y-2''"

definition cn_bg_red_50_dark_bg_red_950_borde_2 :: string where
  "cn_bg_red_50_dark_bg_red_950_borde_2 = ''bg-red-50 dark:bg-red-950 border border-red-200 dark:border-red-800 rounded p-3 text-xs''"

definition cn_flex_justify_between :: string where
  "cn_flex_justify_between = ''flex justify-between''"

definition cn_font_medium_text_red_700_dark_t :: string where
  "cn_font_medium_text_red_700_dark_t = ''font-medium text-red-700 dark:text-red-400''"

definition cn_mt_1_text_red_600_dark_text_red :: string where
  "cn_mt_1_text_red_600_dark_text_red = ''mt-1 text-red-600 dark:text-red-300''"

definition cn_mt_1_text_gray_500_text_10px_ov :: string where
  "cn_mt_1_text_gray_500_text_10px_ov = ''mt-1 text-gray-500 text-[10px] overflow-auto max-h-24''"

definition cn_p_4_text_gray_500 :: string where
  "cn_p_4_text_gray_500 = ''p-4 text-gray-500''"

definition cn_text_center_px_4_py_3 :: string where
  "cn_text_center_px_4_py_3 = ''text-center px-4 py-3''"

definition cn_px_4_py_3_font_mono_text_xs :: string where
  "cn_px_4_py_3_font_mono_text_xs = ''px-4 py-3 font-mono text-xs''"

definition cn_inline_flex_px_2_py_0_5_rounded :: string where
  "cn_inline_flex_px_2_py_0_5_rounded = ''inline-flex px-2 py-0.5 rounded-full text-xs font-medium ''"

definition cn_px_3_py_3_text_gray_500_text_xs :: string where
  "cn_px_3_py_3_text_gray_500_text_xs = ''px-3 py-3 text-gray-500 text-xs''"

definition cn_px_3_py_3_text_right :: string where
  "cn_px_3_py_3_text_right = ''px-3 py-3 text-right''"

definition cn_px_3_py_3_text_right_text_gray_2 :: string where
  "cn_px_3_py_3_text_right_text_gray_2 = ''px-3 py-3 text-right text-gray-500 text-xs''"

definition cn_px_4_py_3_text_center :: string where
  "cn_px_4_py_3_text_center = ''px-4 py-3 text-center''"

definition cn_flex_gap_1_justify_center :: string where
  "cn_flex_gap_1_justify_center = ''flex gap-1 justify-center''"

definition cn_text_xs_px_2_py_1_rounded_borde_2 :: string where
  "cn_text_xs_px_2_py_1_rounded_borde_2 = ''text-xs px-2 py-1 rounded border border-gray-300 dark:border-gray-600 hover:bg-gray-100 dark:hover:bg-gray-800''"

definition cn_text_xs_px_2_py_1_rounded_borde_3 :: string where
  "cn_text_xs_px_2_py_1_rounded_borde_3 = ''text-xs px-2 py-1 rounded border border-red-300 text-red-600 hover:bg-red-50 dark:hover:bg-red-950''"

definition cn_flex_gap_2_text_xs :: string where
  "cn_flex_gap_2_text_xs = ''flex gap-2 text-xs''"

definition cn_text_yellow_600 :: string where
  "cn_text_yellow_600 = ''text-yellow-600''"

definition cn_grid_grid_cols_2_md_grid_cols_4_2 :: string where
  "cn_grid_grid_cols_2_md_grid_cols_4_2 = ''grid grid-cols-2 md:grid-cols-4 gap-4 mb-4''"

definition cn_bg_white_dark_bg_gray_900_round_3 :: string where
  "cn_bg_white_dark_bg_gray_900_round_3 = ''bg-white dark:bg-gray-900 rounded-lg border border-gray-200 dark:border-gray-800 p-3''"

definition cn_text_xs_text_gray_500 :: string where
  "cn_text_xs_text_gray_500 = ''text-xs text-gray-500''"

definition cn_text_xl_font_bold_text_red_600 :: string where
  "cn_text_xl_font_bold_text_red_600 = ''text-xl font-bold text-red-600''"

definition cn_text_xs_text_gray_500_truncate :: string where
  "cn_text_xs_text_gray_500_truncate = ''text-xs text-gray-500 truncate''"

definition cn_text_xl_font_bold_text_gray_900 :: string where
  "cn_text_xl_font_bold_text_gray_900 = ''text-xl font-bold text-gray-900 dark:text-gray-100''"

definition cn_flex_gap_2_mb_4 :: string where
  "cn_flex_gap_2_mb_4 = ''flex gap-2 mb-4''"

definition cn_text_sm_px_3_py_1_5_bg_blue_600_2 :: string where
  "cn_text_sm_px_3_py_1_5_bg_blue_600_2 = ''text-sm px-3 py-1.5 bg-blue-600 text-white rounded hover:bg-blue-700 disabled:opacity-40''"

definition cn_px_4_py_3_font_mono_text_xs_tex_2 :: string where
  "cn_px_4_py_3_font_mono_text_xs_tex_2 = ''px-4 py-3 font-mono text-xs text-gray-500 cursor-pointer''"

definition cn_px_3_py_3_font_medium_cursor_po :: string where
  "cn_px_3_py_3_font_medium_cursor_po = ''px-3 py-3 font-medium cursor-pointer''"

definition cn_text_xs_px_2_py_1_rounded_bg_bl :: string where
  "cn_text_xs_px_2_py_1_rounded_bg_bl = ''text-xs px-2 py-1 rounded bg-blue-600 text-white hover:bg-blue-700 disabled:opacity-40''"

definition cn_text_xs_px_2_py_1_rounded_borde_4 :: string where
  "cn_text_xs_px_2_py_1_rounded_borde_4 = ''text-xs px-2 py-1 rounded border border-red-300 text-red-600 hover:bg-red-50 dark:hover:bg-red-950 disabled:opacity-40''"

definition cn_space_y_6_max_w_2xl :: string where
  "cn_space_y_6_max_w_2xl = ''space-y-6 max-w-2xl''"

definition cn_bg_white_dark_bg_gray_900_round_4 :: string where
  "cn_bg_white_dark_bg_gray_900_round_4 = ''bg-white dark:bg-gray-900 rounded-lg border border-gray-200 dark:border-gray-800 p-4 space-y-3''"

definition cn_text_sm_font_semibold_text_gray_2 :: string where
  "cn_text_sm_font_semibold_text_gray_2 = ''text-sm font-semibold text-gray-600 dark:text-gray-400 uppercase''"

definition cn_text_sm_font_semibold_text_gray_3 :: string where
  "cn_text_sm_font_semibold_text_gray_3 = ''text-sm font-semibold text-gray-600 dark:text-gray-400 uppercase mb-3''"

definition cn_grid_grid_cols_2_gap_2_text_sm :: string where
  "cn_grid_grid_cols_2_gap_2_text_sm = ''grid grid-cols-2 gap-2 text-sm''"

definition cn_flex_items_center_gap_2 :: string where
  "cn_flex_items_center_gap_2 = ''flex items-center gap-2''"

definition cn_text_gray_400 :: string where
  "cn_text_gray_400 = ''text-gray-400''"

definition cn_text_gray_700_dark_text_gray_30 :: string where
  "cn_text_gray_700_dark_text_gray_30 = ''text-gray-700 dark:text-gray-300''"

definition cn_flex_items_center_gap_2_text_sm :: string where
  "cn_flex_items_center_gap_2_text_sm = ''flex items-center gap-2 text-sm''"

definition cn_px_1_5_py_0_5_bg_blue_100_text :: string where
  "cn_px_1_5_py_0_5_bg_blue_100_text = ''px-1.5 py-0.5 bg-blue-100 text-blue-700 rounded text-xs font-medium''"

definition cn_text_gray_400_text_xs :: string where
  "cn_text_gray_400_text_xs = ''text-gray-400 text-xs''"

definition cn_px_1_5_py_0_5_bg_amber_100_text :: string where
  "cn_px_1_5_py_0_5_bg_amber_100_text = ''px-1.5 py-0.5 bg-amber-100 text-amber-700 rounded text-xs font-medium''"

definition cn_text_sm_text_gray_600 :: string where
  "cn_text_sm_text_gray_600 = ''text-sm text-gray-600''"

definition cn_text_sm_font_semibold_text_gray_4 :: string where
  "cn_text_sm_font_semibold_text_gray_4 = ''text-sm font-semibold text-gray-600 dark:text-gray-400 uppercase mb-2''"

definition cn_bg_white_dark_bg_gray_900_round_5 :: string where
  "cn_bg_white_dark_bg_gray_900_round_5 = ''bg-white dark:bg-gray-900 rounded-lg border border-gray-200 dark:border-gray-800 p-4 hover:border-blue-300 dark:hover:border-blue-700 transition-colors''"

definition cn_flex_items_center_justify_betwe_3 :: string where
  "cn_flex_items_center_justify_betwe_3 = ''flex items-center justify-between mb-2''"

definition cn_font_medium_text_sm :: string where
  "cn_font_medium_text_sm = ''font-medium text-sm''"

definition cn_text_2xl_font_bold_text_gray_90 :: string where
  "cn_text_2xl_font_bold_text_gray_90 = ''text-2xl font-bold text-gray-900 dark:text-gray-100''"

definition cn_flex_gap_3_mt_2_text_xs_text_gr :: string where
  "cn_flex_gap_3_mt_2_text_xs_text_gr = ''flex gap-3 mt-2 text-xs text-gray-500''"

definition cn_text_orange_600 :: string where
  "cn_text_orange_600 = ''text-orange-600''"

definition cn_grid_grid_cols_1_md_grid_cols_2 :: string where
  "cn_grid_grid_cols_1_md_grid_cols_2 = ''grid grid-cols-1 md:grid-cols-2 lg:grid-cols-3 gap-4''"

definition cn_bg_blue_100_text_blue_800_dark :: string where
  "cn_bg_blue_100_text_blue_800_dark = ''bg-blue-100 text-blue-800 dark:bg-blue-900 dark:text-blue-200''"

definition cn_bg_purple_100_text_purple_800_d :: string where
  "cn_bg_purple_100_text_purple_800_d = ''bg-purple-100 text-purple-800 dark:bg-purple-900 dark:text-purple-200''"

definition cn_bg_gray_100_text_gray_800_dark :: string where
  "cn_bg_gray_100_text_gray_800_dark = ''bg-gray-100 text-gray-800 dark:bg-gray-800 dark:text-gray-200''"

definition cn_bg_amber_100_text_amber_800_dar :: string where
  "cn_bg_amber_100_text_amber_800_dar = ''bg-amber-100 text-amber-800 dark:bg-amber-900 dark:text-amber-200''"

definition cn_bg_green_100_text_green_800_dar :: string where
  "cn_bg_green_100_text_green_800_dar = ''bg-green-100 text-green-800 dark:bg-green-900 dark:text-green-200''"

definition cn_bg_orange_100_text_orange_800_d :: string where
  "cn_bg_orange_100_text_orange_800_d = ''bg-orange-100 text-orange-800 dark:bg-orange-900 dark:text-orange-200''"

definition cn_bg_gray_100_text_gray_600_dark :: string where
  "cn_bg_gray_100_text_gray_600_dark = ''bg-gray-100 text-gray-600 dark:bg-gray-800 dark:text-gray-400''"

definition cn_bg_red_100_text_red_800_dark_bg :: string where
  "cn_bg_red_100_text_red_800_dark_bg = ''bg-red-100 text-red-800 dark:bg-red-900 dark:text-red-200''"

definition cn_bg_yellow_100_text_yellow_800_d :: string where
  "cn_bg_yellow_100_text_yellow_800_d = ''bg-yellow-100 text-yellow-800 dark:bg-yellow-900 dark:text-yellow-200''"

end
