(* ===== verification/Admin_Format.thy ===== *)
theory Admin_Format
  imports Js_Number
begin

text \<open>
  The formatters of the dashboard (\<open>src/internal/admin/dist/index-DxrWcVFD.js\<close>, \<open>rl\<close>, \<open>kb\<close>,
  \<open>pM\<close>): counts, ages and rates.  Counts are integers, rates the rationals that binary64 numbers
  are; the clock and the date parser of the browser are arguments, and an unreadable date is \<open>None\<close>.
\<close>

definition rl :: "int \<Rightarrow> string" where
  "rl e = (if e \<ge> 1000000 then toFixed 1 (fl (of_int e / 1000000)) @ ''M''
           else if e \<ge> 1000 then toFixed 1 (fl (of_int e / 1000)) @ ''K''
           else toLocaleString e)"

text \<open>\<open>now\<close> and the date in milliseconds.  Every comparison with \<open>NaN\<close> fails.\<close>

definition kb :: "int \<Rightarrow> int option \<Rightarrow> string" where
  "kb now date = (case date of
     None \<Rightarrow> ''NaNd ago''
   | Some ms \<Rightarrow>
      (let t = fl (of_int (now - ms) / 1000) in
       if t < 5 then ''just now''
       else if t < 60 then int_str \<lfloor>t\<rfloor> @ ''s ago''
       else if t < 3600 then int_str \<lfloor>fl (t / 60)\<rfloor> @ ''m ago''
       else if t < 86400 then int_str \<lfloor>fl (t / 3600)\<rfloor> @ ''h ago''
       else int_str \<lfloor>fl (t / 86400)\<rfloor> @ ''d ago''))"

definition pM :: "rat \<Rightarrow> string" where
  "pM e = (if e < 1 then toFixed 1 (fl (e * 60)) @ ''/h''
           else if e > 1000 then toFixed 0 (fl (e / 60)) @ ''/s''
           else toFixed 1 e @ ''/m'')"

section \<open>Counts\<close>

lemma scaled_err:
  fixes n m :: int
  assumes "0 < n" "n < 2 ^ 53" "0 < m"
  shows "\<bar>2 * int (to_fixed_nat 1 (fl (of_int n / of_int (10 * m)))) * m - 2 * n\<bar> < m + 2"
proof -
  define x :: rat where "x = of_int n / of_int (10 * m)"
  define d :: rat where "d = of_nat (to_fixed_nat 1 (fl x))"
  have x: "x > 0" using assms by (simp add: x_def zero_less_divide_iff)
  have m: "(of_int m :: rat) > 0" using assms by simp
  have xn: "10 * x * of_int m = of_int n" using m by (simp add: x_def divide_simps)
  have "\<bar>d - fl x * 10\<bar> \<le> 1/2" using to_fixed_nat_err [OF fl_nonneg [of x], of 1] x by (simp add: d_def)
  moreover have "\<bar>fl x - x\<bar> \<le> x / 2 ^ 53" using x by (rule fl_err)
  ultimately have "\<bar>d - 10 * x\<bar> \<le> 1/2 + 10 * (x / 2 ^ 53)" by linarith
  then have "\<bar>d - 10 * x\<bar> * of_int m \<le> (1/2 + 10 * (x / 2 ^ 53)) * of_int m" using m by (intro mult_right_mono) auto
  also have "\<dots> = of_int m / 2 + of_int n / 2 ^ 53" using xn by (simp add: algebra_simps)
  also have "\<bar>d - 10 * x\<bar> * of_int m = \<bar>(d - 10 * x) * of_int m\<bar>" using m by (simp add: abs_mult)
  also have "(d - 10 * x) * of_int m = d * of_int m - of_int n" using xn by (simp add: algebra_simps)
  finally have "\<bar>d * of_int m - of_int n\<bar> \<le> of_int m / 2 + of_int n / 2 ^ 53" .
  moreover have "(of_int n :: rat) / 2 ^ 53 < 1"
  proof -
    have "(of_int n :: rat) < of_int (2 ^ 53)" using assms(2) by (simp only: of_int_less_iff)
    then show ?thesis by simp
  qed
  ultimately have "\<bar>2 * d * of_int m - 2 * of_int n\<bar> < of_int m + 2" by (simp add: abs_less_iff abs_le_iff)
  moreover have "2 * d * of_int m - 2 * of_int n =
      of_int (2 * int (to_fixed_nat 1 (fl x)) * m - 2 * n)" by (simp add: d_def)
  ultimately have "of_int \<bar>2 * int (to_fixed_nat 1 (fl x)) * m - 2 * n\<bar> < (of_int (m + 2) :: rat)" by simp
  then show ?thesis unfolding x_def by (simp only: of_int_less_iff)
qed

lemma group3_short: "length s \<le> 3 \<Longrightarrow> group3 s = s"
  by (simp add: group3.simps)

lemma nat_str_length_3: "n < 1000 \<Longrightarrow> length (nat_str n) \<le> 3"
  using nat_str.simps [of n] nat_str.simps [of "n div 10"] nat_str.simps [of "n div 10 div 10"]
  by (auto split: if_splits)

text \<open>
  C28. A count is shown without loss below one thousand, and otherwise as tenths of thousands or of
  millions that differ from the count by at most half a tenth, for every count below \<open>2 ^ 53\<close>.
\<close>

theorem rl_accuracy:
  assumes "0 \<le> n" "n < 2 ^ 53"
  shows "(n < 1000 \<longrightarrow> rl n = int_str n) \<and>
    (1000 \<le> n \<and> n < 1000000 \<longrightarrow>
       (\<exists>d. rl n = nat_str (d div 10) @ ''.'' @ nat_str (d mod 10) @ ''K'' \<and> \<bar>int d * 100 - n\<bar> \<le> 50)) \<and>
    (1000000 \<le> n \<longrightarrow>
       (\<exists>d. rl n = nat_str (d div 10) @ ''.'' @ nat_str (d mod 10) @ ''M'' \<and> \<bar>int d * 100000 - n\<bar> \<le> 50000))"
proof (intro conjI impI)
  assume "n < 1000"
  then show "rl n = int_str n"
    using assms nat_str_length_3 [of "nat n"] by (simp add: rl_def toLocaleString_def int_str_def group3_short)
next
  assume n: "1000 \<le> n \<and> n < 1000000"
  have "\<bar>int (to_fixed_nat 1 (fl (of_int n / 1000))) * 100 - n\<bar> \<le> 50"
    using scaled_err [of n 100] n by simp
  then show "\<exists>d. rl n = nat_str (d div 10) @ ''.'' @ nat_str (d mod 10) @ ''K'' \<and> \<bar>int d * 100 - n\<bar> \<le> 50"
    using n fl_nonneg [of "of_int n / 1000"] by (auto simp: rl_def toFixed_one simp del: One_nat_def)
next
  assume n: "1000000 \<le> n"
  have "\<bar>int (to_fixed_nat 1 (fl (of_int n / 1000000))) * 100000 - n\<bar> \<le> 50000"
    using scaled_err [of n 100000] n assms by simp
  then show "\<exists>d. rl n = nat_str (d div 10) @ ''.'' @ nat_str (d mod 10) @ ''M'' \<and> \<bar>int d * 100000 - n\<bar> \<le> 50000"
    using n fl_nonneg [of "of_int n / 1000000"] by (auto simp: rl_def toFixed_one simp del: One_nat_def)
qed

theorem rl_accuracy_witness: "\<exists>d. rl 999999 = nat_str (d div 10) @ ''.'' @ nat_str (d mod 10) @ ''K'' \<and> \<bar>int d * 100 - 999999\<bar> \<le> 50"
  using rl_accuracy [of 999999] by simp

lemma rl_shows_1000K: "rl 999999 = nat_str 1000 @ ''.'' @ nat_str 0 @ ''K''"
proof -
  have "\<bar>int (to_fixed_nat 1 (fl (999999 / 1000))) * 100 - 999999\<bar> \<le> 50"
    using scaled_err [of 999999 100] by simp
  then have "to_fixed_nat 1 (fl (999999 / 1000)) = 10000" by presburger
  then show ?thesis using fl_nonneg [of "999999 / 1000"] by (simp add: rl_def toFixed_one del: One_nat_def)
qed

section \<open>Ages\<close>

lemma age_less:
  fixes D K :: int
  assumes "0 \<le> D" "D < 2 ^ 50" "0 < K" "K \<le> 2 ^ 53"
  shows "fl (of_int D / 1000) < of_int K \<longleftrightarrow> D < 1000 * K"
proof (cases "D < 1000 * K")
  case True
  have "(of_int D :: rat) \<le> of_int (1000 * K - 1)" using True by (simp only: of_int_le_iff)
  then have d: "(of_int D :: rat) \<le> 1000 * of_int K - 1" by simp
  have "(of_int D :: rat) < of_int (2 ^ 50)" using assms(2) by (simp only: of_int_less_iff)
  then have "of_int D / 1000 + of_int D / 1000 / 2 ^ 53 < (of_int K :: rat)" using d by simp
  then show ?thesis using assms True fl_less_int [of "of_int D / 1000" K] by simp
next
  case False
  then have "(of_int (1000 * K) :: rat) \<le> of_int D" by (simp only: of_int_le_iff)
  then show ?thesis using False assms fl_ge_int [of K "of_int D / 1000"] by simp
qed

lemma age_floor:
  fixes D c :: int
  assumes "0 \<le> D" "D < 2 ^ 50" "0 < c"
  shows "\<lfloor>fl (fl (of_int D / 1000) / of_int c)\<rfloor> = D div (1000 * c)"
proof -
  define j where "j = D div (1000 * c)"
  define t where "t = fl (of_int D / 1000)"
  have j0: "0 \<le> j" using assms by (simp add: j_def pos_imp_zdiv_nonneg_iff)
  have jD: "1000 * c * j \<le> D" "D < 1000 * c * (j + 1)"
  proof -
    have m: "0 < 1000 * c" using assms(3) by simp
    have "1000 * c * j + D mod (1000 * c) = D" unfolding j_def by (rule mult_div_mod_eq)
    moreover have "0 \<le> D mod (1000 * c)" "D mod (1000 * c) < 1000 * c" using m by simp_all
    ultimately show "1000 * c * j \<le> D" "D < 1000 * c * (j + 1)" by (simp_all add: algebra_simps)
  qed
  have cr: "(of_int c :: rat) > 0" using assms by simp
  have t0: "t \<ge> 0" using assms by (simp add: t_def fl_nonneg)
  have jle: "j \<le> D" using assms zdiv_mono2 [of D 1 "1000 * c"] by (simp add: j_def)
  have low: "of_int j \<le> fl (t / of_int c)"
  proof (cases "j = 0")
    case True
    then show ?thesis using t0 cr by (simp add: fl_nonneg)
  next
    case False
    then have jp: "0 < j" using j0 by simp
    have "c * j \<le> D" using jD(1) jp assms by (smt (verit) mult_pos_pos mult_le_cancel_right)
    then have "\<not> t < of_int (c * j)"
      using age_less [of D "c * j"] assms jp jD(1) by (simp add: t_def mult.assoc)
    then have "of_int j \<le> t / of_int c" using cr by (simp add: pos_le_divide_eq mult.commute)
    then show ?thesis using jp jle assms by (intro fl_ge_int) auto
  qed
  have "t \<le> of_int D / 1000 * (1 + 1 / 2 ^ 53)"
  proof (cases "D = 0")
    case False
    then have "\<bar>t - of_int D / 1000\<bar> \<le> of_int D / 1000 / 2 ^ 53"
      unfolding t_def using assms(1) by (intro fl_err) simp
    then show ?thesis by (simp only: distrib_left mult_1_right times_divide_eq_right abs_le_iff) linarith
  qed (simp add: t_def fl_def)
  then have "1000 * t * (1 + 1 / 2 ^ 53) \<le> of_int D * ((1 + 1 / 2 ^ 53) * (1 + 1 / 2 ^ 53))" by simp
  also have "\<dots> < of_int D + 1"
  proof -
    have "(of_int D :: rat) < of_int (2 ^ 50)" using assms(2) by (simp only: of_int_less_iff)
    then show ?thesis using assms(1) by simp
  qed
  also have "\<dots> \<le> of_int (1000 * c * (j + 1))"
    using jD(2) by (metis of_int_1 of_int_add of_int_le_iff zless_imp_add1_zle)
  finally have "t / of_int c + t / of_int c / 2 ^ 53 < of_int (j + 1)"
    using cr by (simp add: divide_simps algebra_simps)
  then have up: "fl (t / of_int c) < of_int (j + 1)" using t0 cr by (intro fl_less_int) auto
  show ?thesis using low up unfolding t_def j_def [symmetric] by (simp add: floor_eq_iff)
qed

text \<open>
  C29. The age of a date is the elapsed time in whole units, rounded down, for every age below
  \<open>2 ^ 50\<close> milliseconds: the rounding of the two divisions never shows.
\<close>

theorem kb_age:
  assumes "0 \<le> now - d" "now - d < 2 ^ 50"
  shows "kb now (Some d) =
    (let age = now - d in
     if age < 5000 then ''just now''
     else if age < 60000 then int_str (age div 1000) @ ''s ago''
     else if age < 3600000 then int_str (age div 60000) @ ''m ago''
     else if age < 86400000 then int_str (age div 3600000) @ ''h ago''
     else int_str (age div 86400000) @ ''d ago'')"
proof -
  define D where "D = now - d"
  have D: "0 \<le> D" "D < 2 ^ 50" using assms by (simp_all add: D_def)
  note lt = age_less [OF D, of 5] age_less [OF D, of 60] age_less [OF D, of 3600] age_less [OF D, of 86400]
  note fls = age_floor [OF D, of 60] age_floor [OF D, of 3600] age_floor [OF D, of 86400]
  have one: "\<lfloor>fl (of_int D / 1000)\<rfloor> = D div 1000"
  proof -
    have "\<lfloor>fl (of_int D / 1000)\<rfloor> < K \<longleftrightarrow> D div 1000 < K" if "0 < K" "K \<le> 2 ^ 53" for K
      using age_less [OF D that] by (auto simp: floor_less_iff)
    moreover have "0 \<le> \<lfloor>fl (of_int D / 1000)\<rfloor>" "D div 1000 < 2 ^ 53" using D by (auto simp: fl_nonneg)
    ultimately show ?thesis using D
      by (smt (verit, best) pos_imp_zdiv_nonneg_iff zero_less_numeral)
  qed
  show ?thesis using lt fls one by (simp add: kb_def D_def [symmetric] Let_def del: of_int_diff)
qed

theorem kb_age_witness: "kb 100000000 (Some 92799999) = int_str 2 @ ''h ago''"
  using kb_age [of 100000000 92799999] by simp

end
