(* ===== verification/Admin_Views.thy ===== *)
theory Admin_Views
  imports Admin_Elements Admin_Styles Admin_Format
begin

text \<open>
  The components of the dashboard (\<open>src/internal/admin/dist/index-DxrWcVFD.js\<close>, \<open>UP\<close> to \<open>$P\<close> and
  \<open>Rre\<close> to \<open>Vh\<close>) as functions from their properties and their local state to what they render.
  Elements of the router (\<open>Link\<close>, \<open>NavLink\<close>) and of the chart library stay elements.  A component
  with local state inside a page takes that state as an argument; its actions are wrapped in an
  action of the page.
\<close>

section \<open>Actions\<close>

datatype layout_act = SetDark bool

datatype queue_act = QRefresh | Toggle queue_info

datatype filter_act = FChange filters | FType string | FClear

datatype json_act = CopyText string | SetOpen bool

datatype json_slot = VArgs | VMeta | VResult | VPolicy

datatype detail_act = JClose | JRetry | JCancel | JView json_slot json_act

datatype dialog_act = DConfirm | DCancel | DStop

datatype worker_action = Quiet | Deregister

datatype worker_act = WRefresh | WAsk string worker_action | WDialog dialog_act

datatype jobs_act = JobsRefresh | JobsFilter filter_act | JobsSelect string | JobsPage int | JobsDetail detail_act

datatype dead_act =
    DlRefresh | DlSelect string | DlRetry string | DlDelete string | DlAskBulk | DlDialog dialog_act
  | DlPage int | DlDetail detail_act

section \<open>Local state\<close>

text \<open>\<open>yH\<close>: the job, the error, and which JSON views are expanded.\<close>

record detail_state =
  dt_job :: "job_detail option" \<comment> \<open>\<open>i\<close>\<close>
  dt_error :: "string option" \<comment> \<open>\<open>s\<close>\<close>
  dt_open :: "json_slot \<Rightarrow> bool"

text \<open>
  The instances of \<open>yH\<close> on a page: the state of the mounted one and the job it is for, and the
  calls that have not settled, each with the instance that made it and the job that call is for.
\<close>

datatype detail_cont = is_KLoad: KLoad (cont_job: string) | KRetry (cont_job: string) | KCancel (cont_job: string)

record detail_run =
  dn_state :: detail_state
  dn_mounted :: "string option" \<comment> \<open>\<open>jobId\<close>\<close>
  dn_inst :: nat
  dn_pending :: "(nat \<times> nat \<times> detail_cont) list"
  dn_next :: nat

text \<open>\<open>Bre\<close>: filters, page and selected job; the text in \<open>qre\<close>; the open \<open>yH\<close>.\<close>

record jobs_page =
  jp_filters :: filters \<comment> \<open>\<open>t\<close>\<close>
  jp_page :: int \<comment> \<open>\<open>i\<close>\<close>
  jp_selected :: "string option" \<comment> \<open>\<open>s\<close>\<close>
  jp_text :: string
  jp_detail :: detail_run

text \<open>\<open>Pre\<close> with \<open>$re\<close>: page and selected job, the open question, the busy row, the dialog.\<close>

record dead_page =
  dp_page :: int
  dp_selected :: "string option"
  dp_ask :: bool
  dp_busy :: "string option"
  dp_processing :: bool
  dp_detail :: detail_run

section \<open>Tables and small functions\<close>

definition DP_hasCapability :: "manifest \<Rightarrow> string \<Rightarrow> bool" where
  "DP_hasCapability e t \<longleftrightarrow> (case mf_capabilities e of None \<Rightarrow> False | Some cs \<Rightarrow> map_of cs t = Some True)"

definition NP_levelName :: "int \<Rightarrow> string" where
  "NP_levelName e =
     (let names = [''Core'', ''Reliable'', ''Scheduled'', ''Orchestration'', ''Advanced''] in
      ''Level '' @ int_str e @ '': '' @ (if 0 \<le> e \<and> e < int (length names) then names ! nat e else ''Unknown''))"

record nav_item =
  nv_to :: string
  nv_label :: string
  nv_icon :: string
  nv_capability :: "string option"

definition zP :: "nav_item list" where
  "zP =
    [\<lparr>nv_to = ''/'', nv_label = ''Dashboard'', nv_icon = [CHR 0xE2, CHR 0x96, CHR 0xA3], nv_capability = None\<rparr>,
     \<lparr>nv_to = ''/queues'', nv_label = ''Queues'', nv_icon = [CHR 0xE2, CHR 0x98, CHR 0xB0], nv_capability = None\<rparr>,
     \<lparr>nv_to = ''/jobs'', nv_label = ''Jobs'', nv_icon = [CHR 0xE2, CHR 0x9A, CHR 0xA1], nv_capability = None\<rparr>,
     \<lparr>nv_to = ''/workers'', nv_label = ''Workers'', nv_icon = [CHR 0xE2, CHR 0x9A, CHR 0x99], nv_capability = None\<rparr>,
     \<lparr>nv_to = ''/dead-letter'', nv_label = ''Dead Letter'', nv_icon = [CHR 0xE2, CHR 0x98, CHR 0xA0], nv_capability = Some ''dead_letter''\<rparr>,
     \<lparr>nv_to = ''/settings'', nv_label = ''Settings'', nv_icon = [CHR 0xE2, CHR 0x9A, CHR 0x91], nv_capability = None\<rparr>]"

definition nav_hidden :: "manifest option \<Rightarrow> nav_item \<Rightarrow> bool" where
  "nav_hidden e t \<longleftrightarrow> str_truthy (nv_capability t) \<and> e \<noteq> None \<and> \<not> DP_hasCapability (the e) (the (nv_capability t))"

definition LP_errorRate :: "rates \<Rightarrow> string" where
  "LP_errorRate t =
     (if processed_per_minute t > 0
      then toFixed 1 (fl (fl (failed_per_minute t / processed_per_minute t) * 100)) else ''0.0'')"

definition HP :: "string \<Rightarrow> string option" where
  "HP e =
     (if e = ''available'' then Some cn_bg_blue_100_text_blue_800_dark
      else if e = ''scheduled'' then Some cn_bg_purple_100_text_purple_800_d
      else if e = ''pending'' then Some cn_bg_gray_100_text_gray_800_dark
      else if e = ''active'' then Some cn_bg_amber_100_text_amber_800_dar
      else if e = ''completed'' then Some cn_bg_green_100_text_green_800_dar
      else if e = ''retryable'' then Some cn_bg_orange_100_text_orange_800_d
      else if e = ''cancelled'' then Some cn_bg_gray_100_text_gray_600_dark
      else if e = ''discarded'' then Some cn_bg_red_100_text_red_800_dark_bg
      else None)"

definition Lre_stateClass :: "string \<Rightarrow> string" where
  "Lre_stateClass y =
     (if y = ''running'' then cn_bg_green_100_text_green_800_dar
      else if y = ''quiet'' then cn_bg_yellow_100_text_yellow_800_d
      else if y = ''stale'' then cn_bg_red_100_text_red_800_dark_bg
      else cn_bg_gray_100_text_gray_700)"

definition Ure :: "string list" where
  "Ure = [''available'', ''scheduled'', ''pending'', ''active'', ''completed'', ''retryable'', ''cancelled'', ''discarded'']"

text \<open>\<open>e.k ?? ""\<close> and \<open>{...e, k: s || undefined}\<close> on the filters.\<close>

definition filter_text :: "string \<Rightarrow> filters \<Rightarrow> string" where
  "filter_text k e = (case map_of e k of Some (FStr s) \<Rightarrow> s | Some (FNum n) \<Rightarrow> int_str n | _ \<Rightarrow> [])"

fun obj_put :: "string \<Rightarrow> filter_val \<Rightarrow> filters \<Rightarrow> filters" where
  "obj_put k v [] = [(k, v)]"
| "obj_put k v (p # ps) = (if fst p = k then (k, v) # ps else p # obj_put k v ps)"

definition filter_set :: "string \<Rightarrow> string \<Rightarrow> filters \<Rightarrow> filters" where
  "filter_set k s e = obj_put k (if s = [] then Undef else FStr s) e"

text \<open>A time of a job, \<open>undefined\<close> when the job has no metadata.\<close>

definition time_of :: "(job_times \<Rightarrow> string option) \<Rightarrow> job_detail \<Rightarrow> string option" where
  "time_of f d = (case jd_metadata d of None \<Rightarrow> None | Some m \<Rightarrow> f m)"

definition asked :: "(string \<times> worker_action) option \<Rightarrow> worker_action \<Rightarrow> bool" where
  "asked i a \<longleftrightarrow> (case i of None \<Rightarrow> False | Some (x, b) \<Rightarrow> b = a)"

text \<open>The number of pages, \<open>Math.max(1, Math.ceil(a / t))\<close>, and the comparisons with it.\<close>

definition mH_pages :: "int \<Rightarrow> int \<Rightarrow> jsnum" where
  "mH_pages a t = (case js_div (of_int a) (of_int t) of
     Fin x \<Rightarrow> Fin (max 1 (of_int \<lceil>x\<rceil>)) | Infinity \<Rightarrow> Infinity | NegInfinity \<Rightarrow> Fin 1 | NotANumber \<Rightarrow> NotANumber)"

fun num_le_one :: "jsnum \<Rightarrow> bool" where
  "num_le_one (Fin x) \<longleftrightarrow> x \<le> 1"
| "num_le_one NegInfinity \<longleftrightarrow> True"
| "num_le_one _ \<longleftrightarrow> False"

fun num_ge :: "int \<Rightarrow> jsnum \<Rightarrow> bool" where
  "num_ge e (Fin x) \<longleftrightarrow> x \<le> of_int e"
| "num_ge e NegInfinity \<longleftrightarrow> True"
| "num_ge e _ \<longleftrightarrow> False"

fun jsnum_str :: "jsnum \<Rightarrow> string" where
  "jsnum_str (Fin x) = int_str \<lfloor>x\<rfloor>" \<comment> \<open>only whole numbers are printed\<close>
| "jsnum_str Infinity = ''Infinity''"
| "jsnum_str NegInfinity = ''-Infinity''"
| "jsnum_str NotANumber = ''NaN''"

text \<open>The extension lists of the settings page: official, experimental, and plain names.\<close>

definition kre_extensions :: "extensions option \<Rightarrow> extension list \<times> extension list \<times> string list" where
  "kre_extensions t = (case t of
     None \<Rightarrow> ([], [], [])
   | Some (ExtArray xs) \<Rightarrow> ([], [], xs)
   | Some (ExtObject a i) \<Rightarrow> ((case a of Some x \<Rightarrow> x | None \<Rightarrow> []), (case i of Some x \<Rightarrow> x | None \<Rightarrow> []), []))"

section \<open>Components\<close>

definition UP_Sidebar :: "(string \<Rightarrow> bool) \<Rightarrow> manifest option \<Rightarrow> 'a node" where
  "UP_Sidebar act e =
  (El ''aside'' [(''className'', PStr cn_w_56_bg_white_dark_bg_gray_900)]
    [(El ''div'' [(''className'', PStr cn_px_4_py_4_border_b_border_gray)]
       [(El ''h1'' [(''className'', PStr cn_text_lg_font_bold_text_blue_600)] [(Txt ''OJS Admin'')]),
        (if e \<noteq> None then
          (El ''p'' [(''className'', PStr cn_text_xs_text_gray_500_mt_0_5)]
            [(Txt (im_name (mf_implementation (the e)))),
             (Txt '' v''),
             (Txt (im_version (mf_implementation (the e))))]) else Null)]),
     (El ''nav'' [(''className'', PStr cn_flex_1_py_2)]
       [(Frag
          (map
            (\<lambda>t.
              (if nav_hidden e t then Null else
                (El ''NavLink''
                  [(''key'', PStr (nv_to t)),
                   (''to'', PStr (nv_to t)),
                   (''className'', PStr
                     (cn_flex_items_center_gap_2_px_4_py @
                       (if act (nv_to t) then cn_bg_blue_50_dark_bg_blue_950_tex else
                         cn_text_gray_600_dark_text_gray_40))),
                   (''end'', PBool (nv_to t = ''/''))]
                  [(El ''span'' [(''className'', PStr cn_text_base)] [(Txt (nv_icon t))]), (Txt (nv_label t))])))
            zP))]),
     (if e \<noteq> None then
       (El ''div'' [(''className'', PStr cn_px_4_py_3_border_t_border_gray)]
         [(El ''div'' [] [(Txt ''Backend: ''), (Txt (mf_backend (the e)))]),
          (El ''div'' [] [(Txt ''Level ''), (num_node (mf_conformance_level (the e)))])]) else Null)])"

definition qP_Header :: "bool \<Rightarrow> layout_act node" where
  "qP_Header e =
  (El ''header'' [(''className'', PStr cn_h_12_bg_white_dark_bg_gray_900)]
    [(El ''div'' [(''className'', PStr cn_text_sm_text_gray_500)] [(Txt ''Open Job Spec Admin Dashboard'')]),
     (El ''button''
       [(''onClick'', PDo (SetDark (\<not> e))),
        (''className'', PStr cn_text_sm_px_2_py_1_rounded_hover),
        (''aria-label'', PStr ''Toggle dark mode'')]
       [(if e then (Txt ([CHR 0xE2, CHR 0x98, CHR 0x80] @ [CHR 0xEF, CHR 0xB8, CHR 0x8F])) else
          (Txt [CHR 0xF0, CHR 0x9F, CHR 0x8C, CHR 0x99]))])])"

definition BP_Layout :: "'a node \<Rightarrow> 'a node \<Rightarrow> 'a node \<Rightarrow> 'a node" where
  "BP_Layout sidebar header outlet =
  (El ''div'' [(''className'', PStr cn_flex_h_screen_overflow_hidden)]
    [sidebar,
     (El ''div'' [(''className'', PStr cn_flex_1_flex_flex_col_overflow_h)]
       [header, (El ''main'' [(''className'', PStr cn_flex_1_overflow_auto_p_6_bg_gra)] [outlet])])])"

definition Mm_StatCard :: "string \<Rightarrow> string \<Rightarrow> string \<Rightarrow> string option \<Rightarrow> 'a node" where
  "Mm_StatCard e t a i =
  (El ''div'' [(''className'', PStr cn_bg_white_dark_bg_gray_900_round)]
    [(El ''div'' [(''className'', PStr cn_text_xs_text_gray_500_uppercase)] [(Txt e)]),
     (El ''div'' [(''className'', PStr (cn_text_2xl_font_bold_mt_1 @ a))] [(Txt t)]),
     (case i of Some x \<Rightarrow> if x \<noteq> [] then El ''div''
       [(''className'', PStr cn_text_xs_text_gray_400_mt_1)] [Txt x] else Null | None \<Rightarrow> Null)])"

definition LP_StatsGrid :: "counts \<Rightarrow> rates \<Rightarrow> int \<Rightarrow> int \<Rightarrow> 'a node" where
  "LP_StatsGrid e t a i =
  (let c = available e + active e + scheduled e + retryable e; s = LP_errorRate t in
    (El ''div'' [(''className'', PStr cn_grid_grid_cols_2_md_grid_cols_4)]
      [(Mm_StatCard ''Active Jobs'' (rl c) cn_text_blue_600 (Some ((rl (active e)) @ '' executing''))),
       (Mm_StatCard ''Completed'' (rl (completed e)) cn_text_green_600 None),
       (Mm_StatCard ''Failed'' (rl (discarded e)) cn_text_red_600 None),
       (Mm_StatCard ''Throughput'' (pM (processed_per_minute t)) cn_text_gray_900_dark_text_gray_10
         (Some (s @ ''% error rate''))),
       (Mm_StatCard ''Queues'' (int_str a) cn_text_purple_600 None),
       (Mm_StatCard ''Workers'' (int_str i) cn_text_amber_600 None)]))"

definition M_StateBadge :: "string \<Rightarrow> 'a node" where
  "M_StateBadge e =
  (let t = (case HP e of Some c \<Rightarrow> c | None \<Rightarrow> cn_bg_gray_100_text_gray_700) in
    (El ''span'' [(''className'', PStr (cn_inline_flex_items_center_px_2_p @ t))]
      [(if e = ''active'' then (El ''span'' [(''className'', PStr cn_w_1_5_h_1_5_rounded_full_bg_amb)] [])
         else Null),
       (Txt e)]))"

definition P_QueueCard :: "queue_info \<Rightarrow> 'a node" where
  "P_QueueCard t =
  (let a = available (q_counts t) + active (q_counts t) + scheduled (q_counts t) + retryable (q_counts t) in
    (El ''Link''
      [(''key'', PStr (q_name t)),
       (''to'', PStr (''/queues?name='' @ (q_name t))),
       (''className'', PStr cn_bg_white_dark_bg_gray_900_round_5)]
      [(El ''div'' [(''className'', PStr cn_flex_items_center_justify_betwe_3)]
         [(El ''span'' [(''className'', PStr cn_font_medium_text_sm)] [(Txt (q_name t))]),
          (if q_paused t then (M_StateBadge ''cancelled'') else Null)]),
       (El ''div'' [(''className'', PStr cn_text_2xl_font_bold_text_gray_90)] [(Txt (rl a))]),
       (El ''div'' [(''className'', PStr cn_flex_gap_3_mt_2_text_xs_text_gr)]
         [(El ''span'' [(''className'', PStr cn_text_blue_600)]
            [(num_node (available (q_counts t))), (Txt '' ready'')]),
          (El ''span'' [(''className'', PStr cn_text_amber_600)]
            [(num_node (active (q_counts t))), (Txt '' active'')]),
          (if retryable (q_counts t) > 0 then
            (El ''span'' [(''className'', PStr cn_text_orange_600)]
              [(num_node (retryable (q_counts t))), (Txt '' retrying'')]) else Null)]),
       (if q_throughput t \<noteq> None then
         (El ''div'' [(''className'', PStr cn_text_xs_text_gray_400_mt_1)]
           [(Txt (pM (processed_per_minute (the (q_throughput t))))), (Txt '' processed'')]) else Null)]))"

definition P_QueueCards :: "queue_info list \<Rightarrow> 'a node" where
  "P_QueueCards e =
  (if e = [] then (El ''p'' [(''className'', PStr cn_text_sm_text_gray_500)] [Txt ''No queues found.'']) else
    (El ''div'' [(''className'', PStr cn_grid_grid_cols_1_md_grid_cols_2)] [Frag (map P_QueueCard (take 6 e))]))"

definition Rre_chart :: "json \<Rightarrow> 'a node" where
  "Rre_chart t =
  (El ''div'' [(''className'', PStr cn_h_48)]
    [(El ''ResponsiveContainer'' [(''width'', PStr ''100%''), (''height'', PStr ''100%'')]
       [(El ''AreaChart''
          [(''data'', PData t),
           (''margin'', PObj
             [(''top'', JNum 4), (''right'', JNum 4), (''bottom'', JNum 0), (''left'', JNum 0)])]
          [(El ''defs'' []
             [(El ''linearGradient''
                [(''id'', PStr ''colorProcessed''),
                 (''x1'', PStr ''0''),
                 (''y1'', PStr ''0''),
                 (''x2'', PStr ''0''),
                 (''y2'', PStr ''1'')]
                [(El ''stop''
                   [(''offset'', PStr ''5%''),
                    (''stopColor'', PStr ''#22C55E''),
                    (''stopOpacity'', PRat (3 / 10))] []),
                 (El ''stop''
                   [(''offset'', PStr ''95%''), (''stopColor'', PStr ''#22C55E''), (''stopOpacity'', PNum 0)]
                   [])]),
              (El ''linearGradient''
                [(''id'', PStr ''colorFailed''),
                 (''x1'', PStr ''0''),
                 (''y1'', PStr ''0''),
                 (''x2'', PStr ''0''),
                 (''y2'', PStr ''1'')]
                [(El ''stop''
                   [(''offset'', PStr ''5%''),
                    (''stopColor'', PStr ''#EF4444''),
                    (''stopOpacity'', PRat (3 / 10))] []),
                 (El ''stop''
                   [(''offset'', PStr ''95%''), (''stopColor'', PStr ''#EF4444''), (''stopOpacity'', PNum 0)]
                   [])])]),
           (El ''XAxis'' [(''dataKey'', PStr ''time''), (''tick'', PObj [(''fontSize'', JNum 10)])] []),
           (El ''YAxis'' [(''tick'', PObj [(''fontSize'', JNum 10)]), (''width'', PNum 40)] []),
           (El ''Tooltip'' [(''contentStyle'', PObj [(''fontSize'', JNum 12)])] []),
           (El ''Area''
             [(''type'', PStr ''monotone''),
              (''dataKey'', PStr ''processed''),
              (''stroke'', PStr ''#22C55E''),
              (''fill'', PStr ''url(#colorProcessed)''),
              (''strokeWidth'', PNum 2),
              (''name'', PStr ''Processed'')] []),
           (El ''Area''
             [(''type'', PStr ''monotone''),
              (''dataKey'', PStr ''failed''),
              (''stroke'', PStr ''#EF4444''),
              (''fill'', PStr ''url(#colorFailed)''),
              (''strokeWidth'', PNum 2),
              (''name'', PStr ''Failed'')] [])])])])"

definition Rre_Throughput :: "host \<Rightarrow> history_point list \<Rightarrow> 'a node" where
  "Rre_Throughput h e =
  (if e = [] then
    (El ''p'' [(''className'', PStr cn_text_sm_text_gray_500)] [Txt ''No history data available.'']) else
    Rre_chart
    (JArr
      (map
        (\<lambda>a. JObj
          [(''timestamp'', JStr (hp_timestamp a)),
           (''processed'', JNum (hp_processed a)),
           (''failed'', JNum (hp_failed a)),
           (''time'', JStr (locale_time h (hp_timestamp a)))]) e)))"

definition Mre_Loading :: "'a node" where
  "Mre_Loading =
  (El ''div'' [(''className'', PStr cn_flex_items_center_justify_cente)]
    [(Txt (''Loading dashboard'' @ [CHR 0xE2, CHR 0x80, CHR 0xA6]))])"

definition jre_Error :: "string \<Rightarrow> 'a node" where
  "jre_Error e =
  (El ''div'' [(''className'', PStr cn_bg_red_50_dark_bg_red_950_borde)]
    [(El ''h2'' [(''className'', PStr cn_text_lg_font_semibold_text_red)] [(Txt ''Failed to connect'')]),
     (El ''p'' [(''className'', PStr cn_text_sm_text_red_600_dark_text)] [(Txt e)]),
     (El ''p'' [(''className'', PStr cn_text_xs_text_gray_500_mt_4)]
       [(Txt ''Make sure an OJS backend is running and accessible.'')])])"

definition Cre_Dashboard :: "host \<Rightarrow> stats option \<Rightarrow> bool \<Rightarrow> string option \<Rightarrow> queue_info list option \<Rightarrow> history_point list option \<Rightarrow> 'a node" where
  "Cre_Dashboard h c s err y g =
  (if s \<and> c = None then Mre_Loading else
    (if err \<noteq> None then (jre_Error (the err)) else
      (if c \<noteq> None then
        (El ''div'' [(''className'', PStr cn_space_y_6)]
          [(El ''h1'' [(''className'', PStr cn_text_xl_font_bold)] [(Txt ''Dashboard'')]),
           (LP_StatsGrid (st_jobs (the c)) (st_throughput (the c)) (st_queues (the c)) (st_workers (the c))),
           (El ''div'' [(''className'', PStr cn_grid_grid_cols_1_lg_grid_cols_2)]
             [(El ''section'' [(''className'', PStr cn_bg_white_dark_bg_gray_900_round)]
                [(El ''h2'' [(''className'', PStr cn_text_sm_font_semibold_text_gray)]
                   [(Txt ''Throughput (5m)'')]),
                 (Rre_Throughput h (case g of Some x \<Rightarrow> x | None \<Rightarrow> []))]),
              (El ''section'' []
                [(El ''h2'' [(''className'', PStr cn_text_sm_font_semibold_text_gray)] [(Txt ''Queues'')]),
                 (P_QueueCards (case y of Some x \<Rightarrow> x | None \<Rightarrow> []))])])]) else Null)))"

definition Dre_QueueTable :: "queue_info list \<Rightarrow> string option \<Rightarrow> queue_act node" where
  "Dre_QueueTable e i =
  (El ''div'' [(''className'', PStr cn_bg_white_dark_bg_gray_900_round_2)]
    [(El ''table'' [(''className'', PStr cn_w_full_text_sm)]
       [(El ''thead'' [(''className'', PStr cn_bg_gray_50_dark_bg_gray_800_tex)]
          [(El ''tr'' []
             [(El ''th'' [(''className'', PStr cn_text_left_px_4_py_3)] [(Txt ''Queue'')]),
              (El ''th'' [(''className'', PStr cn_text_right_px_3_py_3)] [(Txt ''Available'')]),
              (El ''th'' [(''className'', PStr cn_text_right_px_3_py_3)] [(Txt ''Active'')]),
              (El ''th'' [(''className'', PStr cn_text_right_px_3_py_3)] [(Txt ''Scheduled'')]),
              (El ''th'' [(''className'', PStr cn_text_right_px_3_py_3)] [(Txt ''Retrying'')]),
              (El ''th'' [(''className'', PStr cn_text_right_px_3_py_3)] [(Txt ''Completed'')]),
              (El ''th'' [(''className'', PStr cn_text_right_px_3_py_3)] [(Txt ''Failed'')]),
              (El ''th'' [(''className'', PStr cn_text_right_px_3_py_3)] [(Txt ''Throughput'')]),
              (El ''th'' [(''className'', PStr cn_text_center_px_3_py_3)] [(Txt ''Status'')]),
              (El ''th'' [(''className'', PStr cn_text_center_px_3_py_3)] [(Txt ''Actions'')])])]),
        (El ''tbody'' [(''className'', PStr cn_divide_y_divide_gray_100_dark_d)]
          [(Frag
             (map
               (\<lambda>h.
                 (El ''tr''
                   [(''key'', PStr (q_name h)), (''className'', PStr cn_hover_bg_gray_50_dark_hover_bg)]
                   [(El ''td'' [(''className'', PStr cn_px_4_py_3_font_medium)] [(Txt (q_name h))]),
                    (El ''td'' [(''className'', PStr cn_px_3_py_3_text_right_text_blue)]
                      [(Txt (rl (available (q_counts h))))]),
                    (El ''td'' [(''className'', PStr cn_px_3_py_3_text_right_text_amber)]
                      [(Txt (rl (active (q_counts h))))]),
                    (El ''td'' [(''className'', PStr cn_px_3_py_3_text_right_text_purpl)]
                      [(Txt (rl (scheduled (q_counts h))))]),
                    (El ''td'' [(''className'', PStr cn_px_3_py_3_text_right_text_orang)]
                      [(Txt (rl (retryable (q_counts h))))]),
                    (El ''td'' [(''className'', PStr cn_px_3_py_3_text_right_text_green)]
                      [(Txt (rl (completed (q_counts h))))]),
                    (El ''td'' [(''className'', PStr cn_px_3_py_3_text_right_text_red_6)]
                      [(Txt (rl (discarded (q_counts h))))]),
                    (El ''td'' [(''className'', PStr cn_px_3_py_3_text_right_text_gray)]
                      [(if q_throughput h \<noteq> None then
                         (Txt (pM (processed_per_minute (the (q_throughput h))))) else
                         (Txt [CHR 0xE2, CHR 0x80, CHR 0x94]))]),
                    (El ''td'' [(''className'', PStr cn_px_3_py_3_text_center)]
                      [(if q_paused h then
                         (El ''span'' [(''className'', PStr cn_text_xs_px_2_py_0_5_bg_yellow_1)]
                           [(Txt ''Paused'')]) else
                         (El ''span'' [(''className'', PStr cn_text_xs_px_2_py_0_5_bg_green_10)]
                           [(Txt ''Active'')]))]),
                    (El ''td'' [(''className'', PStr cn_px_3_py_3_text_center)]
                      [(El ''button''
                         [(''onClick'', PDo (Toggle h)),
                          (''disabled'', PBool (i = Some (q_name h))),
                          (''className'', PStr cn_text_xs_px_2_py_1_rounded_borde)]
                         [(if i = Some (q_name h) then (Txt [CHR 0xE2, CHR 0x80, CHR 0xA6]) else
                            (if q_paused h then (Txt ''Resume'') else (Txt ''Pause'')))])])])) e))])]),
     (if e = [] then
       (El ''p'' [(''className'', PStr cn_text_center_py_8_text_gray_500)] [(Txt ''No queues found.'')]) else
       Null)])"

definition Nre_Queues :: "queue_info list option \<Rightarrow> string option \<Rightarrow> queue_act node" where
  "Nre_Queues a busy =
  (El ''div'' [(''className'', PStr cn_space_y_4)]
    [(El ''div'' [(''className'', PStr cn_flex_items_center_justify_betwe)]
       [(El ''h1'' [(''className'', PStr cn_text_xl_font_bold)] [(Txt ''Queues'')]),
        (El ''button'' [(''onClick'', PDo QRefresh), (''className'', PStr cn_text_sm_px_3_py_1_5_border_bord)]
          [(Txt ''Refresh'')])]),
     (Dre_QueueTable (case a of Some x \<Rightarrow> x | None \<Rightarrow> []) busy)])"

definition zre_JobTable :: "host \<Rightarrow> job_info list \<Rightarrow> string node" where
  "zre_JobTable h e =
  (El ''div'' [(''className'', PStr cn_bg_white_dark_bg_gray_900_round_2)]
    [(El ''table'' [(''className'', PStr cn_w_full_text_sm)]
       [(El ''thead'' [(''className'', PStr cn_bg_gray_50_dark_bg_gray_800_tex)]
          [(El ''tr'' []
             [(El ''th'' [(''className'', PStr cn_text_left_px_4_py_3)] [(Txt ''ID'')]),
              (El ''th'' [(''className'', PStr cn_text_left_px_3_py_3)] [(Txt ''Type'')]),
              (El ''th'' [(''className'', PStr cn_text_left_px_3_py_3)] [(Txt ''Queue'')]),
              (El ''th'' [(''className'', PStr cn_text_center_px_3_py_3)] [(Txt ''State'')]),
              (El ''th'' [(''className'', PStr cn_text_center_px_3_py_3)] [(Txt ''Attempt'')]),
              (El ''th'' [(''className'', PStr cn_text_right_px_4_py_3)] [(Txt ''Created'')])])]),
        (El ''tbody'' [(''className'', PStr cn_divide_y_divide_gray_100_dark_d)]
          [(Frag
             (map
               (\<lambda>a.
                 (El ''tr''
                   [(''key'', PStr (j_id a)),
                    (''onClick'', PDo (j_id a)),
                    (''className'', PStr cn_hover_bg_gray_50_dark_hover_bg_2)]
                   [(El ''td'' [(''className'', PStr cn_px_4_py_3_font_mono_text_xs_tex)]
                      [(Txt (take 12 (j_id a))), (Txt [CHR 0xE2, CHR 0x80, CHR 0xA6])]),
                    (El ''td'' [(''className'', PStr cn_px_3_py_3_font_medium)] [(Txt (j_type a))]),
                    (El ''td'' [(''className'', PStr cn_px_3_py_3_text_gray_500)] [(Txt (j_queue a))]),
                    (El ''td'' [(''className'', PStr cn_px_3_py_3_text_center)] [(M_StateBadge (j_state a))]),
                    (El ''td'' [(''className'', PStr cn_px_3_py_3_text_center_text_gray)]
                      [(num_node (j_attempt a))]),
                    (El ''td'' [(''className'', PStr cn_px_4_py_3_text_right_text_gray)]
                      [(Txt (kb (now h) (parse_date h (j_created_at a))))])])) e))])]),
     (if e = [] then
       (El ''p'' [(''className'', PStr cn_text_center_py_8_text_gray_500)]
         [(Txt ''No jobs found matching filters.'')]) else Null)])"

definition qre_JobFilters :: "filters \<Rightarrow> string list \<Rightarrow> string \<Rightarrow> filter_act node" where
  "qre_JobFilters e t i =
  (El ''div'' [(''className'', PStr cn_flex_flex_wrap_gap_3_items_cent)]
    [(El ''select''
       [(''value'', PStr (filter_text ''queue'' e)),
        (''onChange'', PInput (\<lambda>s. FChange (filter_set ''queue'' s e))),
        (''className'', PStr cn_text_sm_border_border_gray_300)]
       [(El ''option'' [(''value'', PStr '''')] [(Txt ''All queues'')]),
        (Frag (map (\<lambda>s. (El ''option'' [(''key'', PStr s), (''value'', PStr s)] [(Txt s)])) t))]),
     (El ''select''
       [(''value'', PStr (filter_text ''state'' e)),
        (''onChange'', PInput (\<lambda>s. FChange (filter_set ''state'' s e))),
        (''className'', PStr cn_text_sm_border_border_gray_300)]
       [(El ''option'' [(''value'', PStr '''')] [(Txt ''All states'')]),
        (Frag (map (\<lambda>s. (El ''option'' [(''key'', PStr s), (''value'', PStr s)] [(Txt s)])) Ure))]),
     (El ''form''
       [(''onSubmit'', PDo (FChange (filter_set ''type'' i e))), (''className'', PStr cn_flex_gap_1)]
       [(El ''input''
          [(''type'', PStr ''text''),
           (''value'', PStr i),
           (''onChange'', PInput FType),
           (''placeholder'', PStr (''Job type'' @ [CHR 0xE2, CHR 0x80, CHR 0xA6])),
           (''className'', PStr cn_text_sm_border_border_gray_300_2)] []),
        (El ''button'' [(''type'', PStr ''submit''), (''className'', PStr cn_text_sm_px_3_py_1_5_bg_blue_600)]
          [(Txt ''Filter'')])]),
     (if filter_text ''queue'' e \<noteq> [] \<or> filter_text ''state'' e \<noteq> [] \<or> filter_text
       ''type'' e \<noteq> [] then
       (El ''button'' [(''onClick'', PDo FClear), (''className'', PStr cn_text_xs_text_gray_500_hover_tex)]
         [(Txt ''Clear filters'')]) else Null)])"

definition Ub_JsonView :: "json \<Rightarrow> bool \<Rightarrow> json_act node" where
  "Ub_JsonView e t =
  (El ''div'' [(''className'', PStr cn_relative)]
    [(El ''button''
       [(''className'', PStr cn_absolute_top_2_right_2_text_xs),
        (''onClick'', PDo (CopyText (stringify2 [] e)))] [(Txt ''Copy'')]),
     (El ''button''
       [(''className'', PStr cn_absolute_top_2_right_14_text_xs), (''onClick'', PDo (SetOpen (\<not> t)))]
       [(if t then (Txt ''Collapse'') else (Txt ''Expand''))]),
     (El ''pre'' [(''className'', PStr cn_bg_gray_50_dark_bg_gray_900_bor)]
       [(Txt (if t then stringify2 [] e else stringify e))])])"

definition Nm_TimelineRow :: "host \<Rightarrow> string \<Rightarrow> string \<Rightarrow> 'a node" where
  "Nm_TimelineRow h e t =
  (El ''div'' [(''className'', PStr cn_flex_justify_between_text_gray)]
    [(El ''span'' [] [(Txt e)]), (El ''span'' [(''className'', PStr cn_font_mono)] [(Txt (locale_date h t))])])"

text \<open>
  The error is the text of a caught exception, \<open>String(R)\<close>, or null.  The requests of the client reject
  with error objects, whose text begins with the name of their class, so that the test of the text for
  truth is the test for null.
\<close>

definition yH_JobDetail :: "host \<Rightarrow> string option \<Rightarrow> job_detail option \<Rightarrow> (json_slot \<Rightarrow> bool) \<Rightarrow> detail_act node" where
  "yH_JobDetail h s i op =
  (let d = the i in
    (if s \<noteq> None then (El ''div'' [(''className'', PStr cn_p_4_text_red_500)] [(Txt (the s))]) else
      (if i \<noteq> None then
        (El ''div'' [(''className'', PStr cn_fixed_inset_0_z_40_flex)]
          [(El ''div'' [(''className'', PStr cn_flex_1_bg_black_30), (''onClick'', PDo JClose)] []),
           (El ''div'' [(''className'', PStr cn_w_full_max_w_xl_bg_white_dark_b)]
             [(El ''div'' [(''className'', PStr cn_sticky_top_0_bg_white_dark_bg_g)]
                [(El ''div'' []
                   [(El ''h2'' [(''className'', PStr cn_font_semibold)] [(Txt (jd_type d))]),
                    (El ''p'' [(''className'', PStr cn_text_xs_text_gray_500_font_mono)] [(Txt (jd_id d))])]),
                 (El ''button''
                   [(''onClick'', PDo JClose), (''className'', PStr cn_text_gray_400_hover_text_gray_6)]
                   [(Txt [CHR 0xC3, CHR 0x97])])]),
              (El ''div'' [(''className'', PStr cn_p_4_space_y_4)]
                [(El ''div'' [(''className'', PStr cn_flex_items_center_gap_3)]
                   [(M_StateBadge (jd_state d)),
                    (El ''span'' [(''className'', PStr cn_text_sm_text_gray_500)]
                      [(Txt ''Attempt ''),
                       (num_node (jd_attempt d)),
                       (case jd_max_attempts d of Some n \<Rightarrow> if n \<noteq> 0 then Txt
                         ('' / '' @ int_str n) else Null | None \<Rightarrow> Null)]),
                    (El ''span'' [(''className'', PStr cn_text_xs_text_gray_400)]
                      [(Txt (kb (now h) (parse_date h (jd_created_at d))))]),
                    (El ''div'' [(''className'', PStr cn_flex_1)] []),
                    (if jd_state d \<in> set [''discarded'', ''cancelled''] then
                      (El ''button''
                        [(''onClick'', PDo JRetry), (''className'', PStr cn_text_xs_px_3_py_1_bg_blue_600_t)]
                        [(Txt ''Retry'')]) else Null),
                    (if jd_state d \<in> set [''available'', ''scheduled'', ''pending'', ''retryable''] then
                      (El ''button''
                        [(''onClick'', PDo JCancel), (''className'', PStr cn_text_xs_px_3_py_1_bg_red_600_te)]
                        [(Txt ''Cancel'')]) else Null)]),
                 (El ''section'' []
                   [(El ''h3'' [(''className'', PStr cn_text_xs_font_semibold_text_gray)] [(Txt ''Timeline'')]),
                    (El ''div'' [(''className'', PStr cn_space_y_1_text_xs)]
                      [(if str_truthy (time_of tm_created_at d) then
                         (Nm_TimelineRow h ''Created'' (the (time_of tm_created_at d))) else Null),
                       (if str_truthy (time_of tm_enqueued_at d) then
                         (Nm_TimelineRow h ''Enqueued'' (the (time_of tm_enqueued_at d))) else Null),
                       (if str_truthy (time_of tm_started_at d) then
                         (Nm_TimelineRow h ''Started'' (the (time_of tm_started_at d))) else Null),
                       (if str_truthy (time_of tm_completed_at d) then
                         (Nm_TimelineRow h ''Completed'' (the (time_of tm_completed_at d))) else Null),
                       (if str_truthy (time_of tm_cancelled_at d) then
                         (Nm_TimelineRow h ''Cancelled'' (the (time_of tm_cancelled_at d))) else Null),
                       (if str_truthy (time_of tm_discarded_at d) then
                         (Nm_TimelineRow h ''Discarded'' (the (time_of tm_discarded_at d))) else Null)])]),
                 (El ''section'' []
                   [(El ''h3'' [(''className'', PStr cn_text_xs_font_semibold_text_gray)]
                      [(Txt ''Arguments'')]),
                    (map_node (JView VArgs) (Ub_JsonView (jd_args d) (op VArgs)))]),
                 (if jd_meta d \<noteq> [] then
                   (El ''section'' []
                     [(El ''h3'' [(''className'', PStr cn_text_xs_font_semibold_text_gray)]
                        [(Txt ''Metadata'')]),
                      (map_node (JView VMeta) (Ub_JsonView (JObj (jd_meta d)) (op VMeta)))]) else Null),
                 (if jd_errors d \<noteq> [] then
                   (El ''section'' []
                     [(El ''h3'' [(''className'', PStr cn_text_xs_font_semibold_text_gray)]
                        [(Txt ''Error History'')]),
                      (El ''div'' [(''className'', PStr cn_space_y_2)]
                        [(Frag
                           (map
                             (\<lambda>(N, R).
                               (El ''div''
                                 [(''key'', PStr (nat_str N)),
                                  (''className'', PStr cn_bg_red_50_dark_bg_red_950_borde_2)]
                                 [(El ''div'' [(''className'', PStr cn_flex_justify_between)]
                                    [(El ''span'' [(''className'', PStr cn_font_medium_text_red_700_dark_t)]
                                       [(Txt (er_type R))]),
                                     (El ''span'' [(''className'', PStr cn_text_gray_500)]
                                       [(Txt ''Attempt ''),
                                        (num_node (er_attempt R)),
                                        (Txt ('' '' @ [CHR 0xC2, CHR 0xB7] @ '' '')),
                                        (Txt (kb (now h) (parse_date h (er_occurred_at R))))])]),
                                  (El ''p'' [(''className'', PStr cn_mt_1_text_red_600_dark_text_red)]
                                    [(Txt (er_message R))]),
                                  (if er_backtrace R \<noteq> None then
                                    (El ''pre'' [(''className'', PStr cn_mt_1_text_gray_500_text_10px_ov)]
                                      [(Txt (js_join (CHR 0x0A) (the (er_backtrace R))))]) else Null)]))
                             (enumerate 0 (jd_errors d))))])]) else Null),
                 (if jd_result d \<noteq> None \<and> jd_result d \<noteq> Some JNull then
                   (El ''section'' []
                     [(El ''h3'' [(''className'', PStr cn_text_xs_font_semibold_text_gray)] [(Txt ''Result'')]),
                      (map_node (JView VResult) (Ub_JsonView (the (jd_result d)) (op VResult)))]) else Null),
                 (if json_truthy (jd_retry_policy d) then
                   (El ''section'' []
                     [(El ''h3'' [(''className'', PStr cn_text_xs_font_semibold_text_gray)]
                        [(Txt ''Retry Policy'')]),
                      (map_node (JView VPolicy) (Ub_JsonView (the (jd_retry_policy d)) (op VPolicy)))]) else
                   Null)])])]) else
        (El ''div'' [(''className'', PStr cn_p_4_text_gray_500)]
          [(Txt (''Loading'' @ [CHR 0xE2, CHR 0x80, CHR 0xA6]))]))))"

definition mH_controls :: "int \<Rightarrow> int \<Rightarrow> int \<Rightarrow> jsnum \<Rightarrow> int node" where
  "mH_controls e t a c =
  (El ''div'' [(''className'', PStr cn_flex_items_center_justify_betwe_2)]
    [(El ''span'' [(''className'', PStr cn_text_sm_text_gray_500)]
       [(Txt ''Showing ''),
        (num_node ((e - 1) * t + 1)),
        (Txt [CHR 0xE2, CHR 0x80, CHR 0x93]),
        (num_node (min (e * t) a)),
        (Txt '' of ''),
        (num_node a)]),
     (El ''div'' [(''className'', PStr cn_flex_gap_1)]
       [(El ''button''
          [(''onClick'', PDo (e - 1)),
           (''disabled'', PBool ((e \<le> 1))),
           (''className'', PStr cn_px_3_py_1_text_sm_rounded_borde)] [(Txt ''Prev'')]),
        (El ''span'' [(''className'', PStr cn_px_3_py_1_text_sm_text_gray_500)]
          [(num_node e), (Txt '' / ''), (Txt (jsnum_str c))]),
        (El ''button''
          [(''onClick'', PDo (e + 1)),
           (''disabled'', PBool ((num_ge e c))),
           (''className'', PStr cn_px_3_py_1_text_sm_rounded_borde)] [(Txt ''Next'')])])])"

definition mH_Pagination :: "int \<Rightarrow> int \<Rightarrow> int \<Rightarrow> int node" where
  "mH_Pagination e t a =
  (let c = mH_pages a t in if num_le_one c then Null else mH_controls e t a c)"

definition Bre_Jobs :: "host \<Rightarrow> jobs_page \<Rightarrow> job_list option \<Rightarrow> queue_info list option \<Rightarrow> jobs_act node" where
  "Bre_Jobs h st b S =
  (let E = map q_name (case S of Some x \<Rightarrow> x | None \<Rightarrow> []) in
    (El ''div'' [(''className'', PStr cn_space_y_4)]
      [(El ''div'' [(''className'', PStr cn_flex_items_center_justify_betwe)]
         [(El ''h1'' [(''className'', PStr cn_text_xl_font_bold)] [(Txt ''Jobs'')]),
          (El ''button''
            [(''onClick'', PDo JobsRefresh), (''className'', PStr cn_text_sm_px_3_py_1_5_border_bord)]
            [(Txt ''Refresh'')])]),
       (map_node JobsFilter (qre_JobFilters (jp_filters st) E (jp_text st))),
       (map_node JobsSelect
         (zre_JobTable h (case b of Some x \<Rightarrow> jl_items x | None \<Rightarrow> []))),
       (if b \<noteq> None then
         (map_node JobsPage
           (mH_Pagination (pg_page (jl_pagination (the b))) (pg_per_page (jl_pagination (the b)))
             (pg_total (jl_pagination (the b))))) else Null),
       (if str_truthy (jp_selected st) then
         (map_node JobsDetail
           (yH_JobDetail h (dt_error (dn_state (jp_detail st))) (dt_job (dn_state (jp_detail st)))
             (dt_open (dn_state (jp_detail st))))) else Null)]))"

definition vH_dialog :: "string \<Rightarrow> string \<Rightarrow> string \<Rightarrow> bool \<Rightarrow> bool \<Rightarrow> dialog_act node" where
  "vH_dialog t a i h y =
  (El ''div'' [(''className'', PStr cn_fixed_inset_0_z_50_flex_items_c), (''onClick'', PDo DCancel)]
    [(El ''div'' [(''className'', PStr cn_bg_white_dark_bg_gray_800_round), (''onClick'', PDo DStop)]
       [(El ''h3'' [(''className'', PStr cn_text_lg_font_semibold_mb_2)] [(Txt t)]),
        (El ''p'' [(''className'', PStr cn_text_sm_text_gray_600_dark_text)] [(Txt a)]),
        (El ''div'' [(''className'', PStr cn_flex_justify_end_gap_3)]
          [(El ''button''
             [(''onClick'', PDo DCancel), (''className'', PStr cn_px_4_py_2_text_sm_rounded_borde)]
             [(Txt ''Cancel'')]),
           (El ''button''
             [(''onClick'', PDo DConfirm),
              (''disabled'', PBool (y)),
              (''className'', PStr
                (cn_px_4_py_2_text_sm_rounded_text @
                  (if h then cn_bg_red_600_hover_bg_red_700 else cn_bg_blue_600_hover_bg_blue_700) @
                  cn_disabled_opacity_50))]
             [(if y then (Txt (''Processing'' @ [CHR 0xE2, CHR 0x80, CHR 0xA6])) else (Txt i))])])])])"

definition vH_ConfirmDialog :: "bool \<Rightarrow> string \<Rightarrow> string \<Rightarrow> string \<Rightarrow> bool \<Rightarrow> bool \<Rightarrow> dialog_act node" where
  "vH_ConfirmDialog e t a i h y =
  (if \<not> e then Null else vH_dialog t a i h y)"

definition Lre_WorkerTable :: "host \<Rightarrow> worker list \<Rightarrow> (string \<times> worker_action) option \<Rightarrow> bool \<Rightarrow> worker_act node" where
  "Lre_WorkerTable h e i busy =
  (Frag
    [(El ''div'' [(''className'', PStr cn_bg_white_dark_bg_gray_900_round_2)]
       [(El ''table'' [(''className'', PStr cn_w_full_text_sm)]
          [(El ''thead'' [(''className'', PStr cn_bg_gray_50_dark_bg_gray_800_tex)]
             [(El ''tr'' []
                [(El ''th'' [(''className'', PStr cn_text_left_px_4_py_3)] [(Txt ''Worker ID'')]),
                 (El ''th'' [(''className'', PStr cn_text_left_px_3_py_3)] [(Txt ''Hostname'')]),
                 (El ''th'' [(''className'', PStr cn_text_center_px_3_py_3)] [(Txt ''State'')]),
                 (El ''th'' [(''className'', PStr cn_text_left_px_3_py_3)] [(Txt ''Queues'')]),
                 (El ''th'' [(''className'', PStr cn_text_right_px_3_py_3)] [(Txt ''Active'')]),
                 (El ''th'' [(''className'', PStr cn_text_right_px_3_py_3)] [(Txt ''Last Heartbeat'')]),
                 (El ''th'' [(''className'', PStr cn_text_center_px_4_py_3)] [(Txt ''Actions'')])])]),
           (El ''tbody'' [(''className'', PStr cn_divide_y_divide_gray_100_dark_d)]
             [(Frag
                (map
                  (\<lambda>y.
                    (El ''tr''
                      [(''key'', PStr (w_id y)), (''className'', PStr cn_hover_bg_gray_50_dark_hover_bg)]
                      [(El ''td'' [(''className'', PStr cn_px_4_py_3_font_mono_text_xs)]
                         [(Txt (take 16 (w_id y)))]),
                       (El ''td'' [(''className'', PStr cn_px_3_py_3_text_gray_500)]
                         [(Txt
                            (case w_hostname y of Some x \<Rightarrow> x | None \<Rightarrow>
                              [CHR 0xE2, CHR 0x80, CHR 0x94]))]),
                       (El ''td'' [(''className'', PStr cn_px_3_py_3_text_center)]
                         [(El ''span''
                            [(''className'', PStr
                               (cn_inline_flex_px_2_py_0_5_rounded @ (Lre_stateClass (w_state y))))]
                            [(Txt (w_state y))])]),
                       (El ''td'' [(''className'', PStr cn_px_3_py_3_text_gray_500_text_xs)]
                         [(Txt (join_with '', '' (w_queues y)))]),
                       (El ''td'' [(''className'', PStr cn_px_3_py_3_text_right)]
                         [(num_node (w_active_jobs y))]),
                       (El ''td'' [(''className'', PStr cn_px_3_py_3_text_right_text_gray_2)]
                         [(Txt (kb (now h) (parse_date h (w_last_heartbeat_at y))))]),
                       (El ''td'' [(''className'', PStr cn_px_4_py_3_text_center)]
                         [(El ''div'' [(''className'', PStr cn_flex_gap_1_justify_center)]
                            [(if w_state y = ''running'' then
                               (El ''button''
                                 [(''onClick'', PDo (WAsk (w_id y) Quiet)),
                                  (''className'', PStr cn_text_xs_px_2_py_1_rounded_borde_2)]
                                 [(Txt ''Quiet'')]) else Null),
                             (if w_state y = ''stale'' then
                               (El ''button''
                                 [(''onClick'', PDo (WAsk (w_id y) Deregister)),
                                  (''className'', PStr cn_text_xs_px_2_py_1_rounded_borde_3)]
                                 [(Txt ''Remove'')]) else Null)])])])) e))])]),
        (if e = [] then
          (El ''p'' [(''className'', PStr cn_text_center_py_8_text_gray_500)]
            [(Txt ''No workers connected.'')]) else Null)]),
     (map_node WDialog
       (vH_ConfirmDialog (i \<noteq> None)
         (if asked i Quiet then ''Quiet Worker'' else ''Remove Stale Worker'')
         (if asked i Quiet then
           ''This will signal the worker to stop fetching new jobs. Active jobs will finish.'' else
           ''This will remove the stale worker and requeue its active jobs.'')
         (if asked i Quiet then ''Quiet'' else ''Remove'') (asked i Deregister) busy))])"

definition Hre_Workers :: "host \<Rightarrow> worker_list option \<Rightarrow> (string \<times> worker_action) option \<Rightarrow> bool \<Rightarrow> worker_act node" where
  "Hre_Workers h a i busy =
  (El ''div'' [(''className'', PStr cn_space_y_4)]
    [(El ''div'' [(''className'', PStr cn_flex_items_center_justify_betwe)]
       [(El ''h1'' [(''className'', PStr cn_text_xl_font_bold)] [(Txt ''Workers'')]),
        (El ''div'' [(''className'', PStr cn_flex_items_center_gap_3)]
          [(if a \<noteq> None \<and> wl_summary (the a) \<noteq> None then
             (El ''div'' [(''className'', PStr cn_flex_gap_2_text_xs)]
               [(El ''span'' [(''className'', PStr cn_text_green_600)]
                  [(num_node (ws_running (the (wl_summary (the a))))), (Txt '' running'')]),
                (if ws_quiet (the (wl_summary (the a))) > 0 then
                  (El ''span'' [(''className'', PStr cn_text_yellow_600)]
                    [(num_node (ws_quiet (the (wl_summary (the a))))), (Txt '' quiet'')]) else Null),
                (if ws_stale (the (wl_summary (the a))) > 0 then
                  (El ''span'' [(''className'', PStr cn_text_red_600)]
                    [(num_node (ws_stale (the (wl_summary (the a))))), (Txt '' stale'')]) else Null)]) else
             Null),
           (El ''button''
             [(''onClick'', PDo WRefresh), (''className'', PStr cn_text_sm_px_3_py_1_5_border_bord)]
             [(Txt ''Refresh'')])])]),
     (Lre_WorkerTable h (case a of Some x \<Rightarrow> wl_items x | None \<Rightarrow> []) i busy)])"

definition re_DeadLetterTable :: "host \<Rightarrow> job_info list \<Rightarrow> dead_stats option \<Rightarrow> bool \<Rightarrow> string option \<Rightarrow> bool \<Rightarrow> dead_act node" where
  "re_DeadLetterTable h e t s y busy =
  (Frag
    [(if t \<noteq> None then
       (El ''div'' [(''className'', PStr cn_grid_grid_cols_2_md_grid_cols_4_2)]
         [(El ''div'' [(''className'', PStr cn_bg_white_dark_bg_gray_900_round_3)]
            [(El ''div'' [(''className'', PStr cn_text_xs_text_gray_500)] [(Txt ''Total Dead'')]),
             (El ''div'' [(''className'', PStr cn_text_xl_font_bold_text_red_600)]
               [(Txt (rl (ds_total (the t))))])]),
          (if ds_by_error_type (the t) \<noteq> None then
            (Frag
              (map
                (\<lambda>(S, E).
                  (El ''div'' [(''key'', PStr S), (''className'', PStr cn_bg_white_dark_bg_gray_900_round_3)]
                    [(El ''div'' [(''className'', PStr cn_text_xs_text_gray_500_truncate)] [(Txt S)]),
                     (El ''div'' [(''className'', PStr cn_text_xl_font_bold_text_gray_900)] [(Txt (rl E))])]))
                (take 3 (the (ds_by_error_type (the t)))))) else Null)]) else Null),
     (El ''div'' [(''className'', PStr cn_flex_gap_2_mb_4)]
       [(El ''button''
          [(''onClick'', PDo DlAskBulk),
           (''disabled'', PBool (e = [])),
           (''className'', PStr cn_text_sm_px_3_py_1_5_bg_blue_600_2)] [(Txt ''Bulk Retry All'')])]),
     (El ''div'' [(''className'', PStr cn_bg_white_dark_bg_gray_900_round_2)]
       [(El ''table'' [(''className'', PStr cn_w_full_text_sm)]
          [(El ''thead'' [(''className'', PStr cn_bg_gray_50_dark_bg_gray_800_tex)]
             [(El ''tr'' []
                [(El ''th'' [(''className'', PStr cn_text_left_px_4_py_3)] [(Txt ''ID'')]),
                 (El ''th'' [(''className'', PStr cn_text_left_px_3_py_3)] [(Txt ''Type'')]),
                 (El ''th'' [(''className'', PStr cn_text_left_px_3_py_3)] [(Txt ''Queue'')]),
                 (El ''th'' [(''className'', PStr cn_text_center_px_3_py_3)] [(Txt ''State'')]),
                 (El ''th'' [(''className'', PStr cn_text_right_px_3_py_3)] [(Txt ''Created'')]),
                 (El ''th'' [(''className'', PStr cn_text_center_px_4_py_3)] [(Txt ''Actions'')])])]),
           (El ''tbody'' [(''className'', PStr cn_divide_y_divide_gray_100_dark_d)]
             [(Frag
                (map
                  (\<lambda>S.
                    (El ''tr''
                      [(''key'', PStr (j_id S)), (''className'', PStr cn_hover_bg_gray_50_dark_hover_bg)]
                      [(El ''td''
                         [(''className'', PStr cn_px_4_py_3_font_mono_text_xs_tex_2),
                          (''onClick'', PDo (DlSelect (j_id S)))]
                         [(Txt (take 12 (j_id S))), (Txt [CHR 0xE2, CHR 0x80, CHR 0xA6])]),
                       (El ''td''
                         [(''className'', PStr cn_px_3_py_3_font_medium_cursor_po),
                          (''onClick'', PDo (DlSelect (j_id S)))] [(Txt (j_type S))]),
                       (El ''td'' [(''className'', PStr cn_px_3_py_3_text_gray_500)] [(Txt (j_queue S))]),
                       (El ''td'' [(''className'', PStr cn_px_3_py_3_text_center)]
                         [(M_StateBadge (j_state S))]),
                       (El ''td'' [(''className'', PStr cn_px_3_py_3_text_right_text_gray_2)]
                         [(Txt (kb (now h) (parse_date h (j_created_at S))))]),
                       (El ''td'' [(''className'', PStr cn_px_4_py_3_text_center)]
                         [(El ''div'' [(''className'', PStr cn_flex_gap_1_justify_center)]
                            [(El ''button''
                               [(''onClick'', PDo (DlRetry (j_id S))),
                                (''disabled'', PBool ((y = Some (j_id S)))),
                                (''className'', PStr cn_text_xs_px_2_py_1_rounded_bg_bl)] [(Txt ''Retry'')]),
                             (El ''button''
                               [(''onClick'', PDo (DlDelete (j_id S))),
                                (''disabled'', PBool ((y = Some (j_id S)))),
                                (''className'', PStr cn_text_xs_px_2_py_1_rounded_borde_4)] [(Txt ''Delete'')])])])]))
                  e))])]),
        (if e = [] then
          (El ''p'' [(''className'', PStr cn_text_center_py_8_text_gray_500)]
            [(Txt (''Dead letter queue is empty. '' @ [CHR 0xF0, CHR 0x9F, CHR 0x8E, CHR 0x89]))]) else Null)]),
     (map_node DlDialog
       (vH_ConfirmDialog s ''Bulk Retry All Dead Letter Jobs''
         (''This will retry all '' @
           (int_str (case t of Some x \<Rightarrow> ds_total x | None \<Rightarrow> 0)) @
           '' dead letter jobs. Are you sure?'') ''Retry All'' False busy))])"

definition Pre_DeadLetter :: "host \<Rightarrow> dead_page \<Rightarrow> job_list option \<Rightarrow> dead_stats option \<Rightarrow> dead_act node" where
  "Pre_DeadLetter h st y b =
  (El ''div'' [(''className'', PStr cn_space_y_4)]
    [(El ''div'' [(''className'', PStr cn_flex_items_center_justify_betwe)]
       [(El ''h1'' [(''className'', PStr cn_text_xl_font_bold)] [(Txt ''Dead Letter Queue'')]),
        (El ''button''
          [(''onClick'', PDo DlRefresh), (''className'', PStr cn_text_sm_px_3_py_1_5_border_bord)]
          [(Txt ''Refresh'')])]),
     (re_DeadLetterTable h (case y of Some x \<Rightarrow> jl_items x | None \<Rightarrow> []) b (dp_ask st)
       (dp_busy st) (dp_processing st)),
     (if y \<noteq> None then
       (map_node DlPage
         (mH_Pagination (pg_page (jl_pagination (the y))) (pg_per_page (jl_pagination (the y)))
           (pg_total (jl_pagination (the y))))) else Null),
     (if str_truthy (dp_selected st) then
       (map_node DlDetail
         (yH_JobDetail h (dt_error (dn_state (dp_detail st))) (dt_job (dn_state (dp_detail st)))
           (dt_open (dn_state (dp_detail st))))) else Null)])"

definition Vh_Row :: "string \<Rightarrow> string \<Rightarrow> 'a node" where
  "Vh_Row e t =
  (El ''div'' [(''className'', PStr cn_flex_justify_between_text_sm)]
    [(El ''span'' [(''className'', PStr cn_text_gray_500)] [(Txt e)]),
     (El ''span'' [(''className'', PStr cn_font_medium)] [(Txt t)])])"

definition kre_info :: "manifest \<Rightarrow> bool \<Rightarrow> json_act node" where
  "kre_info e op =
  (let (a, i, c) = kre_extensions (mf_extensions e) in
    (El ''div'' [(''className'', PStr cn_space_y_6_max_w_2xl)]
      [(El ''h1'' [(''className'', PStr cn_text_xl_font_bold)] [(Txt ''Settings & Backend Info'')]),
       (El ''section'' [(''className'', PStr cn_bg_white_dark_bg_gray_900_round_4)]
         [(El ''h2'' [(''className'', PStr cn_text_sm_font_semibold_text_gray_2)] [(Txt ''Implementation'')]),
          (Vh_Row ''Name'' (im_name (mf_implementation e))),
          (Vh_Row ''Version'' (im_version (mf_implementation e))),
          (Vh_Row ''Language'' (im_language (mf_implementation e))),
          (Vh_Row ''Backend'' (mf_backend e)),
          (Vh_Row ''Conformance'' (NP_levelName (mf_conformance_level e))),
          (if str_truthy (mf_conformance_tier e) then (Vh_Row ''Tier'' (the (mf_conformance_tier e))) else
            Null),
          (Vh_Row ''Protocols'' (join_with '', '' (mf_protocols e)))]),
       (if mf_capabilities e \<noteq> None then
         (El ''section'' [(''className'', PStr cn_bg_white_dark_bg_gray_900_round)]
           [(El ''h2'' [(''className'', PStr cn_text_sm_font_semibold_text_gray_3)] [(Txt ''Capabilities'')]),
            (El ''div'' [(''className'', PStr cn_grid_grid_cols_2_gap_2_text_sm)]
              [(Frag
                 (map
                   (\<lambda>(s, b).
                     (El ''div'' [(''key'', PStr s), (''className'', PStr cn_flex_items_center_gap_2)]
                       [(El ''span''
                          [(''className'', PStr (if b then cn_text_green_600 else cn_text_gray_400))]
                          [(if b then (Txt [CHR 0xE2, CHR 0x9C, CHR 0x93]) else
                             (Txt [CHR 0xE2, CHR 0x9C, CHR 0x97]))]),
                        (El ''span'' [(''className'', PStr cn_text_gray_700_dark_text_gray_30)]
                          [(Txt (map (\<lambda>c. if c = CHR ''_'' then CHR '' '' else c) s))])]))
                   (the (mf_capabilities e))))])]) else Null),
       (if ((a \<noteq> [] \<or> i \<noteq> []) \<or> c \<noteq> []) then
         (El ''section'' [(''className'', PStr cn_bg_white_dark_bg_gray_900_round_4)]
           [(El ''h2'' [(''className'', PStr cn_text_sm_font_semibold_text_gray_2)] [(Txt ''Extensions'')]),
            (Frag
              (map
                (\<lambda>s.
                  (El ''div''
                    [(''key'', PStr (ex_uri s)), (''className'', PStr cn_flex_items_center_gap_2_text_sm)]
                    [(El ''span'' [(''className'', PStr cn_px_1_5_py_0_5_bg_blue_100_text)]
                       [(Txt ''Official'')]),
                     (El ''span'' [] [(Txt (ex_name s))]),
                     (El ''span'' [(''className'', PStr cn_text_gray_400_text_xs)]
                       [(Txt ''v''), (Txt (ex_version s))])])) a)),
            (Frag
              (map
                (\<lambda>s.
                  (El ''div''
                    [(''key'', PStr (ex_uri s)), (''className'', PStr cn_flex_items_center_gap_2_text_sm)]
                    [(El ''span'' [(''className'', PStr cn_px_1_5_py_0_5_bg_amber_100_text)]
                       [(Txt ''Experimental'')]),
                     (El ''span'' [] [(Txt (ex_name s))]),
                     (El ''span'' [(''className'', PStr cn_text_gray_400_text_xs)]
                       [(Txt ''v''), (Txt (ex_version s))])])) i)),
            (Frag
              (map
                (\<lambda>s.
                  (El ''div'' [(''key'', PStr s), (''className'', PStr cn_text_sm_text_gray_600)] [(Txt s)]))
                c))]) else Null),
       (El ''section'' []
         [(El ''h2'' [(''className'', PStr cn_text_sm_font_semibold_text_gray_4)] [(Txt ''Raw Manifest'')]),
          (Ub_JsonView (mf_json e) op)])]))"

definition kre_Settings :: "manifest option \<Rightarrow> bool \<Rightarrow> json_act node" where
  "kre_Settings e op =
  (if e = None then
    (El ''p'' [(''className'', PStr cn_text_gray_500)]
      [Txt (''Loading manifest'' @ [CHR 0xE2, CHR 0x80, CHR 0xA6])]) else kre_info (the e) op)"

end

