(* ===== verification/Admin_Poll.thy ===== *)
theory Admin_Poll
  imports Js_Prelude
begin

text \<open>
  The polling hook of the dashboard (\<open>src/internal/admin/dist/index-DxrWcVFD.js\<close>, \<open>es\<close>), which
  every page reads its data through.  A fetcher is known by the identity of its closure, which is
  what the dependency arrays compare.  The host's part is explicit: the intervals that are set, and
  the calls of fetchers that have not settled; they settle in any order.
\<close>

section \<open>State\<close>

datatype thrown = ErrorObject string | OtherValue string

record 'v es_state =
  es_data :: "'v option" \<comment> \<open>\<open>a\<close>\<close>
  es_loading :: bool \<comment> \<open>\<open>c\<close>\<close>
  es_error :: "string option" \<comment> \<open>\<open>h\<close>, the message\<close>
  es_interval :: "nat option" \<comment> \<open>\<open>g.current\<close>\<close>
  es_fetcher :: nat \<comment> \<open>\<open>e\<close>\<close>
  es_period :: nat \<comment> \<open>\<open>t\<close>\<close>
  es_mounted :: bool
  h_timers :: "(nat \<times> nat \<times> nat) list" \<comment> \<open>interval, fetcher it calls, period\<close>
  h_inflight :: "(nat \<times> nat) list" \<comment> \<open>call, fetcher\<close>
  h_next :: nat

section \<open>Operations\<close>

text \<open>Calling \<open>b\<close>: the fetcher is called, the rest runs when its promise settles.\<close>

definition b_start :: "nat \<Rightarrow> 'v es_state \<Rightarrow> 'v es_state" where
  "b_start f s = s\<lparr>h_inflight := h_inflight s @ [(h_next s, f)], h_next := Suc (h_next s)\<rparr>"

definition thrown_error :: "thrown \<Rightarrow> string" where
  "thrown_error O' = (case O' of ErrorObject m \<Rightarrow> m | OtherValue m \<Rightarrow> m)"

definition call_of :: "nat \<Rightarrow> 'v es_state \<Rightarrow> nat option" where
  "call_of r s = map_of (h_inflight s) r"

text \<open>The continuation of \<open>b\<close>; setting the state of an unmounted component does nothing.\<close>

definition b_settle :: "nat \<Rightarrow> thrown + 'v \<Rightarrow> 'v es_state \<Rightarrow> 'v es_state" where
  "b_settle r out s =
     (let s = s\<lparr>h_inflight := filter (\<lambda>p. fst p \<noteq> r) (h_inflight s)\<rparr> in
      if \<not> es_mounted s then s
      else case out of
        Inr v \<Rightarrow> s\<lparr>es_data := Some v, es_error := None, es_loading := False\<rparr>
      | Inl e \<Rightarrow> s\<lparr>es_error := Some (thrown_error e), es_loading := False\<rparr>)"

definition set_interval :: "nat \<Rightarrow> nat \<Rightarrow> 'v es_state \<Rightarrow> 'v es_state" where
  "set_interval f t s = s\<lparr>h_timers := h_timers s @ [(h_next s, f, t)], es_interval := Some (h_next s), h_next := Suc (h_next s)\<rparr>"

definition clear_interval :: "'v es_state \<Rightarrow> 'v es_state" where
  "clear_interval s = s\<lparr>h_timers := filter (\<lambda>x. Some (fst x) \<noteq> es_interval s) (h_timers s)\<rparr>"

definition es_effect :: "'v es_state \<Rightarrow> 'v es_state" where
  "es_effect s = set_interval (es_fetcher s) (es_period s) (b_start (es_fetcher s) s)"

definition es_mount :: "nat \<Rightarrow> nat \<Rightarrow> nat \<Rightarrow> 'v es_state" where
  "es_mount k f t = es_effect \<lparr>es_data = None, es_loading = True, es_error = None, es_interval = None, es_fetcher = f,
     es_period = t, es_mounted = True, h_timers = [], h_inflight = [], h_next = k\<rparr>"

text \<open>A render with these arguments: the effect runs again when one of its dependencies changed.\<close>

definition es_render :: "nat \<Rightarrow> nat \<Rightarrow> 'v es_state \<Rightarrow> 'v es_state" where
  "es_render f t s =
     (if f = es_fetcher s \<and> t = es_period s then s
      else es_effect ((clear_interval s)\<lparr>es_fetcher := f, es_period := t\<rparr>))"

definition es_unmount :: "'v es_state \<Rightarrow> 'v es_state" where
  "es_unmount s = (clear_interval s)\<lparr>es_mounted := False\<rparr>"

section \<open>Runs\<close>

datatype 'v es_event =
    Render nat nat \<comment> \<open>rendered with this fetcher and period\<close>
  | Tick nat \<comment> \<open>an interval fires\<close>
  | Refresh \<comment> \<open>the page calls \<open>refresh\<close>\<close>
  | Settle nat "thrown + 'v" \<comment> \<open>a call settles\<close>
  | Unmount

fun es_enabled :: "'v es_state \<Rightarrow> 'v es_event \<Rightarrow> bool" where
  "es_enabled s (Render f t) \<longleftrightarrow> es_mounted s"
| "es_enabled s (Tick i) \<longleftrightarrow> i \<in> fst ` set (h_timers s)"
| "es_enabled s Refresh \<longleftrightarrow> True"
| "es_enabled s (Settle r out) \<longleftrightarrow> r \<in> fst ` set (h_inflight s)"
| "es_enabled s Unmount \<longleftrightarrow> es_mounted s"

fun es_step :: "'v es_event \<Rightarrow> 'v es_state \<Rightarrow> 'v es_state" where
  "es_step (Render f t) s = es_render f t s"
| "es_step (Tick i) s = (case map_of (h_timers s) i of None \<Rightarrow> s | Some (f, t) \<Rightarrow> b_start f s)"
| "es_step Refresh s = b_start (es_fetcher s) s"
| "es_step (Settle r out) s = b_settle r out s"
| "es_step Unmount s = es_unmount s"

text \<open>The states after a list of events, each possible when it happens, with the events.\<close>

inductive es_run :: "'v es_state \<Rightarrow> 'v es_event list \<Rightarrow> 'v es_state \<Rightarrow> bool" for s0 where
  start: "es_run s0 [] s0"
| step: "es_run s0 es s \<Longrightarrow> es_enabled s e \<Longrightarrow> es_run s0 (es @ [e]) (es_step e s)"

inductive_cases es_run_NilE: "es_run s0 [] s"

lemmas es_defs = b_start_def b_settle_def set_interval_def clear_interval_def es_effect_def es_mount_def
  es_render_def es_unmount_def

section \<open>One interval\<close>

text \<open>The intervals that may be active: the one of the current fetcher while mounted, then none.\<close>

definition es_inv :: "'v es_state \<Rightarrow> bool" where
  "es_inv s \<longleftrightarrow> (case es_interval s of None \<Rightarrow> False
     | Some i \<Rightarrow> h_timers s = (if es_mounted s then [(i, es_fetcher s, es_period s)] else []))"

lemma es_inv_mount: "es_inv (es_mount k f t)"
  by (simp add: es_inv_def es_defs)

lemma es_inv_step: "es_inv s \<Longrightarrow> es_enabled s e \<Longrightarrow> es_inv (es_step e s)"
  by (cases e) (auto simp: es_inv_def es_defs Let_def split: option.splits sum.splits if_splits)

lemma es_inv_run: "es_run s0 es s \<Longrightarrow> es_inv s0 \<Longrightarrow> es_inv s"
  by (induction rule: es_run.induct) (auto intro: es_inv_step)

text \<open>
  C11. Polling never leaks and never stops: whatever is rendered, refreshed and answered in whatever
  order, a mounted page has exactly one interval, which calls the current fetcher with the current
  period, and after the page is unmounted there is none.
\<close>

theorem poll_one_interval:
  assumes "es_run (es_mount k f t) es s"
  shows "\<exists>i. es_interval s = Some i \<and>
    h_timers s = (if es_mounted s then [(i, es_fetcher s, es_period s)] else [])"
  using es_inv_run [OF assms es_inv_mount] by (auto simp: es_inv_def split: option.splits)

section \<open>What the page sees\<close>

text \<open>The outcomes that settled while the page was mounted, in order.\<close>

fun outcomes :: "'v es_event list \<Rightarrow> (thrown + 'v) list" where
  "outcomes [] = []"
| "outcomes (Settle r out # es) = out # outcomes es"
| "outcomes (Unmount # es) = []"
| "outcomes (e # es) = outcomes es"

definition answers :: "(thrown + 'v) list \<Rightarrow> 'v list" where
  "answers os = concat (map (\<lambda>x. case x of Inr v \<Rightarrow> [v] | Inl e \<Rightarrow> []) os)"

lemma outcomes_append:
  "outcomes (es @ es') = (if Unmount \<in> set es then outcomes es else outcomes es @ outcomes es')"
  by (induction es rule: outcomes.induct) auto

definition seen :: "'v es_event list \<Rightarrow> 'v es_state \<Rightarrow> bool" where
  "seen es s \<longleftrightarrow>
     (let os = outcomes es in
      es_mounted s = (Unmount \<notin> set es) \<and>
      es_loading s = (os = []) \<and>
      es_data s = (if answers os = [] then None else Some (last (answers os))) \<and>
      es_error s = (if os = [] then None else case last os of Inl e \<Rightarrow> Some (thrown_error e) | Inr v \<Rightarrow> None))"

lemma answers_simps [simp]:
  "answers [] = []" "answers (a @ b) = answers a @ answers b" "answers (Inr v # os) = v # answers os"
  "answers (Inl e # os) = answers os"
  by (simp_all add: answers_def)

lemma seen_run: "es_run s0 es s \<Longrightarrow> seen [] s0 \<Longrightarrow> seen es s"
proof (induction rule: es_run.induct)
  case (step es s e)
  then show ?case
    by (cases e)
      (auto simp: seen_def es_defs Let_def outcomes_append split: option.splits sum.splits if_splits)
qed

text \<open>
  C10. What a page is given: it is loading exactly until the first answer, its data are those of the
  last successful answer, kept through failures, and it has an error exactly when the last answer
  was a failure.  Answers count in the order they arrive.
\<close>

theorem poll_shows_last_answer:
  assumes "es_run (es_mount k f t) es s"
  shows "(es_loading s \<longleftrightarrow> outcomes es = []) \<and>
    es_data s = (if answers (outcomes es) = [] then None else Some (last (answers (outcomes es)))) \<and>
    es_error s = (if outcomes es = [] then None
      else case last (outcomes es) of Inl e \<Rightarrow> Some (thrown_error e) | Inr v \<Rightarrow> None)"
proof -
  have "seen [] (es_mount k f t)" by (simp add: seen_def es_defs)
  from seen_run [OF assms this] show ?thesis by (simp add: seen_def Let_def)
qed

section \<open>Examples\<close>

fun es_exec :: "'v es_state \<Rightarrow> 'v es_event list \<Rightarrow> 'v es_state option" where
  "es_exec s [] = Some s"
| "es_exec s (e # es) = (if es_enabled s e then es_exec (es_step e s) es else None)"

lemma es_run_append: "es_run (es_step e s0) es s \<Longrightarrow> es_enabled s0 e \<Longrightarrow> es_run s0 (e # es) s"
proof (induction rule: es_run.induct)
  case start
  then show ?case using es_run.step [OF es_run.start, of s0 e] by simp
next
  case (step es s e')
  then show ?case using es_run.step [of s0 "e # es" s e'] by simp
qed

lemma es_exec_run: "es_exec s0 es = Some s \<Longrightarrow> es_run s0 es s"
  by (induction es arbitrary: s0) (auto intro: es_run.start es_run_append split: if_splits)

definition poll_demo :: "nat es_event list" where
  "poll_demo = [Tick 1, Render 8 5000, Settle 3 (Inr 22), Settle 0 (Inl (OtherValue ''x'')), Settle 2 (Inr 11)]"

lemma poll_demo_exec:
  "es_exec (es_mount 0 7 5000) poll_demo =
     Some \<lparr>es_data = Some 11, es_loading = False, es_error = None, es_interval = Some 4, es_fetcher = 8, es_period = 5000,
       es_mounted = True, h_timers = [(4, 8, 5000)], h_inflight = [], h_next = 5\<rparr>"
  by (simp add: poll_demo_def es_defs thrown_error_def)

lemmas poll_demo_run = es_exec_run [OF poll_demo_exec]

theorem poll_one_interval_witness: "\<exists>s :: nat es_state. es_run (es_mount 0 7 5000) poll_demo s \<and> length (h_timers s) = 1"
  using poll_demo_run poll_one_interval [OF poll_demo_run] by auto

theorem poll_shows_last_answer_witness:
  "\<exists>s. es_run (es_mount 0 7 5000) poll_demo s \<and> es_data s = Some 11 \<and> last (answers (outcomes poll_demo)) = 11"
  using poll_demo_run poll_shows_last_answer [OF poll_demo_run] by (auto simp: poll_demo_def)

text \<open>
  A late answer wins over a newer one: after the page has switched from fetcher 7 to fetcher 8 and
  shows the answer of fetcher 8, the pending call of fetcher 7 can still settle, and its answer is
  then what the page shows, although nothing of fetcher 7 is current any more.
\<close>

lemma poll_stale_answer:
  "\<exists>es s. es_run (es_mount 0 7 5000) es s \<and> es_fetcher s = 8 \<and> es_data s = Some old \<and>
     (\<exists>es' s'. es_run (es_mount 0 7 5000) es' s' \<and> es = es' @ [Settle 0 (Inr old)] \<and>
        call_of 0 s' = Some 7 \<and> es_fetcher s' = 8 \<and> es_data s' = Some new \<and> call_of 2 s' = None)"
proof -
  let ?pre = "[Render 8 5000, Settle 2 (Inr new)]"
  obtain s' where s': "es_exec (es_mount 0 7 5000) ?pre = Some s'" "es_fetcher s' = 8" "es_data s' = Some new"
    "call_of 0 s' = Some 7" "call_of 2 s' = None"
    by (auto simp: es_defs call_of_def)
  obtain s where s: "es_exec (es_mount 0 7 5000) (?pre @ [Settle 0 (Inr old)]) = Some s" "es_fetcher s = 8" "es_data s = Some old"
    by (auto simp: es_defs)
  show ?thesis using s' s es_exec_run by metis
qed

end
