(* ===== verification/Admin_Pages.thy ===== *)
theory Admin_Pages
  imports Admin_Views Admin_Poll
begin

text \<open>
  What the dashboard's components do (\<open>src/internal/admin/dist/index-DxrWcVFD.js\<close>): the handlers of
  the pages, as functions from an action and a state to the new state and the commands it gives.  A
  handler that awaits a request is split there: the first part sends the request under a number, the
  rest runs when the request with that number settles, whatever happened in between.
\<close>

datatype cmd =
    Send nat call_args
  | Reload \<comment> \<open>\<open>refresh\<close> of the page's polling hook\<close>
  | Clipboard string

text \<open>What a request settles to: a failure carries the text of the error.\<close>

datatype 'v settled = Done 'v | Failed string

section \<open>Queues\<close>

text \<open>\<open>Dre\<close>: the busy queue (\<open>i\<close>), and the toggles whose request has not settled.\<close>

record queue_page =
  qp_busy :: "string option"
  qp_pending :: "(nat \<times> string) list"
  qp_next :: nat

definition Dre_toggle :: "queue_info \<Rightarrow> queue_page \<Rightarrow> queue_page \<times> cmd list" where
  "Dre_toggle h s =
     (s\<lparr>qp_busy := Some (q_name h), qp_pending := qp_pending s @ [(qp_next s, q_name h)], qp_next := Suc (qp_next s)\<rparr>,
      [Send (qp_next s) (if q_paused h then n8_resumeQueue (q_name h) else n8_pauseQueue (q_name h))])"

definition Dre_settled :: "nat \<Rightarrow> json settled \<Rightarrow> queue_page \<Rightarrow> queue_page \<times> cmd list" where
  "Dre_settled r out s =
     (s\<lparr>qp_busy := None, qp_pending := filter (\<lambda>p. fst p \<noteq> r) (qp_pending s)\<rparr>,
      case out of Done v \<Rightarrow> [Reload] | Failed e \<Rightarrow> [])"

fun Nre_act :: "queue_act \<Rightarrow> queue_page \<Rightarrow> queue_page \<times> cmd list" where
  "Nre_act QRefresh s = (s, [Reload])"
| "Nre_act (Toggle h) s = Dre_toggle h s"

section \<open>The details of a job\<close>

definition detail_init :: detail_state where
  "detail_init = \<lparr>dt_job = None, dt_error = None, dt_open = (\<lambda>x. True)\<rparr>"

text \<open>\<open>y\<close>: load the job, for an instance of the component.\<close>

definition yH_load :: "nat \<Rightarrow> string \<Rightarrow> detail_run \<Rightarrow> detail_run \<times> cmd list" where
  "yH_load k e s =
     (s\<lparr>dn_pending := dn_pending s @ [(dn_next s, k, KLoad e)], dn_next := Suc (dn_next s)\<rparr>, [Send (dn_next s) (n8_job e)])"

text \<open>
  The page renders the component for a selected job, or not at all: a new instance starts empty, an
  instance that stays keeps its state, and the effect loads the job when its identifier changed.
\<close>

definition yH_render :: "string option \<Rightarrow> detail_run \<Rightarrow> detail_run \<times> cmd list" where
  "yH_render sel s =
     (if \<not> str_truthy sel then (s\<lparr>dn_mounted := None\<rparr>, [])
      else case dn_mounted s of
        None \<Rightarrow> yH_load (Suc (dn_inst s)) (the sel) (s\<lparr>dn_state := detail_init, dn_mounted := sel, dn_inst := Suc (dn_inst s)\<rparr>)
      | Some e \<Rightarrow> if sel = Some e then (s, []) else yH_load (dn_inst s) (the sel) (s\<lparr>dn_mounted := sel\<rparr>))"

fun Ub_act :: "json_act \<Rightarrow> bool \<Rightarrow> bool \<times> cmd list" where
  "Ub_act (CopyText t) op = (op, [Clipboard t])"
| "Ub_act (SetOpen b) op = (b, [])"

text \<open>The handlers \<open>g\<close> and \<open>b\<close> and the JSON views; \<open>onClose\<close> is the page's.\<close>

fun yH_act :: "detail_act \<Rightarrow> detail_run \<Rightarrow> detail_run \<times> cmd list" where
  "yH_act JClose s = (s, [])"
| "yH_act JRetry s = (case dn_mounted s of None \<Rightarrow> (s, []) | Some e \<Rightarrow>
     (s\<lparr>dn_pending := dn_pending s @ [(dn_next s, dn_inst s, KRetry e)], dn_next := Suc (dn_next s)\<rparr>, [Send (dn_next s) (n8_retryJob e)]))"
| "yH_act JCancel s = (case dn_mounted s of None \<Rightarrow> (s, []) | Some e \<Rightarrow>
     (s\<lparr>dn_pending := dn_pending s @ [(dn_next s, dn_inst s, KCancel e)], dn_next := Suc (dn_next s)\<rparr>, [Send (dn_next s) (n8_cancelJob e)]))"
| "yH_act (JView v a) s =
     (let (b, cs) = Ub_act a (dt_open (dn_state s) v) in
      (s\<lparr>dn_state := (dn_state s)\<lparr>dt_open := (dt_open (dn_state s))(v := b)\<rparr>\<rparr>, cs))"

definition yH_set :: "nat \<Rightarrow> (detail_state \<Rightarrow> detail_state) \<Rightarrow> detail_run \<Rightarrow> detail_run" where
  "yH_set k f s = (if dn_mounted s \<noteq> None \<and> k = dn_inst s then s\<lparr>dn_state := f (dn_state s)\<rparr> else s)"

definition yH_settled :: "nat \<Rightarrow> job_detail settled \<Rightarrow> detail_run \<Rightarrow> detail_run \<times> cmd list" where
  "yH_settled r out s =
     (let s' = s\<lparr>dn_pending := filter (\<lambda>p. fst p \<noteq> r) (dn_pending s)\<rparr> in
      case map_of (dn_pending s) r of
        None \<Rightarrow> (s, [])
      | Some (k, KLoad e) \<Rightarrow>
          (case out of Done d \<Rightarrow> (yH_set k (\<lambda>x. x\<lparr>dt_job := Some d\<rparr>) s', [])
           | Failed m \<Rightarrow> (yH_set k (\<lambda>x. x\<lparr>dt_error := Some m\<rparr>) s', []))
      | Some (k, KRetry e) \<Rightarrow> (case out of Done d \<Rightarrow> yH_load k e s' | Failed m \<Rightarrow> (s', []))
      | Some (k, KCancel e) \<Rightarrow> (case out of Done d \<Rightarrow> yH_load k e s' | Failed m \<Rightarrow> (s', [])))"

section \<open>Jobs\<close>

fun qre_act :: "filter_act \<Rightarrow> jobs_page \<Rightarrow> jobs_page" where
  "qre_act (FType t) s = s\<lparr>jp_text := t\<rparr>"
| "qre_act (FChange f) s = s\<lparr>jp_filters := f, jp_page := 1\<rparr>"
| "qre_act FClear s = s\<lparr>jp_text := [], jp_filters := [], jp_page := 1\<rparr>"

definition Bre_select :: "string option \<Rightarrow> jobs_page \<Rightarrow> jobs_page \<times> cmd list" where
  "Bre_select sel s = (let (d, cs) = yH_render sel (jp_detail s) in (s\<lparr>jp_selected := sel, jp_detail := d\<rparr>, cs))"

fun Bre_act :: "jobs_act \<Rightarrow> jobs_page \<Rightarrow> jobs_page \<times> cmd list" where
  "Bre_act JobsRefresh s = (s, [Reload])"
| "Bre_act (JobsFilter a) s = (qre_act a s, [])"
| "Bre_act (JobsSelect i) s = Bre_select (Some i) s"
| "Bre_act (JobsPage i) s = (s\<lparr>jp_page := i\<rparr>, [])"
| "Bre_act (JobsDetail JClose) s = Bre_select None s"
| "Bre_act (JobsDetail a) s = (let (d, cs) = yH_act a (jp_detail s) in (s\<lparr>jp_detail := d\<rparr>, cs))"

text \<open>The fetcher of the list, \<open>{...t, page: i, per_page: 25}\<close>.\<close>

definition Bre_fetch :: "jobs_page \<Rightarrow> call_args" where
  "Bre_fetch s = n8_jobs (obj_put ''per_page'' (FNum 25) (obj_put ''page'' (FNum (jp_page s)) (jp_filters s)))"

definition Bre_settled :: "nat \<Rightarrow> job_detail settled \<Rightarrow> jobs_page \<Rightarrow> jobs_page \<times> cmd list" where
  "Bre_settled r out s = (let (d, cs) = yH_settled r out (jp_detail s) in (s\<lparr>jp_detail := d\<rparr>, cs))"

definition detail_run_init :: detail_run where
  "detail_run_init = \<lparr>dn_state = detail_init, dn_mounted = None, dn_inst = 0, dn_pending = [], dn_next = 0\<rparr>"

definition Bre_init :: jobs_page where
  "Bre_init = \<lparr>jp_filters = [], jp_page = 1, jp_selected = None, jp_text = [], jp_detail = detail_run_init\<rparr>"

section \<open>Workers\<close>

text \<open>\<open>Lre\<close>: the question that is open (\<open>i\<close>), the dialog's busy flag, the confirmed requests.\<close>

record worker_page =
  wp_ask :: "(string \<times> worker_action) option"
  wp_processing :: bool
  wp_pending :: "nat list"
  wp_next :: nat

fun Lre_act :: "worker_act \<Rightarrow> worker_page \<Rightarrow> worker_page \<times> cmd list" where
  "Lre_act WRefresh s = (s, [Reload])"
| "Lre_act (WAsk i a) s = (s\<lparr>wp_ask := Some (i, a)\<rparr>, [])"
| "Lre_act (WDialog DStop) s = (s, [])"
| "Lre_act (WDialog DCancel) s = (s\<lparr>wp_ask := None\<rparr>, [])"
| "Lre_act (WDialog DConfirm) s = (case wp_ask s of
     None \<Rightarrow> (s\<lparr>wp_processing := False\<rparr>, [])
   | Some (i, a) \<Rightarrow>
      (s\<lparr>wp_processing := True, wp_pending := wp_pending s @ [wp_next s], wp_next := Suc (wp_next s)\<rparr>,
       [Send (wp_next s) (case a of Quiet \<Rightarrow> n8_quietWorker i | Deregister \<Rightarrow> n8_deregisterWorker i)]))"

definition Lre_settled :: "nat \<Rightarrow> json settled \<Rightarrow> worker_page \<Rightarrow> worker_page \<times> cmd list" where
  "Lre_settled r out s =
     (let s' = s\<lparr>wp_pending := filter (\<lambda>x. x \<noteq> r) (wp_pending s), wp_processing := False\<rparr> in
      case out of Done v \<Rightarrow> (s'\<lparr>wp_ask := None\<rparr>, [Reload]) | Failed e \<Rightarrow> (s', []))"

definition Lre_init :: worker_page where
  "Lre_init = \<lparr>wp_ask = None, wp_processing = False, wp_pending = [], wp_next = 0\<rparr>"

section \<open>Dead letters\<close>

datatype dead_cont = KRow | KBulk

record dead_run = dead_page +
  dr_pending :: "(nat \<times> dead_cont) list"
  dr_next :: nat

definition dr_send :: "dead_cont \<Rightarrow> call_args \<Rightarrow> dead_run \<Rightarrow> dead_run \<times> cmd list" where
  "dr_send k c s = (s\<lparr>dr_pending := dr_pending s @ [(dr_next s, k)], dr_next := Suc (dr_next s)\<rparr>, [Send (dr_next s) c])"

definition Pre_select :: "string option \<Rightarrow> dead_run \<Rightarrow> dead_run \<times> cmd list" where
  "Pre_select sel s = (let (d, cs) = yH_render sel (dp_detail s) in (s\<lparr>dp_selected := sel, dp_detail := d\<rparr>, cs))"

fun Pre_act :: "dead_act \<Rightarrow> dead_run \<Rightarrow> dead_run \<times> cmd list" where
  "Pre_act DlRefresh s = (s, [Reload])"
| "Pre_act (DlSelect i) s = Pre_select (Some i) s"
| "Pre_act (DlRetry i) s = dr_send KRow (n8_retryDeadLetter i) (s\<lparr>dp_busy := Some i\<rparr>)"
| "Pre_act (DlDelete i) s = dr_send KRow (n8_deleteDeadLetter i) (s\<lparr>dp_busy := Some i\<rparr>)"
| "Pre_act DlAskBulk s = (s\<lparr>dp_ask := True\<rparr>, [])"
| "Pre_act (DlDialog DStop) s = (s, [])"
| "Pre_act (DlDialog DCancel) s = (s\<lparr>dp_ask := False\<rparr>, [])"
| "Pre_act (DlDialog DConfirm) s = dr_send KBulk (n8_bulkRetryDeadLetter (JObj [])) (s\<lparr>dp_processing := True\<rparr>)"
| "Pre_act (DlPage i) s = (s\<lparr>dp_page := i\<rparr>, [])"
| "Pre_act (DlDetail JClose) s = Pre_select None s"
| "Pre_act (DlDetail a) s = (let (d, cs) = yH_act a (dp_detail s) in (s\<lparr>dp_detail := d\<rparr>, cs))"

definition Pre_settled :: "nat \<Rightarrow> json settled \<Rightarrow> dead_run \<Rightarrow> dead_run \<times> cmd list" where
  "Pre_settled r out s =
     (let s' = s\<lparr>dr_pending := filter (\<lambda>p. fst p \<noteq> r) (dr_pending s)\<rparr> in
      case (map_of (dr_pending s) r, out) of
        (None, _) \<Rightarrow> (s, [])
      | (Some KRow, Done v) \<Rightarrow> (s'\<lparr>dp_busy := None\<rparr>, [Reload])
      | (Some KRow, Failed e) \<Rightarrow> (s'\<lparr>dp_busy := None\<rparr>, [])
      | (Some KBulk, Done v) \<Rightarrow> (s'\<lparr>dp_ask := False, dp_processing := False\<rparr>, [Reload])
      | (Some KBulk, Failed e) \<Rightarrow> (s'\<lparr>dp_processing := False\<rparr>, []))"

definition Pre_fetch :: "dead_run \<Rightarrow> call_args" where
  "Pre_fetch s = n8_deadLetter [(''page'', FNum (dp_page s)), (''per_page'', FNum 25)]"

definition Pre_init :: dead_run where
  "Pre_init = \<lparr>dp_page = 1, dp_selected = None, dp_ask = False, dp_busy = None, dp_processing = False,
     dp_detail = detail_run_init, dr_pending = [], dr_next = 0\<rparr>"

section \<open>The frame\<close>

text \<open>\<open>qP\<close>: the state and, after its effect, the class of the document.\<close>

record frame =
  fr_dark :: bool
  fr_document_dark :: bool
  fr_manifest :: "manifest option"

definition qP_effect :: "frame \<Rightarrow> frame" where
  "qP_effect s = s\<lparr>fr_document_dark := fr_dark s\<rparr>"

definition qP_mount :: "bool \<Rightarrow> frame" where
  "qP_mount dark = qP_effect \<lparr>fr_dark = dark, fr_document_dark = dark, fr_manifest = None\<rparr>"

fun qP_act :: "layout_act \<Rightarrow> frame \<Rightarrow> frame" where
  "qP_act (SetDark b) s = qP_effect (s\<lparr>fr_dark := b\<rparr>)"

text \<open>\<open>Gre\<close>: the manifest is asked for once; a failure is ignored.\<close>

definition Gre_mount :: cmd where
  "Gre_mount = Send 0 n8_manifest"

definition Gre_settled :: "manifest settled \<Rightarrow> frame \<Rightarrow> frame" where
  "Gre_settled out s = (case out of Done m \<Rightarrow> s\<lparr>fr_manifest := Some m\<rparr> | Failed e \<Rightarrow> s)"

section \<open>Buttons\<close>

lemma do_of_map: "do_of (map_option (map_pval f) x) = map f (do_of x)"
  by (cases x rule: do_of.cases) auto

lemma is_true_map: "is_true (map_option (map_pval f) x) = is_true x"
  by (cases x rule: is_true.cases) auto

lemma map_of_props: "map_of (map (map_prod id g) ps) k = map_option g (map_of ps k)"
  by (induction ps) auto

lemma text_of_map [simp]: "text_of (map_node f n) = text_of n"
  by (induction n rule: text_of.induct) (simp_all add: comp_def cong: map_cong)

lemma buttons_map [simp]: "buttons (map_node f n) = map (\<lambda>(l, d, a). (l, d, map f a)) (buttons n)"
  by (induction n rule: buttons.induct)
    (simp_all add: comp_def map_of_props do_of_map is_true_map map_concat cong: map_cong)

lemma buttons_plain [simp]:
  "buttons (M_StateBadge e) = []" "buttons (Nm_TimelineRow h l t) = []" "buttons (Mm_StatCard a b c d) = []"
  by (simp_all add: M_StateBadge_def Nm_TimelineRow_def Mm_StatCard_def Let_def split: option.splits)

lemma concat_rows: "(\<And>x. x \<in> set xs \<Longrightarrow> f x = [g x]) \<Longrightarrow> concat (map f xs) = map g xs"
  by (induction xs) auto

lemma concat_empty [simp]: "concat (map (\<lambda>x. []) xs) = []"
  by (induction xs) auto

lemma queue_buttons:
  "buttons (Dre_QueueTable e i) =
     map (\<lambda>h. (if i = Some (q_name h) then [CHR 0xE2, CHR 0x80, CHR 0xA6] else if q_paused h then ''Resume'' else ''Pause'',
       i = Some (q_name h), [Toggle h])) e"
  by (auto simp: Dre_QueueTable_def comp_def intro!: concat_rows)

lemma json_buttons: "buttons (Ub_JsonView j t) = [(''Copy'', False, [CopyText (stringify2 [] j)]), (if t then ''Collapse'' else ''Expand'', False, [SetOpen (\<not> t)])]"
  by (simp add: Ub_JsonView_def)

section \<open>Queues: what the buttons do\<close>

text \<open>
  C16. A queue's button does what it says: while no request is out for the queue it is enabled and
  its click sends one request, which asks the backend to resume the queue when it is shown as paused and
  to pause it otherwise, at an address the backend serves; from then on the button of that queue, and
  only that one, is disabled.
\<close>

theorem queue_button_toggles:
  assumes "h \<in> set qs" "qp_busy s \<noteq> Some (q_name h)" "path_id (q_name h)"
  shows "Toggle h \<in> set (clicks (if q_paused h then ''Resume'' else ''Pause'') (Nre_Queues (Some qs) (qp_busy s))) \<and>
    (\<exists>s' c. Nre_act (Toggle h) s = (s', [Send (qp_next s) c]) \<and> served c \<and>
       c = (if q_paused h then n8_resumeQueue (q_name h) else n8_pauseQueue (q_name h)) \<and>
       (\<forall>(l, d, a) \<in> set (buttons (Dre_QueueTable qs (qp_busy s'))). \<forall>g. a = [Toggle g] \<longrightarrow> (d \<longleftrightarrow> q_name g = q_name h)))"
proof
  let ?row = "(if q_paused h then ''Resume'' else ''Pause'', False, [Toggle h])"
  have "?row \<in> set (buttons (Nre_Queues (Some qs) (qp_busy s)))"
    using assms by (auto simp: Nre_Queues_def queue_buttons)
  then show "Toggle h \<in> set (clicks (if q_paused h then ''Resume'' else ''Pause'') (Nre_Queues (Some qs) (qp_busy s)))"
    unfolding clicks_def by force
next
  show "\<exists>s' c. Nre_act (Toggle h) s = (s', [Send (qp_next s) c]) \<and> served c \<and>
       c = (if q_paused h then n8_resumeQueue (q_name h) else n8_pauseQueue (q_name h)) \<and>
       (\<forall>(l, d, a) \<in> set (buttons (Dre_QueueTable qs (qp_busy s'))). \<forall>g. a = [Toggle g] \<longrightarrow> (d \<longleftrightarrow> q_name g = q_name h))"
    using served_id_calls [OF assms(3)] by (auto simp: Dre_toggle_def queue_buttons)
qed

definition demo_queue :: "string \<Rightarrow> bool \<Rightarrow> queue_info" where
  "demo_queue n b = \<lparr>q_name = n, q_counts = \<lparr>available = 1, active = 0, scheduled = 0, retryable = 0, completed = 0, discarded = 0\<rparr>,
     q_paused = b, q_throughput = None\<rparr>"

theorem queue_button_toggles_witness:
  "snd (Nre_act (Toggle (demo_queue ''mail'' True)) \<lparr>qp_busy = None, qp_pending = [], qp_next = 3\<rparr>) =
     [Send 3 (n8_resumeQueue ''mail'')] \<and> served (n8_resumeQueue ''mail'')"
  using queue_button_toggles [of "demo_queue ''mail'' True" "[demo_queue ''mail'' True]" "\<lparr>qp_busy = None, qp_pending = [], qp_next = 3\<rparr>"]
  by (auto simp: demo_queue_def path_id_def Dre_toggle_def)

text \<open>
  The busy mark is one slot for the whole table: with two toggles under way, the end of the first
  enables the button of the other queue, whose request is still out.
\<close>

lemma queue_busy_slot:
  assumes "q_name g \<noteq> q_name h"
  shows "let s1 = fst (Nre_act (Toggle g) s); s2 = fst (Nre_act (Toggle h) s1); s3 = fst (Dre_settled (qp_next s) out s2) in
    (qp_next s1, q_name h) \<in> set (qp_pending s3) \<and>
    (\<forall>(l, d, a) \<in> set (buttons (Dre_QueueTable qs (qp_busy s3))). \<not> d)"
  by (auto simp: Dre_toggle_def Dre_settled_def queue_buttons Let_def)

section \<open>The details of a job: what is offered\<close>

lemma detail_buttons:
  "buttons (yH_JobDetail h None (Some d) op) =
     [([CHR 0xC3, CHR 0x97], False, [JClose])] @
     (if jd_state d \<in> {''discarded'', ''cancelled''} then [(''Retry'', False, [JRetry])] else []) @
     (if jd_state d \<in> {''available'', ''scheduled'', ''pending'', ''retryable''} then [(''Cancel'', False, [JCancel])] else []) @
     concat (map (\<lambda>(v, j). map (\<lambda>(l, b, a). (l, b, map (JView v) a)) (buttons (Ub_JsonView j (op v))))
       ([(VArgs, jd_args d)] @ (if jd_meta d \<noteq> [] then [(VMeta, JObj (jd_meta d))] else []) @
        (if jd_result d \<noteq> None \<and> jd_result d \<noteq> Some JNull then [(VResult, the (jd_result d))] else []) @
        (if json_truthy (jd_retry_policy d) then [(VPolicy, the (jd_retry_policy d))] else [])))"
  by (simp add: yH_JobDetail_def Let_def comp_def if_distrib [of buttons] if_distrib [of "\<lambda>x. concat (map _ x)"] case_prod_beta
      cong: if_cong split: option.splits)

definition demo_job :: job_detail where
  "demo_job = \<lparr>jd_id = ''j1'', jd_type = ''mail'', jd_state = ''cancelled'', jd_attempt = 1, jd_max_attempts = None, jd_created_at = [],
     jd_metadata = None, jd_args = JArr [], jd_meta = [], jd_errors = [], jd_result = None, jd_retry_policy = None\<rparr>"

definition demo_host :: host where
  "demo_host = \<lparr>now = 0, parse_date = Map.empty, locale_date = id, locale_time = id\<rparr>"

text \<open>Everything that happens to the panel.\<close>

datatype detail_event = ESelect "string option" | EAct detail_act | ESettled nat "job_detail settled"

fun detail_step :: "detail_event \<Rightarrow> detail_run \<Rightarrow> detail_run \<times> cmd list" where
  "detail_step (ESelect sel) s = yH_render sel s"
| "detail_step (EAct a) s = yH_act a s"
| "detail_step (ESettled r out) s = yH_settled r out s"

fun detail_runs :: "detail_event list \<Rightarrow> detail_run \<Rightarrow> detail_run" where
  "detail_runs [] s = s"
| "detail_runs (e # es) s = detail_runs es (fst (detail_step e s))"

lemmas detail_defs = yH_render_def yH_load_def yH_set_def yH_settled_def

lemma detail_step_error:
  assumes "dt_error (dn_state s) \<noteq> None" "dn_mounted s \<noteq> None" "\<And>sel. e = ESelect sel \<Longrightarrow> str_truthy sel"
  shows "dt_error (dn_state (fst (detail_step e s))) \<noteq> None \<and> dn_mounted (fst (detail_step e s)) \<noteq> None"
proof (cases e)
  case (ESelect sel)
  then show ?thesis using assms by (auto simp: detail_defs str_truthy_def)
next
  case (EAct a)
  then show ?thesis using assms by (cases a) (auto simp: Let_def split: prod.splits)
next
  case (ESettled r out)
  then show ?thesis using assms
    by (auto simp: detail_defs Let_def split: option.splits prod.splits detail_cont.splits settled.splits)
qed

text \<open>
  C31. An error in the panel of a job stays: once loading a job failed, whatever else is selected,
  clicked and answered, the panel shows only an error, without any button, until it is taken off the
  page.
\<close>

theorem job_error_sticks:
  assumes "dt_error (dn_state s) \<noteq> None" "dn_mounted s \<noteq> None" "\<forall>sel. ESelect sel \<in> set es \<longrightarrow> str_truthy sel"
  shows "let s' = detail_runs es s in
    dt_error (dn_state s') \<noteq> None \<and> buttons (yH_JobDetail h (dt_error (dn_state s')) (dt_job (dn_state s')) (dt_open (dn_state s'))) = []"
proof -
  have "dt_error (dn_state (detail_runs es s)) \<noteq> None"
    using assms
  proof (induction es arbitrary: s)
    case (Cons e es)
    then have "dt_error (dn_state (fst (detail_step e s))) \<noteq> None \<and> dn_mounted (fst (detail_step e s)) \<noteq> None"
      by (intro detail_step_error) auto
    then show ?case using Cons by simp
  qed simp
  then show ?thesis by (auto simp: yH_JobDetail_def Let_def)
qed

theorem job_error_sticks_witness:
  "dt_error (dn_state (detail_runs [ESettled 0 (Failed ''gone''), ESelect (Some ''b''), ESettled 1 (Done demo_job)]
     (fst (yH_render (Some ''a'') detail_run_init)))) \<noteq> None"
  using job_error_sticks [of "detail_runs [ESettled 0 (Failed ''gone'')] (fst (yH_render (Some ''a'') detail_run_init))"
      "[ESelect (Some ''b''), ESettled 1 (Done demo_job)]"]
  by (simp add: detail_defs detail_run_init_def detail_init_def str_truthy_def Let_def)

section \<open>The details of a job: which job is shown\<close>

text \<open>
  The backend answers a load with the job that was asked for.
\<close>

fun honest :: "detail_event \<Rightarrow> detail_run \<Rightarrow> bool" where
  "honest (ESettled r (Done d)) s \<longleftrightarrow>
     (case map_of (dn_pending s) r of Some (k, KLoad e) \<Rightarrow> jd_id d = e | _ \<Rightarrow> True)"
| "honest e s \<longleftrightarrow> True"

text \<open>
  The panel goes directly from one job to another only when it has nothing outstanding; it may be closed
  and opened at any time.
\<close>

fun calm :: "detail_event \<Rightarrow> detail_run \<Rightarrow> bool" where
  "calm (ESelect sel) s \<longleftrightarrow> dn_mounted s = None \<or> \<not> str_truthy sel \<or> sel = dn_mounted s \<or>
     (\<forall>(r, k, c) \<in> set (dn_pending s). k \<noteq> dn_inst s)"
| "calm e s \<longleftrightarrow> True"

fun calm_run :: "detail_event list \<Rightarrow> detail_run \<Rightarrow> bool" where
  "calm_run [] s \<longleftrightarrow> True"
| "calm_run (e # es) s \<longleftrightarrow> honest e s \<and> calm e s \<and> calm_run es (fst (detail_step e s))"

definition loading :: "detail_run \<Rightarrow> bool" where
  "loading s \<longleftrightarrow> (\<exists>(r, k, c) \<in> set (dn_pending s). k = dn_inst s \<and> is_KLoad c)"

text \<open>What is outstanding is numbered, and for the open panel it is about its job, which is shown once loaded.\<close>

definition pending_ok :: "detail_run \<Rightarrow> bool" where
  "pending_ok s \<longleftrightarrow> distinct (map fst (dn_pending s)) \<and>
     (\<forall>(r, k, c) \<in> set (dn_pending s). r < dn_next s \<and> k \<le> dn_inst s \<and>
        (\<forall>e. dn_mounted s = Some e \<and> k = dn_inst s \<longrightarrow> cont_job c = e))"

definition panel_ok :: "detail_run \<Rightarrow> bool" where
  "panel_ok s \<longleftrightarrow> pending_ok s \<and>
     (dn_mounted s \<noteq> None \<and> \<not> loading s \<and> dt_error (dn_state s) = None \<longrightarrow>
        map_option jd_id (dt_job (dn_state s)) = dn_mounted s)"

lemma pending_push:
  "pending_ok s \<Longrightarrow> k \<le> dn_inst s \<Longrightarrow> (\<And>e. dn_mounted s = Some e \<Longrightarrow> k = dn_inst s \<Longrightarrow> cont_job c = e) \<Longrightarrow>
   pending_ok (s\<lparr>dn_pending := dn_pending s @ [(dn_next s, k, c)], dn_next := Suc (dn_next s)\<rparr>)"
  by (fastforce simp: pending_ok_def)

lemma pending_drop:
  "pending_ok s \<Longrightarrow> pending_ok (s\<lparr>dn_pending := filter (\<lambda>p. fst p \<noteq> r) (dn_pending s)\<rparr>)"
  by (auto simp: pending_ok_def distinct_map_filter)

lemma pending_set [simp]: "pending_ok (yH_set k f s) = pending_ok s"
  by (simp add: yH_set_def pending_ok_def)

lemma pending_state [simp]: "pending_ok (s\<lparr>dn_state := x\<rparr>) = pending_ok s"
  by (simp add: pending_ok_def)

lemma loading_drop:
  assumes "pending_ok s" "map_of (dn_pending s) r = Some (k, c)" "\<not> (k = dn_inst s \<and> is_KLoad c)"
  shows "loading (s\<lparr>dn_pending := filter (\<lambda>p. fst p \<noteq> r) (dn_pending s)\<rparr>) = loading s"
proof -
  have "(r, k', c') \<in> set (dn_pending s) \<Longrightarrow> k' = k \<and> c' = c" for k' c'
    using assms(1,2) map_of_is_SomeI [of "dn_pending s" r "(k', c')"] by (simp add: pending_ok_def)
  then show ?thesis using assms(3) by (force simp: loading_def)
qed

lemma panel_load:
  assumes "pending_ok s" "k \<le> dn_inst s" "\<And>e'. dn_mounted s = Some e' \<Longrightarrow> k = dn_inst s \<Longrightarrow> e = e'"
    and "k \<noteq> dn_inst s \<Longrightarrow> panel_ok s"
  shows "panel_ok (fst (yH_load k e s))"
  using pending_push [OF assms(1,2), of "KLoad e"] assms(2-4)
  by (auto simp: panel_ok_def yH_load_def loading_def)

lemma panel_select:
  assumes "panel_ok s" "calm (ESelect sel) s"
  shows "panel_ok (fst (yH_render sel s))"
proof (cases "str_truthy sel")
  case False
  then show ?thesis using assms(1) by (auto simp: yH_render_def panel_ok_def pending_ok_def loading_def)
next
  case True
  then obtain e where e: "sel = Some e" by (auto simp: str_truthy_def)
  show ?thesis
  proof (cases "dn_mounted s")
    case None
    let ?s = "s\<lparr>dn_state := detail_init, dn_mounted := sel, dn_inst := Suc (dn_inst s)\<rparr>"
    have "pending_ok ?s" using assms(1) by (fastforce simp: panel_ok_def pending_ok_def)
    then have "panel_ok (fst (yH_load (Suc (dn_inst s)) e ?s))" using e by (intro panel_load) auto
    then show ?thesis using True None e by (simp add: yH_render_def)
  next
    case (Some a)
    show ?thesis
    proof (cases "sel = Some a")
      case False
      let ?s = "s\<lparr>dn_mounted := sel\<rparr>"
      have "\<forall>(r, k, c) \<in> set (dn_pending s). k \<noteq> dn_inst s" using assms(2) True Some False by simp
      then have "pending_ok ?s" using assms(1) by (fastforce simp: panel_ok_def pending_ok_def)
      then have "panel_ok (fst (yH_load (dn_inst s) e ?s))" using e by (intro panel_load) auto
      then show ?thesis using True Some False e by (simp add: yH_render_def)
    qed (use assms(1) True Some in \<open>simp add: yH_render_def\<close>)
  qed
qed

lemma panel_push:
  assumes "panel_ok s" "dn_mounted s = Some (cont_job c)" "\<not> is_KLoad c"
  shows "panel_ok (s\<lparr>dn_pending := dn_pending s @ [(dn_next s, dn_inst s, c)], dn_next := Suc (dn_next s)\<rparr>)"
  using assms pending_push [of s "dn_inst s" c] by (auto simp: panel_ok_def loading_def)

lemma panel_act: "panel_ok s \<Longrightarrow> panel_ok (fst (yH_act a s))"
proof (cases a)
  case JRetry
  moreover assume "panel_ok s"
  ultimately show ?thesis using panel_push [of s "KRetry (the (dn_mounted s))"] by (auto split: option.splits)
next
  case JCancel
  moreover assume "panel_ok s"
  ultimately show ?thesis using panel_push [of s "KCancel (the (dn_mounted s))"] by (auto split: option.splits)
qed (simp_all add: panel_ok_def loading_def split: prod.splits)

lemma panel_settled:
  assumes "panel_ok s" "honest (ESettled r out) s"
  shows "panel_ok (fst (yH_settled r out s))"
proof (cases "map_of (dn_pending s) r")
  case None
  then show ?thesis using assms(1) by (simp add: yH_settled_def Let_def)
next
  case (Some kc)
  obtain k c where kc: "kc = (k, c)" by (cases kc) auto
  let ?s = "s\<lparr>dn_pending := filter (\<lambda>p. fst p \<noteq> r) (dn_pending s)\<rparr>"
  have p: "pending_ok s" using assms(1) by (simp add: panel_ok_def)
  have s: "pending_ok ?s" using p by (rule pending_drop)
  have "(r, k, c) \<in> set (dn_pending s)" using Some kc by (simp add: map_of_SomeD)
  then have k: "k \<le> dn_inst s" "\<And>e. dn_mounted s = Some e \<Longrightarrow> k = dn_inst s \<Longrightarrow> cont_job c = e"
    using p by (auto simp: pending_ok_def)
  have keep: "panel_ok ?s" if "\<not> (k = dn_inst s \<and> is_KLoad c)"
    using loading_drop [OF p _ that] Some kc assms(1) s by (simp add: panel_ok_def)
  have load: "panel_ok (fst (yH_load k (cont_job c) ?s))" if "\<not> is_KLoad c"
    using keep that k s by (intro panel_load) auto
  show ?thesis
  proof (cases c)
    case (KLoad e)
    have "jd_id d = e" if "out = Done d" for d using assms(2) that Some kc KLoad by simp
    then have "panel_ok (yH_set k (\<lambda>x. x\<lparr>dt_job := Some d\<rparr>) ?s)" if "out = Done d" for d
      using keep k(2) s that KLoad by (cases "k = dn_inst s") (auto simp: panel_ok_def yH_set_def loading_def pending_ok_def)
    moreover have "panel_ok (yH_set k (\<lambda>x. x\<lparr>dt_error := Some m\<rparr>) ?s)" for m
      using keep s KLoad by (cases "k = dn_inst s") (auto simp: panel_ok_def yH_set_def loading_def pending_ok_def)
    ultimately show ?thesis using Some kc KLoad by (cases out) (simp_all add: yH_settled_def Let_def)
  next
    case (KRetry e)
    then show ?thesis using Some kc keep load by (cases out) (simp_all add: yH_settled_def Let_def)
  next
    case (KCancel e)
    then show ?thesis using Some kc keep load by (cases out) (simp_all add: yH_settled_def Let_def)
  qed
qed

lemma panel_runs: "panel_ok s \<Longrightarrow> calm_run es s \<Longrightarrow> panel_ok (detail_runs es s)"
proof (induction es arbitrary: s)
  case (Cons e es)
  have "panel_ok (fst (detail_step e s))"
    using Cons.prems by (cases e) (auto simp: panel_select panel_act panel_settled simp del: calm.simps)
  then show ?case using Cons by simp
qed simp

text \<open>
  C30. The panel of a job acts on the job it shows.  As long as the panel goes from one job directly to
  another only with nothing outstanding, and loads are answered with the job asked for: once an open
  panel has loaded and met no error, it shows the job it is open for, offers to retry it exactly when it
  is discarded or cancelled and to cancel it exactly when it is available, scheduled, pending or
  retryable, and a click on either sends that one request for the job shown.
\<close>

theorem job_actions_offered:
  assumes "calm_run es detail_run_init" "s = detail_runs es detail_run_init"
    and "dn_mounted s = Some e" "\<not> loading s" "dt_error (dn_state s) = None"
  shows "\<exists>d. dt_job (dn_state s) = Some d \<and> jd_id d = e \<and>
    (let panel = yH_JobDetail h (dt_error (dn_state s)) (dt_job (dn_state s)) (dt_open (dn_state s)) in
      clicks ''Retry'' panel = (if jd_state d \<in> {''discarded'', ''cancelled''} then [JRetry] else []) \<and>
      clicks ''Cancel'' panel = (if jd_state d \<in> {''available'', ''scheduled'', ''pending'', ''retryable''} then [JCancel] else []) \<and>
      (\<forall>a \<in> set (clicks ''Retry'' panel). snd (yH_act a s) = [Send (dn_next s) (n8_retryJob (jd_id d))]) \<and>
      (\<forall>a \<in> set (clicks ''Cancel'' panel). snd (yH_act a s) = [Send (dn_next s) (n8_cancelJob (jd_id d))]))"
proof -
  have "panel_ok detail_run_init" by (simp add: panel_ok_def pending_ok_def detail_run_init_def)
  from panel_runs [OF this assms(1)] have "map_option jd_id (dt_job (dn_state s)) = Some e"
    using assms(2-5) by (simp add: panel_ok_def)
  then obtain d where d: "dt_job (dn_state s) = Some d" "jd_id d = e" by auto
  then show ?thesis using assms(3,5) by (auto simp: clicks_def detail_buttons json_buttons Let_def)
qed

theorem job_actions_offered_witness:
  "\<exists>s. s = detail_runs [ESelect (Some ''j1''), ESettled 0 (Done demo_job)] detail_run_init \<and>
     clicks ''Retry'' (yH_JobDetail demo_host (dt_error (dn_state s)) (dt_job (dn_state s)) (dt_open (dn_state s))) = [JRetry] \<and>
     snd (yH_act JRetry s) = [Send 1 (n8_retryJob ''j1'')]"
proof -
  let ?es = "[ESelect (Some ''j1''), ESettled 0 (Done demo_job)]"
  let ?s = "detail_runs ?es detail_run_init"
  have "calm_run ?es detail_run_init" "dn_mounted ?s = Some ''j1''" "\<not> loading ?s" "dt_error (dn_state ?s) = None"
    "dt_job (dn_state ?s) = Some demo_job" "dn_next ?s = 1"
    by (simp_all add: detail_defs detail_run_init_def detail_init_def str_truthy_def loading_def demo_job_def Let_def)
  from job_actions_offered [OF this(1) refl this(2-4), of demo_host] this(5,6) show ?thesis
    by (auto simp: Let_def demo_job_def)
qed

text \<open>
  Without the condition a late answer shows one job in the panel that is open for another: the load of
  \<open>j1\<close> is answered after the panel has gone on to \<open>j2\<close> and shown it.  Retry is then offered for the state
  of \<open>j1\<close> and asks for a retry of \<open>j2\<close>.
\<close>

lemma stale_panel_acts_on_other:
  "let s = detail_runs [ESelect (Some ''j1''), ESelect (Some ''j2''),
       ESettled 1 (Done (demo_job\<lparr>jd_id := ''j2'', jd_state := ''active''\<rparr>)), ESettled 0 (Done demo_job)] detail_run_init in
    \<not> loading s \<and> dn_mounted s = Some ''j2'' \<and> map_option jd_id (dt_job (dn_state s)) = Some ''j1'' \<and>
    clicks ''Retry'' (yH_JobDetail h (dt_error (dn_state s)) (dt_job (dn_state s)) (dt_open (dn_state s))) = [JRetry] \<and>
    snd (yH_act JRetry s) = [Send 2 (n8_retryJob ''j2'')]"
  by (simp add: detail_defs detail_run_init_def detail_init_def str_truthy_def loading_def demo_job_def Let_def
      clicks_def detail_buttons json_buttons)

section \<open>Pagination\<close>

lemma le_div_int: "0 < t \<Longrightarrow> k \<le> b div t \<longleftrightarrow> k * t \<le> b" for k b t :: int
proof
  assume t: "0 < t" and k: "k \<le> b div t"
  have "k * t \<le> b div t * t" using t k by (intro mult_right_mono) auto
  moreover have "b div t * t + b mod t = b" by (rule div_mult_mod_eq)
  moreover have "0 \<le> b mod t" using t by simp
  ultimately show "k * t \<le> b" by linarith
next
  assume t: "0 < t" and k: "k * t \<le> b"
  then have "k * t div t \<le> b div t" by (intro zdiv_mono1)
  then show "k \<le> b div t" using t by simp
qed

lemma mH_pages_exact:
  assumes "0 < t" "0 \<le> a" "a < 2 ^ 53"
  shows "mH_pages a t = Fin (of_int (max 1 ((a + t - 1) div t)))"
proof -
  define c where "c = (a + t - 1) div t"
  define x :: rat where "x = of_int a / of_int t"
  have tr: "(of_int t :: rat) > 0" using assms by simp
  have "t * c + (a + t - 1) mod t = a + t - 1" unfolding c_def by (rule mult_div_mod_eq)
  moreover have "0 \<le> (a + t - 1) mod t" "(a + t - 1) mod t < t" using assms by simp_all
  ultimately have c: "t * (c - 1) + 1 \<le> a" "a \<le> t * c" by (simp_all add: algebra_simps)
  have ca: "c \<le> a \<or> c \<le> 1"
  proof (rule ccontr)
    assume "\<not> (c \<le> a \<or> c \<le> 1)"
    then have ac: "a < c" "0 \<le> c - 1" by auto
    have "1 * (c - 1) \<le> t * (c - 1)" using assms ac(2) by (intro mult_right_mono) auto
    then have "1 * (c - 1) + 1 \<le> t * (c - 1) + 1" by (rule add_right_mono)
    also note c(1)
    finally show False using ac(1) by simp
  qed
  have "(of_int (t * (c - 1) + 1) :: rat) \<le> of_int a" using c(1) by (simp only: of_int_le_iff)
  then have low: "of_int (c - 1) * of_int t + 1 \<le> (of_int a :: rat)" by (simp add: mult.commute)
  have "(of_int a :: rat) \<le> of_int (t * c)" using c(2) by (simp only: of_int_le_iff)
  then have up: "x \<le> of_int c" using tr by (simp add: x_def pos_divide_le_eq mult.commute)
  have "of_int (c - 1) + 1 / of_int t \<le> x"
    using low tr by (simp add: x_def pos_le_divide_eq distrib_right)
  moreover have "x / 2 ^ 53 < 1 / of_int t"
  proof -
    have "(of_int a :: rat) < of_int (2 ^ 53)" using assms(3) by (simp only: of_int_less_iff)
    then show ?thesis using tr by (simp add: x_def divide_simps)
  qed
  ultimately have gap: "of_int (c - 1) < x - x / 2 ^ 53" by linarith
  have x0: "0 \<le> x" using assms tr by (simp add: x_def)
  have "0 \<le> x / 2 ^ 53" using x0 by simp
  then have "of_int (c - 1) < x" using gap by linarith
  then have ce: "\<lceil>x\<rceil> = c" using up by (simp add: ceiling_eq_iff)
  have "\<lceil>fl x\<rceil> = c" using ceiling_fl [OF x0] gap ca assms by (auto simp: ce)
  then have "\<lceil>fl (of_int a / of_int t)\<rceil> = c" by (simp add: x_def)
  then show ?thesis using assms by (simp add: mH_pages_def js_div_def c_def [symmetric] max_def)
qed

lemma pagination_buttons:
  "buttons (mH_controls e t a c) = [(''Prev'', e \<le> 1, [e - 1]), (''Next'', num_ge e c, [e + 1])]"
  by (simp add: mH_controls_def)

lemma mH_null: "mH_controls e t a c \<noteq> Null"
  by (simp add: mH_controls_def)

lemma pagination_texts:
  "texts (mH_controls e t a (Fin (of_int c))) =
     [''Showing '', int_str ((e - 1) * t + 1), [CHR 0xE2, CHR 0x80, CHR 0x93], int_str (min (e * t) a), '' of '', int_str a,
      ''Prev'', int_str e, '' / '', int_str c, ''Next'']"
  by (simp add: mH_controls_def)

text \<open>
  C32. Page controls: for \<open>a\<close> entries, \<open>t\<close> to a page, there are \<open>\<lceil>a / t\<rceil>\<close> pages; the controls are left
  out exactly when one page holds everything.  On each of the pages they read ``Showing first--last of
  a'' and the page out of the pages, where the ranges of the pages follow one another: the first page
  begins at 1, every page is full up to the last, which ends at \<open>a\<close> and is not empty.  Going back is possible
  exactly from the pages after the first and leads to the one before, going on exactly from those before
  the last and leads to the next.
\<close>

theorem pagination_in_range:
  assumes "0 < t" "0 \<le> a" "a < 2 ^ 53"
  shows "(mH_Pagination e t a = Null \<longleftrightarrow> a \<le> t) \<and>
    (t < a \<and> 1 \<le> e \<and> e \<le> (a + t - 1) div t \<longrightarrow>
       (\<exists>first last. texts (mH_Pagination e t a) =
            [''Showing '', int_str first, [CHR 0xE2, CHR 0x80, CHR 0x93], int_str last, '' of '', int_str a,
             ''Prev'', int_str e, '' / '', int_str ((a + t - 1) div t), ''Next''] \<and>
          first = (e - 1) * t + 1 \<and> first \<le> last \<and>
          last = (if e < (a + t - 1) div t then first + (t - 1) else a) \<and> last \<le> first + (t - 1)) \<and>
       clicks ''Prev'' (mH_Pagination e t a) = (if 1 < e then [e - 1] else []) \<and>
       clicks ''Next'' (mH_Pagination e t a) = (if e < (a + t - 1) div t then [e + 1] else []))"
proof -
  let ?c = "(a + t - 1) div t"
  have one: "?c \<le> 1 \<longleftrightarrow> a \<le> t"
  proof -
    have "2 \<le> ?c \<longleftrightarrow> 2 * t \<le> a + t - 1" using assms(1) by (rule le_div_int)
    then show ?thesis by auto
  qed
  have n: "mH_Pagination e t a = Null \<longleftrightarrow> a \<le> t"
    using mH_pages_exact [OF assms] one by (auto simp: mH_Pagination_def mH_null)
  have "(\<exists>first last. texts (mH_Pagination e t a) =
            [''Showing '', int_str first, [CHR 0xE2, CHR 0x80, CHR 0x93], int_str last, '' of '', int_str a,
             ''Prev'', int_str e, '' / '', int_str ?c, ''Next''] \<and>
          first = (e - 1) * t + 1 \<and> first \<le> last \<and>
          last = (if e < ?c then first + (t - 1) else a) \<and> last \<le> first + (t - 1)) \<and>
       clicks ''Prev'' (mH_Pagination e t a) = (if 1 < e then [e - 1] else []) \<and>
       clicks ''Next'' (mH_Pagination e t a) = (if e < ?c then [e + 1] else [])"
    if h: "t < a" "1 \<le> e" "e \<le> ?c"
  proof -
    have v: "mH_Pagination e t a = mH_controls e t a (Fin (of_int ?c))"
      using mH_pages_exact [OF assms] one h by (auto simp: mH_Pagination_def max_def)
    have e: "e * t \<le> a + t - 1" using h(3) le_div_int [OF assms(1)] by simp
    have "e < ?c \<longleftrightarrow> (e + 1) * t \<le> a + t - 1" using le_div_int [OF assms(1), of "e + 1" "a + t - 1"] by linarith
    then have m: "e < ?c \<longleftrightarrow> e * t + 1 \<le> a" by (simp add: algebra_simps)
    have "e * t = (e - 1) * t + 1 + (t - 1)" by (simp add: algebra_simps)
    moreover have "\<not> e < ?c \<Longrightarrow> a \<le> (e - 1) * t + 1 + (t - 1)" using m by (simp add: algebra_simps)
    moreover have "(e - 1) * t + 1 \<le> a" using e by (simp add: algebra_simps)
    ultimately have r: "min (e * t) a = (if e < ?c then (e - 1) * t + 1 + (t - 1) else a)"
      "(e - 1) * t + 1 \<le> min (e * t) a" "min (e * t) a \<le> (e - 1) * t + 1 + (t - 1)"
      using m assms(1) by auto
    have "clicks ''Prev'' (mH_Pagination e t a) = (if 1 < e then [e - 1] else [])"
      "clicks ''Next'' (mH_Pagination e t a) = (if e < ?c then [e + 1] else [])"
      using h by (auto simp: v clicks_def pagination_buttons)
    then show ?thesis using r unfolding v pagination_texts by blast
  qed
  then show ?thesis using n by blast
qed

theorem pagination_in_range_witness:
  "(\<exists>first last. texts (mH_Pagination 3 25 70) =
      [''Showing '', int_str first, [CHR 0xE2, CHR 0x80, CHR 0x93], int_str last, '' of '', int_str 70,
       ''Prev'', int_str 3, '' / '', int_str 3, ''Next''] \<and> first = 51 \<and> last = 70) \<and>
   clicks ''Prev'' (mH_Pagination 3 25 70) = [2] \<and> mH_Pagination 3 25 20 = Null"
  using pagination_in_range [of 25 70 3] pagination_in_range [of 25 20 3] by simp

section \<open>Workers: nothing without confirmation\<close>

datatype worker_event = WAct worker_act | WSettled nat "json settled"

fun worker_step :: "worker_event \<Rightarrow> worker_page \<Rightarrow> worker_page \<times> cmd list" where
  "worker_step (WAct a) s = Lre_act a s"
| "worker_step (WSettled r out) s = Lre_settled r out s"

text \<open>The state after some events, latest first, and the commands with the events before each.\<close>

fun worker_run :: "worker_event list \<Rightarrow> worker_page" where
  "worker_run [] = Lre_init"
| "worker_run (e # es) = fst (worker_step e (worker_run es))"

fun worker_cmds :: "worker_event list \<Rightarrow> cmd list" where
  "worker_cmds [] = []"
| "worker_cmds (e # es) = worker_cmds es @ snd (worker_step e (worker_run es))"

definition worker_request :: "string \<Rightarrow> worker_action \<Rightarrow> call_args" where
  "worker_request i a = (case a of Quiet \<Rightarrow> n8_quietWorker i | Deregister \<Rightarrow> n8_deregisterWorker i)"

text \<open>The last question that was put in a history, unless it was answered with no.\<close>

fun last_ask :: "worker_event list \<Rightarrow> (string \<times> worker_action) option" where
  "last_ask [] = None"
| "last_ask (WAct (WAsk i a) # es) = Some (i, a)"
| "last_ask (WAct (WDialog DCancel) # es) = None"
| "last_ask (e # es) = last_ask es"

lemma worker_ask_from: "wp_ask (worker_run es) = Some x \<Longrightarrow> last_ask es = Some x"
proof (induction es)
  case (Cons e es)
  then show ?case
    by (cases "e # es" rule: last_ask.cases) (auto simp: Lre_settled_def Let_def split: option.splits settled.splits prod.splits)
qed (simp add: Lre_init_def)

text \<open>
  C17. No worker is quieted or removed without confirmation: each request of the workers page was sent
  by confirming a dialog, and is for the worker and the action of the question that was last put, and
  not taken back, before.
\<close>

theorem worker_request_confirmed:
  assumes "Send n c \<in> set (worker_cmds es)"
  shows "\<exists>later before i a. es = later @ WAct (WDialog DConfirm) # before \<and> last_ask before = Some (i, a) \<and>
    c = (case a of Quiet \<Rightarrow> n8_quietWorker i | Deregister \<Rightarrow> n8_deregisterWorker i)"
  using assms
proof (induction es)
  case (Cons e es)
  show ?case
  proof (cases "Send n c \<in> set (worker_cmds es)")
    case True
    then obtain later before i a where h: "es = later @ WAct (WDialog DConfirm) # before" "last_ask before = Some (i, a)"
      "c = (case a of Quiet \<Rightarrow> n8_quietWorker i | Deregister \<Rightarrow> n8_deregisterWorker i)"
      using Cons.IH by blast
    then have "e # es = (e # later) @ WAct (WDialog DConfirm) # before" by simp
    then show ?thesis using h(2,3) by blast
  next
    case False
    then have "Send n c \<in> set (snd (worker_step e (worker_run es)))" using Cons.prems by simp
    then obtain i a where e: "e = WAct (WDialog DConfirm)" and a: "wp_ask (worker_run es) = Some (i, a)"
      "c = (case a of Quiet \<Rightarrow> n8_quietWorker i | Deregister \<Rightarrow> n8_deregisterWorker i)"
      by (cases "(e, worker_run es)" rule: worker_step.cases; cases "(case e of WAct x \<Rightarrow> x | _ \<Rightarrow> WRefresh, worker_run es)" rule: Lre_act.cases)
        (auto simp: Lre_settled_def Let_def split: option.splits settled.splits)
    have "e # es = [] @ WAct (WDialog DConfirm) # es" using e by simp
    then show ?thesis using worker_ask_from [OF a(1)] a(2) by blast
  qed
qed simp

theorem worker_request_confirmed_witness:
  "\<exists>later before i a. [WAct (WDialog DConfirm), WAct (WAsk ''w1'' Quiet)] = later @ WAct (WDialog DConfirm) # before \<and>
     last_ask before = Some (i, a) \<and> n8_quietWorker ''w1'' = (case a of Quiet \<Rightarrow> n8_quietWorker i | Deregister \<Rightarrow> n8_deregisterWorker i)"
  by (rule worker_request_confirmed [of 0]) (simp add: Lre_init_def)

section \<open>Jobs: filters and requests\<close>

definition filter_keys :: "string list" where
  "filter_keys = [''queue'', ''state'', ''type'']"

definition filters_ok :: "filters \<Rightarrow> bool" where
  "filters_ok f \<longleftrightarrow> distinct (map fst f) \<and> fst ` set f \<subseteq> set filter_keys"

lemma obj_put_keys: "fst ` set (obj_put k v e) = insert k (fst ` set e)"
  by (induction e) auto

lemma obj_put_distinct: "distinct (map fst e) \<Longrightarrow> distinct (map fst (obj_put k v e))"
proof (induction e)
  case (Cons p e)
  then show ?case using obj_put_keys [of k v e] by auto
qed simp

lemma obj_put_new: "k \<notin> fst ` set e \<Longrightarrow> obj_put k v e = e @ [(k, v)]"
  by (induction e) auto

lemma map_of_obj_put: "map_of (obj_put k v e) k' = (if k' = k then Some v else map_of e k')"
  by (induction e) auto

lemma filters_ok_set: "filters_ok e \<Longrightarrow> k \<in> set filter_keys \<Longrightarrow> filters_ok (filter_set k v e)"
  by (simp add: filters_ok_def filter_set_def obj_put_distinct obj_put_keys)

lemma Bre_fetch_query:
  assumes "filters_ok (jp_filters s)"
  shows "parse_query (query_of (fst (Bre_fetch s))) =
    defined_filters (jp_filters s) @ [(''page'', int_str (jp_page s)), (''per_page'', ''25'')]"
proof -
  have new: "''page'' \<notin> fst ` set (jp_filters s)" "''per_page'' \<notin> fst ` set (jp_filters s)"
    using assms by (auto simp: filters_ok_def filter_keys_def)
  let ?f = "jp_filters s @ [(''page'', FNum (jp_page s)), (''per_page'', FNum 25)]"
  have f: "obj_put ''per_page'' (FNum 25) (obj_put ''page'' (FNum (jp_page s)) (jp_filters s)) = ?f"
    using new by (simp add: obj_put_new)
  have "distinct (map fst ?f)" using assms new by (auto simp: filters_ok_def)
  moreover have "int_str 25 = ''25''" by (simp add: int_str_def nat_str.simps char_of_def bit_simps)
  ultimately show ?thesis
    unfolding Bre_fetch_def f by (simp add: jobs_query defined_filters_def)
qed

text \<open>
  Choosing a filter on the jobs page: the new filter has the chosen text and the others keep
  theirs, and the next request asks the backend for the first page of exactly the filters that are
  set, twenty-five jobs to a page, whatever page was shown before and whatever the text contains.
\<close>

theorem jobs_filter_request:
  assumes "filters_ok (jp_filters s)" "k \<in> set filter_keys"
  shows "let s' = fst (Bre_act (JobsFilter (FChange (filter_set k v (jp_filters s)))) s) in
    filters_ok (jp_filters s') \<and> filter_text k (jp_filters s') = v \<and>
    (\<forall>k'. k' \<noteq> k \<longrightarrow> filter_text k' (jp_filters s') = filter_text k' (jp_filters s)) \<and>
    parse_query (query_of (fst (Bre_fetch s'))) =
      defined_filters (jp_filters s') @ [(''page'', ''1''), (''per_page'', ''25'')]"
proof -
  have ok: "filters_ok (filter_set k v (jp_filters s))" using assms by (rule filters_ok_set)
  have "int_str 1 = ''1''" by (simp add: int_str_def nat_str.simps char_of_def bit_simps)
  then show ?thesis
    using ok Bre_fetch_query [of "s\<lparr>jp_filters := filter_set k v (jp_filters s), jp_page := 1\<rparr>"]
    by (simp add: filter_text_def filter_set_def map_of_obj_put)
qed

theorem jobs_filter_request_witness:
  "parse_query (query_of (fst (Bre_fetch (fst (Bre_act (JobsFilter (FChange (filter_set ''queue'' ''a&b'' []))) (Bre_init\<lparr>jp_page := 7\<rparr>)))))) =
     [(''queue'', ''a&b''), (''page'', ''1''), (''per_page'', ''25'')]"
  using jobs_filter_request [of "Bre_init\<lparr>jp_page := 7\<rparr>" "''queue''" "''a&b''"]
  by (simp add: Bre_init_def filters_ok_def filter_keys_def filter_set_def defined_filters_def)

section \<open>The dashboard and its polling\<close>

lemma last_answers: "os \<noteq> [] \<Longrightarrow> last os = Inr v \<Longrightarrow> answers os \<noteq> [] \<and> last (answers os) = v"
  by (induction os rule: rev_induct) auto

text \<open>What the statistics and the card of a queue read.\<close>

definition stats_texts :: "stats \<Rightarrow> string list" where
  "stats_texts st = (let c = st_jobs st; r = st_throughput st in
     [''Active Jobs'', rl (available c + active c + scheduled c + retryable c), rl (active c) @ '' executing'',
      ''Completed'', rl (completed c), ''Failed'', rl (discarded c),
      ''Throughput'', pM (processed_per_minute r),
      (if 0 < processed_per_minute r then toFixed 1 (fl (fl (failed_per_minute r / processed_per_minute r) * 100)) else ''0.0'')
        @ ''% error rate'',
      ''Queues'', int_str (st_queues st), ''Workers'', int_str (st_workers st)])"

definition card_texts :: "queue_info \<Rightarrow> string list" where
  "card_texts q = (let c = q_counts q in
     [q_name q] @ (if q_paused q then [''cancelled''] else []) @
     [rl (available c + active c + scheduled c + retryable c), int_str (available c), '' ready'', int_str (active c), '' active''] @
     (if 0 < retryable c then [int_str (retryable c), '' retrying''] else []) @
     (case q_throughput q of None \<Rightarrow> [] | Some r \<Rightarrow> [pM (processed_per_minute r), '' processed'']))"

text \<open>The list that a polling hook answered last, empty before the first answer.\<close>

definition latest :: "'v list es_event list \<Rightarrow> 'v list" where
  "latest evs = (if answers (outcomes evs) = [] then [] else last (answers (outcomes evs)))"

lemma grid_texts: "texts (LP_StatsGrid (st_jobs st) (st_throughput st) (st_queues st) (st_workers st)) = stats_texts st"
  by (simp add: LP_StatsGrid_def LP_errorRate_def Mm_StatCard_def stats_texts_def Let_def)

lemma card_texts: "texts (P_QueueCard q) = card_texts q"
  by (simp add: P_QueueCard_def M_StateBadge_def card_texts_def Let_def split: option.split)

lemma cards_texts:
  "texts (P_QueueCards qs) = (if qs = [] then [''No queues found.''] else concat (map card_texts (take 6 qs)))"
  by (simp add: P_QueueCards_def card_texts comp_def)

lemma chart_texts: "texts (Rre_Throughput h ps) = (if ps = [] then [''No history data available.''] else [])"
  by (simp add: Rre_Throughput_def Rre_chart_def)

lemma latest_data:
  assumes "es_run (es_mount k f t) evs s"
  shows "(case es_data s of Some x \<Rightarrow> x | None \<Rightarrow> []) = latest evs"
proof -
  have "seen [] (es_mount k f t)" by (simp add: seen_def es_defs)
  from seen_run [OF assms this] show ?thesis by (simp add: seen_def latest_def Let_def)
qed

lemma dashboard_texts:
  "texts (Cre_Dashboard h (Some st) False None y g) = [''Dashboard''] @ stats_texts st @
     [''Throughput (5m)''] @ (if (case g of Some x \<Rightarrow> x | None \<Rightarrow> []) = [] then [''No history data available.''] else []) @
     [''Queues''] @ (if (case y of Some x \<Rightarrow> x | None \<Rightarrow> []) = [] then [''No queues found.'']
       else concat (map card_texts (take 6 (case y of Some x \<Rightarrow> x | None \<Rightarrow> []))))"
  by (simp add: Cre_Dashboard_def grid_texts cards_texts chart_texts)

text \<open>
  C33. The dashboard reads as its polling hooks answered: only ``Loading'' until the statistics were
  answered; whenever their last answer was a failure, that the connection failed and the text of this
  error; and otherwise the numbers of the last statistics under their labels, the chart or a remark that
  there is no history, and the cards of the first six queues of the last list of queues, or a remark that
  there is none.
\<close>

theorem dashboard_follows_polling:
  assumes "es_run (es_mount k1 f1 t1) evs s" "es_run (es_mount k2 f2 t2) qevs q" "es_run (es_mount k3 f3 t3) gevs g"
  shows "texts (Cre_Dashboard h (es_data s) (es_loading s) (es_error s) (es_data q) (es_data g)) =
    (if outcomes evs = [] then [''Loading dashboard'' @ [CHR 0xE2, CHR 0x80, CHR 0xA6]]
     else case last (outcomes evs) of
       Inl e \<Rightarrow> [''Failed to connect'', thrown_error e, ''Make sure an OJS backend is running and accessible.'']
     | Inr st \<Rightarrow> [''Dashboard''] @ stats_texts st @
         [''Throughput (5m)''] @ (if latest gevs = [] then [''No history data available.''] else []) @
         [''Queues''] @ (if latest qevs = [] then [''No queues found.''] else concat (map card_texts (take 6 (latest qevs)))))"
proof -
  have "seen [] (es_mount k1 f1 t1)" by (simp add: seen_def es_defs)
  from seen_run [OF assms(1) this]
  have s: "es_loading s \<longleftrightarrow> outcomes evs = []"
    "es_data s = (if answers (outcomes evs) = [] then None else Some (last (answers (outcomes evs))))"
    "es_error s = (if outcomes evs = [] then None else case last (outcomes evs) of Inl e \<Rightarrow> Some (thrown_error e) | Inr v \<Rightarrow> None)"
    by (simp_all add: seen_def Let_def)
  show ?thesis
  proof (cases "outcomes evs = []")
    case True
    then show ?thesis by (simp add: s Cre_Dashboard_def Mre_Loading_def answers_def)
  next
    case ne: False
    show ?thesis
    proof (cases "last (outcomes evs)")
      case (Inl e)
      then show ?thesis using ne by (simp add: s Cre_Dashboard_def jre_Error_def)
    next
      case (Inr st)
      then have "es_data s = Some st" "es_error s = None" "\<not> es_loading s" using ne last_answers [OF ne Inr] by (simp_all add: s)
      then show ?thesis using ne Inr by (simp add: dashboard_texts latest_data [OF assms(2)] latest_data [OF assms(3)])
    qed
  qed
qed

definition demo_stats :: stats where
  "demo_stats = \<lparr>st_jobs = \<lparr>available = 3, active = 2, scheduled = 0, retryable = 0, completed = 7, discarded = 1\<rparr>,
     st_throughput = \<lparr>processed_per_minute = 0, failed_per_minute = 0\<rparr>, st_queues = 1, st_workers = 4\<rparr>"

theorem dashboard_follows_polling_witness:
  "\<exists>(s :: stats es_state) (q :: queue_info list es_state) (g :: history_point list es_state).
     es_run (es_mount 0 7 5000) [Settle 0 (Inr demo_stats)] s \<and>
     texts (Cre_Dashboard demo_host (es_data s) (es_loading s) (es_error s) (es_data q) (es_data g)) =
       [''Dashboard''] @ stats_texts demo_stats @
       [''Throughput (5m)'', ''No history data available.'', ''Queues''] @ card_texts (demo_queue ''mail'' True)"
proof -
  obtain s :: "stats es_state" where s: "es_exec (es_mount 0 7 5000) [Settle 0 (Inr demo_stats)] = Some s"
    by (simp add: es_defs)
  obtain q :: "queue_info list es_state" where q: "es_exec (es_mount 0 8 5000) [Settle 0 (Inr [demo_queue ''mail'' True])] = Some q"
    by (simp add: es_defs)
  have g: "es_run (es_mount 0 9 15000) [] (es_mount 0 9 15000 :: history_point list es_state)" by (rule es_run.start)
  show ?thesis
    using es_exec_run [OF s] dashboard_follows_polling [OF es_exec_run [OF s] es_exec_run [OF q] g, of demo_host]
    by (auto simp: latest_def answers_def)
qed

end
