(* ===== verification/React_Reconcile.thy ===== *)
theory React_Reconcile
  imports Js_Prelude "HOL-Library.AList" "HOL-Library.Multiset"
begin

text \<open>
  Reconciliation of children (\<open>src/internal/admin/dist/index-DxrWcVFD.js\<close>, \<open>tS\<close>): how the children a
  component returns are matched with the fibers of the last render.  The fibers under a parent are a
  list in place of the sibling chain; the current ones carry an identity, and a work-in-progress
  fiber names the current fiber it continues and its index.  Lanes, modes, refs and the tree
  identifiers of hydration are left out, and so are elements of no valid type, whose fibers throw
  when they are rendered.
\<close>

section \<open>Children and fibers\<close>

text \<open>What \<open>_init\<close> of a lazy value, \<open>use\<close> of a promise or reading a context gives.\<close>

datatype 'a resolved = Ready 'a | Pending | Broken

text \<open>The type of an element: a component or tag, or a lazy one with what it resolves to.\<close>

datatype comp =
    FunctionC nat | ClassC nat | HostTag nat | HostHoistable nat | HostSingleton nat
  | ActivityC | StrictModeC | ProfilerC | SuspenseC | SuspenseListC
  | ContextC nat | ConsumerC nat | ForwardRefC nat | MemoC nat

datatype etype = Fragment | Plain comp | LazyType nat "comp resolved"

datatype 'p child =
    Empty \<comment> \<open>\<open>null\<close>, \<open>undefined\<close>, booleans\<close>
  | Text string \<comment> \<open>strings, and numbers as their digits\<close>
  | Elem etype "string option" 'p "'p child" \<comment> \<open>type, key, props and \<open>props.children\<close>\<close>
  | Portal "string option" nat nat "'p child" \<comment> \<open>key, container, implementation, children\<close>
  | Arr "'p child list"
  | Iter "'p child list"
  | Wrap "'p child resolved" \<comment> \<open>lazy node, promise or context\<close>
  | Bad \<comment> \<open>any other object\<close>

datatype 'p pend = PText string | PProps 'p | PKids "'p child"

datatype ftag = TText | TPortal | TFragment | TElement

record 'p fiber =
  f_tag :: ftag
  f_work :: nat \<comment> \<open>the tag of an element's fiber\<close>
  f_key :: "string option"
  f_elementType :: "etype option"
  f_type :: "comp option"
  f_props :: "'p pend"
  f_state :: "(nat \<times> nat) option" \<comment> \<open>a portal's container and implementation\<close>
  f_index :: nat
  f_alternate :: "(nat \<times> nat) option" \<comment> \<open>the current fiber and its index\<close>
  f_placed :: bool \<comment> \<open>flag 67108866\<close>
  f_forked :: bool \<comment> \<open>flag 1048576\<close>

type_synonym 'p current = "nat \<times> 'p fiber"

datatype rec_error = Suspended | InitFailed | InvalidChild

section \<open>Creating and reusing fibers\<close>

definition Bn_fiber :: "ftag \<Rightarrow> 'p pend \<Rightarrow> string option \<Rightarrow> 'p fiber" where
  "Bn_fiber t p k = \<lparr>f_tag = t, f_work = 0, f_key = k, f_elementType = None, f_type = None, f_props = p, f_state = None,
     f_index = 0, f_alternate = None, f_placed = False, f_forked = False\<rparr>"

definition Cs_text :: "string \<Rightarrow> 'p fiber" where
  "Cs_text s = Bn_fiber TText (PText s) None"

definition hu_fragment :: "'p child \<Rightarrow> string option \<Rightarrow> 'p fiber" where
  "hu_fragment c k = Bn_fiber TFragment (PKids c) k"

definition Bp_portal :: "string option \<Rightarrow> nat \<Rightarrow> nat \<Rightarrow> 'p child \<Rightarrow> 'p fiber" where
  "Bp_portal k con impl c = (Bn_fiber TPortal (PKids c) k)\<lparr>f_state := Some (con, impl)\<rparr>"

text \<open>\<open>qp\<close>: four of the built-in types return early, before \<open>type\<close> is set.\<close>

fun qp_tag :: "comp \<Rightarrow> nat" where
  "qp_tag (FunctionC n) = 0"
| "qp_tag (ClassC n) = 1"
| "qp_tag (HostHoistable n) = 26"
| "qp_tag (HostSingleton n) = 27"
| "qp_tag (HostTag n) = 5"
| "qp_tag ActivityC = 31"
| "qp_tag StrictModeC = 8"
| "qp_tag ProfilerC = 12"
| "qp_tag SuspenseC = 13"
| "qp_tag SuspenseListC = 19"
| "qp_tag (ContextC n) = 10"
| "qp_tag (ConsumerC n) = 9"
| "qp_tag (ForwardRefC n) = 11"
| "qp_tag (MemoC n) = 14"

definition qp_early :: "comp \<Rightarrow> bool" where
  "qp_early t \<longleftrightarrow> t = ActivityC \<or> t = ProfilerC \<or> t = SuspenseC \<or> t = SuspenseListC"

fun qp_element :: "etype \<Rightarrow> string option \<Rightarrow> 'p \<Rightarrow> 'p child \<Rightarrow> 'p fiber" where
  "qp_element Fragment k p c = hu_fragment c k"
| "qp_element (Plain t) k p c = (Bn_fiber TElement (PProps p) k)\<lparr>f_work := qp_tag t, f_elementType := Some (Plain t),
     f_type := (if qp_early t then None else Some t)\<rparr>"
| "qp_element (LazyType t r) k p c = (Bn_fiber TElement (PProps p) k)\<lparr>f_work := 16, f_elementType := Some (LazyType t r)\<rparr>"

text \<open>\<open>x\<close> with \<open>du\<close>: the work-in-progress fiber of a current one.\<close>

definition x_useFiber :: "'p current \<Rightarrow> 'p pend \<Rightarrow> 'p fiber" where
  "x_useFiber c p = (snd c)\<lparr>f_props := p, f_index := 0, f_alternate := Some (fst c, f_index (snd c)), f_placed := False, f_forked := False\<rparr>"

fun ao_resolve :: "'a resolved \<Rightarrow> (rec_error, 'a) res" where
  "ao_resolve (Ready x) = Inr x"
| "ao_resolve Pending = Inl Suspended"
| "ao_resolve Broken = Inl InitFailed"

text \<open>A lazy type is compared with its state of resolution, which is the same for all fibers of a render.\<close>

definition same_type :: "'p fiber \<Rightarrow> etype \<Rightarrow> (rec_error, bool) res" where
  "same_type f t =
     (if f_elementType f = Some t then Inr True
      else case t of LazyType n r \<Rightarrow> bindR (ao_resolve r) (\<lambda>t. Inr (f_type f = Some t)) | _ \<Rightarrow> Inr False)"

definition Y_updateText :: "'p current option \<Rightarrow> string \<Rightarrow> 'p fiber" where
  "Y_updateText cur s = (case cur of
     Some c \<Rightarrow> if f_tag (snd c) = TText then x_useFiber c (PText s) else Cs_text s
   | None \<Rightarrow> Cs_text s)"

definition Ce_updateFragment :: "'p current option \<Rightarrow> 'p child \<Rightarrow> string option \<Rightarrow> 'p fiber" where
  "Ce_updateFragment cur kids k = (case cur of
     Some c \<Rightarrow> if f_tag (snd c) = TFragment then x_useFiber c (PKids kids) else hu_fragment kids k
   | None \<Rightarrow> hu_fragment kids k)"

definition te_updateElement :: "'p current option \<Rightarrow> etype \<Rightarrow> string option \<Rightarrow> 'p \<Rightarrow> 'p child \<Rightarrow> (rec_error, 'p fiber) res" where
  "te_updateElement cur t k p kids =
     (if t = Fragment then Inr (Ce_updateFragment cur kids k)
      else case cur of
        None \<Rightarrow> Inr (qp_element t k p kids)
      | Some c \<Rightarrow> bindR (same_type (snd c) t) (\<lambda>b. Inr (if b then x_useFiber c (PProps p) else qp_element t k p kids)))"

definition Se_updatePortal :: "'p current option \<Rightarrow> string option \<Rightarrow> nat \<Rightarrow> nat \<Rightarrow> 'p child \<Rightarrow> 'p fiber" where
  "Se_updatePortal cur k con impl kids = (case cur of
     Some c \<Rightarrow> if f_tag (snd c) = TPortal \<and> f_state (snd c) = Some (con, impl) then x_useFiber c (PKids kids)
       else Bp_portal k con impl kids
   | None \<Rightarrow> Bp_portal k con impl kids)"

section \<open>One child\<close>

function Ne_createChild :: "'p child \<Rightarrow> (rec_error, 'p fiber option) res" where
  "Ne_createChild (Text s) = Inr (if s = [] then None else Some (Cs_text s))"
| "Ne_createChild (Elem t k p kids) = Inr (Some (qp_element t k p kids))"
| "Ne_createChild (Portal k con impl kids) = Inr (Some (Bp_portal k con impl kids))"
| "Ne_createChild (Arr cs) = Inr (Some (hu_fragment (Arr cs) None))"
| "Ne_createChild (Iter cs) = Inr (Some (hu_fragment (Iter cs) None))"
| "Ne_createChild (Wrap (Ready c)) = Ne_createChild c"
| "Ne_createChild (Wrap Pending) = Inl Suspended"
| "Ne_createChild (Wrap Broken) = Inl InitFailed"
| "Ne_createChild Bad = Inl InvalidChild"
| "Ne_createChild Empty = Inr None"
  by pat_completeness auto
termination by (relation "measure size") auto

definition key_of :: "'p current option \<Rightarrow> string option" where
  "key_of cur = (case cur of None \<Rightarrow> None | Some c \<Rightarrow> f_key (snd c))"

function xe_updateSlot :: "'p current option \<Rightarrow> 'p child \<Rightarrow> (rec_error, 'p fiber option) res" where
  "xe_updateSlot cur (Text s) = Inr (if s = [] \<or> key_of cur \<noteq> None then None else Some (Y_updateText cur s))"
| "xe_updateSlot cur (Elem t k p kids) = (if k = key_of cur then bindR (te_updateElement cur t k p kids) (\<lambda>f. Inr (Some f)) else Inr None)"
| "xe_updateSlot cur (Portal k con impl kids) = Inr (if k = key_of cur then Some (Se_updatePortal cur k con impl kids) else None)"
| "xe_updateSlot cur (Arr cs) = Inr (if key_of cur \<noteq> None then None else Some (Ce_updateFragment cur (Arr cs) None))"
| "xe_updateSlot cur (Iter cs) = Inr (if key_of cur \<noteq> None then None else Some (Ce_updateFragment cur (Iter cs) None))"
| "xe_updateSlot cur (Wrap (Ready c)) = xe_updateSlot cur c"
| "xe_updateSlot cur (Wrap Pending) = Inl Suspended"
| "xe_updateSlot cur (Wrap Broken) = Inl InitFailed"
| "xe_updateSlot cur Bad = Inl InvalidChild"
| "xe_updateSlot cur Empty = Inr None"
  by pat_completeness auto
termination by (relation "measure (size \<circ> snd)") auto

text \<open>The keys of the map of remaining children: keys are strings, indices numbers.\<close>

datatype slot = SKey string | SIdx nat

definition fiber_slot :: "'p fiber \<Rightarrow> slot" where
  "fiber_slot f = (case f_key f of Some k \<Rightarrow> SKey k | None \<Rightarrow> SIdx (f_index f))"

definition child_slot :: "string option \<Rightarrow> nat \<Rightarrow> slot" where
  "child_slot k mt = (case k of None \<Rightarrow> SIdx mt | Some k \<Rightarrow> SKey k)"

type_synonym 'p remaining = "(slot \<times> 'p current) list"

definition p_mapRemaining :: "'p current list \<Rightarrow> 'p remaining" where
  "p_mapRemaining olds = fold (\<lambda>c m. AList.update (fiber_slot (snd c)) c m) olds []"

function Te_updateFromMap :: "'p remaining \<Rightarrow> nat \<Rightarrow> 'p child \<Rightarrow> (rec_error, 'p fiber option) res" where
  "Te_updateFromMap m mt (Text s) = Inr (if s = [] then None else Some (Y_updateText (map_of m (SIdx mt)) s))"
| "Te_updateFromMap m mt (Elem t k p kids) = bindR (te_updateElement (map_of m (child_slot k mt)) t k p kids) (\<lambda>f. Inr (Some f))"
| "Te_updateFromMap m mt (Portal k con impl kids) = Inr (Some (Se_updatePortal (map_of m (child_slot k mt)) k con impl kids))"
| "Te_updateFromMap m mt (Arr cs) = Inr (Some (Ce_updateFragment (map_of m (SIdx mt)) (Arr cs) None))"
| "Te_updateFromMap m mt (Iter cs) = Inr (Some (Ce_updateFragment (map_of m (SIdx mt)) (Iter cs) None))"
| "Te_updateFromMap m mt (Wrap (Ready c)) = Te_updateFromMap m mt c"
| "Te_updateFromMap m mt (Wrap Pending) = Inl Suspended"
| "Te_updateFromMap m mt (Wrap Broken) = Inl InitFailed"
| "Te_updateFromMap m mt Bad = Inl InvalidChild"
| "Te_updateFromMap m mt Empty = Inr None"
  by pat_completeness auto
termination by (relation "measure (size \<circ> snd \<circ> snd)") auto

section \<open>Lists of children\<close>

definition o_deleteChild :: "bool \<Rightarrow> 'p current \<Rightarrow> nat list \<Rightarrow> nat list" where
  "o_deleteChild l c dels = (if l then dels @ [fst c] else dels)"

definition f_deleteRemaining :: "bool \<Rightarrow> 'p current list \<Rightarrow> nat list \<Rightarrow> nat list" where
  "f_deleteRemaining l cs dels = (if l then dels @ map fst cs else dels)"

text \<open>\<open>_\<close>: place a fiber, given the largest old index that stayed in place.\<close>

definition placeChild :: "bool \<Rightarrow> 'p fiber \<Rightarrow> nat \<Rightarrow> nat \<Rightarrow> 'p fiber \<times> nat" where
  "placeChild l f le mt =
     (let f = f\<lparr>f_index := mt\<rparr> in
      if l then (case f_alternate f of
           Some (i, old) \<Rightarrow> if old < le then (f\<lparr>f_placed := True\<rparr>, le) else (f, old)
         | None \<Rightarrow> (f\<lparr>f_placed := True\<rparr>, le))
      else (f\<lparr>f_forked := True\<rparr>, le))"

record 'p work =
  wk_mt :: nat
  wk_last :: nat
  wk_olds :: "'p current list"
  wk_news :: "'p child list"
  wk_acc :: "'p fiber list"
  wk_dels :: "nat list"

text \<open>The first loop: as long as the children match slot by slot.\<close>

fun Qe_slots :: "bool \<Rightarrow> nat \<Rightarrow> nat \<Rightarrow> 'p current list \<Rightarrow> 'p child list \<Rightarrow> 'p fiber list \<Rightarrow> nat list \<Rightarrow> (rec_error, 'p work) res" where
  "Qe_slots l mt le (c # olds) (v # news) acc dels =
     (let skip = f_index (snd c) > mt in
      bindR (xe_updateSlot (if skip then None else Some c) v) (\<lambda>g. case g of
        None \<Rightarrow> Inr \<lparr>wk_mt = mt, wk_last = le, wk_olds = c # olds, wk_news = v # news, wk_acc = acc, wk_dels = dels\<rparr>
      | Some f \<Rightarrow>
         (let dels = (if \<not> skip \<and> f_alternate f = None then o_deleteChild l c dels else dels);
              (f, le) = placeChild l f le mt in
          Qe_slots l (Suc mt) le (if skip then c # olds else olds) news (acc @ [f]) dels)))"
| "Qe_slots l mt le olds news acc dels =
     Inr \<lparr>wk_mt = mt, wk_last = le, wk_olds = olds, wk_news = news, wk_acc = acc, wk_dels = dels\<rparr>"

text \<open>The second: nothing is left of the old children.\<close>

fun Qe_create :: "bool \<Rightarrow> nat \<Rightarrow> nat \<Rightarrow> 'p child list \<Rightarrow> 'p fiber list \<Rightarrow> (rec_error, 'p fiber list) res" where
  "Qe_create l mt le [] acc = Inr acc"
| "Qe_create l mt le (v # news) acc = bindR (Ne_createChild v) (\<lambda>g. case g of
     None \<Rightarrow> Qe_create l (Suc mt) le news acc
   | Some f \<Rightarrow> (let (f, le) = placeChild l f le mt in Qe_create l (Suc mt) le news (acc @ [f])))"

text \<open>The third: the remaining old children by key or index.\<close>

fun Qe_mapped :: "bool \<Rightarrow> nat \<Rightarrow> nat \<Rightarrow> 'p remaining \<Rightarrow> 'p child list \<Rightarrow> 'p fiber list \<Rightarrow> (rec_error, 'p remaining \<times> 'p fiber list) res" where
  "Qe_mapped l mt le m [] acc = Inr (m, acc)"
| "Qe_mapped l mt le m (v # news) acc = bindR (Te_updateFromMap m mt v) (\<lambda>g. case g of
     None \<Rightarrow> Qe_mapped l (Suc mt) le m news acc
   | Some f \<Rightarrow>
      (let m = (if l \<and> f_alternate f \<noteq> None then AList.delete (child_slot (f_key f) mt) m else m);
           (f, le) = placeChild l f le mt in
       Qe_mapped l (Suc mt) le m news (acc @ [f])))"

definition Qe_reconcileArray :: "bool \<Rightarrow> 'p current list \<Rightarrow> 'p child list \<Rightarrow> nat list \<Rightarrow> (rec_error, 'p fiber list \<times> nat list) res" where
  "Qe_reconcileArray l olds news dels =
     bindR (Qe_slots l 0 0 olds news [] dels) (\<lambda>w.
       if wk_news w = [] then Inr (wk_acc w, f_deleteRemaining l (wk_olds w) (wk_dels w))
       else if wk_olds w = [] then bindR (Qe_create l (wk_mt w) (wk_last w) (wk_news w) (wk_acc w)) (\<lambda>fs. Inr (fs, wk_dels w))
       else bindR (Qe_mapped l (wk_mt w) (wk_last w) (p_mapRemaining (wk_olds w)) (wk_news w) (wk_acc w)) (\<lambda>(m, fs).
         Inr (fs, f_deleteRemaining l (map snd m) (wk_dels w))))"

text \<open>\<open>at\<close> runs the same three loops over the values of an iterator.\<close>

definition at_reconcileIterator :: "bool \<Rightarrow> 'p current list \<Rightarrow> 'p child list \<Rightarrow> nat list \<Rightarrow> (rec_error, 'p fiber list \<times> nat list) res" where
  "at_reconcileIterator l olds vals dels = Qe_reconcileArray l olds vals dels"

section \<open>A single child\<close>

definition j_placeSingle :: "bool \<Rightarrow> 'p fiber \<Rightarrow> 'p fiber" where
  "j_placeSingle l f = (if l \<and> f_alternate f = None then f\<lparr>f_placed := True\<rparr> else f)"

text \<open>Search for the old child to reuse, deleting the ones before it and, when one is found, after it.\<close>

fun ln_element :: "bool \<Rightarrow> 'p current list \<Rightarrow> etype \<Rightarrow> string option \<Rightarrow> 'p \<Rightarrow> 'p child \<Rightarrow> nat list \<Rightarrow> (rec_error, 'p fiber \<times> nat list) res" where
  "ln_element l [] t k p kids dels = Inr (qp_element t k p kids, dels)"
| "ln_element l (c # olds) t k p kids dels =
     (if f_key (snd c) = k then
        (if t = Fragment then
           (if f_tag (snd c) = TFragment then Inr (x_useFiber c (PKids kids), f_deleteRemaining l olds dels)
            else Inr (qp_element t k p kids, f_deleteRemaining l (c # olds) dels))
         else bindR (same_type (snd c) t) (\<lambda>b.
           if b then Inr (x_useFiber c (PProps p), f_deleteRemaining l olds dels)
           else Inr (qp_element t k p kids, f_deleteRemaining l (c # olds) dels)))
      else ln_element l olds t k p kids (o_deleteChild l c dels))"

fun ln_portal :: "bool \<Rightarrow> 'p current list \<Rightarrow> string option \<Rightarrow> nat \<Rightarrow> nat \<Rightarrow> 'p child \<Rightarrow> nat list \<Rightarrow> 'p fiber \<times> nat list" where
  "ln_portal l [] k con impl kids dels = (Bp_portal k con impl kids, dels)"
| "ln_portal l (c # olds) k con impl kids dels =
     (if f_key (snd c) = k then
        (if f_tag (snd c) = TPortal \<and> f_state (snd c) = Some (con, impl)
         then (x_useFiber c (PKids kids), f_deleteRemaining l olds dels)
         else (Bp_portal k con impl kids, f_deleteRemaining l (c # olds) dels))
      else ln_portal l olds k con impl kids (o_deleteChild l c dels))"

definition ln_text :: "bool \<Rightarrow> 'p current list \<Rightarrow> string \<Rightarrow> nat list \<Rightarrow> 'p fiber \<times> nat list" where
  "ln_text l olds s dels = (case olds of
     c # cs \<Rightarrow> if f_tag (snd c) = TText then (x_useFiber c (PText s), f_deleteRemaining l cs dels)
       else (Cs_text s, f_deleteRemaining l olds dels)
   | [] \<Rightarrow> (Cs_text s, dels))"

text \<open>An unkeyed fragment at the top stands for its children.\<close>

fun ln_unwrap :: "'p child \<Rightarrow> 'p child" where
  "ln_unwrap (Elem Fragment None p kids) = kids"
| "ln_unwrap v = v"

lemma ln_unwrap_size: "size (ln_unwrap v) \<le> size v"
  by (cases v rule: ln_unwrap.cases) auto

function ln_reconcile :: "bool \<Rightarrow> 'p current list \<Rightarrow> 'p child \<Rightarrow> nat list \<Rightarrow> (rec_error, 'p fiber list \<times> nat list) res" where
  "ln_reconcile l olds v0 dels = (case ln_unwrap v0 of
     Elem t k p kids \<Rightarrow> bindR (ln_element l olds t k p kids dels) (\<lambda>(f, ds). Inr ([j_placeSingle l f], ds))
   | Portal k con impl kids \<Rightarrow> (let (f, ds) = ln_portal l olds k con impl kids dels in Inr ([j_placeSingle l f], ds))
   | Wrap r \<Rightarrow> (case r of Ready v \<Rightarrow> ln_reconcile l olds v dels | Pending \<Rightarrow> Inl Suspended | Broken \<Rightarrow> Inl InitFailed)
   | Arr cs \<Rightarrow> Qe_reconcileArray l olds cs dels
   | Iter cs \<Rightarrow> at_reconcileIterator l olds cs dels
   | Bad \<Rightarrow> Inl InvalidChild
   | Text s \<Rightarrow> if s \<noteq> [] then (let (f, ds) = ln_text l olds s dels in Inr ([j_placeSingle l f], ds))
       else Inr ([], f_deleteRemaining l olds dels)
   | Empty \<Rightarrow> Inr ([], f_deleteRemaining l olds dels))"
  by pat_completeness auto
termination
proof (relation "measure (\<lambda>(l, olds, v, dels). size v)", goal_cases)
  case (2 l olds v0 dels x7 x)
  then show ?case using ln_unwrap_size [of v0] by simp
qed simp

declare ln_reconcile.simps [simp del]

text \<open>
  The function that \<open>tS\<close> returns: a suspension goes on to the caller, another error becomes a fiber
  that throws it.
\<close>

datatype 'p reconciled = Children "'p fiber list" "nat list" | ThrowFiber rec_error | Rethrown

definition tS_reconcileChildFibers :: "bool \<Rightarrow> 'p current list \<Rightarrow> 'p child \<Rightarrow> 'p reconciled" where
  "tS_reconcileChildFibers l olds v = (case ln_reconcile l olds v [] of
     Inr (fs, ds) \<Rightarrow> Children fs ds
   | Inl Suspended \<Rightarrow> Rethrown
   | Inl e \<Rightarrow> ThrowFiber e)"

end
