(* ===== verification/Reconcile_Correct.thy ===== *)
theory Reconcile_Correct
  imports React_Reconcile
begin

text \<open>
  Correctness of reconciliation: the new fibers show the children in order, every old fiber is
  continued or deleted exactly once, the fibers that are not moved keep their order, and keys keep
  state.
\<close>

section \<open>What a fiber shows\<close>

text \<open>Fibers of the last render are consistent: only elements have a type, and texts have no key.\<close>

definition wf_fiber :: "'p fiber \<Rightarrow> bool" where
  "wf_fiber f \<longleftrightarrow> (f_elementType f \<noteq> None \<or> f_type f \<noteq> None \<longrightarrow> f_tag f = TElement) \<and> (f_tag f = TText \<longrightarrow> f_key f = None)"

text \<open>The child behind lazy nodes, promises and contexts; none when there is nothing to show.\<close>

function shown :: "'p child \<Rightarrow> 'p child option" where
  "shown Empty = None"
| "shown (Text s) = (if s = [] then None else Some (Text s))"
| "shown (Wrap (Ready c)) = shown c"
| "shown (Wrap Pending) = None"
| "shown (Wrap Broken) = None"
| "shown (Elem t k p kids) = Some (Elem t k p kids)"
| "shown (Portal k a b kids) = Some (Portal k a b kids)"
| "shown (Arr cs) = Some (Arr cs)"
| "shown (Iter cs) = Some (Iter cs)"
| "shown Bad = None"
  by pat_completeness auto
termination by (relation "measure size") auto

fun ckey :: "'p child \<Rightarrow> string option" where
  "ckey (Elem t k p kids) = k"
| "ckey (Portal k a b kids) = k"
| "ckey _ = None"

definition type_fits :: "etype \<Rightarrow> 'p fiber \<Rightarrow> bool" where
  "type_fits t f \<longleftrightarrow> same_type f t = Inr True"

definition untyped :: "'p fiber \<Rightarrow> bool" where
  "untyped f \<longleftrightarrow> f_elementType f = None \<and> f_type f = None"

fun matches :: "'p child \<Rightarrow> 'p fiber \<Rightarrow> bool" where
  "matches (Text s) f \<longleftrightarrow> untyped f \<and> f_tag f = TText \<and> f_props f = PText s \<and> f_key f = None"
| "matches (Elem t k p kids) f \<longleftrightarrow> f_key f = k \<and>
     (if t = Fragment then untyped f \<and> f_tag f = TFragment \<and> f_props f = PKids kids
      else f_tag f = TElement \<and> f_props f = PProps p \<and> type_fits t f)"
| "matches (Portal k a b kids) f \<longleftrightarrow> untyped f \<and> f_tag f = TPortal \<and> f_key f = k \<and> f_state f = Some (a, b) \<and> f_props f = PKids kids"
| "matches (Arr cs) f \<longleftrightarrow> untyped f \<and> f_tag f = TFragment \<and> f_key f = None \<and> f_props f = PKids (Arr cs)"
| "matches (Iter cs) f \<longleftrightarrow> untyped f \<and> f_tag f = TFragment \<and> f_key f = None \<and> f_props f = PKids (Iter cs)"
| "matches _ f \<longleftrightarrow> False"

lemmas rec_defs = Y_updateText_def Ce_updateFragment_def te_updateElement_def Se_updatePortal_def x_useFiber_def
  Cs_text_def hu_fragment_def Bp_portal_def Bn_fiber_def key_of_def untyped_def

lemma matches_key: "matches v f \<Longrightarrow> f_key f = ckey v"
  by (cases v) auto

lemma x_use_simps [simp]:
  "f_tag (x_useFiber c p) = f_tag (snd c)" "f_key (x_useFiber c p) = f_key (snd c)" "f_props (x_useFiber c p) = p"
  "f_state (x_useFiber c p) = f_state (snd c)"
  by (simp_all add: x_useFiber_def)

lemma type_fits_cong [simp]:
  "type_fits t (f\<lparr>f_index := i\<rparr>) = type_fits t f" "type_fits t (f\<lparr>f_placed := b\<rparr>) = type_fits t f"
  "type_fits t (f\<lparr>f_forked := b\<rparr>) = type_fits t f" "type_fits t (x_useFiber c p) = type_fits t (snd c)"
  by (cases t; simp add: type_fits_def same_type_def x_useFiber_def)+

lemma untyped_simps [simp]:
  "untyped (f\<lparr>f_index := i\<rparr>) = untyped f" "untyped (f\<lparr>f_placed := b\<rparr>) = untyped f"
  "untyped (f\<lparr>f_forked := b\<rparr>) = untyped f" "untyped (x_useFiber c p) = untyped (snd c)"
  "untyped (Cs_text s)" "untyped (hu_fragment kids k)" "untyped (Bp_portal k m n kids)"
  by (simp_all add: untyped_def x_useFiber_def Cs_text_def hu_fragment_def Bp_portal_def Bn_fiber_def)

lemma wf_untyped: "wf_fiber f \<Longrightarrow> f_tag f \<noteq> TElement \<Longrightarrow> untyped f"
  by (auto simp: wf_fiber_def untyped_def)

lemma matches_wf: "matches v f \<Longrightarrow> wf_fiber f"
  by (cases v) (simp_all add: wf_fiber_def untyped_def split: if_splits)

lemma matches_cong [simp]:
  "matches v (f\<lparr>f_index := i\<rparr>) = matches v f" "matches v (f\<lparr>f_placed := b\<rparr>) = matches v f"
  "matches v (f\<lparr>f_forked := b\<rparr>) = matches v f"
  by (cases v; simp)+

lemma qp_matches: "matches (Elem t k p kids) (qp_element t k p kids)" "f_alternate (qp_element t k p kids) = None"
  by (cases t; simp add: rec_defs type_fits_def same_type_def)+

lemma type_fits_tag: "type_fits t f \<Longrightarrow> wf_fiber f \<Longrightarrow> t \<noteq> Fragment \<Longrightarrow> f_tag f = TElement"
  by (auto simp: type_fits_def same_type_def wf_fiber_def bindR_def split: if_splits etype.splits sum.splits)

text \<open>Reuse of a fiber: it keeps the key and names the fiber it continues.\<close>

definition continues :: "'p fiber \<Rightarrow> 'p current \<Rightarrow> bool" where
  "continues f c \<longleftrightarrow> f_alternate f = Some (fst c, f_index (snd c)) \<and> f_key f = f_key (snd c)"

definition from_cur :: "'p current option \<Rightarrow> 'p fiber \<Rightarrow> bool" where
  "from_cur cur f \<longleftrightarrow> \<not> f_placed f \<and> (f_alternate f = None \<or> (\<exists>c. cur = Some c \<and> continues f c))"

lemma from_cur_use: "from_cur (Some c) (x_useFiber c p)"
  by (simp add: from_cur_def continues_def x_useFiber_def)

lemma from_cur_new [simp]: "from_cur cur (Cs_text s)" "from_cur cur (hu_fragment c k)" "from_cur cur (Bp_portal k a b c)"
  "from_cur cur (qp_element t k p c)"
  by (cases t; simp add: from_cur_def rec_defs)+

lemma te_from_cur: "te_updateElement cur t k p kids = Inr f \<Longrightarrow> from_cur cur f"
  by (auto simp: te_updateElement_def Ce_updateFragment_def from_cur_use bindR_eq_Inr split: if_splits option.splits)

lemma te_matches:
  assumes "te_updateElement cur t k p kids = Inr f" "\<And>c. cur = Some c \<Longrightarrow> wf_fiber (snd c) \<and> f_key (snd c) = k"
  shows "matches (Elem t k p kids) f"
proof (cases "t = Fragment")
  case True
  then show ?thesis using assms by (auto simp: rec_defs wf_fiber_def split: option.splits if_splits)
next
  case False
  show ?thesis
  proof (cases cur)
    case None
    then show ?thesis using assms False qp_matches(1) [of t k p kids] by (auto simp: te_updateElement_def)
  next
    case (Some c)
    then obtain b where b: "same_type (snd c) t = Inr b" "f = (if b then x_useFiber c (PProps p) else qp_element t k p kids)"
      using assms False by (auto simp: te_updateElement_def bindR_eq_Inr)
    show ?thesis
    proof (cases b)
      case True
      then have fits: "type_fits t (snd c)" using b by (simp add: type_fits_def)
      then have "f_tag (snd c) = TElement" using Some assms(2) False type_fits_tag by blast
      then show ?thesis using b True fits False Some assms(2) by simp
    next
      case False
      then have "f = qp_element t k p kids" using b by simp
      then show ?thesis using qp_matches(1) by (simp only:)
    qed
  qed
qed

lemma small_from_cur [simp]:
  "from_cur cur (Y_updateText cur s)" "from_cur cur (Ce_updateFragment cur kids k)" "from_cur cur (Se_updatePortal cur k a b kids)"
  by (auto simp: Y_updateText_def Ce_updateFragment_def Se_updatePortal_def from_cur_use split: option.splits)

section \<open>One child\<close>

lemma Ne_ok:
  "Ne_createChild v = Inr g \<Longrightarrow>
     (case g of None \<Rightarrow> shown v = None | Some f \<Rightarrow> (\<exists>w. shown v = Some w \<and> matches w f) \<and> f_alternate f = None \<and> \<not> f_placed f)"
proof (induction v rule: Ne_createChild.induct)
  case (2 t k p kids)
  then show ?case using qp_matches [of t k p kids] from_cur_new(4) [of None t k p kids] by (auto simp: from_cur_def)
qed (auto simp: rec_defs split: if_splits option.splits)

lemma xe_ok:
  "xe_updateSlot cur v = Inr (Some f) \<Longrightarrow> (\<And>c. cur = Some c \<Longrightarrow> wf_fiber (snd c)) \<Longrightarrow>
     (\<exists>w. shown v = Some w \<and> matches w f \<and> ckey w = key_of cur) \<and> from_cur cur f"
proof (induction cur v rule: xe_updateSlot.induct)
  case (2 cur t k p kids)
  then have k: "k = key_of cur" and te: "te_updateElement cur t k p kids = Inr f"
    by (auto simp: bindR_eq_Inr split: if_splits)
  have "matches (Elem t k p kids) f"
    using te by (rule te_matches) (auto simp: k key_of_def 2)
  then show ?case using te_from_cur [OF te] k by simp
next
  case (3 cur k con impl kids)
  then show ?case by (auto simp: rec_defs wf_fiber_def split: if_splits option.splits)
      (auto simp: from_cur_def continues_def)
qed (auto simp: rec_defs from_cur_def continues_def wf_fiber_def split: if_splits option.splits)

text \<open>The map of remaining children: each under its own key or index.\<close>

definition map_ok :: "'p remaining \<Rightarrow> bool" where
  "map_ok m \<longleftrightarrow> distinct (map fst m) \<and> (\<forall>(s, c) \<in> set m. fiber_slot (snd c) = s \<and> wf_fiber (snd c))"

lemma map_ok_get:
  assumes "map_ok m" "map_of m s = Some c"
  shows "fiber_slot (snd c) = s" "wf_fiber (snd c)"
  using assms by (auto simp: map_ok_def dest!: map_of_SomeD)

lemma map_ok_key:
  assumes "map_ok m" "map_of m (child_slot k mt) = Some c"
  shows "f_key (snd c) = k"
  using map_ok_get(1) [OF assms] by (auto simp: fiber_slot_def child_slot_def split: option.splits)

lemma Te_ok:
  assumes "map_ok m"
  shows "Te_updateFromMap m mt v = Inr g \<Longrightarrow>
     (case g of None \<Rightarrow> shown v = None
      | Some f \<Rightarrow> \<exists>w. shown v = Some w \<and> matches w f \<and> from_cur (map_of m (child_slot (ckey w) mt)) f)"
  using assms
proof (induction m mt v rule: Te_updateFromMap.induct)
  case (2 m mt t k p kids)
  then obtain f where te: "te_updateElement (map_of m (child_slot k mt)) t k p kids = Inr f" "g = Some f"
    by (auto simp: bindR_eq_Inr)
  have "matches (Elem t k p kids) f"
    using te(1) by (rule te_matches) (use 2 map_ok_get map_ok_key in blast)
  then show ?case using te_from_cur [OF te(1)] te(2) by simp
next
  case (3 m mt k con impl kids)
  then show ?case
    using map_ok_key [of m k mt] map_ok_get(2) [of m "child_slot k mt"] small_from_cur(3) [of "map_of m (child_slot k mt)" k con impl kids]
    by (auto simp: Se_updatePortal_def x_useFiber_def Bp_portal_def Bn_fiber_def untyped_def wf_fiber_def split: if_splits option.splits)
next
  case (1 m mt s)
  then show ?case
    using map_ok_key [of m None mt] map_ok_get(2) [of m "SIdx mt"] small_from_cur(1) [of "map_of m (SIdx mt)" s]
    by (auto simp: Y_updateText_def x_useFiber_def Cs_text_def Bn_fiber_def child_slot_def untyped_def wf_fiber_def split: if_splits option.splits)
next
  case (4 m mt cs)
  then show ?case
    using map_ok_key [of m None mt] map_ok_get(2) [of m "SIdx mt"] small_from_cur(2) [of "map_of m (SIdx mt)" "Arr cs" None]
    by (auto simp: Ce_updateFragment_def x_useFiber_def hu_fragment_def Bn_fiber_def child_slot_def untyped_def wf_fiber_def split: if_splits option.splits)
next
  case (5 m mt cs)
  then show ?case
    using map_ok_key [of m None mt] map_ok_get(2) [of m "SIdx mt"] small_from_cur(2) [of "map_of m (SIdx mt)" "Iter cs" None]
    by (auto simp: Ce_updateFragment_def x_useFiber_def hu_fragment_def Bn_fiber_def child_slot_def untyped_def wf_fiber_def split: if_splits option.splits)
qed (auto split: option.splits)

section \<open>The loops\<close>

definition alt_ids :: "'p fiber list \<Rightarrow> nat list" where
  "alt_ids fs = concat (map (\<lambda>f. case f_alternate f of Some (i, old) \<Rightarrow> [i] | None \<Rightarrow> []) fs)"

lemma alt_ids_simps [simp]:
  "alt_ids [] = []" "alt_ids (a @ b) = alt_ids a @ alt_ids b"
  "alt_ids [f] = (case f_alternate f of Some (i, old) \<Rightarrow> [i] | None \<Rightarrow> [])"
  by (simp_all add: alt_ids_def)

lemma place_simps:
  assumes "placeChild l f le mt = (f', le')"
  shows "matches v f' = matches v f" "f_alternate f' = f_alternate f" "f_key f' = f_key f" "f_index f' = mt"
  using assms by (auto simp: placeChild_def Let_def split: if_splits option.splits prod.splits)

text \<open>The children that show something, with their positions.\<close>

definition shown_from :: "nat \<Rightarrow> 'p child list \<Rightarrow> (nat \<times> 'p child) list" where
  "shown_from mt vs = concat (map (\<lambda>(i, v). case shown v of Some w \<Rightarrow> [(i, w)] | None \<Rightarrow> []) (enumerate mt vs))"

lemma shown_from_simps [simp]:
  "shown_from mt [] = []"
  "shown_from mt (v # vs) = (case shown v of Some w \<Rightarrow> [(mt, w)] | None \<Rightarrow> []) @ shown_from (Suc mt) vs"
  by (simp_all add: shown_from_def split: option.splits)

abbreviation fits :: "nat \<times> 'p child \<Rightarrow> 'p fiber \<Rightarrow> bool" where
  "fits iw f \<equiv> f_index f = fst iw \<and> matches (snd iw) f"

definition wf_olds :: "'p current list \<Rightarrow> bool" where
  "wf_olds olds \<longleftrightarrow> (\<forall>c \<in> set olds. wf_fiber (snd c)) \<and> distinct (map (fiber_slot \<circ> snd) olds)"

lemma wf_olds_tl: "wf_olds (c # olds) \<Longrightarrow> wf_fiber (snd c) \<and> wf_olds olds"
  by (simp add: wf_olds_def)

text \<open>The first loop shows a prefix of the children, and accounts for the old ones it passed.\<close>

lemma Qe_slots_ok:
  assumes "Qe_slots l mt le olds news acc dels = Inr w" "wf_olds olds"
  shows "wf_olds (wk_olds w) \<and> (\<exists>pre fs. news = pre @ wk_news w \<and> wk_mt w = mt + length pre \<and> wk_acc w = acc @ fs \<and>
      list_all2 fits (shown_from mt pre) fs \<and>
      (l \<longrightarrow> mset (alt_ids fs) + mset (wk_dels w) + mset (map fst (wk_olds w)) = mset dels + mset (map fst olds)))"
  using assms
proof (induction l mt le olds news acc dels rule: Qe_slots.induct)
  case (1 l mt le c olds v news acc dels)
  define skip where "skip = (f_index (snd c) > mt)"
  obtain g where g: "xe_updateSlot (if skip then None else Some c) v = Inr g"
    using "1.prems"(1) by (auto simp: bindR_eq_Inr skip_def Let_def)
  show ?case
  proof (cases g)
    case None
    then have "w = \<lparr>wk_mt = mt, wk_last = le, wk_olds = c # olds, wk_news = v # news, wk_acc = acc, wk_dels = dels\<rparr>"
      using "1.prems"(1) g by (simp add: skip_def [symmetric])
    then show ?thesis using "1.prems"(2) by (intro conjI exI [of _ "[]"]) auto
  next
    case (Some f)
    define dels' where "dels' = (if \<not> skip \<and> f_alternate f = None then o_deleteChild l c dels else dels)"
    obtain f' le' where pl: "placeChild l f le mt = (f', le')" by fastforce
    have rec: "Qe_slots l (Suc mt) le' (if skip then c # olds else olds) news (acc @ [f']) dels' = Inr w"
      using "1.prems"(1) g Some pl by (simp add: skip_def [symmetric] dels'_def Let_def)
    have wf: "wf_olds (if skip then c # olds else olds)" using "1.prems"(2) wf_olds_tl [of c olds] by auto
    have x: "(\<exists>u. shown v = Some u \<and> matches u f \<and> ckey u = key_of (if skip then None else Some c)) \<and> from_cur (if skip then None else Some c) f"
      using xe_ok [of "if skip then None else Some c" v f] g Some "1.prems"(2) wf_olds_tl [of c olds] by (auto split: if_splits)
    from "1.IH" [OF skip_def dels'_def refl pl [symmetric] rec wf] obtain pre fs where
      ih: "news = pre @ wk_news w" "wk_mt w = Suc mt + length pre" "wk_acc w = (acc @ [f']) @ fs"
      "list_all2 fits (shown_from (Suc mt) pre) fs" "wf_olds (wk_olds w)"
      "l \<Longrightarrow> mset (alt_ids fs) + mset (wk_dels w) + mset (map fst (wk_olds w)) = mset dels' + mset (map fst (if skip then c # olds else olds))"
      by auto
    have m: "l \<Longrightarrow> mset (alt_ids [f']) + mset dels' + mset (map fst (if skip then c # olds else olds)) = mset dels + mset (map fst (c # olds))"
      using x by (auto simp: place_simps [OF pl] dels'_def o_deleteChild_def from_cur_def continues_def split: option.splits if_splits)
    show ?thesis
    proof (intro conjI exI [of _ "v # pre"] exI [of _ "f' # fs"] impI)
      show "list_all2 fits (shown_from mt (v # pre)) (f' # fs)" using x ih(4) by (auto simp: place_simps [OF pl])
      assume l
      then show "mset (alt_ids (f' # fs)) + mset (wk_dels w) + mset (map fst (wk_olds w)) = mset dels + mset (map fst (c # olds))"
        using ih(6) m alt_ids_simps(2) [of "[f']" fs] by (simp add: add.assoc del: alt_ids_simps)
    qed (use ih in auto)
  qed
qed (auto intro!: exI [of _ "[]"])

lemma Qe_create_ok:
  assumes "Qe_create l mt le news acc = Inr fs'"
  shows "\<exists>fs. fs' = acc @ fs \<and> list_all2 fits (shown_from mt news) fs \<and> alt_ids fs = []"
  using assms
proof (induction l mt le news acc rule: Qe_create.induct)
  case (2 l mt le v news acc)
  obtain g where g: "Ne_createChild v = Inr g" using "2.prems" by (auto simp: bindR_eq_Inr)
  note ok = Ne_ok [OF g]
  show ?case
  proof (cases g)
    case None
    then show ?thesis using 2 g ok by auto
  next
    case (Some f)
    obtain f' le' where pl: "placeChild l f le mt = (f', le')" by fastforce
    have "Qe_create l (Suc mt) le' news (acc @ [f']) = Inr fs'" using "2.prems" g Some pl by simp
    from "2.IH"(2) [OF refl pl [symmetric] this] obtain fs where
      "fs' = (acc @ [f']) @ fs" "list_all2 fits (shown_from (Suc mt) news) fs" "alt_ids fs = []" by blast
    then show ?thesis using ok Some place_simps [OF pl] alt_ids_simps(2) [of "[f']" fs]
      by (intro exI [of _ "f' # fs"]) (auto simp del: alt_ids_simps(2))
  qed
qed simp

lemma p_mapRemaining_distinct:
  assumes "distinct (map (fiber_slot \<circ> snd) olds)"
  shows "p_mapRemaining olds = map (\<lambda>c. (fiber_slot (snd c), c)) olds"
proof -
  have new: "AList.update k v m = m @ [(k, v)]" if "k \<notin> fst ` set m" for k :: slot and v :: "'p current" and m
    using that by (induction m) auto
  have "fold (\<lambda>c m. AList.update (fiber_slot (snd c)) c m) olds m = m @ map (\<lambda>c. (fiber_slot (snd c), c)) olds"
    if "distinct (map (fiber_slot \<circ> snd) olds)" "\<forall>c \<in> set olds. fiber_slot (snd c) \<notin> fst ` set m" for m
    using that
  proof (induction olds arbitrary: m)
    case (Cons c olds)
    let ?m = "m @ [(fiber_slot (snd c), c)]"
    have "\<forall>d \<in> set olds. fiber_slot (snd d) \<notin> fst ` set ?m"
      using Cons.prems by (auto simp: image_iff)
    then have "fold (\<lambda>c m. AList.update (fiber_slot (snd c)) c m) olds ?m = ?m @ map (\<lambda>c. (fiber_slot (snd c), c)) olds"
      using Cons.IH Cons.prems(1) by simp
    then show ?case using Cons.prems(2) by (simp add: new)
  qed simp
  then show ?thesis using assms by (simp add: p_mapRemaining_def)
qed

lemma p_mapRemaining_ok:
  assumes "wf_olds olds"
  shows "map_ok (p_mapRemaining olds)" "map snd (p_mapRemaining olds) = olds"
  using assms by (simp_all add: wf_olds_def p_mapRemaining_distinct map_ok_def comp_def image_iff)

lemma map_ok_delete:
  assumes "map_ok m"
  shows "map_ok (AList.delete s m)"
  using assms by (auto simp: map_ok_def AList.delete_eq distinct_map_filter)

lemma mset_delete:
  assumes "distinct (map fst m)" "map_of m s = Some c"
  shows "mset (map snd m) = add_mset c (mset (map snd (AList.delete s m)))"
  using assms
proof (induction m)
  case (Cons p m)
  have "AList.delete s m = m" if "s \<notin> fst ` set m" for m :: "('a \<times> 'b) list"
    using that by (force simp: AList.delete_eq filter_id_conv)
  then show ?case using Cons by (cases p) (auto split: if_splits)
qed simp

lemma Qe_mapped_ok:
  assumes "Qe_mapped l mt le m news acc = Inr (m', fs')" "map_ok m"
  shows "\<exists>fs. fs' = acc @ fs \<and> list_all2 fits (shown_from mt news) fs \<and>
    (l \<longrightarrow> mset (alt_ids fs) + mset (map (fst \<circ> snd) m') = mset (map (fst \<circ> snd) m))"
  using assms
proof (induction l mt le m news acc rule: Qe_mapped.induct)
  case (2 l mt le m v news acc)
  obtain g where g: "Te_updateFromMap m mt v = Inr g" using "2.prems" by (auto simp: bindR_eq_Inr)
  note ok = Te_ok [OF "2.prems"(2) g]
  show ?case
  proof (cases g)
    case None
    then show ?thesis using 2 g ok by auto
  next
    case (Some f)
    then obtain w where w: "shown v = Some w" "matches w f" "from_cur (map_of m (child_slot (ckey w) mt)) f" using ok by auto
    define m1 where "m1 = (if l \<and> f_alternate f \<noteq> None then AList.delete (child_slot (f_key f) mt) m else m)"
    obtain f' le' where pl: "placeChild l f le mt = (f', le')" by fastforce
    have rec: "Qe_mapped l (Suc mt) le' m1 news (acc @ [f']) = Inr (m', fs')"
      using "2.prems"(1) g Some pl by (simp add: m1_def Let_def)
    have ok1: "map_ok m1" using "2.prems"(2) map_ok_delete by (auto simp: m1_def)
    from "2.IH"(2) [OF m1_def refl pl [symmetric] rec ok1] obtain fs where
      ih: "fs' = (acc @ [f']) @ fs" "list_all2 fits (shown_from (Suc mt) news) fs"
      "l \<Longrightarrow> mset (alt_ids fs) + mset (map (fst \<circ> snd) m') = mset (map (fst \<circ> snd) m1)" by (auto simp: comp_def)
    have m: "mset (alt_ids [f']) + mset (map (fst \<circ> snd) m1) = mset (map (fst \<circ> snd) m)" if l
    proof (cases "f_alternate f")
      case None
      then show ?thesis by (simp add: m1_def place_simps [OF pl])
    next
      case (Some a)
      then obtain c where c: "map_of m (child_slot (f_key f) mt) = Some c" "f_alternate f = Some (fst c, f_index (snd c))"
        using w(3) matches_key [OF w(2)] by (auto simp: from_cur_def continues_def)
      have "mset (map snd m) = add_mset c (mset (map snd m1))"
        using mset_delete [OF _ c(1)] "2.prems"(2) that Some by (simp add: m1_def map_ok_def)
      then have "image_mset fst (mset (map snd m)) = add_mset (fst c) (image_mset fst (mset (map snd m1)))" by simp
      then show ?thesis using c(2) by (simp add: place_simps [OF pl] multiset.map_comp comp_def)
    qed
    have "list_all2 fits (shown_from mt (v # news)) (f' # fs)" using w ih(2) by (simp add: place_simps [OF pl])
    moreover have "mset (alt_ids (f' # fs)) + mset (map (fst \<circ> snd) m') = mset (map (fst \<circ> snd) m)" if l
      using m [OF that] ih(3) [OF that] alt_ids_simps(2) [of "[f']" fs] by (simp add: add.assoc del: alt_ids_simps)
    ultimately show ?thesis using ih(1) by (intro exI [of _ "f' # fs"]) (auto simp: comp_def)
  qed
qed simp

lemma Qe_reconcileArray_ok:
  assumes "Qe_reconcileArray l olds news dels = Inr (fs, ds)" "wf_olds olds"
  shows "list_all2 fits (shown_from 0 news) fs \<and> (l \<longrightarrow> mset (alt_ids fs) + mset ds = mset dels + mset (map fst olds))"
proof -
  obtain w where w: "Qe_slots l 0 0 olds news [] dels = Inr w"
    using assms(1) by (auto simp: Qe_reconcileArray_def bindR_eq_Inr)
  from Qe_slots_ok [OF w assms(2)] obtain pre gs where
    s: "wf_olds (wk_olds w)" "news = pre @ wk_news w" "wk_mt w = length pre" "wk_acc w = gs" "list_all2 fits (shown_from 0 pre) gs"
    "l \<Longrightarrow> mset (alt_ids gs) + mset (wk_dels w) + mset (map fst (wk_olds w)) = mset dels + mset (map fst olds)" by auto
  have app: "shown_from 0 (pre @ vs) = shown_from 0 pre @ shown_from (length pre) vs" for vs
    by (simp add: shown_from_def enumerate_append_eq)
  note e = assms(1) [unfolded Qe_reconcileArray_def w bindR_simps]
  consider "wk_news w = []" | "wk_news w \<noteq> []" "wk_olds w = []" | "wk_news w \<noteq> []" "wk_olds w \<noteq> []" by blast
  then show ?thesis
  proof cases
    case 1
    then show ?thesis using e s by (auto simp: f_deleteRemaining_def ac_simps)
  next
    case 2
    then obtain fs' where c: "Qe_create l (length pre) (wk_last w) (wk_news w) gs = Inr fs'" "fs = fs'" "ds = wk_dels w"
      using e s by (auto simp: bindR_eq_Inr)
    from Qe_create_ok [OF c(1)] show ?thesis
      using c s 2 app [of "wk_news w"] by (auto intro: list_all2_appendI)
  next
    case 3
    then obtain m' where c: "Qe_mapped l (length pre) (wk_last w) (p_mapRemaining (wk_olds w)) (wk_news w) gs = Inr (m', fs)"
      "ds = f_deleteRemaining l (map snd m') (wk_dels w)"
      using e s by (auto simp: bindR_eq_Inr)
    from Qe_mapped_ok [OF c(1) p_mapRemaining_ok(1) [OF s(1)]] obtain hs where
      h: "fs = gs @ hs" "list_all2 fits (shown_from (length pre) (wk_news w)) hs"
      "l \<Longrightarrow> mset (alt_ids hs) + mset (map (fst \<circ> snd) m') = mset (map (fst \<circ> snd) (p_mapRemaining (wk_olds w)))" by blast
    have "map (fst \<circ> snd) (p_mapRemaining (wk_olds w)) = map fst (wk_olds w)"
      using p_mapRemaining_ok(2) [OF s(1)] by (metis map_map)
    then show ?thesis
      using h s app [of "wk_news w"] c(2) by (auto simp: f_deleteRemaining_def ac_simps intro: list_all2_appendI)
  qed
qed

section \<open>Moves\<close>

text \<open>The old indices of the fibers that are not moved, in the new order.\<close>

definition stays :: "'p fiber list \<Rightarrow> nat list" where
  "stays fs = concat (map (\<lambda>f. if f_placed f then [] else case f_alternate f of Some (i, old) \<Rightarrow> [old] | None \<Rightarrow> []) fs)"

text \<open>New fibers are placed; the others stay in order up to the largest index so far.\<close>

definition moves_ok :: "'p fiber list \<Rightarrow> nat \<Rightarrow> bool" where
  "moves_ok fs le \<longleftrightarrow> sorted (stays fs) \<and> (\<forall>i \<in> set (stays fs). i \<le> le) \<and> (\<forall>f \<in> set fs. f_alternate f = None \<longrightarrow> f_placed f)"

lemma stays_snoc:
  "stays (fs @ [f]) = stays fs @ (if f_placed f then [] else case f_alternate f of Some (i, old) \<Rightarrow> [old] | None \<Rightarrow> [])"
  by (simp add: stays_def)

lemma place_moves:
  assumes "placeChild True f le mt = (f', le')" "moves_ok fs le" "\<not> f_placed f"
  shows "moves_ok (fs @ [f']) le'"
  using assms
  by (auto simp: moves_ok_def stays_snoc placeChild_def Let_def sorted_append split: option.splits if_splits prod.splits)

lemma xe_unplaced: "xe_updateSlot cur v = Inr (Some f) \<Longrightarrow> \<not> f_placed f"
proof (induction cur v rule: xe_updateSlot.induct)
  case (2 cur t k p kids)
  then have "te_updateElement cur t k p kids = Inr f" by (auto simp: bindR_eq_Inr split: if_splits)
  from te_from_cur [OF this] show ?case by (simp add: from_cur_def)
qed (auto simp: rec_defs split: if_splits option.splits)

lemma Te_unplaced: "Te_updateFromMap m mt v = Inr (Some f) \<Longrightarrow> \<not> f_placed f"
proof (induction m mt v rule: Te_updateFromMap.induct)
  case (2 m mt t k p kids)
  then have "te_updateElement (map_of m (child_slot k mt)) t k p kids = Inr f" by (auto simp: bindR_eq_Inr)
  from te_from_cur [OF this] show ?case by (simp add: from_cur_def)
qed (auto simp: rec_defs split: if_splits option.splits)

lemma Qe_slots_moves:
  "Qe_slots True mt le olds news acc dels = Inr w \<Longrightarrow> moves_ok acc le \<Longrightarrow> moves_ok (wk_acc w) (wk_last w)"
proof (induction "True" mt le olds news acc dels rule: Qe_slots.induct)
  case (1 mt le c olds v news acc dels)
  obtain g where g: "xe_updateSlot (if f_index (snd c) > mt then None else Some c) v = Inr g"
    using "1.prems"(1) by (auto simp: bindR_eq_Inr Let_def)
  show ?case
  proof (cases g)
    case None
    then show ?thesis using "1.prems" g by auto
  next
    case (Some f)
    obtain f' le' where pl: "placeChild True f le mt = (f', le')" by fastforce
    show ?thesis
      using "1.hyps" [OF refl refl refl pl [symmetric]] "1.prems" g Some pl place_moves [OF pl "1.prems"(2)] xe_unplaced [of _ v f]
      by (auto simp: Let_def)
  qed
qed auto

lemma Qe_create_moves:
  "Qe_create True mt le news acc = Inr fs \<Longrightarrow> moves_ok acc le \<Longrightarrow> \<exists>le'. moves_ok fs le'"
proof (induction "True" mt le news acc rule: Qe_create.induct)
  case (2 mt le v news acc)
  obtain g where g: "Ne_createChild v = Inr g" using "2.prems" by (auto simp: bindR_eq_Inr)
  show ?case
  proof (cases g)
    case None
    then show ?thesis using "2.hyps"(1) "2.prems" g by auto
  next
    case (Some f)
    obtain f' le' where pl: "placeChild True f le mt = (f', le')" by fastforce
    show ?thesis
      using "2.hyps"(2) [OF refl pl [symmetric]] "2.prems" g Some pl place_moves [OF pl "2.prems"(2)] Ne_ok [OF g] by simp
  qed
qed auto

lemma Qe_mapped_moves:
  "Qe_mapped True mt le m news acc = Inr (m', fs) \<Longrightarrow> moves_ok acc le \<Longrightarrow> \<exists>le'. moves_ok fs le'"
proof (induction "True" mt le m news acc rule: Qe_mapped.induct)
  case (2 mt le m v news acc)
  obtain g where g: "Te_updateFromMap m mt v = Inr g" using "2.prems" by (auto simp: bindR_eq_Inr)
  show ?case
  proof (cases g)
    case None
    then show ?thesis using "2.hyps"(1) "2.prems" g by auto
  next
    case (Some f)
    obtain f' le' where pl: "placeChild True f le mt = (f', le')" by fastforce
    show ?thesis
      using "2.hyps"(2) [OF refl refl pl [symmetric]] "2.prems" g Some pl place_moves [OF pl "2.prems"(2)] Te_unplaced [of m mt v f]
      by (simp add: Let_def)
  qed
qed auto

section \<open>The whole function\<close>

lemma moves_single: "moves_ok [j_placeSingle True f] (case f_alternate f of Some (i, old) \<Rightarrow> old | None \<Rightarrow> 0)" if "\<not> f_placed f"
  using that by (auto simp: moves_ok_def stays_def j_placeSingle_def split: option.splits)

lemma Qe_reconcileArray_moves:
  assumes "Qe_reconcileArray True olds news dels = Inr (fs, ds)"
  shows "\<exists>le. moves_ok fs le"
proof -
  obtain w where w: "Qe_slots True 0 0 olds news [] dels = Inr w"
    using assms by (auto simp: Qe_reconcileArray_def bindR_eq_Inr)
  have "moves_ok (wk_acc w) (wk_last w)" using Qe_slots_moves [OF w] by (simp add: moves_ok_def stays_def)
  then show ?thesis
    using assms w Qe_create_moves Qe_mapped_moves
    by (auto simp: Qe_reconcileArray_def bindR_eq_Inr split: if_splits) blast+
qed

lemma ln_element_ok:
  assumes "ln_element True olds t k p kids dels = Inr (f, ds)" "\<forall>c \<in> set olds. wf_fiber (snd c)"
  shows "matches (Elem t k p kids) f \<and> \<not> f_placed f \<and> mset (alt_ids [f]) + mset ds = mset dels + mset (map fst olds)"
  using assms
proof (induction olds arbitrary: dels)
  case Nil
  then show ?case using qp_matches [of t k p kids] from_cur_new(4) [of None t k p kids] by (auto simp: from_cur_def)
next
  case (Cons c olds)
  note qp = qp_matches [of t k p kids] from_cur_new(4) [of None t k p kids, unfolded from_cur_def, THEN conjunct1]
  consider "f_key (snd c) \<noteq> k" | "f_key (snd c) = k" "f = qp_element t k p kids" "ds = f_deleteRemaining True (c # olds) dels"
    | "f_key (snd c) = k" "f = x_useFiber c (if t = Fragment then PKids kids else PProps p)" "ds = f_deleteRemaining True olds dels"
      "if t = Fragment then f_tag (snd c) = TFragment else type_fits t (snd c)"
    using Cons.prems(1) by (auto simp: bindR_eq_Inr type_fits_def split: if_splits)
  then show ?case
  proof cases
    case 1
    then show ?thesis using Cons by (auto simp: o_deleteChild_def)
  next
    case 2
    then show ?thesis using qp by (simp add: f_deleteRemaining_def del: matches.simps)
  next
    case 3
    have "f_alternate f = Some (fst c, f_index (snd c))" "\<not> f_placed f" using 3(2) by (simp_all add: x_useFiber_def)
    moreover have "matches (Elem t k p kids) f"
      using 3 Cons.prems(2) type_fits_tag [of t "snd c"] wf_untyped [of "snd c"] by (cases "t = Fragment") simp_all
    ultimately show ?thesis using 3(3) by (simp add: f_deleteRemaining_def)
  qed
qed

lemma ln_portal_ok:
  assumes "ln_portal True olds k a b kids dels = (f, ds)" "\<forall>c \<in> set olds. wf_fiber (snd c)"
  shows "matches (Portal k a b kids) f \<and> \<not> f_placed f \<and> mset (alt_ids [f]) + mset ds = mset dels + mset (map fst olds)"
  using assms
  by (induction olds arbitrary: dels)
    (auto simp: rec_defs f_deleteRemaining_def o_deleteChild_def wf_fiber_def split: if_splits)

lemma ln_text_ok:
  assumes "ln_text True olds s dels = (f, ds)" "\<forall>c \<in> set olds. wf_fiber (snd c)"
  shows "matches (Text s) f \<and> \<not> f_placed f \<and> mset (alt_ids [f]) + mset ds = mset dels + mset (map fst olds)"
  using assms by (cases olds) (auto simp: ln_text_def rec_defs f_deleteRemaining_def wf_fiber_def split: if_splits)

text \<open>What the children as a whole show: a single child at position 0, or the members of a list.\<close>

function views :: "'p child \<Rightarrow> (nat \<times> 'p child) list" where
  "views v0 = (case ln_unwrap v0 of
     Arr cs \<Rightarrow> shown_from 0 cs
   | Iter cs \<Rightarrow> shown_from 0 cs
   | Wrap (Ready v) \<Rightarrow> views v
   | v \<Rightarrow> (case shown v of Some w \<Rightarrow> [(0, w)] | None \<Rightarrow> []))"
  by pat_completeness auto
termination
proof (relation "measure size", goal_cases)
  case (2 v0 x7 x)
  then show ?case using ln_unwrap_size [of v0] by simp
qed simp

declare views.simps [simp del]

lemma single_ok:
  assumes "matches w f" "\<not> f_placed f" "f_index f = 0" "mset (alt_ids [f]) + mset ds = M"
  shows "list_all2 fits [(0, w)] [j_placeSingle True f] \<and> mset (alt_ids [j_placeSingle True f]) + mset ds = M \<and>
    (\<exists>le. moves_ok [j_placeSingle True f] le)"
proof -
  have "f_alternate (j_placeSingle True f) = f_alternate f" "matches w (j_placeSingle True f)" "f_index (j_placeSingle True f) = 0"
    using assms by (simp_all add: j_placeSingle_def)
  then show ?thesis using assms(4) moves_single [OF assms(2)] by auto
qed

lemma index_new: "f_index (qp_element t k p kids) = 0"
  by (cases t) (simp_all add: rec_defs)

lemma ln_index:
  "ln_element l olds t k p kids dels = Inr (f, ds) \<Longrightarrow> f_index f = 0"
  "ln_portal l olds k a b kids dels = (f', ds') \<Longrightarrow> f_index f' = 0"
  "ln_text l olds s dels = (f'', ds'') \<Longrightarrow> f_index f'' = 0"
proof -
  show "ln_element l olds t k p kids dels = Inr (f, ds) \<Longrightarrow> f_index f = 0"
    by (induction olds arbitrary: dels) (auto simp: bindR_eq_Inr x_useFiber_def index_new hu_fragment_def Bn_fiber_def split: if_splits)
  show "ln_portal l olds k a b kids dels = (f', ds') \<Longrightarrow> f_index f' = 0"
    by (induction olds arbitrary: dels) (auto simp: rec_defs split: if_splits)
  show "ln_text l olds s dels = (f'', ds'') \<Longrightarrow> f_index f'' = 0"
    by (auto simp: ln_text_def rec_defs split: list.splits if_splits)
qed

lemma ln_reconcile_ok:
  "ln_reconcile True olds v dels = Inr (fs, ds) \<Longrightarrow> wf_olds olds \<Longrightarrow>
     list_all2 fits (views v) fs \<and> mset (alt_ids fs) + mset ds = mset dels + mset (map fst olds) \<and> (\<exists>le. moves_ok fs le)"
proof (induction "True" olds v dels rule: ln_reconcile.induct)
  case (1 olds v0 dels)
  note e = "1.prems"(1) [unfolded ln_reconcile.simps [of True olds v0]]
  have wf: "\<forall>c \<in> set olds. wf_fiber (snd c)" using "1.prems"(2) by (simp add: wf_olds_def)
  have none: "list_all2 fits [] [] \<and> mset (alt_ids []) + mset (f_deleteRemaining True olds dels) = mset dels + mset (map fst olds) \<and>
      (\<exists>le. moves_ok [] le)"
    by (simp add: f_deleteRemaining_def moves_ok_def stays_def)
  show ?case
  proof (cases "ln_unwrap v0")
    case Empty
    then show ?thesis using e none by (simp add: views.simps [of v0])
  next
    case (Text s)
    show ?thesis
    proof (cases "s = []")
      case True
      then show ?thesis using e none Text by (simp add: views.simps [of v0])
    next
      case False
      obtain f ds' where t: "ln_text True olds s dels = (f, ds')" by fastforce
      then have "fs = [j_placeSingle True f]" "ds = ds'" using e Text False by simp_all
      then show ?thesis
        using single_ok [of "Text s" f ds] ln_text_ok [OF t wf] ln_index(3) [OF t] Text False by (simp add: views.simps [of v0])
    qed
  next
    case (Elem t k p kids)
    then obtain f where t: "ln_element True olds t k p kids dels = Inr (f, ds)" "fs = [j_placeSingle True f]"
      using e by (auto simp: bindR_eq_Inr)
    then show ?thesis
      using single_ok [of "Elem t k p kids" f ds] ln_element_ok [OF t(1) wf] ln_index(1) [OF t(1)] Elem
      by (simp add: views.simps [of v0] del: matches.simps)
  next
    case (Portal k a b kids)
    obtain f ds' where t: "ln_portal True olds k a b kids dels = (f, ds')" by fastforce
    then have "fs = [j_placeSingle True f]" "ds = ds'" using e Portal by simp_all
    then show ?thesis
      using single_ok [of "Portal k a b kids" f ds] ln_portal_ok [OF t wf] ln_index(2) [OF t] Portal
      by (simp add: views.simps [of v0] del: matches.simps)
  next
    case (Arr cs)
    then show ?thesis
      using e Qe_reconcileArray_ok [of True olds cs dels fs ds] Qe_reconcileArray_moves [of olds cs dels fs ds] "1.prems"(2)
      by (simp add: views.simps [of v0])
  next
    case (Iter cs)
    then show ?thesis
      using e Qe_reconcileArray_ok [of True olds cs dels fs ds] Qe_reconcileArray_moves [of olds cs dels fs ds] "1.prems"(2)
      by (simp add: views.simps [of v0] at_reconcileIterator_def)
  next
    case (Wrap r)
    show ?thesis
    proof (cases r)
      case (Ready v)
      then show ?thesis using "1.hyps" [OF Wrap Ready] e Wrap "1.prems"(2) by (simp add: views.simps [of v0])
    qed (use e Wrap in simp_all)
  next
    case Bad
    then show ?thesis using e by simp
  qed
qed

section \<open>Keys keep state\<close>

definition ckey_of :: "'p child \<Rightarrow> string option" where
  "ckey_of v = (case shown v of Some w \<Rightarrow> ckey w | None \<Rightarrow> None)"

lemma te_reuse: "t \<noteq> Fragment \<Longrightarrow> type_fits t (snd c) \<Longrightarrow> te_updateElement (Some c) t k p kids = Inr f \<Longrightarrow> f = x_useFiber c (PProps p)"
  by (simp add: te_updateElement_def type_fits_def)

lemma xe_reuse:
  "xe_updateSlot (Some c) v = Inr (Some f) \<Longrightarrow> shown v = Some (Elem t k p kids) \<Longrightarrow> t \<noteq> Fragment \<Longrightarrow> type_fits t (snd c) \<Longrightarrow>
     continues f c"
  by (induction "Some c" v rule: xe_updateSlot.induct)
    (auto simp: bindR_eq_Inr continues_def x_useFiber_def dest: te_reuse split: if_splits)

lemma Te_reuse:
  "Te_updateFromMap m mt v = Inr (Some f) \<Longrightarrow> shown v = Some (Elem t k p kids) \<Longrightarrow> t \<noteq> Fragment \<Longrightarrow>
     map_of m (child_slot k mt) = Some c \<Longrightarrow> type_fits t (snd c) \<Longrightarrow> continues f c"
  by (induction m mt v rule: Te_updateFromMap.induct)
    (auto simp: bindR_eq_Inr continues_def x_useFiber_def dest: te_reuse split: if_splits)

lemma place_continues: "placeChild l f le mt = (f', le') \<Longrightarrow> continues f c \<Longrightarrow> continues f' c"
  using place_simps [of l f le mt f' le'] by (simp add: continues_def)

text \<open>A child that can take over the fiber \<open>c\<close>: an element of its key and of its type.\<close>

definition takes_over :: "'p current \<Rightarrow> 'p child \<Rightarrow> bool" where
  "takes_over c v \<longleftrightarrow> (\<exists>t k p kids. shown v = Some (Elem t k p kids) \<and> t \<noteq> Fragment \<and> type_fits t (snd c))"

lemma slot_key_eq:
  assumes "wf_olds olds" "c \<in> set olds" "d \<in> set olds" "f_key (snd c) = Some k" "f_key (snd d) = Some k"
  shows "d = c"
proof -
  have "(fiber_slot \<circ> snd) c = (fiber_slot \<circ> snd) d" using assms(4,5) by (simp add: fiber_slot_def)
  moreover have "inj_on (fiber_slot \<circ> snd) (set olds)" using assms(1) by (simp add: wf_olds_def distinct_map)
  ultimately show ?thesis using assms(2,3) by (metis inj_onD)
qed

lemma Qe_slots_reuse:
  assumes "Qe_slots l mt le olds news acc dels = Inr w" "wf_olds olds" "c \<in> set olds" "f_key (snd c) = Some k"
    "\<And>v. v \<in> set news \<Longrightarrow> ckey_of v = Some k \<Longrightarrow> takes_over c v"
  shows "(\<exists>f \<in> set (wk_acc w). continues f c) \<or>
    (c \<in> set (wk_olds w) \<and> (\<exists>pre. news = pre @ wk_news w \<and> (\<forall>v \<in> set pre. ckey_of v \<noteq> Some k)))"
  using assms
proof (induction l mt le olds news acc dels rule: Qe_slots.induct)
  case (1 l mt le d olds v news acc dels)
  define skip where "skip = (f_index (snd d) > mt)"
  obtain g where g: "xe_updateSlot (if skip then None else Some d) v = Inr g"
    using "1.prems"(1) by (auto simp: bindR_eq_Inr skip_def Let_def)
  show ?case
  proof (cases g)
    case None
    then have "wk_olds w = d # olds" "wk_news w = v # news"
      using "1.prems"(1) g by (auto simp: skip_def [symmetric])
    then show ?thesis using "1.prems"(3) by auto
  next
    case (Some f)
    define dels' where "dels' = (if \<not> skip \<and> f_alternate f = None then o_deleteChild l d dels else dels)"
    obtain f' le' where pl: "placeChild l f le mt = (f', le')" by fastforce
    have rec: "Qe_slots l (Suc mt) le' (if skip then d # olds else olds) news (acc @ [f']) dels' = Inr w"
      using "1.prems"(1) g Some pl by (simp add: skip_def [symmetric] dels'_def Let_def)
    have wf: "wf_olds (if skip then d # olds else olds)" using "1.prems"(2) wf_olds_tl [of d olds] by auto
    have key: "ckey_of v = key_of (if skip then None else Some d)"
      using xe_ok [of "if skip then None else Some d" v f] g Some "1.prems"(2) wf_olds_tl [of d olds]
      by (auto simp: ckey_of_def split: if_splits)
    show ?thesis
    proof (cases "ckey_of v = Some k")
      case True
      then have ns: "\<not> skip" "f_key (snd d) = Some k" using key by (auto simp: key_of_def split: if_splits)
      then have dc: "d = c" using slot_key_eq [OF "1.prems"(2,3) _ "1.prems"(4)] by simp
      obtain t kk p kids where "shown v = Some (Elem t kk p kids)" "t \<noteq> Fragment" "type_fits t (snd c)"
        using "1.prems"(5) [of v] True by (auto simp: takes_over_def)
      then have "continues f' c" using xe_reuse [of c v f] g Some ns dc place_continues [OF pl] by simp
      moreover obtain fs where "wk_acc w = (acc @ [f']) @ fs" using Qe_slots_ok [OF rec wf] by blast
      ultimately show ?thesis by auto
    next
      case False
      then have "c \<in> set (if skip then d # olds else olds)"
        using "1.prems"(3,4) key by (auto simp: key_of_def split: if_splits)
      from "1.IH" [OF skip_def dels'_def refl pl [symmetric] rec wf this "1.prems"(4)] "1.prems"(5)
      consider "\<exists>f \<in> set (wk_acc w). continues f c" | pre where "c \<in> set (wk_olds w)" "news = pre @ wk_news w" "\<forall>v \<in> set pre. ckey_of v \<noteq> Some k"
        by auto
      then show ?thesis
      proof cases
        case (2 pre)
        then show ?thesis using False by (intro disjI2 conjI exI [of _ "v # pre"]) auto
      qed simp
    qed
  qed
qed auto

lemma Qe_mapped_reuse:
  assumes "Qe_mapped l mt le m news acc = Inr (m', fs')" "map_ok m" "map_of m (SKey k) = Some c"
    "\<And>v. v \<in> set news \<Longrightarrow> ckey_of v = Some k \<Longrightarrow> takes_over c v" "\<exists>v \<in> set news. ckey_of v = Some k"
  shows "\<exists>f \<in> set fs'. continues f c"
  using assms
proof (induction l mt le m news acc rule: Qe_mapped.induct)
  case (2 l mt le m v news acc)
  obtain g where g: "Te_updateFromMap m mt v = Inr g" using "2.prems"(1) by (auto simp: bindR_eq_Inr)
  note ok = Te_ok [OF "2.prems"(2) g]
  show ?case
  proof (cases g)
    case None
    then have "ckey_of v = None" using ok by (simp add: ckey_of_def)
    then show ?thesis using "2.IH"(1) "2.prems" g None by auto
  next
    case (Some f)
    then obtain w where w: "shown v = Some w" "matches w f" using ok by auto
    have fk: "f_key f = ckey_of v" using matches_key [OF w(2)] w(1) by (simp add: ckey_of_def)
    define m1 where "m1 = (if l \<and> f_alternate f \<noteq> None then AList.delete (child_slot (f_key f) mt) m else m)"
    obtain f' le' where pl: "placeChild l f le mt = (f', le')" by fastforce
    have rec: "Qe_mapped l (Suc mt) le' m1 news (acc @ [f']) = Inr (m', fs')"
      using "2.prems"(1) g Some pl by (simp add: m1_def Let_def)
    have ok1: "map_ok m1" using "2.prems"(2) map_ok_delete by (auto simp: m1_def)
    show ?thesis
    proof (cases "ckey_of v = Some k")
      case True
      then obtain t p kids where t: "shown v = Some (Elem t (Some k) p kids)" "t \<noteq> Fragment" "type_fits t (snd c)"
        using "2.prems"(4) [of v] by (auto simp: takes_over_def ckey_of_def)
      then have "continues f' c"
        using Te_reuse [of m mt v f t "Some k" p kids c] g Some "2.prems"(3) place_continues [OF pl] by (simp add: child_slot_def)
      moreover obtain fs where "fs' = (acc @ [f']) @ fs" using Qe_mapped_ok [OF rec ok1] by blast
      ultimately show ?thesis by auto
    next
      case False
      then have "map_of m1 (SKey k) = Some c"
        using "2.prems"(3) fk by (auto simp: m1_def child_slot_def AList.delete_conv' split: option.splits)
      then show ?thesis using "2.IH"(2) [OF m1_def refl pl [symmetric] rec ok1] "2.prems"(4,5) False by auto
    qed
  qed
qed simp

section \<open>Properties\<close>

lemma tS_Children: "tS_reconcileChildFibers l olds v = Children fs ds \<longleftrightarrow> ln_reconcile l olds v [] = Inr (fs, ds)"
  by (auto simp: tS_reconcileChildFibers_def split: sum.splits rec_error.splits)

lemma fits_slots:
  "list_all2 fits ws fs \<Longrightarrow> map fiber_slot fs = map (\<lambda>(i, w). child_slot (ckey w) i) ws \<and> (\<forall>f \<in> set fs. wf_fiber f)"
proof (induction rule: list_all2_induct)
  case (Cons x xs y ys)
  then have "f_key y = ckey (snd x)" "wf_fiber y" using matches_key matches_wf by blast+
  then show ?case using Cons by (cases x) (simp add: fiber_slot_def child_slot_def split: option.splits)
qed simp

lemma distinct_slots:
  assumes "distinct (map fst ws)" "distinct (filter (\<lambda>k. k \<noteq> None) (map (ckey \<circ> snd) ws))"
  shows "distinct (map (\<lambda>(i, w). child_slot (ckey w) i) ws)"
  using assms
proof (induction ws)
  case (Cons x ws)
  obtain i w where x: "x = (i, w)" by fastforce
  have "child_slot (ckey w) i \<noteq> child_slot (ckey w') i'" if "(i', w') \<in> set ws" for i' w'
  proof (cases "ckey w")
    case None
    then show ?thesis using that Cons.prems(1) x by (force simp: child_slot_def split: option.splits)
  next
    case (Some k)
    then have "Some k \<notin> (ckey \<circ> snd) ` set ws" using Cons.prems(2) x by auto
    then have "ckey w' \<noteq> Some k" using that by force
    then show ?thesis using Some by (auto simp: child_slot_def split: option.splits)
  qed
  moreover have "distinct (map (\<lambda>(i, w). child_slot (ckey w) i) ws)"
    using Cons by (auto split: if_splits)
  ultimately show ?case using x by auto
qed simp

lemma shown_from_positions: "distinct (map fst (shown_from mt vs)) \<and> (\<forall>x \<in> set (shown_from mt vs). mt \<le> fst x)"
proof (induction vs arbitrary: mt)
  case (Cons v vs)
  have "\<forall>x \<in> set (shown_from (Suc mt) vs). mt < fst x" using Cons [of "Suc mt"] by force
  then show ?case using Cons [of "Suc mt"] by (auto split: option.splits)
qed simp

lemma views_positions: "distinct (map fst (views v))"
proof (induction v rule: views.induct)
  case (1 v0)
  then show ?case
    using shown_from_positions by (subst views.simps) (auto split: child.splits resolved.splits option.splits)
qed

text \<open>
  C6. The children that are rendered are the children that were returned: the new fibers are, in order
  and at their positions, one for each child that shows something, with its key, type and properties.
  When no two of them have the same key, the new fibers meet the condition this relies on, for the
  next render.
\<close>

theorem reconcile_shows_children:
  assumes "tS_reconcileChildFibers True olds v = Children fs ds" "wf_olds olds"
  shows "list_all2 (\<lambda>(i, w) f. f_index f = i \<and> matches w f) (views v) fs \<and>
    (distinct (filter (\<lambda>k. k \<noteq> None) (map (ckey \<circ> snd) (views v))) \<longrightarrow> length ids = length fs \<longrightarrow> wf_olds (zip ids fs))"
proof -
  have l: "list_all2 fits (views v) fs"
    using ln_reconcile_ok [of olds v "[]" fs ds] assms by (simp add: tS_Children)
  have "wf_olds (zip ids fs)"
    if "distinct (filter (\<lambda>k. k \<noteq> None) (map (ckey \<circ> snd) (views v)))" "length ids = length fs"
  proof -
    have s: "map fiber_slot fs = map (\<lambda>(i, w). child_slot (ckey w) i) (views v)" "\<forall>f \<in> set fs. wf_fiber f"
      using fits_slots [OF l] by auto
    have "map (fiber_slot \<circ> snd) (zip ids fs) = map fiber_slot fs" using that(2) by (simp flip: map_map)
    then show ?thesis
      using s distinct_slots [OF views_positions that(1)] by (auto simp: wf_olds_def dest: set_zip_rightD)
  qed
  moreover have "list_all2 (\<lambda>(i, w) f. f_index f = i \<and> matches w f) (views v) fs"
    using l by (rule list_all2_mono) auto
  ultimately show ?thesis by blast
qed

text \<open>
  C4. Every fiber of the last render is accounted for: it is continued by exactly one new fiber or
  deleted exactly once, and never both.  The fibers that are not marked for placement are in their
  old order, and every fiber that continues none is marked, so that moving the marked ones is enough.
\<close>

theorem reconcile_accounts:
  assumes "tS_reconcileChildFibers True olds v = Children fs ds" "wf_olds olds"
  shows "mset (alt_ids fs) + mset ds = mset (map fst olds) \<and> sorted (stays fs) \<and>
    (\<forall>f \<in> set fs. f_alternate f = None \<longrightarrow> f_placed f)"
  using ln_reconcile_ok [of olds v "[]" fs ds] assms by (auto simp: tS_Children moves_ok_def)

text \<open>
  C5. A key keeps the state of a component: when a list of children is rendered and an element in it
  has the key of a fiber of the last render, at whatever position, and the same type, then that fiber
  is continued; it is enough that all children of this key have this type.
\<close>

theorem reconcile_keeps_keyed:
  assumes "tS_reconcileChildFibers True olds (Arr news) = Children fs ds" "wf_olds olds"
    "c \<in> set olds" "f_key (snd c) = Some k" "v \<in> set news" "ckey_of v = Some k"
    "\<forall>u \<in> set news. ckey_of u = Some k \<longrightarrow> takes_over c u"
  shows "\<exists>f \<in> set fs. f_alternate f = Some (fst c, f_index (snd c)) \<and> f_key f = Some k"
proof -
  have q: "Qe_reconcileArray True olds news [] = Inr (fs, ds)"
    using assms(1) by (simp add: tS_Children ln_reconcile.simps [of True olds "Arr news"])
  then obtain w where w: "Qe_slots True 0 0 olds news [] [] = Inr w" by (auto simp: Qe_reconcileArray_def bindR_eq_Inr)
  have ok: "wf_olds (wk_olds w)" using Qe_slots_ok [OF w assms(2)] by blast
  have sub: "set (wk_acc w) \<subseteq> set fs"
    using q w Qe_create_ok Qe_mapped_ok [OF _ p_mapRemaining_ok(1) [OF ok]]
    by (fastforce simp: Qe_reconcileArray_def bindR_eq_Inr split: if_splits)
  have "\<exists>f \<in> set fs. continues f c"
  proof (cases "\<exists>f \<in> set (wk_acc w). continues f c")
    case True
    then show ?thesis using sub by blast
  next
    case False
    then obtain pre where p: "c \<in> set (wk_olds w)" "news = pre @ wk_news w" "\<forall>v \<in> set pre. ckey_of v \<noteq> Some k"
      using Qe_slots_reuse [OF w assms(2-4)] assms(7) by blast
    then have v: "v \<in> set (wk_news w)" using assms(5,6) by auto
    then obtain m' where m: "Qe_mapped True (wk_mt w) (wk_last w) (p_mapRemaining (wk_olds w)) (wk_news w) (wk_acc w) = Inr (m', fs)"
      using q w p(1) by (auto simp: Qe_reconcileArray_def bindR_eq_Inr split: if_splits)
    have "map_of (p_mapRemaining (wk_olds w)) (SKey k) = Some c"
      using ok p(1) assms(4) by (simp add: wf_olds_def p_mapRemaining_distinct comp_def)
        (force intro!: map_of_is_SomeI simp: comp_def fiber_slot_def)
    from Qe_mapped_reuse [OF m p_mapRemaining_ok(1) [OF ok] this] show ?thesis
      using assms(7) p(2) v assms(6) by auto
  qed
  then show ?thesis using assms(4) by (auto simp: continues_def)
qed

text \<open>An example: two rows change places and a text is added.\<close>

definition demo_row :: "nat \<Rightarrow> string \<Rightarrow> nat fiber" where
  "demo_row i k = (qp_element (Plain (HostTag 1)) (Some k) 0 Empty)\<lparr>f_index := i\<rparr>"

definition demo_olds :: "nat current list" where
  "demo_olds = [(10, demo_row 0 ''a''), (11, demo_row 1 ''b'')]"

definition demo_news :: "nat child list" where
  "demo_news = [Elem (Plain (HostTag 1)) (Some ''b'') 5 Empty, Elem (Plain (HostTag 1)) (Some ''a'') 6 Empty, Text ''x'']"

lemmas demo_defs = demo_olds_def demo_news_def demo_row_def

lemma demo_run:
  "\<exists>fs. tS_reconcileChildFibers True demo_olds (Arr demo_news) = Children fs [] \<and>
     map f_alternate fs = [Some (11, 1), Some (10, 0), None] \<and> map f_placed fs = [False, True, True]"
  by (simp add: tS_reconcileChildFibers_def ln_reconcile.simps Qe_reconcileArray_def demo_defs rec_defs p_mapRemaining_def
      fiber_slot_def child_slot_def same_type_def placeChild_def f_deleteRemaining_def Let_def)

lemma demo_wf: "wf_olds demo_olds"
  by (simp add: wf_olds_def demo_defs wf_fiber_def rec_defs fiber_slot_def)

theorem reconcile_shows_children_witness:
  "\<exists>fs ds. tS_reconcileChildFibers True demo_olds (Arr demo_news) = Children fs ds \<and> wf_olds (zip [20, 21, 22] fs)"
proof -
  obtain fs where r: "tS_reconcileChildFibers True demo_olds (Arr demo_news) = Children fs []"
    and a: "map f_alternate fs = [Some (11, 1), Some (10, 0), None]"
    using demo_run by (elim exE conjE) (rule that)
  have "length fs = 3" using arg_cong [OF a, of length] by simp
  then show ?thesis
    using r reconcile_shows_children [OF r demo_wf, of "[20, 21, 22]"] by (simp add: views.simps [of "Arr demo_news"]) (simp add: demo_news_def)
qed

theorem reconcile_accounts_witness:
  "\<exists>fs. tS_reconcileChildFibers True demo_olds (Arr demo_news) = Children fs [] \<and> mset (alt_ids fs) = {#10, 11#} \<and> stays fs = [1]"
proof -
  obtain fs where r: "tS_reconcileChildFibers True demo_olds (Arr demo_news) = Children fs []"
    and a: "map f_alternate fs = [Some (11, 1), Some (10, 0), None]" "map f_placed fs = [False, True, True]"
    using demo_run by (elim exE conjE) (rule that)
  obtain f1 f2 f3 where "fs = [f1, f2, f3]" using a(1) by (cases fs; cases "tl fs"; cases "tl (tl fs)") auto
  then have "stays fs = [1]" using a by (simp add: stays_def)
  moreover have "mset (alt_ids fs) + mset [] = mset (map fst demo_olds)" using reconcile_accounts [OF r demo_wf] by blast
  ultimately show ?thesis using r by (simp add: demo_olds_def)
qed

theorem reconcile_keeps_keyed_witness:
  "\<exists>fs ds. tS_reconcileChildFibers True demo_olds (Arr demo_news) = Children fs ds \<and> (\<exists>f \<in> set fs. f_alternate f = Some (10, 0) \<and> f_key f = Some ''a'')"
proof -
  obtain fs where r: "tS_reconcileChildFibers True demo_olds (Arr demo_news) = Children fs []" using demo_run by (elim exE conjE) (rule that)
  have "\<forall>u \<in> set demo_news. ckey_of u = Some ''a'' \<longrightarrow> takes_over (10, demo_row 0 ''a'') u"
    by (simp add: demo_defs ckey_of_def takes_over_def type_fits_def same_type_def rec_defs)
  then have "\<exists>f \<in> set fs. f_alternate f = Some (10, 0) \<and> f_key f = Some ''a''"
    using reconcile_keeps_keyed [OF r demo_wf, of "(10, demo_row 0 ''a'')" "''a''" "Elem (Plain (HostTag 1)) (Some ''a'') 6 Empty"]
    by (simp add: demo_defs rec_defs ckey_of_def)
  then show ?thesis using r by blast
qed

end
