(* ===== verification/React_Updates.thy ===== *)
theory React_Updates
  imports React_Lanes
begin

text \<open>
  The update queue of a component (\<open>src/internal/admin/dist/index-DxrWcVFD.js\<close>, \<open>Dd\<close> to \<open>so\<close>): updates
  are queued with a lane, a render processes those of its lanes and keeps the others, and everything
  after the first it kept, for a later one.  Linked lists are lists, the circular list of pending
  updates is its members in order.  A state is an object of named values, or \<open>null\<close>; payload functions
  are pure, so that processing them queues nothing.
\<close>

section \<open>Updates and queues\<close>

type_synonym 'v obj = "string \<rightharpoonup> 'v"

datatype 'v payload =
    Value "'v obj option" \<comment> \<open>\<open>null\<close> when none\<close>
  | Compute "'v obj option \<Rightarrow> 'v obj \<Rightarrow> 'v obj option" \<comment> \<open>of state and props\<close>

record 'v update =
  u_id :: nat
  u_lane :: lanes
  u_tag :: nat
  u_payload :: "'v payload"
  u_callback :: "nat option"

record 'v uqueue =
  q_baseState :: "'v obj option"
  q_base :: "'v update list"
  q_pending :: "'v update list" \<comment> \<open>\<open>shared.pending\<close>\<close>
  q_lanes :: lanes \<comment> \<open>\<open>shared.lanes\<close>\<close>
  q_callbacks :: "nat list"

definition Dd_initQueue :: "'v obj option \<Rightarrow> 'v uqueue" where
  "Dd_initQueue st = \<lparr>q_baseState = st, q_base = [], q_pending = [], q_lanes = 0, q_callbacks = []\<rparr>"

text \<open>The work-in-progress copy, with the shared part in common.\<close>

definition kp_cloneQueue :: "'v uqueue \<Rightarrow> 'v uqueue" where
  "kp_cloneQueue q = q\<lparr>q_callbacks := []\<rparr>"

definition gu_createUpdate :: "nat \<Rightarrow> lanes \<Rightarrow> 'v update" where
  "gu_createUpdate i l = \<lparr>u_id = i, u_lane = l, u_tag = 0, u_payload = Value None, u_callback = None\<rparr>"

text \<open>
  \<open>$a\<close>: the update goes to the end of the pending ones.  The queue exists as long as the component is
  mounted, and an update staged during a render joins the pending ones when the render is over; both
  are taken as done.
\<close>

definition a_enqueueUpdate :: "'v update \<Rightarrow> 'v uqueue \<Rightarrow> 'v uqueue" where
  "a_enqueueUpdate u q = q\<lparr>q_pending := q_pending q @ [u]\<rparr>"

text \<open>\<open>oo\<close>: the lanes of transitions in the queue are entangled; gives them with the root.\<close>

definition oo_entangleTransitions :: "root \<Rightarrow> 'v uqueue \<Rightarrow> lanes \<Rightarrow> root \<times> 'v uqueue" where
  "oo_entangleTransitions r q l =
     (if l AND 4194048 \<noteq> 0 then
        let f = l OR (q_lanes q AND pendingLanes r) in (ll_markRootEntangled r f, q\<lparr>q_lanes := f\<rparr>)
      else (r, q))"

text \<open>\<open>Yp\<close>: an update for an error that was caught; the copy of the current queue is kept apart.\<close>

definition Yp_enqueueCaptured :: "bool \<Rightarrow> 'v update \<Rightarrow> 'v uqueue \<Rightarrow> 'v uqueue" where
  "Yp_enqueueCaptured same_queue u q =
     (if same_queue then q\<lparr>q_base := map (\<lambda>x. x\<lparr>u_callback := None\<rparr>) (q_base q) @ [u]\<rparr>
      else q\<lparr>q_base := q_base q @ [u]\<rparr>)"

section \<open>Processing\<close>

text \<open>\<open>S({}, a, b)\<close>.\<close>

definition assign :: "'v obj option \<Rightarrow> 'v obj \<Rightarrow> 'v obj option" where
  "assign a b = Some (case a of None \<Rightarrow> b | Some m \<Rightarrow> m ++ b)"

definition bl_apply :: "'v obj \<Rightarrow> 'v update \<Rightarrow> 'v obj option \<Rightarrow> 'v obj option" where
  "bl_apply props u st =
     (if u_tag u = 1 then (case u_payload u of Compute f \<Rightarrow> f st props | Value v \<Rightarrow> v)
      else if u_tag u = 3 \<or> u_tag u = 0 then
        (case (case u_payload u of Compute f \<Rightarrow> f st props | Value v \<Rightarrow> v) of None \<Rightarrow> st | Some v \<Rightarrow> assign st v)
      else st)"

definition offscreen :: lanes where
  "offscreen = 536870912"

definition plain_lane :: "'v update \<Rightarrow> lanes" where
  "plain_lane u = u_lane u AND NOT offscreen"

definition bl_included :: "lanes \<Rightarrow> lanes \<Rightarrow> 'v update \<Rightarrow> bool" where
  "bl_included p wt u =
     (if plain_lane u \<noteq> u_lane u then wt AND plain_lane u = plain_lane u else p AND plain_lane u = plain_lane u)"

record 'v bl_work =
  bw_state :: "'v obj option" \<comment> \<open>\<open>Ne\<close>\<close>
  bw_base :: "'v update list" \<comment> \<open>\<open>Se\<close> to \<open>Ce\<close>\<close>
  bw_baseState :: "'v obj option" \<comment> \<open>\<open>te\<close>\<close>
  bw_skipped :: lanes \<comment> \<open>\<open>j\<close>\<close>
  bw_callbacks :: "nat list"
  bw_flags :: "32 word"
  bw_entangled :: bool \<comment> \<open>\<open>ug\<close>\<close>
  bw_force :: bool \<comment> \<open>\<open>vu\<close>\<close>

text \<open>One turn of the loop; \<open>no\<close> is the lane of the current asynchronous action.\<close>

definition bl_step :: "'v obj \<Rightarrow> lanes \<Rightarrow> lanes \<Rightarrow> lanes \<Rightarrow> 'v update \<Rightarrow> 'v bl_work \<Rightarrow> 'v bl_work" where
  "bl_step props p wt no u w =
     (if bl_included p wt u then
        w\<lparr>bw_entangled := (bw_entangled w \<or> plain_lane u \<noteq> 0 \<and> plain_lane u = no),
          bw_base := (if bw_base w = [] then [] else bw_base w @ [u\<lparr>u_lane := 0, u_callback := None\<rparr>]),
          bw_state := bl_apply props u (bw_state w),
          bw_force := (bw_force w \<or> u_tag u = 2),
          bw_flags :=
            (let f = (if u_tag u = 3 then (bw_flags w AND NOT 65536) OR 128 else bw_flags w) in
             case u_callback u of None \<Rightarrow> f
             | Some k \<Rightarrow> f OR 64 OR (if plain_lane u \<noteq> u_lane u then 8192 else 0)),
          bw_callbacks := bw_callbacks w @ (case u_callback u of None \<Rightarrow> [] | Some k \<Rightarrow> [k])\<rparr>
      else
        w\<lparr>bw_base := bw_base w @ [u\<lparr>u_lane := plain_lane u\<rparr>],
          bw_baseState := (if bw_base w = [] then bw_state w else bw_baseState w),
          bw_skipped := bw_skipped w OR plain_lane u\<rparr>)"

record 'v ufiber =
  uf_queue :: "'v uqueue"
  uf_state :: "'v obj option" \<comment> \<open>\<open>memoizedState\<close>\<close>
  uf_lanes :: lanes
  uf_flags :: "32 word"

text \<open>The pending updates are moved to the queue, and to the queue of the alternate as well.\<close>

definition bl_alternate :: "'v update list \<Rightarrow> 'v update list \<Rightarrow> 'v update list" where
  "bl_alternate alt pend =
     (if pend = [] \<or> alt \<noteq> [] \<and> u_id (last alt) = u_id (last pend) then alt else alt @ pend)"

definition bl_processUpdateQueue ::
  "'v obj \<Rightarrow> lanes \<Rightarrow> lanes \<Rightarrow> lanes \<Rightarrow> 'v ufiber \<Rightarrow> 'v update list option \<Rightarrow> 'v ufiber \<times> 'v update list option \<times> bool \<times> bool" where
  "bl_processUpdateQueue props p wt no l alt =
     (let q = uf_queue l; us = q_base q @ q_pending q; alt = map_option (\<lambda>a. bl_alternate a (q_pending q)) alt in
      if us = [] then (l\<lparr>uf_queue := q\<lparr>q_pending := []\<rparr>\<rparr>, alt, False, False)
      else
        let w = fold (bl_step props p wt no) us
              \<lparr>bw_state = q_baseState q, bw_base = [], bw_baseState = None, bw_skipped = 0, bw_callbacks = q_callbacks q,
               bw_flags = uf_flags l, bw_entangled = False, bw_force = False\<rparr> in
        (\<lparr>uf_queue = q\<lparr>q_pending := [], q_base := bw_base w,
             q_baseState := (if bw_base w = [] then bw_state w else bw_baseState w), q_callbacks := bw_callbacks w\<rparr>,
          uf_state = bw_state w, uf_lanes = bw_skipped w, uf_flags = bw_flags w\<rparr>,
         alt, bw_entangled w, bw_force w))"

text \<open>\<open>so\<close>: the callbacks are called in order, once.\<close>

definition so_commitCallbacks :: "'v uqueue \<Rightarrow> 'v uqueue \<times> nat list" where
  "so_commitCallbacks q = (q\<lparr>q_callbacks := []\<rparr>, q_callbacks q)"

section \<open>Rebasing\<close>

text \<open>All updates applied in the order they were queued.\<close>

definition apply_all :: "'v obj \<Rightarrow> 'v update list \<Rightarrow> 'v obj option \<Rightarrow> 'v obj option" where
  "apply_all props us st = fold (bl_apply props) us st"

lemma apply_all_simps [simp]:
  "apply_all props [] st = st" "apply_all props (u # us) st = apply_all props us (bl_apply props u st)"
  "apply_all props (us @ vs) st = apply_all props vs (apply_all props us st)"
  by (simp_all add: apply_all_def)

lemma bl_apply_clone [simp]:
  "bl_apply props (u\<lparr>u_lane := l\<rparr>) = bl_apply props u" "bl_apply props (u\<lparr>u_callback := c\<rparr>) = bl_apply props u"
  by (simp_all add: bl_apply_def fun_eq_iff)

text \<open>What the kept updates and the state they start from stand for.\<close>

definition bw_total :: "'v obj \<Rightarrow> 'v bl_work \<Rightarrow> 'v obj option" where
  "bw_total props w = (if bw_base w = [] then bw_state w else apply_all props (bw_base w) (bw_baseState w))"

lemma bl_step_total: "bw_total props (bl_step props p wt no u w) = bl_apply props u (bw_total props w)"
  by (auto simp: bw_total_def bl_step_def)

lemma bl_fold_total: "bw_total props (fold (bl_step props p wt no) us w) = apply_all props us (bw_total props w)"
  by (induction us arbitrary: w) (simp_all add: bl_step_total)

lemma bl_fold_all:
  "\<forall>u \<in> set us. bl_included p wt u \<Longrightarrow> bw_base w = [] \<Longrightarrow>
     bw_base (fold (bl_step props p wt no) us w) = [] \<and>
     bw_state (fold (bl_step props p wt no) us w) = apply_all props us (bw_state w)"
  by (induction us arbitrary: w) (simp_all add: bl_step_def)

lemma bl_queue_total:
  fixes l :: "'v ufiber"
  defines "q \<equiv> uf_queue l"
  shows "let q' = uf_queue (fst (bl_processUpdateQueue props p wt no l alt)) in
    apply_all props (q_base q' @ q_pending q') (q_baseState q') = apply_all props (q_base q @ q_pending q) (q_baseState q)"
proof (cases "q_base q @ q_pending q = []")
  case True
  then show ?thesis by (simp add: bl_processUpdateQueue_def q_def Let_def)
next
  case False
  let ?w0 = "\<lparr>bw_state = q_baseState q, bw_base = [], bw_baseState = None, bw_skipped = 0, bw_callbacks = q_callbacks q,
               bw_flags = uf_flags l, bw_entangled = False, bw_force = False\<rparr> :: 'v bl_work"
  let ?w = "fold (bl_step props p wt no) (q_base q @ q_pending q) ?w0"
  have "bw_total props ?w = apply_all props (q_base q @ q_pending q) (q_baseState q)"
    unfolding bl_fold_total by (simp add: bw_total_def)
  then show ?thesis
    using False by (auto simp: bl_processUpdateQueue_def q_def Let_def bw_total_def split: if_splits)
qed

section \<open>Runs\<close>

text \<open>
  A component over time: updates are queued, renders are committed, or abandoned.  An abandoned
  render leaves the current queue with the pending updates moved to it.
\<close>

datatype 'v uevent = Enqueue "'v update" | Commit lanes lanes lanes | Abandon lanes lanes lanes

fun u_step :: "'v obj \<Rightarrow> 'v uevent \<Rightarrow> 'v ufiber \<Rightarrow> 'v ufiber" where
  "u_step props (Enqueue u) l = l\<lparr>uf_queue := a_enqueueUpdate u (uf_queue l)\<rparr>"
| "u_step props (Commit p wt no) l =
     fst (bl_processUpdateQueue props p wt no (l\<lparr>uf_queue := kp_cloneQueue (uf_queue l)\<rparr>) (Some (q_base (uf_queue l))))"
| "u_step props (Abandon p wt no) l =
     (let alt = fst (snd (bl_processUpdateQueue props p wt no (l\<lparr>uf_queue := kp_cloneQueue (uf_queue l)\<rparr>) (Some (q_base (uf_queue l))))) in
      l\<lparr>uf_queue := (uf_queue l)\<lparr>q_base := the alt, q_pending := []\<rparr>\<rparr>)"

fun enqueued :: "'v uevent list \<Rightarrow> 'v update list" where
  "enqueued [] = []"
| "enqueued (Enqueue u # es) = u # enqueued es"
| "enqueued (e # es) = enqueued es"

definition u_mount :: "'v obj option \<Rightarrow> 'v ufiber" where
  "u_mount st = \<lparr>uf_queue = Dd_initQueue st, uf_state = st, uf_lanes = 0, uf_flags = 0\<rparr>"

definition u_total :: "'v obj \<Rightarrow> 'v ufiber \<Rightarrow> 'v obj option" where
  "u_total props l = apply_all props (q_base (uf_queue l) @ q_pending (uf_queue l)) (q_baseState (uf_queue l))"

lemma bl_fold_ids:
  "set (map u_id (bw_base (fold (bl_step props p wt no) us w))) \<subseteq> set (map u_id (bw_base w)) \<union> set (map u_id us) \<and>
   (distinct (map u_id (bw_base w) @ map u_id us) \<longrightarrow> distinct (map u_id (bw_base (fold (bl_step props p wt no) us w))))"
proof (induction us arbitrary: w)
  case (Cons u us)
  let ?w = "bl_step props p wt no u w"
  have ids: "map u_id (bw_base ?w) = map u_id (bw_base w) \<or> map u_id (bw_base ?w) = map u_id (bw_base w) @ [u_id u]"
    by (auto simp: bl_step_def)
  then show ?case
  proof
    assume "map u_id (bw_base ?w) = map u_id (bw_base w)"
    then show ?thesis using Cons [of ?w] by auto
  next
    assume "map u_id (bw_base ?w) = map u_id (bw_base w) @ [u_id u]"
    then show ?thesis using Cons [of ?w] by auto
  qed
qed simp

definition u_inv :: "'v obj \<Rightarrow> 'v obj option \<Rightarrow> 'v uevent list \<Rightarrow> 'v ufiber \<Rightarrow> bool" where
  "u_inv props st es l \<longleftrightarrow>
     (let us = q_base (uf_queue l) @ q_pending (uf_queue l) in
      u_total props l = apply_all props (enqueued es) st \<and> distinct (map u_id us) \<and>
      set (map u_id us) \<subseteq> set (map u_id (enqueued es)) \<and> (us = [] \<longrightarrow> uf_state l = q_baseState (uf_queue l)))"

lemma enqueued_append [simp]: "enqueued (es @ es') = enqueued es @ enqueued es'"
  by (induction es rule: enqueued.induct) auto

lemma u_inv_commit:
  assumes "u_inv props st es l"
  shows "u_inv props st es (u_step props (Commit p wt no) l)"
proof -
  define q where "q = uf_queue l"
  let ?l = "l\<lparr>uf_queue := kp_cloneQueue q\<rparr>"
  let ?us = "q_base q @ q_pending q"
  have us: "q_base (uf_queue ?l) @ q_pending (uf_queue ?l) = ?us" "q_baseState (uf_queue ?l) = q_baseState q"
    by (simp_all add: kp_cloneQueue_def)
  have tot: "u_total props (u_step props (Commit p wt no) l) = u_total props l"
    using bl_queue_total [of props p wt no ?l "Some (q_base q)"] by (simp add: u_total_def Let_def q_def kp_cloneQueue_def)
  show ?thesis
  proof (cases "?us = []")
    case True
    then show ?thesis using assms tot by (simp add: u_inv_def q_def bl_processUpdateQueue_def kp_cloneQueue_def Let_def)
  next
    case False
    let ?w0 = "\<lparr>bw_state = q_baseState q, bw_base = [], bw_baseState = None, bw_skipped = 0, bw_callbacks = [],
               bw_flags = uf_flags l, bw_entangled = False, bw_force = False\<rparr> :: 'a bl_work"
    define w where "w = fold (bl_step props p wt no) ?us ?w0"
    have r: "uf_queue (u_step props (Commit p wt no) l) = q\<lparr>q_pending := [], q_base := bw_base w,
        q_baseState := (if bw_base w = [] then bw_state w else bw_baseState w), q_callbacks := bw_callbacks w\<rparr>"
      "uf_state (u_step props (Commit p wt no) l) = bw_state w"
      using False by (auto simp: bl_processUpdateQueue_def kp_cloneQueue_def q_def w_def Let_def)
    have w: "set (map u_id (bw_base w)) \<subseteq> set (map u_id ?us) \<and> distinct (map u_id (bw_base w))"
      using bl_fold_ids [of props p wt no ?us ?w0] assms
      by (simp add: u_inv_def q_def Let_def w_def [unfolded q_def] del: fold_append)
    moreover have "set (map u_id ?us) \<subseteq> set (map u_id (enqueued es))"
      using assms by (simp add: u_inv_def q_def Let_def image_Un)
    ultimately have "set (map u_id (bw_base w)) \<subseteq> set (map u_id (enqueued es))" by blast
    then show ?thesis
      using assms tot w unfolding u_inv_def r Let_def by (simp add: q_def del: u_step.simps)
  qed
qed

lemma bl_alternate_append:
  "distinct (map u_id (a @ b)) \<Longrightarrow> bl_alternate a b = a @ b"
  by (cases a rule: rev_cases; cases b rule: rev_cases) (auto simp: bl_alternate_def)

lemma u_inv_abandon:
  assumes "u_inv props st es l"
  shows "u_inv props st es (u_step props (Abandon p wt no) l)"
proof -
  have "fst (snd (bl_processUpdateQueue props p wt no (l\<lparr>uf_queue := kp_cloneQueue (uf_queue l)\<rparr>) (Some (q_base (uf_queue l))))) =
      Some (q_base (uf_queue l) @ q_pending (uf_queue l))"
    using assms by (simp add: bl_processUpdateQueue_def Let_def kp_cloneQueue_def bl_alternate_append u_inv_def)
  then show ?thesis using assms by (auto simp: u_inv_def u_total_def Let_def)
qed

lemma u_inv_run:
  "distinct (map u_id (enqueued es)) \<Longrightarrow> u_inv props st es (fold (u_step props) es (u_mount st))"
proof (induction es rule: rev_induct)
  case Nil
  then show ?case by (simp add: u_inv_def u_total_def u_mount_def Dd_initQueue_def)
next
  case (snoc e es)
  then have ih: "u_inv props st es (fold (u_step props) es (u_mount st))" by auto
  show ?case
  proof (cases e)
    case (Enqueue u)
    then show ?thesis using ih snoc.prems by (auto simp: u_inv_def u_total_def a_enqueueUpdate_def Let_def)
  next
    case (Commit p wt no)
    then show ?thesis using u_inv_commit [OF ih, of p wt no] by (simp add: u_inv_def)
  next
    case (Abandon p wt no)
    then show ?thesis using u_inv_abandon [OF ih, of p wt no] by (simp add: u_inv_def)
  qed
qed

text \<open>
  C3. No update is lost or reordered: however the updates of a component are queued and its renders
  committed and abandoned, with whatever lanes, a render that includes the lanes of everything that
  is left shows the state in which all updates ever queued are applied once, in the order they were
  queued, and leaves the queue empty.
\<close>

theorem updates_never_lost:
  assumes "distinct (map u_id (enqueued es))" "l = fold (u_step props) es (u_mount st)"
    "\<forall>u \<in> set (q_base (uf_queue l) @ q_pending (uf_queue l)). bl_included p wt u"
  shows "let l' = u_step props (Commit p wt no) l in
    uf_state l' = fold (bl_apply props) (enqueued es) st \<and> q_base (uf_queue l') = [] \<and> q_pending (uf_queue l') = []"
proof -
  have inv: "u_inv props st es l" using u_inv_run [OF assms(1)] assms(2) by simp
  define us where "us = q_base (uf_queue l) @ q_pending (uf_queue l)"
  have tot: "apply_all props us (q_baseState (uf_queue l)) = fold (bl_apply props) (enqueued es) st"
    using inv by (simp add: u_inv_def u_total_def us_def Let_def apply_all_def)
  show ?thesis
  proof (cases "us = []")
    case True
    then show ?thesis
      using inv tot by (simp add: us_def u_inv_def bl_processUpdateQueue_def kp_cloneQueue_def Let_def)
  next
    case False
    let ?w0 = "\<lparr>bw_state = q_baseState (uf_queue l), bw_base = [], bw_baseState = None, bw_skipped = 0, bw_callbacks = [],
               bw_flags = uf_flags l, bw_entangled = False, bw_force = False\<rparr> :: 'a bl_work"
    have "bw_base (fold (bl_step props p wt no) us ?w0) = []"
      "bw_state (fold (bl_step props p wt no) us ?w0) = apply_all props us (q_baseState (uf_queue l))"
      using bl_fold_all [of us p wt ?w0 props no] assms(3) by (simp_all add: us_def)
    then show ?thesis
      using False tot by (auto simp: us_def bl_processUpdateQueue_def kp_cloneQueue_def Let_def)
  qed
qed

definition demo_update :: "nat \<Rightarrow> lanes \<Rightarrow> (nat \<Rightarrow> nat) \<Rightarrow> nat update" where
  "demo_update i l f = (gu_createUpdate i l)\<lparr>u_payload := Compute (\<lambda>s props. map_option (\<lambda>m. map_option f \<circ> m) s)\<rparr>"

definition demo_updates :: "nat uevent list" where
  "demo_updates = [Enqueue (demo_update 0 2 (\<lambda>n. n + 1)), Enqueue (demo_update 1 32 (\<lambda>n. n * 10)), Enqueue (demo_update 2 2 (\<lambda>n. n + 3)),
     Commit 2 2 0, Abandon 32 32 0, Enqueue (demo_update 3 32 (\<lambda>n. n * 2))]"

theorem updates_never_lost_witness:
  "let l = fold (u_step Map.empty) demo_updates (u_mount (Some [''n'' \<mapsto> 1])); l' = u_step Map.empty (Commit 34 34 0) l in
    map_option (\<lambda>m. m ''n'') (uf_state l') = Some (Some 46)"
proof -
  define l where "l = fold (u_step Map.empty) demo_updates (u_mount (Some [''n'' \<mapsto> 1]))"
  have d: "distinct (map u_id (enqueued demo_updates))"
    by (simp add: demo_updates_def demo_update_def gu_createUpdate_def)
  have i: "\<forall>u \<in> set (q_base (uf_queue l) @ q_pending (uf_queue l)). bl_included 34 34 u"
    by (simp add: l_def demo_updates_def demo_update_def gu_createUpdate_def u_mount_def Dd_initQueue_def a_enqueueUpdate_def
        kp_cloneQueue_def bl_processUpdateQueue_def bl_alternate_def bl_step_def bl_included_def plain_lane_def offscreen_def Let_def)
  have "uf_state (u_step Map.empty (Commit 34 34 0) l) = fold (bl_apply Map.empty) (enqueued demo_updates) (Some [''n'' \<mapsto> 1])"
    using updates_never_lost [OF d l_def i, of 0] by (simp add: Let_def)
  then have "map_option (\<lambda>m. m ''n'') (uf_state (u_step Map.empty (Commit 34 34 0) l)) = Some (Some 46)"
    by (simp add: demo_updates_def demo_update_def gu_createUpdate_def bl_apply_def assign_def)
  then show ?thesis unfolding l_def Let_def .
qed

end
