(* ===== verification/React_Hooks.thy ===== *)
theory React_Hooks
  imports React_Updates
begin

text \<open>
  Hooks (\<open>src/internal/admin/dist/index-DxrWcVFD.js\<close>, \<open>Su\<close> to \<open>Eg\<close> and the tables \<open>fS\<close> and \<open>oy\<close>): the
  cells a component's hooks keep between renders, and the queue of a state hook.  Values are compared
  with \<open>Object.is\<close>, which is equality here.  Linked lists are lists; of the two fibers of a component the
  cells and lanes of both are kept.  Reducers and the functions given to hooks are pure, so the second
  call of them in development mode is left out, and so are updates during a render.  A hook that finds a
  cell of another kind would go on with whatever fields the cell has; here it fails with \<open>OtherCell\<close>.
\<close>

section \<open>The queue of a state hook\<close>

datatype 'v action = SetTo 'v | SetBy "'v \<Rightarrow> 'v"

definition Ol_basicReducer :: "'v \<Rightarrow> 'v action \<Rightarrow> 'v" where
  "Ol_basicReducer l o' = (case o' of SetBy f \<Rightarrow> f l | SetTo v \<Rightarrow> v)"

type_synonym 'v reducer = "'v \<Rightarrow> 'v action \<Rightarrow> 'v"

record 'v hupdate =
  hu_lane :: lanes
  hu_revert :: lanes
  hu_action :: "'v action"
  hu_eager :: "'v option"

text \<open>A hook's own fields, and the queue it shares with the hook of the other fiber.\<close>

record 'v hook =
  hk_memo :: 'v
  hk_baseState :: 'v
  hk_base :: "'v hupdate list"

record 'v hqueue =
  hq_pending :: "'v hupdate list"
  hq_lanes :: lanes
  hq_reducer :: "'v reducer"
  hq_state :: 'v \<comment> \<open>\<open>lastRenderedState\<close>\<close>

definition sg_mountState :: "'v reducer \<Rightarrow> 'v \<Rightarrow> 'v hook \<times> 'v hqueue" where
  "sg_mountState red v =
     (\<lparr>hk_memo = v, hk_baseState = v, hk_base = []\<rparr>, \<lparr>hq_pending = [], hq_lanes = 0, hq_reducer = red, hq_state = v\<rparr>)"

record 'v zp_work =
  zw_state :: 'v \<comment> \<open>\<open>_\<close>\<close>
  zw_base :: "'v hupdate list" \<comment> \<open>\<open>Y\<close> to \<open>te\<close>\<close>
  zw_baseState :: 'v \<comment> \<open>\<open>j\<close>\<close>
  zw_lanes :: lanes \<comment> \<open>what is added to \<open>vt.lanes\<close>\<close>
  zw_async :: bool \<comment> \<open>\<open>Ce\<close>\<close>

definition hu_plain :: "'v hupdate \<Rightarrow> lanes" where
  "hu_plain u = hu_lane u AND NOT offscreen"

definition hu_included :: "lanes \<Rightarrow> lanes \<Rightarrow> 'v hupdate \<Rightarrow> bool" where
  "hu_included xl wt u =
     (if hu_plain u \<noteq> hu_lane u then wt AND hu_plain u = hu_plain u else xl AND hu_plain u = hu_plain u)"

definition hu_apply :: "'v reducer \<Rightarrow> 'v hupdate \<Rightarrow> 'v \<Rightarrow> 'v" where
  "hu_apply f u s = (case hu_eager u of Some v \<Rightarrow> v | None \<Rightarrow> f s (hu_action u))"

definition Zp_keep :: "'v hupdate \<Rightarrow> 'v zp_work \<Rightarrow> 'v zp_work" where
  "Zp_keep u w = w\<lparr>zw_base := zw_base w @ [u], zw_baseState := (if zw_base w = [] then zw_state w else zw_baseState w)\<rparr>"

definition Zp_step :: "'v reducer \<Rightarrow> lanes \<Rightarrow> lanes \<Rightarrow> lanes \<Rightarrow> 'v hupdate \<Rightarrow> 'v zp_work \<Rightarrow> 'v zp_work" where
  "Zp_step f xl wt no u w =
     (if hu_included xl wt u then
        (if hu_revert u = 0 then
           w\<lparr>zw_base := (if zw_base w = [] then [] else zw_base w @ [u\<lparr>hu_lane := 0\<rparr>]),
             zw_async := (zw_async w \<or> hu_plain u = no),
             zw_state := hu_apply f u (zw_state w)\<rparr>
         else if xl AND hu_revert u = hu_revert u then w\<lparr>zw_async := (zw_async w \<or> hu_revert u = no)\<rparr>
         else (Zp_keep (u\<lparr>hu_lane := 0\<rparr>) w)\<lparr>zw_lanes := zw_lanes w OR hu_revert u, zw_state := hu_apply f u (zw_state w)\<rparr>)
      else (Zp_keep (u\<lparr>hu_lane := hu_plain u\<rparr>) w)\<lparr>zw_lanes := zw_lanes w OR hu_plain u\<rparr>)"

text \<open>
  \<open>Zp\<close>: gives the hook of this render, the base queue that the current hook gets, the queue, the
  lanes that were skipped, and whether the state differs from \<open>memoizedState\<close>; when it does while an
  asynchronous action is pending, its promise is thrown.
\<close>

datatype hook_error = NoQueue | AsyncAction | RenderedMore | RenderedFewer | NoAlternate | OtherCell

definition Zp_updateReducer ::
  "'v reducer \<Rightarrow> lanes \<Rightarrow> lanes \<Rightarrow> lanes \<Rightarrow> bool \<Rightarrow> 'v hook \<Rightarrow> 'v hqueue \<Rightarrow>
     (hook_error, 'v hook \<times> 'v hupdate list \<times> 'v hqueue \<times> lanes \<times> bool) res" where
  "Zp_updateReducer f xl wt no thenable l q =
     (let us = hk_base l @ hq_pending q; q1 = q\<lparr>hq_reducer := f, hq_pending := []\<rparr> in
      if us = [] then Inr (l\<lparr>hk_memo := hk_baseState l\<rparr>, us, q1\<lparr>hq_lanes := 0\<rparr>, 0, False)
      else
        let w = fold (Zp_step f xl wt no) us
              \<lparr>zw_state = hk_baseState l, zw_base = [], zw_baseState = hk_baseState l, zw_lanes = 0, zw_async = False\<rparr>;
            changed = (zw_state w \<noteq> hk_memo l)
        in if changed \<and> zw_async w \<and> thenable then Inl AsyncAction
           else Inr (\<lparr>hk_memo = zw_state w, hk_baseState = (if zw_base w = [] then zw_state w else zw_baseState w), hk_base = zw_base w\<rparr>,
                     us, q1\<lparr>hq_state := zw_state w\<rparr>, zw_lanes w, changed))"

text \<open>\<open>Kp\<close>: another pass in the same render applies what was queued during it.\<close>

definition Kp_rerenderReducer :: "'v reducer \<Rightarrow> 'v hook \<Rightarrow> 'v hqueue \<Rightarrow> 'v hook \<times> 'v hqueue \<times> bool" where
  "Kp_rerenderReducer f l q =
     (if hq_pending q = [] then (l, q\<lparr>hq_reducer := f\<rparr>, False)
      else
        let v = fold (\<lambda>u s. f s (hu_action u)) (hq_pending q) (hk_memo l) in
        (l\<lparr>hk_memo := v, hk_baseState := (if hk_base l = [] then v else hk_baseState l)\<rparr>,
         q\<lparr>hq_reducer := f, hq_pending := [], hq_state := v\<rparr>, v \<noteq> hk_memo l))"

section \<open>Dispatching\<close>

text \<open>
  A component with the hook under consideration: the hook and lanes of the current fiber, the lanes
  of the other fiber when there is one, the shared queue, and the updates that are staged until the
  next render begins (\<open>_n\<close>).
\<close>

record 'v comp_state =
  cs_hook :: "'v hook"
  cs_lanes :: lanes
  cs_alternate :: "lanes option"
  cs_queue :: "'v hqueue"
  cs_staged :: "('v hupdate \<times> lanes) list"

definition Ua_enqueue :: "'v hupdate \<Rightarrow> lanes \<Rightarrow> 'v comp_state \<Rightarrow> 'v comp_state" where
  "Ua_enqueue u p c = c\<lparr>cs_staged := cs_staged c @ [(u, p)], cs_lanes := cs_lanes c OR p,
     cs_alternate := map_option (\<lambda>l. l OR p) (cs_alternate c)\<rparr>"

definition za_flush :: "'v comp_state \<Rightarrow> 'v comp_state" where
  "za_flush c =
     (let ps = fold (\<lambda>x l. l OR snd x) (cs_staged c) 0 in
      c\<lparr>cs_queue := (cs_queue c)\<lparr>hq_pending := hq_pending (cs_queue c) @ map fst (cs_staged c)\<rparr>, cs_staged := [],
        cs_lanes := cs_lanes c OR ps, cs_alternate := map_option (\<lambda>l. l OR ps) (cs_alternate c)\<rparr>)"

text \<open>
  \<open>xu\<close>, \<open>setState\<close> outside a render: with nothing queued on the fibers the new state is computed at
  once, and when it is the last one no render is scheduled.  \<open>idle\<close> says that no render is in progress.
\<close>

definition xu_dispatch :: "bool \<Rightarrow> lanes \<Rightarrow> 'v action \<Rightarrow> 'v comp_state \<Rightarrow> 'v comp_state \<times> bool" where
  "xu_dispatch idle p a c =
     (let u = \<lparr>hu_lane = p, hu_revert = 0, hu_action = a, hu_eager = None\<rparr> in
      if cs_lanes c = 0 \<and> (cs_alternate c = None \<or> cs_alternate c = Some 0) then
        let v = hq_reducer (cs_queue c) (hq_state (cs_queue c)) a; u = u\<lparr>hu_eager := Some v\<rparr> in
        if v = hq_state (cs_queue c) then
          (let c = Ua_enqueue u 0 c in (if idle then za_flush c else c, False))
        else (Ua_enqueue u p c, True)
      else (Ua_enqueue u p c, True))"

text \<open>\<open>sS\<close>, the dispatch of \<open>useReducer\<close>, never computes early.\<close>

definition sS_dispatch :: "lanes \<Rightarrow> 'v action \<Rightarrow> 'v comp_state \<Rightarrow> 'v comp_state" where
  "sS_dispatch p a c = Ua_enqueue \<lparr>hu_lane = p, hu_revert = 0, hu_action = a, hu_eager = None\<rparr> p c"

definition Eg_entangle :: "root \<Rightarrow> 'v hqueue \<Rightarrow> lanes \<Rightarrow> root \<times> 'v hqueue" where
  "Eg_entangle r q f =
     (if f AND 4194048 \<noteq> 0 then
        let f = f OR (hq_lanes q AND pendingLanes r) in (ll_markRootEntangled r f, q\<lparr>hq_lanes := f\<rparr>)
      else (r, q))"

section \<open>The list of cells\<close>

text \<open>\<open>Su\<close>: whether the dependencies are those of the last render.\<close>

definition Su_sameDeps :: "'v list \<Rightarrow> 'v list option \<Rightarrow> bool" where
  "Su_sameDeps l o' = (case o' of None \<Rightarrow> False | Some old \<Rightarrow> list_all (\<lambda>(x, y). x = y) (zip l old))"

record 'v effect =
  ef_tag :: "32 word"
  ef_create :: 'v
  ef_deps :: "'v list option"
  ef_inst :: nat

datatype 'v cell = StateCell "'v hook" "'v hqueue" | MemoCell 'v "'v list option" | EffectCell "'v effect" | RefCell 'v

text \<open>
  The variables of a render: the cells of the current fiber, if there is one, the cells made so far
  and how many hooks have been called, the lanes and flags the fiber gets, and its effects.
\<close>

record 'v rctx =
  rc_current :: "'v cell list option"
  rc_cells :: "'v cell list"
  rc_at :: nat
  rc_lanes :: lanes
  rc_flags :: "32 word"
  rc_effects :: "'v effect list"
  rc_fresh :: nat

definition mr_mountCell :: "'v cell \<Rightarrow> 'v rctx \<Rightarrow> 'v rctx" where
  "mr_mountCell c x = x\<lparr>rc_cells := take (rc_at x) (rc_cells x) @ [c], rc_at := Suc (rc_at x)\<rparr>"

definition Hn_nextCell :: "'v rctx \<Rightarrow> (hook_error, 'v cell \<times> 'v rctx) res" where
  "Hn_nextCell x =
     (let n = rc_at x in
      if n < length (rc_cells x) then Inr (rc_cells x ! n, x\<lparr>rc_at := Suc n\<rparr>)
      else case rc_current x of
        None \<Rightarrow> Inl NoAlternate
      | Some cur \<Rightarrow>
          if n < length cur then Inr (cur ! n, x\<lparr>rc_cells := rc_cells x @ [cur ! n], rc_at := Suc n\<rparr>)
          else Inl RenderedMore)"

definition put_cell :: "'v cell \<Rightarrow> 'v rctx \<Rightarrow> 'v rctx" where
  "put_cell c x = x\<lparr>rc_cells := (rc_cells x)[rc_at x - 1 := c]\<rparr>"

definition gc_pushEffect :: "32 word \<Rightarrow> nat \<Rightarrow> 'v \<Rightarrow> 'v list option \<Rightarrow> 'v rctx \<Rightarrow> 'v effect \<times> 'v rctx" where
  "gc_pushEffect tag inst create deps x =
     (let e = \<lparr>ef_tag = tag, ef_create = create, ef_deps = deps, ef_inst = inst\<rparr> in (e, x\<lparr>rc_effects := rc_effects x @ [e]\<rparr>))"

definition Ps_mountEffect :: "32 word \<Rightarrow> 32 word \<Rightarrow> 'v \<Rightarrow> 'v list option \<Rightarrow> 'v rctx \<Rightarrow> 'v rctx" where
  "Ps_mountEffect fl tag f deps x =
     (let (e, x) = gc_pushEffect (1 OR tag) (rc_fresh x) f deps (x\<lparr>rc_flags := rc_flags x OR fl, rc_fresh := Suc (rc_fresh x)\<rparr>)
      in mr_mountCell (EffectCell e) x)"

text \<open>The cell of the current fiber at the position of the last call.\<close>

definition Jt_cell :: "'v rctx \<Rightarrow> 'v cell option" where
  "Jt_cell x = (case rc_current x of None \<Rightarrow> None
     | Some cur \<Rightarrow> if 0 < rc_at x \<and> rc_at x - 1 < length cur then Some (cur ! (rc_at x - 1)) else None)"

definition ks_updateEffect :: "32 word \<Rightarrow> 32 word \<Rightarrow> 'v \<Rightarrow> 'v list option \<Rightarrow> 'v rctx \<Rightarrow> (hook_error, 'v rctx) res" where
  "ks_updateEffect fl tag f deps x =
     bindR (Hn_nextCell x) (\<lambda>(c, x). case c of
       EffectCell e \<Rightarrow>
         (let same = (case (Jt_cell x, deps) of (Some (EffectCell old), Some d) \<Rightarrow> Su_sameDeps d (ef_deps old) | _ \<Rightarrow> False) in
          if same then let (e', x) = gc_pushEffect tag (ef_inst e) f deps x in Inr (put_cell (EffectCell e') x)
          else let (e', x) = gc_pushEffect (1 OR tag) (ef_inst e) f deps (x\<lparr>rc_flags := rc_flags x OR fl\<rparr>) in
            Inr (put_cell (EffectCell e') x))
     | _ \<Rightarrow> Inl OtherCell)"

text \<open>\<open>ay\<close> and \<open>uS\<close>, which differ in whether the value is given or computed.\<close>

definition uS_updateMemo :: "'v \<Rightarrow> 'v list option \<Rightarrow> 'v rctx \<Rightarrow> (hook_error, 'v \<times> 'v rctx) res" where
  "uS_updateMemo v deps x =
     bindR (Hn_nextCell x) (\<lambda>(c, x). case c of
       MemoCell old od \<Rightarrow>
         (case deps of Some d \<Rightarrow> if Su_sameDeps d od then Inr (old, x) else Inr (v, put_cell (MemoCell v deps) x)
          | None \<Rightarrow> Inr (v, put_cell (MemoCell v deps) x))
     | _ \<Rightarrow> Inl OtherCell)"

definition gg_updateRef :: "'v rctx \<Rightarrow> (hook_error, 'v \<times> 'v rctx) res" where
  "gg_updateRef x = bindR (Hn_nextCell x) (\<lambda>(c, x). case c of RefCell v \<Rightarrow> Inr (v, x) | _ \<Rightarrow> Inl OtherCell)"

definition l_updateReducer :: "'v reducer \<Rightarrow> lanes \<Rightarrow> lanes \<Rightarrow> lanes \<Rightarrow> bool \<Rightarrow> 'v rctx \<Rightarrow> (hook_error, 'v \<times> 'v rctx) res" where
  "l_updateReducer f xl wt no th x =
     bindR (Hn_nextCell x) (\<lambda>(c, x). case c of
       StateCell l q \<Rightarrow>
         bindR (Zp_updateReducer f xl wt no th l q) (\<lambda>(l', us, q', skipped, ch).
           Inr (hk_memo l', put_cell (StateCell l' q') (x\<lparr>rc_lanes := rc_lanes x OR skipped\<rparr>)))
     | _ \<Rightarrow> Inl NoQueue)"

section \<open>Rendering with hooks\<close>

datatype effect_kind = Insertion | Layout | Passive

datatype 'v call =
    CallState 'v
  | CallReducer "'v reducer" 'v
  | CallMemo 'v "'v list option" \<comment> \<open>\<open>useMemo\<close> and \<open>useCallback\<close>\<close>
  | CallRef 'v
  | CallEffect effect_kind 'v "'v list option"

text \<open>The tables \<open>fS\<close> and \<open>oy\<close>: flags and tag of the effects, and the hooks of the first and of later renders.\<close>

fun mount_flags :: "effect_kind \<Rightarrow> 32 word \<times> 32 word" where
  "mount_flags Passive = (8390656, 8)"
| "mount_flags Layout = (4194308, 4)"
| "mount_flags Insertion = (4, 2)"

fun update_flags :: "effect_kind \<Rightarrow> 32 word \<times> 32 word" where
  "update_flags Passive = (2048, 8)"
| "update_flags Layout = (4, 4)"
| "update_flags Insertion = (4, 2)"

fun fS_mount :: "'v call \<Rightarrow> 'v rctx \<Rightarrow> (hook_error, 'v option \<times> 'v rctx) res" where
  "fS_mount (CallState v) x = (let (l, q) = sg_mountState Ol_basicReducer v in Inr (Some v, mr_mountCell (StateCell l q) x))"
| "fS_mount (CallReducer f v) x = (let (l, q) = sg_mountState f v in Inr (Some v, mr_mountCell (StateCell l q) x))"
| "fS_mount (CallMemo v deps) x = Inr (Some v, mr_mountCell (MemoCell v deps) x)"
| "fS_mount (CallRef v) x = Inr (Some v, mr_mountCell (RefCell v) x)"
| "fS_mount (CallEffect k f deps) x = Inr (None, Ps_mountEffect (fst (mount_flags k)) (snd (mount_flags k)) f deps x)"

record lanes_env =
  le_xl :: lanes \<comment> \<open>\<open>xl\<close>, the lanes of the render\<close>
  le_wt :: lanes \<comment> \<open>\<open>wt\<close>\<close>
  le_no :: lanes \<comment> \<open>\<open>no\<close>\<close>
  le_thenable :: bool \<comment> \<open>\<open>Fn\<close> is set\<close>

fun oy_update :: "lanes_env \<Rightarrow> 'v call \<Rightarrow> 'v rctx \<Rightarrow> (hook_error, 'v option \<times> 'v rctx) res" where
  "oy_update en (CallState v) x =
     bindR (l_updateReducer Ol_basicReducer (le_xl en) (le_wt en) (le_no en) (le_thenable en) x) (\<lambda>(v, x). Inr (Some v, x))"
| "oy_update en (CallReducer f v) x =
     bindR (l_updateReducer f (le_xl en) (le_wt en) (le_no en) (le_thenable en) x) (\<lambda>(v, x). Inr (Some v, x))"
| "oy_update en (CallMemo v deps) x = bindR (uS_updateMemo v deps x) (\<lambda>(v, x). Inr (Some v, x))"
| "oy_update en (CallRef v) x = bindR (gg_updateRef x) (\<lambda>(v, x). Inr (Some v, x))"
| "oy_update en (CallEffect k f deps) x = bindR (ks_updateEffect (fst (update_flags k)) (snd (update_flags k)) f deps x) (\<lambda>x. Inr (None, x))"

text \<open>A component: what it does after each hook depends on what the hook returned.\<close>

datatype 'v body = Done | Call "'v call" "'v option \<Rightarrow> 'v body"

primrec run_body :: "('v call \<Rightarrow> 'v rctx \<Rightarrow> (hook_error, 'v option \<times> 'v rctx) res) \<Rightarrow> 'v body \<Rightarrow> 'v rctx \<Rightarrow> (hook_error, 'v rctx) res" where
  "run_body h Done = Inr"
| "run_body h (Call c k) = (\<lambda>x. bindR (h c x) (\<lambda>(v, x). run_body h (k v) x))"

definition Xp_fewer :: "'v rctx \<Rightarrow> bool" where
  "Xp_fewer x \<longleftrightarrow> (case rc_current x of None \<Rightarrow> False | Some cur \<Rightarrow> 0 < rc_at x \<and> rc_at x < length cur)"

text \<open>\<open>Ud\<close> with \<open>Xp\<close>; a fiber without cells is rendered as for the first time.\<close>

definition Ud_renderWithHooks :: "lanes_env \<Rightarrow> 'v body \<Rightarrow> 'v cell list option \<Rightarrow> nat \<Rightarrow> (hook_error, 'v rctx) res" where
  "Ud_renderWithHooks en b cur fresh =
     (let x = \<lparr>rc_current = cur, rc_cells = [], rc_at = 0, rc_lanes = 0, rc_flags = 0, rc_effects = [], rc_fresh = fresh\<rparr> in
      if cur = None \<or> cur = Some [] then run_body fS_mount b x
      else bindR (run_body (oy_update en) b x) (\<lambda>x. if Xp_fewer x then Inl RenderedFewer else Inr x))"

text \<open>Cells hold functions and cannot be compared; the test for an empty list needs no comparison.\<close>

lemma Ud_renderWithHooks_code [code]:
  "Ud_renderWithHooks en b cur fresh =
     (let x = \<lparr>rc_current = cur, rc_cells = [], rc_at = 0, rc_lanes = 0, rc_flags = 0, rc_effects = [], rc_fresh = fresh\<rparr> in
      case cur of None \<Rightarrow> run_body fS_mount b x
      | Some cs \<Rightarrow> case cs of [] \<Rightarrow> run_body fS_mount b x
        | c # cs' \<Rightarrow> bindR (run_body (oy_update en) b x) (\<lambda>x. if Xp_fewer x then Inl RenderedFewer else Inr x))"
  by (simp add: Ud_renderWithHooks_def Let_def split: option.split list.split)

end
