(* ===== verification/Hooks_Correct.thy ===== *)
theory Hooks_Correct
  imports React_Hooks
begin

text \<open>
  What hooks promise: the state of a state hook is that of all its updates in order, however renders
  are interleaved, and the bail-out of \<open>setState\<close> skips only renders that would change nothing; the
  cells of a component keep their number and kinds, and equal dependencies keep values and effects.
\<close>

section \<open>The life of a state hook\<close>

text \<open>
  A component over time.  Updates are dispatched; other hooks of the component mark its lanes; a
  render first takes up the staged updates, then more updates may be dispatched, then the queue is
  processed, and the result is committed or abandoned.  \<open>extra\<close> are the lanes other hooks skip.
\<close>

datatype 'v cevent =
    EDispatch bool lanes "'v action"
  | EOther lanes
  | ERender lanes lanes lanes lanes "(lanes \<times> 'v action) list" bool

definition c_mount :: "'v reducer \<Rightarrow> 'v \<Rightarrow> 'v comp_state" where
  "c_mount red v = \<lparr>cs_hook = fst (sg_mountState red v), cs_lanes = 0, cs_alternate = None,
     cs_queue = snd (sg_mountState red v), cs_staged = []\<rparr>"

definition c_dispatches :: "(lanes \<times> 'v action) list \<Rightarrow> 'v comp_state \<Rightarrow> 'v comp_state" where
  "c_dispatches mid c = fold (\<lambda>(p, a) c. fst (xu_dispatch False p a c)) mid c"

definition c_process :: "'v reducer \<Rightarrow> lanes \<Rightarrow> lanes \<Rightarrow> lanes \<Rightarrow> lanes \<Rightarrow> bool \<Rightarrow> 'v comp_state \<Rightarrow> 'v comp_state" where
  "c_process red xl wt no extra commit c =
     (case Zp_updateReducer red xl wt no False (cs_hook c) (cs_queue c) of
        Inl e \<Rightarrow> c
      | Inr (l, us, q, skipped, ch) \<Rightarrow>
          if commit then c\<lparr>cs_hook := l, cs_queue := q, cs_lanes := skipped OR extra, cs_alternate := Some (cs_lanes c)\<rparr>
          else c\<lparr>cs_hook := (cs_hook c)\<lparr>hk_base := us\<rparr>, cs_queue := q, cs_alternate := Some (skipped OR extra)\<rparr>)"

fun c_step :: "'v reducer \<Rightarrow> 'v cevent \<Rightarrow> 'v comp_state \<Rightarrow> 'v comp_state" where
  "c_step red (EDispatch idle p a) c = fst (xu_dispatch idle p a c)"
| "c_step red (EOther p) c = c\<lparr>cs_lanes := cs_lanes c OR p, cs_alternate := map_option (\<lambda>l. l OR p) (cs_alternate c)\<rparr>"
| "c_step red (ERender xl wt no extra mid commit) c = c_process red xl wt no extra commit (c_dispatches mid (za_flush c))"

fun c_actions :: "'v cevent \<Rightarrow> 'v action list" where
  "c_actions (EDispatch idle p a) = [a]"
| "c_actions (EOther p) = []"
| "c_actions (ERender xl wt no extra mid commit) = map snd mid"

text \<open>An update has a lane.\<close>

fun c_laned :: "'v cevent \<Rightarrow> bool" where
  "c_laned (EDispatch idle p a) = (p \<noteq> 0)"
| "c_laned (EOther p) = True"
| "c_laned (ERender xl wt no extra mid commit) = (\<forall>x \<in> set mid. fst x \<noteq> 0)"

section \<open>Rebasing with early states\<close>

definition total :: "'v reducer \<Rightarrow> 'v hupdate list \<Rightarrow> 'v \<Rightarrow> 'v" where
  "total red us s = fold (\<lambda>u s. red s (hu_action u)) us s"

fun valid :: "'v reducer \<Rightarrow> 'v hupdate list \<Rightarrow> 'v \<Rightarrow> bool" where
  "valid red [] s = True"
| "valid red (u # us) s \<longleftrightarrow> (hu_eager u = None \<or> hu_eager u = Some (red s (hu_action u))) \<and> hu_revert u = 0 \<and> valid red us (red s (hu_action u))"

lemma total_simps [simp]:
  "total red [] s = s" "total red (u # us) s = total red us (red s (hu_action u))"
  "total red (us @ vs) s = total red vs (total red us s)"
  by (simp_all add: total_def)

lemma valid_append [simp]: "valid red (us @ vs) s \<longleftrightarrow> valid red us s \<and> valid red vs (total red us s)"
  by (induction us arbitrary: s) auto

text \<open>Updates up to their lanes.\<close>

definition relaned :: "'v hupdate list \<Rightarrow> 'v hupdate list \<Rightarrow> bool" where
  "relaned us vs = list_all2 (\<lambda>u v. hu_action u = hu_action v \<and> hu_eager u = hu_eager v \<and> hu_revert u = hu_revert v) us vs"

lemma relaned_total: "relaned us vs \<Longrightarrow> total red us s = total red vs s \<and> valid red us s = valid red vs s"
  unfolding relaned_def by (induction us vs arbitrary: s rule: list_all2_induct) auto

lemma hu_apply_valid: "hu_eager u = None \<or> hu_eager u = Some (red s (hu_action u)) \<Longrightarrow> hu_apply red u s = red s (hu_action u)"
  by (auto simp: hu_apply_def)

text \<open>What the loop of \<open>Zp\<close> keeps: a suffix of the updates, and the state in front of it.\<close>

definition zp_inv :: "'v reducer \<Rightarrow> 'v hupdate list \<Rightarrow> 'v \<Rightarrow> 'v zp_work \<Rightarrow> bool" where
  "zp_inv red us s w \<longleftrightarrow>
     (if zw_base w = [] then zw_state w = total red us s \<and> zw_lanes w = 0
      else zw_lanes w \<noteq> 0 \<and> (\<exists>pre suf. us = pre @ suf \<and> relaned (zw_base w) suf \<and> zw_baseState w = total red pre s))"

lemma not_included_plain: "\<not> hu_included xl wt u \<Longrightarrow> hu_plain u \<noteq> 0"
  by (auto simp: hu_included_def split: if_splits)

lemma or_nonzero: "a \<noteq> 0 \<Longrightarrow> a OR b \<noteq> (0 :: 32 word)" "b \<noteq> 0 \<Longrightarrow> a OR b \<noteq> (0 :: 32 word)"
  by (simp_all add: or_eq_0_iff)

lemma Zp_step_inv:
  assumes "zp_inv red us s w" "valid red (us @ [u]) s"
  shows "zp_inv red (us @ [u]) s (Zp_step red xl wt no u w)"
proof -
  have v: "hu_eager u = None \<or> hu_eager u = Some (red (total red us s) (hu_action u))" "hu_revert u = 0" using assms(2) by auto
  show ?thesis
  proof (cases "zw_base w = []")
    case True
    then have w: "zw_state w = total red us s" "zw_lanes w = 0" using assms(1) by (simp_all add: zp_inv_def)
    show ?thesis
    proof (cases "hu_included xl wt u")
      case inc: True
      then show ?thesis using True w v hu_apply_valid [of u red "total red us s"] by (simp add: Zp_step_def zp_inv_def)
    next
      case False
      moreover have "relaned [u\<lparr>hu_lane := hu_plain u\<rparr>] [u]" by (simp add: relaned_def)
      ultimately show ?thesis
        using True w not_included_plain [OF False] unfolding zp_inv_def Zp_step_def Zp_keep_def by auto
    qed
  next
    case False
    then obtain pre suf where p: "us = pre @ suf" "relaned (zw_base w) suf" "zw_baseState w = total red pre s" "zw_lanes w \<noteq> 0"
      using assms(1) by (auto simp: zp_inv_def)
    have "relaned (zw_base w @ [u\<lparr>hu_lane := l\<rparr>]) (suf @ [u])" for l
      using p(2) by (simp add: relaned_def list_all2_appendI)
    then have ex: "\<exists>p' s'. us @ [u] = p' @ s' \<and> relaned (zw_base w @ [u\<lparr>hu_lane := l\<rparr>]) s' \<and> zw_baseState w = total red p' s" for l
      using p(1,3) by (metis append.assoc)
    show ?thesis
    proof (cases "hu_included xl wt u")
      case True
      then show ?thesis using ex [of 0] False p(4) v(2) by (simp add: zp_inv_def Zp_step_def)
    next
      case ninc: False
      then show ?thesis using ex [of "hu_plain u"] False or_nonzero(1) [OF p(4)] by (simp add: zp_inv_def Zp_step_def Zp_keep_def)
    qed
  qed
qed

lemma Zp_fold_inv:
  assumes "valid red us s" "zw_state w = s" "zw_base w = []" "zw_lanes w = 0"
  shows "zp_inv red us s (fold (Zp_step red xl wt no) us w)"
  using assms
proof (induction us rule: rev_induct)
  case Nil
  then show ?case by (simp add: zp_inv_def)
next
  case (snoc u us)
  then show ?case using Zp_step_inv [OF _ snoc.prems(1)] by simp
qed

lemma Zp_fold_all:
  assumes "\<forall>u \<in> set us. hu_included xl wt u \<and> hu_revert u = 0" "zw_base w = []"
  shows "zw_base (fold (Zp_step red xl wt no) us w) = []"
  using assms by (induction us arbitrary: w) (simp_all add: Zp_step_def)

text \<open>The whole of \<open>Zp\<close>, for queues of state hooks.\<close>

lemma Zp_spec:
  assumes "valid red (hk_base l @ hq_pending q) (hk_baseState l)"
  defines "us \<equiv> hk_base l @ hq_pending q"
  shows "\<exists>l' q' sk ch. Zp_updateReducer red xl wt no False l q = Inr (l', us, q', sk, ch) \<and>
    hq_pending q' = [] \<and> hq_reducer q' = red \<and> valid red (hk_base l') (hk_baseState l') \<and>
    total red (hk_base l') (hk_baseState l') = total red us (hk_baseState l) \<and>
    (us = [] \<longrightarrow> hq_state q' = hq_state q) \<and>
    (sk = 0 \<longrightarrow> hk_base l' = [] \<and> hk_memo l' = total red us (hk_baseState l) \<and>
       (us \<noteq> [] \<longrightarrow> hq_state q' = total red us (hk_baseState l))) \<and>
    (hk_base l' = [] \<longrightarrow> us \<noteq> [] \<longrightarrow> hq_state q' = hk_baseState l') \<and> (us = [] \<longrightarrow> hk_base l' = [] \<and> hk_baseState l' = hk_baseState l) \<and>
    ((\<forall>u \<in> set us. hu_included xl wt u) \<longrightarrow> sk = 0)"
proof (cases "us = []")
  case True
  then show ?thesis using assms(1) by (auto simp: Zp_updateReducer_def us_def)
next
  case False
  let ?w0 = "\<lparr>zw_state = hk_baseState l, zw_base = [], zw_baseState = hk_baseState l, zw_lanes = 0, zw_async = False\<rparr> :: 'a zp_work"
  define w where "w = fold (Zp_step red xl wt no) us ?w0"
  have i: "zp_inv red us (hk_baseState l) w" unfolding w_def by (rule Zp_fold_inv) (use assms in simp_all)
  have r: "\<forall>u \<in> set us. hu_revert u = 0"
  proof -
    have "valid red vs s \<Longrightarrow> \<forall>u \<in> set vs. hu_revert u = 0" for vs s by (induction vs arbitrary: s) auto
    then show ?thesis using assms by blast
  qed
  have eq: "Zp_updateReducer red xl wt no False l q =
      Inr (\<lparr>hk_memo = zw_state w, hk_baseState = (if zw_base w = [] then zw_state w else zw_baseState w), hk_base = zw_base w\<rparr>,
        us, q\<lparr>hq_reducer := red, hq_pending := [], hq_state := zw_state w\<rparr>, zw_lanes w, zw_state w \<noteq> hk_memo l)"
    using False unfolding Zp_updateReducer_def us_def [symmetric] Let_def w_def [symmetric] by simp
  have "(\<forall>u \<in> set us. hu_included xl wt u) \<Longrightarrow> zw_lanes w = 0"
    using Zp_fold_all [of us xl wt ?w0 red no] r i by (auto simp: w_def [symmetric] zp_inv_def)
  moreover have "zw_base w \<noteq> [] \<Longrightarrow> valid red (zw_base w) (zw_baseState w) \<and> total red (zw_base w) (zw_baseState w) = total red us (hk_baseState l)"
  proof -
    assume "zw_base w \<noteq> []"
    then obtain pre suf where "us = pre @ suf" "relaned (zw_base w) suf" "zw_baseState w = total red pre (hk_baseState l)"
      using i by (auto simp: zp_inv_def)
    then show ?thesis using relaned_total [of "zw_base w" suf red] assms by auto
  qed
  ultimately show ?thesis using eq i False by (auto simp: zp_inv_def split: if_splits)
qed

section \<open>The invariant\<close>

definition all_updates :: "'v comp_state \<Rightarrow> 'v hupdate list" where
  "all_updates c = (hk_base (cs_hook c) @ hq_pending (cs_queue c)) @ map fst (cs_staged c)"

abbreviation queued :: "'v comp_state \<Rightarrow> 'v hupdate list" where
  "queued c \<equiv> hk_base (cs_hook c) @ hq_pending (cs_queue c)"

definition quiet :: "'v comp_state \<Rightarrow> bool" where
  "quiet c \<longleftrightarrow> cs_lanes c = 0 \<and> (cs_alternate c = None \<or> cs_alternate c = Some 0)"

definition apply_actions :: "'v reducer \<Rightarrow> 'v action list \<Rightarrow> 'v \<Rightarrow> 'v" where
  "apply_actions red as s = fold (\<lambda>a s. red s a) as s"

text \<open>
  The early states are right; everything queued leads to the state of all actions; and while no lane
  is marked on either fiber, the last rendered state is that state already.
\<close>

definition c_inv :: "'v reducer \<Rightarrow> 'v action list \<Rightarrow> 'v \<Rightarrow> 'v comp_state \<Rightarrow> bool" where
  "c_inv red as v c \<longleftrightarrow>
     hq_reducer (cs_queue c) = red \<and> valid red (all_updates c) (hk_baseState (cs_hook c)) \<and>
     total red (all_updates c) (hk_baseState (cs_hook c)) = apply_actions red as v \<and>
     (quiet c \<longrightarrow> hq_state (cs_queue c) = apply_actions red as v \<and> total red (queued c) (hk_baseState (cs_hook c)) = apply_actions red as v) \<and>
     (queued c = [] \<longrightarrow> hq_state (cs_queue c) = hk_baseState (cs_hook c))"

lemma apply_actions_simps [simp]:
  "apply_actions red [] s = s" "apply_actions red (as @ bs) s = apply_actions red bs (apply_actions red as s)"
  "apply_actions red [a] s = red s a"
  by (simp_all add: apply_actions_def)

lemma za_flush_inv:
  assumes "c_inv red as v c" shows "c_inv red as v (za_flush c)"
proof -
  have "quiet (za_flush c) \<Longrightarrow> quiet c"
    by (cases "cs_alternate c") (auto simp: quiet_def za_flush_def Let_def or_eq_0_iff)
  then show ?thesis using assms by (auto simp: c_inv_def all_updates_def za_flush_def Let_def)
qed

lemma Ua_enqueue_quiet: "quiet (Ua_enqueue u p c) \<longleftrightarrow> quiet c \<and> p = 0"
  by (cases "cs_alternate c") (auto simp: quiet_def Ua_enqueue_def or_eq_0_iff)

lemma Ua_enqueue_fields [simp]:
  "all_updates (Ua_enqueue u p c) = all_updates c @ [u]" "cs_hook (Ua_enqueue u p c) = cs_hook c" "cs_queue (Ua_enqueue u p c) = cs_queue c"
  by (simp_all add: all_updates_def Ua_enqueue_def)

lemma xu_dispatch_inv:
  assumes "c_inv red as v c" "p \<noteq> 0"
  shows "c_inv red (as @ [a]) v (fst (xu_dispatch idle p a c)) \<and>
    (\<not> snd (xu_dispatch idle p a c) \<longrightarrow> quiet c \<and> red (apply_actions red as v) a = apply_actions red as v)"
proof (cases "quiet c")
  case False
  let ?u = "\<lparr>hu_lane = p, hu_revert = 0, hu_action = a, hu_eager = None\<rparr>"
  have "xu_dispatch idle p a c = (Ua_enqueue ?u p c, True)" using False by (auto simp: xu_dispatch_def quiet_def)
  then show ?thesis
    using assms Ua_enqueue_quiet [of ?u p c] by (simp add: c_inv_def del: total_simps(3)) simp
next
  case True
  let ?v = "red (hq_state (cs_queue c)) a"
  let ?u = "\<lparr>hu_lane = p, hu_revert = 0, hu_action = a, hu_eager = Some ?v\<rparr>"
  have s: "hq_state (cs_queue c) = apply_actions red as v" "hq_reducer (cs_queue c) = red" using assms(1) True by (simp_all add: c_inv_def)
  show ?thesis
  proof (cases "?v = hq_state (cs_queue c)")
    case eq: True
    have "c_inv red (as @ [a]) v (Ua_enqueue ?u 0 c)"
      using assms(1) True eq s Ua_enqueue_quiet [of ?u 0 c] by (simp add: c_inv_def del: total_simps(3)) simp
    moreover have "xu_dispatch idle p a c = (if idle then za_flush (Ua_enqueue ?u 0 c) else Ua_enqueue ?u 0 c, False)"
      using True eq s by (auto simp: xu_dispatch_def quiet_def Let_def)
    ultimately show ?thesis using True eq s za_flush_inv by auto
  next
    case False
    have "xu_dispatch idle p a c = (Ua_enqueue ?u p c, True)"
      using True False s by (auto simp: xu_dispatch_def quiet_def Let_def)
    then show ?thesis
      using assms s Ua_enqueue_quiet [of ?u p c] by (simp add: c_inv_def del: total_simps(3)) simp
  qed
qed

text \<open>Between the beginning of a render and the processing of the queue.\<close>

definition mid_ok :: "'v comp_state \<Rightarrow> bool" where
  "mid_ok c \<longleftrightarrow> (cs_lanes c = 0 \<longrightarrow> cs_staged c = [] \<or> quiet c)"

lemma xu_dispatch_mid: "mid_ok c \<Longrightarrow> p \<noteq> 0 \<Longrightarrow> mid_ok (fst (xu_dispatch False p a c))"
  by (auto simp: mid_ok_def xu_dispatch_def Let_def Ua_enqueue_quiet Ua_enqueue_def or_eq_0_iff quiet_def)

lemma c_dispatches_inv:
  assumes "c_inv red as v c" "mid_ok c" "\<forall>x \<in> set mid. fst x \<noteq> 0"
  shows "c_inv red (as @ map snd mid) v (c_dispatches mid c) \<and> mid_ok (c_dispatches mid c)"
  using assms
proof (induction mid arbitrary: c as)
  case (Cons x mid)
  obtain p a where x: "x = (p, a)" by (cases x)
  let ?c = "fst (xu_dispatch False p a c)"
  have "c_inv red (as @ [a]) v ?c" "mid_ok ?c" using Cons.prems x xu_dispatch_inv [OF Cons.prems(1), of p a False] xu_dispatch_mid [OF Cons.prems(2), of p a] by auto
  then show ?case using Cons.IH [of "as @ [a]" ?c] Cons.prems x by (simp add: c_dispatches_def)
qed (simp add: c_dispatches_def)

lemma c_process_inv:
  assumes "c_inv red as v c" "mid_ok c"
  shows "c_inv red as v (c_process red xl wt no extra commit c)"
proof -
  let ?s = "hk_baseState (cs_hook c)" and ?us = "queued c"
  have va: "valid red ?us ?s" using assms(1) by (simp add: c_inv_def all_updates_def)
  from Zp_spec [of red "cs_hook c" "cs_queue c" xl wt no, OF this]
  obtain l q sk ch where z: "Zp_updateReducer red xl wt no False (cs_hook c) (cs_queue c) = Inr (l, ?us, q, sk, ch)"
    and q: "hq_pending q = []" "hq_reducer q = red"
    and l: "valid red (hk_base l) (hk_baseState l)" "total red (hk_base l) (hk_baseState l) = total red ?us ?s"
    and e: "?us = [] \<longrightarrow> hq_state q = hq_state (cs_queue c)"
    and k: "sk = 0 \<longrightarrow> hk_base l = [] \<and> hk_memo l = total red ?us ?s \<and> (?us \<noteq> [] \<longrightarrow> hq_state q = total red ?us ?s)"
    and b: "hk_base l = [] \<longrightarrow> ?us \<noteq> [] \<longrightarrow> hq_state q = hk_baseState l" "?us = [] \<longrightarrow> hk_base l = [] \<and> hk_baseState l = ?s"
    by metis
  have c: "valid red (map fst (cs_staged c)) (total red ?us ?s)" "total red (map fst (cs_staged c)) (total red ?us ?s) = apply_actions red as v"
    "?us = [] \<longrightarrow> hq_state (cs_queue c) = ?s" "quiet c \<longrightarrow> total red ?us ?s = apply_actions red as v"
    using assms(1) by (simp_all add: c_inv_def all_updates_def)
  have T: "cs_lanes c = 0 \<Longrightarrow> sk = 0 \<Longrightarrow> hq_state q = apply_actions red as v \<and> total red ?us ?s = apply_actions red as v"
    using assms(2) c k e by (auto simp: mid_ok_def)
  show ?thesis
  proof (cases commit)
    case True
    then show ?thesis
      using z q l T k e b c unfolding c_process_def
      by (auto simp: c_inv_def all_updates_def quiet_def or_eq_0_iff)
  next
    case False
    then show ?thesis
      using z q T e c va unfolding c_process_def
      by (auto simp: c_inv_def all_updates_def quiet_def or_eq_0_iff)
  qed
qed

lemma c_run_inv:
  assumes "\<forall>e \<in> set es. c_laned e"
  shows "c_inv red (concat (map c_actions es)) v (fold (c_step red) es (c_mount red v))"
  using assms
proof (induction es rule: rev_induct)
  case Nil
  then show ?case by (simp add: c_mount_def sg_mountState_def c_inv_def all_updates_def)
next
  case (snoc e es)
  let ?c = "fold (c_step red) es (c_mount red v)" and ?as = "concat (map c_actions es)"
  have ih: "c_inv red ?as v ?c" using snoc by simp
  show ?case
  proof (cases e)
    case (EDispatch idle p a)
    then show ?thesis using xu_dispatch_inv [OF ih] snoc.prems by simp
  next
    case (EOther p)
    have "quiet (c_step red (EOther p) ?c) \<Longrightarrow> quiet ?c" by (cases "cs_alternate ?c") (auto simp: quiet_def or_eq_0_iff)
    then show ?thesis using ih EOther by (simp add: c_inv_def all_updates_def)
  next
    case (ERender xl wt no extra mid commit)
    have "mid_ok (za_flush ?c)" by (simp add: mid_ok_def za_flush_def Let_def)
    then have "c_inv red (?as @ map snd mid) v (c_dispatches mid (za_flush ?c)) \<and> mid_ok (c_dispatches mid (za_flush ?c))"
      using c_dispatches_inv [OF za_flush_inv [OF ih]] snoc.prems ERender by simp
    then show ?thesis using c_process_inv [of red "?as @ map snd mid"] ERender by simp
  qed
qed

text \<open>
  C14. The state of a state hook is that of all its updates: however updates are dispatched before and
  during renders, and renders committed and abandoned, with whatever lanes, a render with the lanes
  of everything queued gives the state in which all actions are applied once, in the order they were
  dispatched, and leaves nothing queued.
\<close>

theorem state_updates_applied:
  assumes "\<forall>e \<in> set es. c_laned e" "c = fold (c_step Ol_basicReducer) es (c_mount Ol_basicReducer v)"
    and "\<forall>u \<in> set (all_updates c). hu_included xl wt u"
  shows "let c' = c_step Ol_basicReducer (ERender xl wt no extra [] True) c in
    hk_memo (cs_hook c') = apply_actions Ol_basicReducer (concat (map c_actions es)) v \<and> all_updates c' = []"
proof -
  let ?r = Ol_basicReducer
  define d where "d = za_flush c"
  have i: "c_inv ?r (concat (map c_actions es)) v d" using c_run_inv [OF assms(1), of ?r v] assms(2) za_flush_inv by (simp add: d_def)
  have d: "queued d = all_updates c" "cs_staged d = []" by (simp_all add: d_def za_flush_def all_updates_def Let_def)
  have va: "valid ?r (queued d) (hk_baseState (cs_hook d))" using i by (simp add: c_inv_def all_updates_def)
  obtain l q sk ch where z: "Zp_updateReducer ?r xl wt no False (cs_hook d) (cs_queue d) = Inr (l, queued d, q, sk, ch)" "hq_pending q = []"
      "sk = 0 \<longrightarrow> hk_base l = [] \<and> hk_memo l = total ?r (queued d) (hk_baseState (cs_hook d))"
      "(\<forall>u \<in> set (queued d). hu_included xl wt u) \<longrightarrow> sk = 0"
    using Zp_spec [of ?r "cs_hook d" "cs_queue d" xl wt no, OF va] by metis
  have "sk = 0" using z(4) assms(3) d(1) by simp
  moreover have "total ?r (queued d) (hk_baseState (cs_hook d)) = apply_actions ?r (concat (map c_actions es)) v"
    using i d(2) by (simp add: c_inv_def all_updates_def)
  ultimately show ?thesis
    using z d by (simp add: c_dispatches_def d_def [symmetric] c_process_def all_updates_def Let_def)
qed

definition demo_cevents :: "nat cevent list" where
  "demo_cevents = [EDispatch True 32 (SetBy (\<lambda>n. n + 1)), ERender 2 2 0 0 [(2, SetBy (\<lambda>n. n * 10))] True,
     ERender 2 2 0 0 [] False, EDispatch True 32 (SetTo 7), EDispatch False 2 (SetBy (\<lambda>n. n + 5))]"

theorem state_updates_applied_witness:
  "hk_memo (cs_hook (c_step Ol_basicReducer (ERender 34 34 0 0 [] True)
     (fold (c_step Ol_basicReducer) demo_cevents (c_mount Ol_basicReducer 3)))) = 12"
proof -
  have "\<forall>e \<in> set demo_cevents. c_laned e" by (simp add: demo_cevents_def)
  moreover have "\<forall>u \<in> set (all_updates (fold (c_step Ol_basicReducer) demo_cevents (c_mount Ol_basicReducer 3))). hu_included 34 34 u"
    by code_simp
  ultimately have "hk_memo (cs_hook (c_step Ol_basicReducer (ERender 34 34 0 0 [] True)
     (fold (c_step Ol_basicReducer) demo_cevents (c_mount Ol_basicReducer 3)))) =
     apply_actions Ol_basicReducer (concat (map c_actions demo_cevents)) 3"
    using state_updates_applied [of demo_cevents _ 3 34 34 0 0] by (simp add: Let_def)
  also have "\<dots> = 12" by (simp add: demo_cevents_def apply_actions_def Ol_basicReducer_def)
  finally show ?thesis .
qed

text \<open>
  C36. The bail-out is safe: when \<open>setState\<close> decides not to schedule a render, the state is the one on
  which every queued update has been taken into account, and the new update does not change it.
\<close>

theorem bail_out_safe:
  assumes "\<forall>e \<in> set es. c_laned e" "c = fold (c_step Ol_basicReducer) es (c_mount Ol_basicReducer v)"
    and "p \<noteq> 0" "xu_dispatch idle p a c = (c', False)"
  shows "hq_state (cs_queue c) = apply_actions Ol_basicReducer (concat (map c_actions es)) v \<and>
    apply_actions Ol_basicReducer (concat (map c_actions es) @ [a]) v = apply_actions Ol_basicReducer (concat (map c_actions es)) v"
proof -
  have i: "c_inv Ol_basicReducer (concat (map c_actions es)) v c" using c_run_inv [OF assms(1), of Ol_basicReducer v] assms(2) by simp
  then show ?thesis using xu_dispatch_inv [OF i assms(3), of a idle] assms(4) by (simp add: c_inv_def)
qed

theorem bail_out_safe_witness:
  "hq_state (cs_queue (fold (c_step Ol_basicReducer) [EDispatch True 2 (SetTo 4), ERender 2 2 0 0 [] True, ERender 2 2 0 0 [] True]
     (c_mount Ol_basicReducer (3::nat)))) = 4"
proof -
  let ?es = "[EDispatch True 2 (SetTo 4), ERender 2 2 0 0 [] True, ERender 2 2 0 0 [] True] :: nat cevent list"
  let ?c = "fold (c_step Ol_basicReducer) ?es (c_mount Ol_basicReducer 3)"
  have "snd (xu_dispatch True 2 (SetTo 4) ?c) = False" by code_simp
  then have "xu_dispatch True 2 (SetTo 4) ?c = (fst (xu_dispatch True 2 (SetTo 4) ?c), False)" by (metis prod.collapse)
  moreover have "\<forall>e \<in> set ?es. c_laned e" by simp
  ultimately have "hq_state (cs_queue ?c) = apply_actions Ol_basicReducer (concat (map c_actions ?es)) 3"
    using bail_out_safe [of ?es ?c 3 2 True "SetTo 4"] by simp
  also have "\<dots> = 4" by (simp add: apply_actions_def Ol_basicReducer_def)
  finally show ?thesis .
qed

section \<open>Order and kinds of the cells\<close>

datatype cell_kind = KState | KMemo | KEffect | KRef

fun kind_of_cell :: "'v cell \<Rightarrow> cell_kind" where
  "kind_of_cell (StateCell l q) = KState"
| "kind_of_cell (MemoCell v d) = KMemo"
| "kind_of_cell (EffectCell e) = KEffect"
| "kind_of_cell (RefCell v) = KRef"

fun kind_of_call :: "'v call \<Rightarrow> cell_kind" where
  "kind_of_call (CallState v) = KState"
| "kind_of_call (CallReducer f v) = KState"
| "kind_of_call (CallMemo v d) = KMemo"
| "kind_of_call (CallRef v) = KRef"
| "kind_of_call (CallEffect k f d) = KEffect"

text \<open>A component that calls its hooks unconditionally.\<close>

fun line :: "'v call list \<Rightarrow> 'v body" where
  "line [] = Done"
| "line (c # cs) = Call c (\<lambda>v. line cs)"

text \<open>The dependencies of a call are those its cell was made with.\<close>

fun deps_kept :: "'v call \<Rightarrow> 'v cell \<Rightarrow> bool" where
  "deps_kept (CallMemo v (Some d)) (MemoCell w od) = Su_sameDeps d od"
| "deps_kept (CallEffect k f (Some d)) (EffectCell e) = Su_sameDeps d (ef_deps e)"
| "deps_kept (CallState v) (StateCell l q) = True"
| "deps_kept (CallReducer f v) (StateCell l q) = True"
| "deps_kept (CallRef v) (RefCell w) = True"
| "deps_kept c d = False"

text \<open>A render that has called \<open>n\<close> hooks and is as it should be.\<close>

definition at_cell :: "'v cell list \<Rightarrow> nat \<Rightarrow> 'v rctx \<Rightarrow> bool" where
  "at_cell cs n x \<longleftrightarrow> rc_current x = Some cs \<and> rc_at x = n \<and> map kind_of_cell (rc_cells x) = map kind_of_cell (take n cs) \<and> n \<le> length cs"

definition calm :: "'v cell list \<Rightarrow> 'v rctx \<Rightarrow> bool" where
  "calm cs x \<longleftrightarrow> rc_flags x = 0 \<and> (\<forall>e \<in> set (rc_effects x). ef_tag e AND 1 = 0) \<and>
     (\<forall>i < rc_at x. \<forall>v d. cs ! i = MemoCell v d \<longrightarrow> rc_cells x ! i = MemoCell v d)"

lemma at_cell_length: "at_cell cs n x \<Longrightarrow> length (rc_cells x) = n"
  by (metis at_cell_def length_map length_take min.absorb2)

lemma Zp_never_throws: "\<exists>r. Zp_updateReducer f xl wt no False l q = Inr r"
  by (auto simp: Zp_updateReducer_def Let_def)

definition put_next :: "'v cell \<Rightarrow> 'v rctx \<Rightarrow> 'v rctx" where
  "put_next c x = x\<lparr>rc_cells := rc_cells x @ [c], rc_at := Suc (rc_at x)\<rparr>"

lemma Hn_next:
  assumes "at_cell cs n x" "n < length cs"
  shows "Hn_nextCell x = Inr (cs ! n, put_next (cs ! n) x)"
  using assms at_cell_length [OF assms(1)] by (simp add: Hn_nextCell_def at_cell_def Let_def put_next_def)

lemma put_cell_next:
  assumes "at_cell cs n x"
  shows "put_cell c (put_next d x) = put_next c x"
  using assms at_cell_length [OF assms] by (simp add: put_cell_def put_next_def at_cell_def list_update_append)

lemma put_cell_fields [simp]:
  "put_cell c (x\<lparr>rc_lanes := a\<rparr>) = (put_cell c x)\<lparr>rc_lanes := a\<rparr>" "put_cell c (x\<lparr>rc_flags := f\<rparr>) = (put_cell c x)\<lparr>rc_flags := f\<rparr>"
  "put_cell c (x\<lparr>rc_effects := e\<rparr>) = (put_cell c x)\<lparr>rc_effects := e\<rparr>"
  by (simp_all add: put_cell_def)

lemma at_cell_fields [simp]:
  "at_cell cs n (x\<lparr>rc_lanes := a\<rparr>) = at_cell cs n x" "at_cell cs n (x\<lparr>rc_flags := f\<rparr>) = at_cell cs n x"
  "at_cell cs n (x\<lparr>rc_effects := e\<rparr>) = at_cell cs n x"
  by (simp_all add: at_cell_def)

lemma at_cell_put:
  assumes "at_cell cs n x" "n < length cs" "kind_of_cell c = kind_of_cell (cs ! n)"
  shows "at_cell cs (Suc n) (put_next c x)"
  using assms by (simp add: at_cell_def put_next_def take_Suc_conv_app_nth)

lemma calm_put:
  assumes "at_cell cs n x" "calm cs x" "\<forall>v d. cs ! n = MemoCell v d \<longrightarrow> c = MemoCell v d"
  shows "calm cs (put_next c x)"
  using assms at_cell_length [OF assms(1)] by (auto simp: calm_def put_next_def at_cell_def nth_append less_Suc_eq)

lemma calm_fields [simp]:
  "calm cs (x\<lparr>rc_lanes := a\<rparr>) = calm cs x"
  "calm cs (put_next c x\<lparr>rc_effects := rc_effects (put_next d x) @ [e]\<rparr>) \<longleftrightarrow> calm cs (put_next c x) \<and> ef_tag e AND 1 = 0"
  by (auto simp: calm_def put_next_def)

lemma update_flags_even: "snd (update_flags k) AND 1 = 0"
  by (cases k) simp_all

lemmas next_simps = Hn_next put_cell_next at_cell_put l_updateReducer_def uS_updateMemo_def gg_updateRef_def

lemma update_state_call:
  assumes "at_cell cs n x" "n < length cs" "cs ! n = StateCell l q"
  shows "\<exists>v x'. l_updateReducer f xl wt no False x = Inr (v, x') \<and> at_cell cs (Suc n) x' \<and> (calm cs x \<longrightarrow> calm cs x')"
proof -
  obtain l' us q' sk ch where "Zp_updateReducer f xl wt no False l q = Inr (l', us, q', sk, ch)"
    using Zp_never_throws [of f] by (metis prod_cases5)
  then show ?thesis using assms calm_put [OF assms(1), of "StateCell l' q'"] by (simp add: next_simps)
qed

lemma update_memo_call:
  assumes "at_cell cs n x" "n < length cs" "cs ! n = MemoCell w od"
  shows "\<exists>v' x'. uS_updateMemo v deps x = Inr (v', x') \<and> at_cell cs (Suc n) x' \<and>
    (deps_kept (CallMemo v deps) (cs ! n) \<longrightarrow> calm cs x \<longrightarrow> calm cs x')"
  using assms calm_put [OF assms(1), of "MemoCell w od"] at_cell_put [OF assms(1,2), of "MemoCell w od"]
  by (cases deps) (auto simp: next_simps)

lemma update_effect_call:
  assumes "at_cell cs n x" "n < length cs" "cs ! n = EffectCell e" "tag AND 1 = 0"
  shows "\<exists>x'. ks_updateEffect fl tag f deps x = Inr x' \<and> at_cell cs (Suc n) x' \<and>
    (deps_kept (CallEffect k f deps) (cs ! n) \<longrightarrow> calm cs x \<longrightarrow> calm cs x')"
proof -
  have "Jt_cell (put_next (cs ! n) x) = Some (cs ! n)"
    using assms by (simp add: Jt_cell_def at_cell_def put_next_def)
  then show ?thesis using assms calm_put [OF assms(1)]
    by (cases deps) (auto simp: next_simps ks_updateEffect_def gc_pushEffect_def Let_def)
qed

lemma update_call:
  assumes "at_cell cs n x" "n < length cs" "kind_of_call c = kind_of_cell (cs ! n)" "\<not> le_thenable en"
  shows "\<exists>v x'. oy_update en c x = Inr (v, x') \<and> at_cell cs (Suc n) x' \<and> (deps_kept c (cs ! n) \<longrightarrow> calm cs x \<longrightarrow> calm cs x')"
proof (cases "cs ! n")
  case (StateCell l q)
  then obtain f where "oy_update en c x =
      bindR (l_updateReducer f (le_xl en) (le_wt en) (le_no en) False x) (\<lambda>(v, x). Inr (Some v, x))"
    using assms(3,4) by (cases c) auto
  then show ?thesis
    using update_state_call [OF assms(1,2) StateCell, of f "le_xl en" "le_wt en" "le_no en"] by (fastforce simp: bindR_def)
next
  case (MemoCell w od)
  then obtain v deps where "c = CallMemo v deps" using assms(3) by (cases c) auto
  then show ?thesis using update_memo_call [OF assms(1,2) MemoCell, of v deps] by (fastforce simp: bindR_def)
next
  case (EffectCell e)
  then obtain k f deps where "c = CallEffect k f deps" using assms(3) by (cases c) auto
  then show ?thesis
    using update_effect_call [OF assms(1,2) EffectCell update_flags_even [of k], of "fst (update_flags k)" f deps k] by (fastforce simp: bindR_def)
next
  case (RefCell v)
  then show ?thesis using assms calm_put [OF assms(1), of "RefCell v"] at_cell_put [OF assms(1,2), of "RefCell v"]
    by (cases c) (auto simp: next_simps)
qed

lemma update_more: "at_cell cs (length cs) x \<Longrightarrow> oy_update en c x = Inl RenderedMore"
  using at_cell_length [of cs "length cs" x]
  by (cases c) (simp_all add: at_cell_def Hn_nextCell_def l_updateReducer_def uS_updateMemo_def gg_updateRef_def ks_updateEffect_def)

lemma run_line:
  assumes "at_cell cs n x" "\<not> le_thenable en" "n + length calls \<le> length cs"
    "\<forall>i < length calls. kind_of_call (calls ! i) = kind_of_cell (cs ! (n + i))"
  shows "\<exists>x'. run_body (oy_update en) (line calls) x = Inr x' \<and> at_cell cs (n + length calls) x' \<and>
    ((\<forall>i < length calls. deps_kept (calls ! i) (cs ! (n + i))) \<longrightarrow> calm cs x \<longrightarrow> calm cs x')"
  using assms
proof (induction calls arbitrary: n x)
  case (Cons c calls)
  have "kind_of_call c = kind_of_cell (cs ! n)" using Cons.prems(4) by (metis add_0_right length_Cons nth_Cons_0 zero_less_Suc)
  then obtain v y where y: "oy_update en c x = Inr (v, y)" "at_cell cs (Suc n) y" "deps_kept c (cs ! n) \<longrightarrow> calm cs x \<longrightarrow> calm cs y"
    using update_call [OF Cons.prems(1), of c en] Cons.prems by auto
  have "\<forall>i < length calls. kind_of_call (calls ! i) = kind_of_cell (cs ! (Suc n + i))"
    using Cons.prems(4) by (metis Suc_less_eq add_Suc_right add_Suc length_Cons nth_Cons_Suc)
  then obtain x' where x': "run_body (oy_update en) (line calls) y = Inr x'" "at_cell cs (Suc n + length calls) x'"
      "(\<forall>i < length calls. deps_kept (calls ! i) (cs ! (Suc n + i))) \<longrightarrow> calm cs y \<longrightarrow> calm cs x'"
    using Cons.IH [OF y(2) Cons.prems(2)] Cons.prems(3) by auto
  have "(\<forall>i < length (c # calls). deps_kept ((c # calls) ! i) (cs ! (n + i))) \<Longrightarrow> deps_kept c (cs ! n) \<and> (\<forall>i < length calls. deps_kept (calls ! i) (cs ! (Suc n + i)))"
    by (metis Suc_less_eq add_0_right add_Suc add_Suc_right length_Cons nth_Cons_0 nth_Cons_Suc zero_less_Suc)
  then show ?case using y x' by auto
qed simp

lemma run_line_append:
  "run_body h (line (as @ bs)) x = bindR (run_body h (line as) x) (run_body h (line bs))"
proof (induction as arbitrary: x)
  case (Cons c as)
  then show ?case by (cases "h c x") auto
qed simp

lemma render_update:
  assumes "cs \<noteq> []"
  shows "Ud_renderWithHooks en b (Some cs) fr =
    bindR (run_body (oy_update en) b \<lparr>rc_current = Some cs, rc_cells = [], rc_at = 0, rc_lanes = 0, rc_flags = 0, rc_effects = [], rc_fresh = fr\<rparr>)
      (\<lambda>x. if Xp_fewer x then Inl RenderedFewer else Inr x)"
  using assms by (simp add: Ud_renderWithHooks_def Let_def)

lemma at_cell_start:
  "at_cell cs 0 \<lparr>rc_current = Some cs, rc_cells = [], rc_at = 0, rc_lanes = 0, rc_flags = 0, rc_effects = [], rc_fresh = fr\<rparr>"
  "calm cs \<lparr>rc_current = Some cs, rc_cells = [], rc_at = 0, rc_lanes = 0, rc_flags = 0, rc_effects = [], rc_fresh = fr\<rparr>"
  by (simp_all add: at_cell_def calm_def)

definition same_kinds :: "'v call list \<Rightarrow> 'v cell list \<Rightarrow> bool" where
  "same_kinds calls cs \<longleftrightarrow> list_all (\<lambda>(c, d). kind_of_call c = kind_of_cell d) (zip calls cs)"

lemma same_kinds_nth: "same_kinds calls cs \<Longrightarrow> i < length calls \<Longrightarrow> i < length cs \<Longrightarrow> kind_of_call (calls ! i) = kind_of_cell (cs ! i)"
  by (force simp: same_kinds_def list_all_length)

lemma run_line_start:
  assumes "same_kinds calls cs" "length calls \<le> length cs" "\<not> le_thenable en" "at_cell cs 0 x" "calm cs x"
  shows "\<exists>x'. run_body (oy_update en) (line calls) x = Inr x' \<and> at_cell cs (length calls) x' \<and>
    (list_all2 deps_kept calls (take (length calls) cs) \<longrightarrow> calm cs x')"
  using run_line [OF assms(4,3), of calls] assms(1,2,5) by (auto simp: same_kinds_nth list_all2_conv_all_nth)

lemma run_line_more:
  assumes "same_kinds calls cs" "length cs < length calls" "\<not> le_thenable en" "at_cell cs 0 x" "calm cs x"
  shows "run_body (oy_update en) (line calls) x = Inl RenderedMore"
proof -
  obtain c bs where d: "drop (length cs) calls = c # bs" using assms(2) by (metis Cons_nth_drop_Suc)
  have "same_kinds (take (length cs) calls) cs" using assms(1) take_zip [of "length cs" calls cs] by (simp add: same_kinds_def)
  then obtain y where y: "run_body (oy_update en) (line (take (length cs) calls)) x = Inr y" "at_cell cs (length cs) y"
    using run_line_start [of "take (length cs) calls"] assms by fastforce
  have "run_body (oy_update en) (line (take (length cs) calls @ c # bs)) x = Inl RenderedMore"
    using y update_more [OF y(2)] by (simp only: run_line_append) simp
  then show ?thesis using d by (metis append_take_drop_id)
qed

text \<open>
  C37. The rules of hooks: a component that calls hooks of the kinds its cells were made by renders again,
  one cell for each call and of the same kind, when it calls as many as before; it fails with
  ``rendered more hooks'' when it calls more and with ``rendered fewer hooks'' when it calls fewer, unless it
  calls none at all, which is not noticed.
\<close>

theorem hooks_keep_order:
  assumes "cs \<noteq> []" "same_kinds calls cs" "\<not> le_thenable en"
  shows "case Ud_renderWithHooks en (line calls) (Some cs) fr of
      Inr x \<Rightarrow> (length calls = length cs \<or> calls = []) \<and> map kind_of_cell (rc_cells x) = map kind_of_call calls
    | Inl e \<Rightarrow> e = RenderedMore \<and> length cs < length calls \<or> e = RenderedFewer \<and> 0 < length calls \<and> length calls < length cs"
proof (cases "length calls \<le> length cs")
  case True
  obtain x where x: "run_body (oy_update en) (line calls) \<lparr>rc_current = Some cs, rc_cells = [], rc_at = 0, rc_lanes = 0, rc_flags = 0,
      rc_effects = [], rc_fresh = fr\<rparr> = Inr x" "at_cell cs (length calls) x"
    using run_line_start [OF assms(2) True assms(3) at_cell_start] by blast
  have "map kind_of_call calls = map kind_of_cell (take (length calls) cs)"
    using assms(2) True by (simp add: list_eq_iff_nth_eq same_kinds_nth)
  then show ?thesis using x True assms(1) by (auto simp: render_update Xp_fewer_def at_cell_def)
next
  case False
  then show ?thesis using run_line_more [OF assms(2) _ assms(3) at_cell_start] by (simp add: render_update [OF assms(1)])
qed

theorem hooks_keep_order_witness:
  "case Ud_renderWithHooks \<lparr>le_xl = 2, le_wt = 2, le_no = 0, le_thenable = False\<rparr> (line [CallRef (1::int), CallMemo 4 (Some [3])])
     (Some [RefCell 1, MemoCell 4 (Some [2])]) 0 of
     Inr x \<Rightarrow> map kind_of_cell (rc_cells x) = [KRef, KMemo] | Inl e \<Rightarrow> False"
  using hooks_keep_order [of "[RefCell (1::int), MemoCell 4 (Some [2])]" "[CallRef (1::int), CallMemo 4 (Some [3])]"
      "\<lparr>le_xl = 2, le_wt = 2, le_no = 0, le_thenable = False\<rparr>" 0]
  by (auto simp: same_kinds_def split: sum.splits)

text \<open>
  A render in which no hook is given other dependencies than the last time leaves the commit nothing to
  do for hooks: the fiber gets no flag, no effect is marked to run, and every memoized value is the old one.
\<close>

theorem same_deps_calm:
  assumes "cs \<noteq> []" "\<not> le_thenable en" "same_kinds calls cs" "list_all2 deps_kept calls cs"
  shows "\<exists>x. Ud_renderWithHooks en (line calls) (Some cs) fr = Inr x \<and> rc_flags x = 0 \<and>
    (\<forall>e \<in> set (rc_effects x). ef_tag e AND 1 = 0) \<and>
    (\<forall>i < length cs. \<forall>v d. cs ! i = MemoCell v d \<longrightarrow> rc_cells x ! i = MemoCell v d)"
proof -
  have l: "length calls = length cs" using assms(4) by (rule list_all2_lengthD)
  then obtain x where "run_body (oy_update en) (line calls) \<lparr>rc_current = Some cs, rc_cells = [], rc_at = 0, rc_lanes = 0, rc_flags = 0,
      rc_effects = [], rc_fresh = fr\<rparr> = Inr x" "at_cell cs (length calls) x" "calm cs x"
    using run_line_start [OF assms(3) _ assms(2) at_cell_start, of fr] assms(4) by auto
  then show ?thesis using l assms(1) by (simp add: render_update Xp_fewer_def at_cell_def calm_def)
qed

theorem same_deps_calm_witness:
  "\<exists>x. Ud_renderWithHooks \<lparr>le_xl = 2, le_wt = 2, le_no = 0, le_thenable = False\<rparr>
     (line [CallMemo (9::int) (Some [2]), CallEffect Passive 5 (Some [])])
     (Some [MemoCell 4 (Some [2]), EffectCell \<lparr>ef_tag = 9, ef_create = 5, ef_deps = Some [], ef_inst = 0\<rparr>]) 0 = Inr x \<and>
   rc_flags x = 0 \<and> rc_cells x ! 0 = MemoCell 4 (Some [2])"
  using same_deps_calm [of "[MemoCell 4 (Some [2]), EffectCell \<lparr>ef_tag = 9, ef_create = 5, ef_deps = Some [], ef_inst = 0\<rparr>]"
      "\<lparr>le_xl = 2, le_wt = 2, le_no = 0, le_thenable = False\<rparr>" "[CallMemo (9::int) (Some [2]), CallEffect Passive 5 (Some [])]" 0]
  by (fastforce simp: same_kinds_def Su_sameDeps_def)

end
