(* ===== verification/Hooks_Effects.thy ===== *)
theory Hooks_Effects
  imports Hooks_Correct
begin

text \<open>
  The running of effects (\<open>src/internal/admin/dist/index-DxrWcVFD.js\<close>, \<open>pi\<close>, \<open>Va\<close>, and the cases for function
  components of the commit: \<open>by\<close>, \<open>Kd\<close>, \<open>Ig\<close>, \<open>Js\<close>, and of deletion): the effects of a render are run when it is committed, insertion
  effects and the clean-up of layout effects first, then layout effects, and passive effects later, at
  the latest before the next commit.  An effect's \<open>inst\<close>, the object that keeps its clean-up function
  over renders, is a number.  Effects are run by the environment: it says what a call returns or throws,
  depending on the calls before.  Hiding and showing of subtrees, which the dashboard does not use, is not
  modelled.
\<close>

unbundle bit_operations_syntax

section \<open>Running effects\<close>

datatype 'v fx_event = Created nat 'v "'v option" | CreateThrew nat 'v | Destroyed nat 'v

record 'v fx_env =
  fe_create :: "'v fx_event list \<Rightarrow> 'v \<Rightarrow> (string, 'v option) res"
  fe_destroy :: "'v fx_event list \<Rightarrow> 'v \<Rightarrow> string option"

record 'v fx =
  fx_destroy :: "nat \<Rightarrow> 'v option" \<comment> \<open>\<open>inst.destroy\<close>\<close>
  fx_log :: "'v fx_event list"
  fx_errors :: "string list" \<comment> \<open>what \<open>Wt\<close> is given\<close>

text \<open>\<open>pi\<close>: an effect that throws ends the loop.\<close>

fun pi_mount :: "'v fx_env \<Rightarrow> 32 word \<Rightarrow> 'v effect list \<Rightarrow> 'v fx \<Rightarrow> 'v fx" where
  "pi_mount en l [] st = st"
| "pi_mount en l (f # fs) st =
     (if ef_tag f AND l = l then
        case fe_create en (fx_log st) (ef_create f) of
          Inl e \<Rightarrow> st\<lparr>fx_log := fx_log st @ [CreateThrew (ef_inst f) (ef_create f)], fx_errors := fx_errors st @ [e]\<rparr>
        | Inr d \<Rightarrow> pi_mount en l fs (st\<lparr>fx_destroy := (fx_destroy st)(ef_inst f := d),
            fx_log := fx_log st @ [Created (ef_inst f) (ef_create f) d]\<rparr>)
      else pi_mount en l fs st)"

text \<open>\<open>Va\<close>: a clean-up that throws does not keep the others from being called.\<close>

fun Va_unmount :: "'v fx_env \<Rightarrow> 32 word \<Rightarrow> 'v effect list \<Rightarrow> 'v fx \<Rightarrow> 'v fx" where
  "Va_unmount en l [] st = st"
| "Va_unmount en l (p # ps) st =
     (if ef_tag p AND l = l then
        case fx_destroy st (ef_inst p) of
          None \<Rightarrow> Va_unmount en l ps st
        | Some Y \<Rightarrow> Va_unmount en l ps (st\<lparr>fx_destroy := (fx_destroy st)(ef_inst p := None),
            fx_log := fx_log st @ [Destroyed (ef_inst p) Y],
            fx_errors := fx_errors st @ (case fe_destroy en (fx_log st) Y of None \<Rightarrow> [] | Some e \<Rightarrow> [e])\<rparr>)
      else Va_unmount en l ps st)"

section \<open>The phases of a commit\<close>

definition by_mutation :: "'v fx_env \<Rightarrow> 32 word \<Rightarrow> 'v effect list \<Rightarrow> 'v fx \<Rightarrow> 'v fx" where
  "by_mutation en p es st =
     (if p AND 4 \<noteq> 0 then Va_unmount en 5 es (pi_mount en 3 es (Va_unmount en 3 es st)) else st)"

definition Kd_layout :: "'v fx_env \<Rightarrow> 32 word \<Rightarrow> 'v effect list \<Rightarrow> 'v fx \<Rightarrow> 'v fx" where
  "Kd_layout en p es st = (if p AND 4 \<noteq> 0 then pi_mount en 5 es st else st)"

definition Ig_passiveUnmount :: "'v fx_env \<Rightarrow> 32 word \<Rightarrow> 'v effect list \<Rightarrow> 'v fx \<Rightarrow> 'v fx" where
  "Ig_passiveUnmount en p es st = (if p AND 2048 \<noteq> 0 then Va_unmount en 9 es st else st)"

definition Js_passiveMount :: "'v fx_env \<Rightarrow> 32 word \<Rightarrow> 'v effect list \<Rightarrow> 'v fx \<Rightarrow> 'v fx" where
  "Js_passiveMount en p es st = (if p AND 2048 \<noteq> 0 then pi_mount en 9 es st else st)"

definition Rl_deletion :: "'v fx_env \<Rightarrow> 'v effect list \<Rightarrow> 'v fx \<Rightarrow> 'v fx" where
  "Rl_deletion en es st = Va_unmount en 4 es (Va_unmount en 2 es st)"

definition y_passiveDeletion :: "'v fx_env \<Rightarrow> 'v effect list \<Rightarrow> 'v fx \<Rightarrow> 'v fx" where
  "y_passiveDeletion en es st = Va_unmount en 8 es st"

section \<open>A component on the screen\<close>

text \<open>The current fiber of a component, with the flags it was committed with while its passive effects are outstanding.\<close>

record 'v cfiber =
  cf_cells :: "'v cell list option"
  cf_effects :: "'v effect list"
  cf_passive :: "32 word"
  cf_fresh :: nat
  cf_fx :: "'v fx"

definition cf_start :: "'v cfiber" where
  "cf_start = \<lparr>cf_cells = None, cf_effects = [], cf_passive = 0, cf_fresh = 0, cf_fx = \<lparr>fx_destroy = (\<lambda>i. None), fx_log = [], fx_errors = []\<rparr>\<rparr>"

definition BS_flushPassive :: "'v fx_env \<Rightarrow> 'v cfiber \<Rightarrow> 'v cfiber" where
  "BS_flushPassive en c = c\<lparr>cf_passive := 0,
     cf_fx := Js_passiveMount en (cf_passive c) (cf_effects c) (Ig_passiveUnmount en (cf_passive c) (cf_effects c) (cf_fx c))\<rparr>"

definition commit_render :: "'v fx_env \<Rightarrow> 'v rctx \<Rightarrow> 'v cfiber \<Rightarrow> 'v cfiber" where
  "commit_render en x c =
     (let c = BS_flushPassive en c; es = rc_effects x; fl = rc_flags x in
      c\<lparr>cf_cells := Some (rc_cells x), cf_effects := es, cf_passive := fl, cf_fresh := rc_fresh x,
        cf_fx := Kd_layout en fl es (by_mutation en fl es (cf_fx c))\<rparr>)"

text \<open>\<open>yc\<close>: a render whose state did not change after all keeps the old effects and runs none.\<close>

definition yc_bailout :: "'v fx_env \<Rightarrow> 'v rctx \<Rightarrow> 'v cfiber \<Rightarrow> 'v cfiber" where
  "yc_bailout en x c =
     (let c = BS_flushPassive en c in
      c\<lparr>cf_cells := Some (rc_cells x), cf_passive := rc_flags x AND (- 2053), cf_fresh := rc_fresh x\<rparr>)"

definition commit_deletion :: "'v fx_env \<Rightarrow> 'v cfiber \<Rightarrow> 'v cfiber" where
  "commit_deletion en c =
     (let c = BS_flushPassive en c in
      c\<lparr>cf_cells := None, cf_effects := [], cf_passive := 0,
        cf_fx := y_passiveDeletion en (cf_effects c) (Rl_deletion en (cf_effects c) (cf_fx c))\<rparr>)"

text \<open>Dispatches and abandoned renders only change the queues of state hooks.\<close>

fun requeue :: "('v hook \<Rightarrow> 'v hqueue \<Rightarrow> 'v hook \<times> 'v hqueue) \<Rightarrow> 'v cell \<Rightarrow> 'v cell" where
  "requeue f (StateCell l q) = StateCell (fst (f l q)) (snd (f l q))"
| "requeue f c = c"

text \<open>The lives of a component: it calls at least one hook in every render, and may be removed and made anew.\<close>

inductive cf_reach :: "'v fx_env \<Rightarrow> 'v cfiber \<Rightarrow> bool" for en :: "'v fx_env" where
  start: "cf_reach en cf_start"
| queues: "cf_reach en c \<Longrightarrow> cf_reach en (c\<lparr>cf_cells := map_option (map (requeue f)) (cf_cells c)\<rparr>)"
| commit: "cf_reach en c \<Longrightarrow> b \<noteq> Done \<Longrightarrow> Ud_renderWithHooks le b (cf_cells c) (cf_fresh c) = Inr x \<Longrightarrow> cf_reach en (commit_render en x c)"
| bailout: "cf_reach en c \<Longrightarrow> b \<noteq> Done \<Longrightarrow> Ud_renderWithHooks le b (cf_cells c) (cf_fresh c) = Inr x \<Longrightarrow> cf_cells c \<noteq> None \<Longrightarrow>
    cf_reach en (yc_bailout en x c)"
| flush: "cf_reach en c \<Longrightarrow> cf_reach en (BS_flushPassive en c)"
| removed: "cf_reach en c \<Longrightarrow> cf_reach en (commit_deletion en c)"

section \<open>Create and clean up in turn\<close>

text \<open>
  The specification: for each instance, an effect is created only when the last clean-up function has
  been called, and a clean-up function is called only once, after the effect that returned it.
\<close>

fun fx_accept :: "'v fx_event \<Rightarrow> (nat \<Rightarrow> 'v option) \<Rightarrow> (nat \<Rightarrow> 'v option) option" where
  "fx_accept (Created i f d) m = (if m i = None then Some (m(i := d)) else None)"
| "fx_accept (CreateThrew i f) m = (if m i = None then Some m else None)"
| "fx_accept (Destroyed i d) m = (if m i = Some d then Some (m(i := None)) else None)"

fun fx_trace :: "'v fx_event list \<Rightarrow> (nat \<Rightarrow> 'v option) \<Rightarrow> (nat \<Rightarrow> 'v option) option" where
  "fx_trace [] m = Some m"
| "fx_trace (e # es) m = Option.bind (fx_accept e m) (fx_trace es)"


definition fx_ok :: "'v fx \<Rightarrow> bool" where
  "fx_ok st \<longleftrightarrow> fx_trace (fx_log st) (\<lambda>i. None) = Some (fx_destroy st)"

lemma fx_trace_snoc: "fx_trace (es @ [e]) m = Option.bind (fx_trace es m) (fx_accept e)"
  by (induction es arbitrary: m) (auto split: bind_split)

text \<open>The effects that a loop over \<open>es\<close> with tag \<open>l\<close> concerns.\<close>

definition tagged :: "32 word \<Rightarrow> 'v effect list \<Rightarrow> 'v effect list" where
  "tagged l es = filter (\<lambda>e. ef_tag e AND l = l) es"

lemma Va_spec:
  "fx_destroy (Va_unmount en l es st) i = (if i \<in> ef_inst ` set (tagged l es) then None else fx_destroy st i)"
  by (induction en l es st rule: Va_unmount.induct) (auto simp: tagged_def split: option.splits)

lemma Va_ok: "fx_ok st \<Longrightarrow> fx_ok (Va_unmount en l es st)"
  by (induction en l es st rule: Va_unmount.induct) (auto simp: fx_ok_def fx_trace_snoc split: option.splits)

lemma pi_spec: "i \<notin> ef_inst ` set (tagged l es) \<Longrightarrow> fx_destroy (pi_mount en l es st) i = fx_destroy st i"
  by (induction en l es st rule: pi_mount.induct) (auto simp: tagged_def split: sum.splits)

lemma pi_ok:
  "fx_ok st \<Longrightarrow> distinct (map ef_inst es) \<Longrightarrow> \<forall>e \<in> set (tagged l es). fx_destroy st (ef_inst e) = None \<Longrightarrow> fx_ok (pi_mount en l es st)"
proof (induction en l es st rule: pi_mount.induct)
  case (2 en l f fs st)
  have "\<forall>e \<in> set fs. ef_inst e \<noteq> ef_inst f" using "2.prems"(2) by (simp add: image_iff) metis
  then show ?case using 2
    by (cases "ef_tag f AND l = l"; cases "fe_create en (fx_log st) (ef_create f)")
       (auto simp: fx_ok_def fx_trace_snoc tagged_def split: if_splits)
qed simp

lemma Va_pi_ok:
  assumes "fx_ok st" "distinct (map ef_inst es)"
  shows "fx_ok (pi_mount en l es (Va_unmount en l es st))"
  using assms Va_ok [OF assms(1)] by (intro pi_ok) (auto simp: Va_spec)

definition open_in :: "'v effect list \<Rightarrow> 'v fx \<Rightarrow> bool" where
  "open_in es st \<longleftrightarrow> (\<forall>i. fx_destroy st i \<noteq> None \<longrightarrow> i \<in> ef_inst ` set es)"

lemma tagged_subset: "set (tagged l es) \<subseteq> set es"
  by (auto simp: tagged_def)

lemma open_in_run: "open_in es st \<Longrightarrow> open_in es (pi_mount en l es st)" "open_in es st \<Longrightarrow> open_in es (Va_unmount en l es st)"
  using pi_spec [of _ l es en st] tagged_subset [of l es] unfolding open_in_def by (metis image_mono in_mono) (auto simp: Va_spec)

lemmas phase_defs = by_mutation_def Kd_layout_def Ig_passiveUnmount_def Js_passiveMount_def

lemma commit_phases:
  assumes "fx_ok st" "distinct (map ef_inst es)" "open_in es st"
  shows "fx_ok (Kd_layout en fl es (by_mutation en fl es st)) \<and> open_in es (Kd_layout en fl es (by_mutation en fl es st))"
  using assms by (simp add: phase_defs Va_pi_ok open_in_run)

lemma passive_phases:
  assumes "fx_ok st" "distinct (map ef_inst es)" "open_in es st"
  shows "fx_ok (Js_passiveMount en fl es (Ig_passiveUnmount en fl es st)) \<and> open_in es (Js_passiveMount en fl es (Ig_passiveUnmount en fl es st))"
  using assms by (simp add: phase_defs Va_pi_ok open_in_run)

definition tag_ok :: "32 word \<Rightarrow> bool" where
  "tag_ok t \<longleftrightarrow> t \<in> {2, 3, 4, 5, 8, 9}"

lemma deletion_closes:
  assumes "\<forall>e \<in> set es. tag_ok (ef_tag e)" "open_in es st"
  shows "fx_destroy (y_passiveDeletion en es (Rl_deletion en es st)) = (\<lambda>i. None)"
proof
  fix i
  have "ef_inst e \<in> ef_inst ` set (tagged 2 es) \<union> ef_inst ` set (tagged 4 es) \<union> ef_inst ` set (tagged 8 es)" if "e \<in> set es" for e
  proof -
    have "ef_tag e AND 2 = 2 \<or> ef_tag e AND 4 = 4 \<or> ef_tag e AND 8 = 8" using assms(1) that by (auto simp: tag_ok_def)
    then show ?thesis using that by (auto simp: tagged_def)
  qed
  then have "i \<in> ef_inst ` set (tagged 2 es) \<union> ef_inst ` set (tagged 4 es) \<union> ef_inst ` set (tagged 8 es)" if "fx_destroy st i \<noteq> None"
    using assms(2) that unfolding open_in_def by (metis (no_types) imageE)
  then show "fx_destroy (y_passiveDeletion en es (Rl_deletion en es st)) i = None"
    by (cases "fx_destroy st i") (auto simp: y_passiveDeletion_def Rl_deletion_def Va_spec)
qed

section \<open>The effects of a render\<close>

fun eff_of :: "'v cell \<Rightarrow> 'v effect list" where
  "eff_of (EffectCell e) = [e]"
| "eff_of c = []"

definition effs :: "'v cell list \<Rightarrow> 'v effect list" where
  "effs cs = concat (map eff_of cs)"

lemma effs_simps [simp]: "effs [] = []" "effs (c # cs) = eff_of c @ effs cs" "effs (as @ bs) = effs as @ effs bs"
  by (simp_all add: effs_def)

text \<open>An effect of a later render keeps the instance, and is marked unless its dependencies are the old ones.\<close>

definition kept :: "'v effect \<Rightarrow> 'v effect \<Rightarrow> bool" where
  "kept old e \<longleftrightarrow> (case ef_deps e of None \<Rightarrow> False | Some d \<Rightarrow> Su_sameDeps d (ef_deps old))"

definition next_effect :: "'v effect \<Rightarrow> 'v effect \<Rightarrow> bool" where
  "next_effect old e \<longleftrightarrow> ef_inst e = ef_inst old \<and> tag_ok (ef_tag e) \<and> (ef_tag e AND 1 = 0 \<longleftrightarrow> kept old e)"

definition flagged :: "32 word \<Rightarrow> 'v effect \<Rightarrow> bool" where
  "flagged fl e \<longleftrightarrow> (ef_tag e = 9 \<longrightarrow> fl AND 2048 \<noteq> 0) \<and> (ef_tag e = 3 \<or> ef_tag e = 5 \<longrightarrow> fl AND 4 \<noteq> 0)"

lemma flagged_or: "flagged fl e \<Longrightarrow> flagged (fl OR g) e"
  by (auto simp: flagged_def bit.conj_disj_distrib2 or_eq_0_iff)

lemma tag_ok_marked: "tag_ok (1 OR snd (update_flags k))" "tag_ok (snd (update_flags k))"
  "(1 OR snd (update_flags k)) AND 1 \<noteq> 0" "snd (update_flags k) AND 1 = 0" "snd (mount_flags k) = snd (update_flags k)"
  by (cases k; simp add: tag_ok_def)+

lemma flagged_marked:
  "flagged (fl OR fst (update_flags k)) \<lparr>ef_tag = 1 OR snd (update_flags k), ef_create = f, ef_deps = d, ef_inst = i\<rparr>"
  "flagged (fl OR fst (mount_flags k)) \<lparr>ef_tag = 1 OR snd (mount_flags k), ef_create = f, ef_deps = d, ef_inst = i\<rparr>"
  "flagged fl \<lparr>ef_tag = snd (update_flags k), ef_create = f, ef_deps = d, ef_inst = i\<rparr>"
  by (cases k; simp add: flagged_def bit.conj_disj_distrib2 or_eq_0_iff)+

definition updated :: "nat \<Rightarrow> 'v cell list \<Rightarrow> nat \<Rightarrow> 'v rctx \<Rightarrow> bool" where
  "updated fr cs n x \<longleftrightarrow> at_cell cs n x \<and> effs (rc_cells x) = rc_effects x \<and> rc_fresh x = fr \<and>
     list_all2 next_effect (effs (take n cs)) (rc_effects x) \<and> (\<forall>e \<in> set (rc_effects x). flagged (rc_flags x) e)"

lemma updated_put:
  assumes "updated fr cs n x" "n < length cs" "kind_of_cell c = kind_of_cell (cs ! n)" "kind_of_cell (cs ! n) \<noteq> KEffect"
  shows "updated fr cs (Suc n) (put_next c x)"
proof -
  have "eff_of c = []" "eff_of (cs ! n) = []" using assms(3,4) by (cases c; cases "cs ! n"; simp)+
  then show ?thesis using assms(1,2) at_cell_put [OF _ assms(2,3)]
    by (simp add: updated_def put_next_def take_Suc_conv_app_nth)
qed

lemma updated_lanes [simp]: "updated fr cs n (x\<lparr>rc_lanes := a\<rparr>) = updated fr cs n x"
  by (simp add: updated_def)

lemma updated_effect:
  assumes "updated fr cs n x" "n < length cs" "cs ! n = EffectCell old" "next_effect old e" "flagged (rc_flags x OR g) e"
  shows "updated fr cs (Suc n) (put_next (EffectCell e) x\<lparr>rc_flags := rc_flags x OR g, rc_effects := rc_effects x @ [e]\<rparr>)"
proof -
  have "at_cell cs n x" using assms(1) by (simp add: updated_def)
  from at_cell_put [OF this assms(2), of "EffectCell e"] show ?thesis
    using assms by (simp add: updated_def put_next_def take_Suc_conv_app_nth list_all2_appendI flagged_or)
qed

lemma updated_call:
  assumes "updated fr cs n x" "oy_update en c x = Inr (v, x')"
  shows "n < length cs \<and> updated fr cs (Suc n) x'"
proof -
  have a: "at_cell cs n x" using assms(1) by (simp add: updated_def)
  have n: "n < length cs" using a update_more [of cs x en c] assms(2) by (cases "n = length cs") (auto simp: at_cell_def)
  note nx = Hn_next [OF a n] put_cell_next [OF a] updated_put [OF assms(1) n]
  have "updated fr cs (Suc n) x'"
  proof (cases "cs ! n")
    case (StateCell l q)
    then obtain f where "bindR (l_updateReducer f (le_xl en) (le_wt en) (le_no en) (le_thenable en) x) (\<lambda>(v, x). Inr (Some v, x)) = Inr (v, x')"
      using assms(2) nx by (cases c) (auto simp: uS_updateMemo_def gg_updateRef_def ks_updateEffect_def)
    then show ?thesis using nx StateCell by (auto simp: l_updateReducer_def bindR_eq_Inr)
  next
    case (MemoCell w d)
    then obtain u deps where "c = CallMemo u deps"
      using assms(2) nx by (cases c) (auto simp: l_updateReducer_def gg_updateRef_def ks_updateEffect_def)
    then show ?thesis using assms(2) nx MemoCell by (auto simp: uS_updateMemo_def bindR_eq_Inr split: option.splits if_splits)
  next
    case (RefCell w)
    then obtain u where "c = CallRef u"
      using assms(2) nx by (cases c) (auto simp: l_updateReducer_def uS_updateMemo_def ks_updateEffect_def)
    then show ?thesis using assms(2) nx RefCell by (auto simp: gg_updateRef_def)
  next
    case (EffectCell e)
    then obtain k f deps where c: "c = CallEffect k f deps"
      using assms(2) nx by (cases c) (auto simp: l_updateReducer_def uS_updateMemo_def gg_updateRef_def)
    have j: "Jt_cell (put_next (EffectCell e) x) = Some (EffectCell e)" using a n EffectCell by (simp add: Jt_cell_def at_cell_def put_next_def)
    define old where "old = \<lparr>ef_tag = snd (update_flags k), ef_create = f, ef_deps = deps, ef_inst = ef_inst e\<rparr>"
    define new where "new = \<lparr>ef_tag = 1 OR snd (update_flags k), ef_create = f, ef_deps = deps, ef_inst = ef_inst e\<rparr>"
    have k: "kept e new = kept e old" by (simp add: kept_def old_def new_def)
    have x': "x' = (if kept e old then put_next (EffectCell old) x\<lparr>rc_effects := rc_effects x @ [old]\<rparr>
        else put_next (EffectCell new) x\<lparr>rc_flags := rc_flags x OR fst (update_flags k), rc_effects := rc_effects x @ [new]\<rparr>)"
      using assms(2) c nx(1) EffectCell j put_cell_next [OF a]
      by (cases deps) (auto simp: ks_updateEffect_def gc_pushEffect_def Let_def kept_def old_def new_def put_next_def)
    show ?thesis
    proof (cases "kept e old")
      case True
      then have "next_effect e old" by (simp add: next_effect_def old_def tag_ok_marked)
      from updated_effect [OF assms(1) n EffectCell this, of 0] show ?thesis using True x' by (simp add: old_def flagged_marked put_next_def)
    next
      case False
      then have "next_effect e new" using k by (simp add: next_effect_def new_def tag_ok_marked)
      from updated_effect [OF assms(1) n EffectCell this, of "fst (update_flags k)"] show ?thesis using False x' by (simp add: new_def flagged_marked)
    qed
  qed
  with n show ?thesis by blast
qed

lemma updated_run:
  "updated fr cs n x \<Longrightarrow> run_body (oy_update en) b x = Inr x' \<Longrightarrow> \<exists>m. updated fr cs m x' \<and> (b \<noteq> Done \<longrightarrow> n < m) \<and> n \<le> m"
proof (induction b arbitrary: n x)
  case (Call c k)
  then obtain v y where y: "oy_update en c x = Inr (v, y)" "run_body (oy_update en) (k v) y = Inr x'" by (auto simp: bindR_eq_Inr)
  from Call.IH [OF _ _ y(2), of "Suc n"] updated_call [OF Call.prems(1) y(1)] show ?case by (metis Suc_le_eq range_eqI less_imp_le)
qed auto

definition mounted :: "nat \<Rightarrow> 'v rctx \<Rightarrow> bool" where
  "mounted fr x \<longleftrightarrow> rc_at x = length (rc_cells x) \<and> effs (rc_cells x) = rc_effects x \<and> fr \<le> rc_fresh x \<and>
     distinct (map ef_inst (rc_effects x)) \<and>
     (\<forall>e \<in> set (rc_effects x). fr \<le> ef_inst e \<and> ef_inst e < rc_fresh x \<and> tag_ok (ef_tag e) \<and> flagged (rc_flags x) e)"

lemma mounted_call:
  assumes "mounted fr x" "fS_mount c x = Inr (v, x')"
  shows "mounted fr x' \<and> rc_at x' = Suc (rc_at x)"
proof (cases c)
  case (CallEffect k f deps)
  then show ?thesis using assms tag_ok_marked(1) [of k]
    by (fastforce simp: mounted_def Ps_mountEffect_def gc_pushEffect_def mr_mountCell_def Let_def tag_ok_marked(5) flagged_or
        flagged_marked(2) [of _ k, unfolded tag_ok_marked(5)])
qed (use assms in \<open>auto simp: mounted_def mr_mountCell_def sg_mountState_def\<close>)

lemma mounted_run:
  "mounted fr x \<Longrightarrow> run_body fS_mount b x = Inr x' \<Longrightarrow> mounted fr x' \<and> (b \<noteq> Done \<longrightarrow> rc_at x < rc_at x') \<and> rc_at x \<le> rc_at x'"
proof (induction b arbitrary: x)
  case (Call c k)
  then obtain v y where y: "fS_mount c x = Inr (v, y)" "run_body fS_mount (k v) y = Inr x'" by (auto simp: bindR_eq_Inr)
  from Call.IH [OF _ _ y(2)] mounted_call [OF Call.prems(1) y(1)] show ?case by fastforce
qed auto

definition cell_effs :: "'v cell list option \<Rightarrow> 'v effect list" where
  "cell_effs cells = (case cells of None \<Rightarrow> [] | Some cs \<Rightarrow> effs cs)"

lemma next_effects_insts: "list_all2 next_effect as bs \<Longrightarrow> map ef_inst bs = map ef_inst as"
  by (auto simp: list_all2_conv_all_nth next_effect_def intro!: nth_equalityI)

text \<open>A render continues the effects of the current cells, or makes new ones.\<close>

lemma render_effects:
  assumes "Ud_renderWithHooks le b cells fr = Inr x" "b \<noteq> Done" "cells \<noteq> Some []"
    and "distinct (map ef_inst (cell_effs cells))" "\<forall>e \<in> set (cell_effs cells). ef_inst e < fr"
  shows "effs (rc_cells x) = rc_effects x \<and> rc_cells x \<noteq> [] \<and> distinct (map ef_inst (rc_effects x)) \<and> fr \<le> rc_fresh x \<and>
    (\<forall>e \<in> set (rc_effects x). ef_inst e < rc_fresh x \<and> tag_ok (ef_tag e) \<and> flagged (rc_flags x) e) \<and>
    (cells \<noteq> None \<longrightarrow> list_all2 next_effect (cell_effs cells) (rc_effects x))"
proof (cases cells)
  case None
  let ?x = "\<lparr>rc_current = cells, rc_cells = [], rc_at = 0, rc_lanes = 0, rc_flags = 0, rc_effects = [], rc_fresh = fr\<rparr>"
  have "mounted fr ?x" by (simp add: mounted_def)
  moreover have "run_body fS_mount b ?x = Inr x" using assms(1) None by (simp add: Ud_renderWithHooks_def Let_def)
  ultimately have "mounted fr x \<and> 0 < rc_at x" using mounted_run assms(2) by fastforce
  then show ?thesis using None by (auto simp: mounted_def)
next
  case (Some cs)
  let ?x = "\<lparr>rc_current = cells, rc_cells = [], rc_at = 0, rc_lanes = 0, rc_flags = 0, rc_effects = [], rc_fresh = fr\<rparr>"
  have u: "updated fr cs 0 ?x" by (simp add: updated_def Some at_cell_def)
  have r: "run_body (oy_update le) b ?x = Inr x" "\<not> Xp_fewer x"
    using assms(1,3) Some by (auto simp: Ud_renderWithHooks_def Let_def bindR_eq_Inr split: if_splits)
  obtain m where m: "updated fr cs m x" "0 < m" using updated_run [OF u r(1)] assms(2) by auto
  have l: "m = length cs" using m r(2) by (auto simp: updated_def at_cell_def Xp_fewer_def)
  have n: "list_all2 next_effect (effs cs) (rc_effects x)" using m l by (simp add: updated_def)
  then have i: "map ef_inst (rc_effects x) = map ef_inst (effs cs)" by (rule next_effects_insts)
  then have "ef_inst ` set (rc_effects x) = ef_inst ` set (effs cs)" by (metis set_map)
  then have "\<forall>e \<in> set (rc_effects x). ef_inst e < fr" using assms(5) Some by (force simp: cell_effs_def image_iff)
  moreover have "\<forall>e \<in> set (rc_effects x). tag_ok (ef_tag e)"
    using n by (auto simp: list_all2_conv_all_nth next_effect_def in_set_conv_nth)
  moreover have "rc_cells x \<noteq> []" using m at_cell_length [of cs m x] by (auto simp: updated_def)
  ultimately show ?thesis using m(1) n i assms(4) Some by (simp add: updated_def cell_effs_def)
qed

definition cf_inv :: "'v cfiber \<Rightarrow> bool" where
  "cf_inv c \<longleftrightarrow> fx_ok (cf_fx c) \<and> cf_cells c \<noteq> Some [] \<and> map ef_inst (cf_effects c) = map ef_inst (cell_effs (cf_cells c)) \<and>
     distinct (map ef_inst (cf_effects c)) \<and> (\<forall>e \<in> set (cf_effects c). ef_inst e < cf_fresh c \<and> tag_ok (ef_tag e)) \<and>
     open_in (cf_effects c) (cf_fx c)"

lemma cf_inv_flush: "cf_inv c \<Longrightarrow> cf_inv (BS_flushPassive en c)"
  using passive_phases [of "cf_fx c" "cf_effects c" en "cf_passive c"] by (auto simp: cf_inv_def BS_flushPassive_def)

lemma cell_effs_requeue: "cell_effs (map_option (map (requeue f)) cells) = cell_effs cells"
proof -
  have "eff_of (requeue f c) = eff_of c" for c by (cases c) simp_all
  then show ?thesis by (simp add: cell_effs_def effs_def comp_def split: option.splits)
qed

lemma cf_inv_cells:
  assumes "cf_inv c"
  shows "distinct (map ef_inst (cell_effs (cf_cells c)))" "\<forall>e \<in> set (cell_effs (cf_cells c)). ef_inst e < cf_fresh c"
proof -
  have "map ef_inst (cf_effects c) = map ef_inst (cell_effs (cf_cells c))" using assms by (simp add: cf_inv_def)
  then have "ef_inst ` set (cf_effects c) = ef_inst ` set (cell_effs (cf_cells c))" by (metis set_map)
  then show "\<forall>e \<in> set (cell_effs (cf_cells c)). ef_inst e < cf_fresh c" using assms by (force simp: cf_inv_def image_iff)
  show "distinct (map ef_inst (cell_effs (cf_cells c)))" using assms unfolding cf_inv_def by metis
qed

lemma cf_inv_commit:
  assumes "cf_inv c" "b \<noteq> Done" "Ud_renderWithHooks le b (cf_cells c) (cf_fresh c) = Inr x"
  shows "cf_inv (commit_render en x c)"
proof -
  let ?c = "BS_flushPassive en c"
  have f: "cf_inv ?c" using assms(1) by (rule cf_inv_flush)
  have r: "effs (rc_cells x) = rc_effects x" "rc_cells x \<noteq> []" "distinct (map ef_inst (rc_effects x))"
      "\<forall>e \<in> set (rc_effects x). ef_inst e < rc_fresh x \<and> tag_ok (ef_tag e)"
      "cf_cells c \<noteq> None \<longrightarrow> list_all2 next_effect (cell_effs (cf_cells c)) (rc_effects x)"
    using render_effects [OF assms(3,2) _ cf_inv_cells [OF assms(1)]] assms(1) by (auto simp: cf_inv_def)
  have "ef_inst ` set (cf_effects c) \<subseteq> ef_inst ` set (rc_effects x)"
  proof (cases "cf_cells c")
    case None
    then show ?thesis using assms(1) by (simp add: cf_inv_def cell_effs_def)
  next
    case Some
    then have "map ef_inst (rc_effects x) = map ef_inst (cf_effects c)" using r(5) assms(1) next_effects_insts by (fastforce simp: cf_inv_def)
    then show ?thesis by (metis set_map subset_refl)
  qed
  then have "open_in (rc_effects x) (cf_fx ?c)" using f unfolding cf_inv_def open_in_def by (auto simp: BS_flushPassive_def)
  from commit_phases [OF _ r(3) this, of en "rc_flags x"] show ?thesis
    using r f by (simp add: cf_inv_def commit_render_def Let_def cell_effs_def)
qed

lemma cf_inv_bailout:
  assumes "cf_inv c" "b \<noteq> Done" "Ud_renderWithHooks le b (cf_cells c) (cf_fresh c) = Inr x" "cf_cells c \<noteq> None"
  shows "cf_inv (yc_bailout en x c)"
proof -
  have f: "cf_inv (BS_flushPassive en c)" using assms(1) by (rule cf_inv_flush)
  have r: "effs (rc_cells x) = rc_effects x" "rc_cells x \<noteq> []" "cf_fresh c \<le> rc_fresh x"
      "list_all2 next_effect (cell_effs (cf_cells c)) (rc_effects x)"
    using render_effects [OF assms(3,2) _ cf_inv_cells [OF assms(1)]] assms(1,4) by (auto simp: cf_inv_def)
  have "map ef_inst (cf_effects c) = map ef_inst (rc_effects x)" using next_effects_insts [OF r(4)] assms(1) by (simp add: cf_inv_def)
  then show ?thesis using f r by (auto simp: cf_inv_def yc_bailout_def Let_def cell_effs_def BS_flushPassive_def)
qed

lemma cf_inv_deletion:
  assumes "cf_inv c"
  shows "cf_inv (commit_deletion en c)" "fx_destroy (cf_fx (commit_deletion en c)) = (\<lambda>i. None)"
proof -
  let ?c = "BS_flushPassive en c"
  have f: "cf_inv ?c" using assms by (rule cf_inv_flush)
  then have "fx_ok (cf_fx (commit_deletion en c))"
    by (simp add: cf_inv_def commit_deletion_def Let_def y_passiveDeletion_def Rl_deletion_def Va_ok)
  moreover have "fx_destroy (y_passiveDeletion en (cf_effects ?c) (Rl_deletion en (cf_effects ?c) (cf_fx ?c))) = (\<lambda>i. None)"
    using f by (intro deletion_closes) (auto simp: cf_inv_def)
  ultimately show "cf_inv (commit_deletion en c)" "fx_destroy (cf_fx (commit_deletion en c)) = (\<lambda>i. None)"
    by (simp_all add: cf_inv_def commit_deletion_def Let_def cell_effs_def open_in_def)
qed

lemma cf_reach_inv: "cf_reach en c \<Longrightarrow> cf_inv c"
proof (induction rule: cf_reach.induct)
  case start
  then show ?case by (simp add: cf_inv_def cf_start_def fx_ok_def cell_effs_def open_in_def)
next
  case (queues c f)
  then show ?case using cell_effs_requeue [of f "cf_cells c"] by (auto simp: cf_inv_def)
qed (simp_all add: cf_inv_commit cf_inv_bailout cf_inv_flush cf_inv_deletion)

text \<open>
  C13. Effects are balanced: in every life of a component, with renders committed, abandoned or found
  unnecessary and with effects that may throw, each effect is created only after its last clean-up function
  has been called, each clean-up function is called at most once, and when the component is removed all
  that are outstanding are called.
\<close>

theorem effects_balanced:
  assumes "cf_reach en c"
  shows "fx_trace (fx_log (cf_fx c)) (\<lambda>i. None) = Some (fx_destroy (cf_fx c)) \<and>
    fx_trace (fx_log (cf_fx (commit_deletion en c))) (\<lambda>i. None) = Some (\<lambda>i. None)"
proof -
  have c: "cf_inv c" using assms by (rule cf_reach_inv)
  then show ?thesis using cf_inv_deletion [OF c, of en] by (simp add: cf_inv_def fx_ok_def)
qed

text \<open>An effect with a clean-up function, set up and removed.\<close>

definition demo_fx_env :: "int fx_env" where
  "demo_fx_env = \<lparr>fe_create = (\<lambda>log f. Inr (Some (- f))), fe_destroy = (\<lambda>log d. None)\<rparr>"

definition demo_lanes :: lanes_env where
  "demo_lanes = \<lparr>le_xl = 2, le_wt = 2, le_no = 0, le_thenable = False\<rparr>"

definition demo_mounted :: "int rctx" where
  "demo_mounted = (case Ud_renderWithHooks demo_lanes (line [CallEffect Passive 5 (Some [1])]) None 0 of Inr x \<Rightarrow> x)"

lemma demo_mount: "Ud_renderWithHooks demo_lanes (line [CallEffect Passive 5 (Some [1])]) None 0 = Inr demo_mounted"
  by (simp add: demo_mounted_def Ud_renderWithHooks_def Ps_mountEffect_def gc_pushEffect_def Let_def)

theorem effects_balanced_witness:
  "fx_log (cf_fx (commit_deletion demo_fx_env (commit_render demo_fx_env demo_mounted cf_start))) = [Created 0 5 (Some (- 5)), Destroyed 0 (- 5)] \<and>
   fx_trace (fx_log (cf_fx (commit_deletion demo_fx_env (commit_render demo_fx_env demo_mounted cf_start)))) (\<lambda>i. None) = Some (\<lambda>i. None)"
proof -
  have "cf_reach demo_fx_env (commit_render demo_fx_env demo_mounted cf_start)"
    by (rule cf_reach.commit [OF cf_reach.start, of "line [CallEffect Passive 5 (Some [1])]" demo_lanes])
      (use demo_mount in \<open>simp_all add: cf_start_def\<close>)
  moreover have "fx_log (cf_fx (commit_deletion demo_fx_env (commit_render demo_fx_env demo_mounted cf_start))) = [Created 0 5 (Some (- 5)), Destroyed 0 (- 5)]"
    by code_simp
  ultimately show ?thesis using effects_balanced by blast
qed

section \<open>Which effects run\<close>

fun created_of :: "'v fx_event \<Rightarrow> (nat \<times> 'v) list" where
  "created_of (Created i f d) = [(i, f)]"
| "created_of e = []"

definition creations :: "'v fx \<Rightarrow> (nat \<times> 'v) list" where
  "creations st = concat (map created_of (fx_log st))"

definition never_throws :: "'v fx_env \<Rightarrow> bool" where
  "never_throws en \<longleftrightarrow> (\<forall>log f. \<exists>d. fe_create en log f = Inr d)"

abbreviation run_of :: "'v effect \<Rightarrow> nat \<times> 'v" where
  "run_of e \<equiv> (ef_inst e, ef_create e)"

lemma Va_creations [simp]: "creations (Va_unmount en l es st) = creations st"
  by (induction en l es st rule: Va_unmount.induct) (auto simp: creations_def split: option.splits)

lemma pi_creations:
  "never_throws en \<Longrightarrow> creations (pi_mount en l es st) = creations st @ map run_of (tagged l es)"
proof (induction en l es st rule: pi_mount.induct)
  case (2 en l f fs st)
  obtain d where "fe_create en (fx_log st) (ef_create f) = Inr d" using 2(3) by (auto simp: never_throws_def)
  then show ?case using 2 by (auto simp: tagged_def creations_def)
qed (simp add: tagged_def)

lemma tagged_exact:
  assumes "\<forall>e \<in> set es. tag_ok (ef_tag e)"
  shows "tagged 3 es = filter (\<lambda>e. ef_tag e = 3) es" "tagged 5 es = filter (\<lambda>e. ef_tag e = 5) es" "tagged 9 es = filter (\<lambda>e. ef_tag e = 9) es"
  using assms unfolding tagged_def tag_ok_def by (intro filter_cong; force)+

lemma tagged_unflagged:
  assumes "\<forall>e \<in> set es. tag_ok (ef_tag e) \<and> flagged fl e"
  shows "fl AND 4 = 0 \<Longrightarrow> tagged 3 es = [] \<and> tagged 5 es = []" "fl AND 2048 = 0 \<Longrightarrow> tagged 9 es = []"
proof -
  have t: "\<forall>e \<in> set es. tag_ok (ef_tag e)" using assms by blast
  show "fl AND 4 = 0 \<Longrightarrow> tagged 3 es = [] \<and> tagged 5 es = []" "fl AND 2048 = 0 \<Longrightarrow> tagged 9 es = []"
    using assms by (auto simp: tagged_exact [OF t] flagged_def filter_empty_conv)
qed

lemma commit_creations:
  assumes "never_throws en" "\<forall>e \<in> set (rc_effects x). tag_ok (ef_tag e) \<and> flagged (rc_flags x) e"
  shows "creations (cf_fx (BS_flushPassive en (commit_render en x c))) = creations (cf_fx (BS_flushPassive en c)) @
    map run_of (tagged 3 (rc_effects x) @ tagged 5 (rc_effects x) @ tagged 9 (rc_effects x))"
  using tagged_unflagged [OF assms(2)]
  by (simp add: BS_flushPassive_def commit_render_def phase_defs Let_def pi_creations [OF assms(1)])

section \<open>The calls of a render\<close>

text \<open>The hooks that a body calls, in order, when \<open>h\<close> says what each returns.\<close>

primrec calls_made ::
  "('v call \<Rightarrow> 'v rctx \<Rightarrow> (hook_error, 'v option \<times> 'v rctx) res) \<Rightarrow> 'v body \<Rightarrow> 'v rctx \<Rightarrow> 'v call list" where
  "calls_made h Done = (\<lambda>x. [])"
| "calls_made h (Call c k) = (\<lambda>x. c # (case h c x of Inl e \<Rightarrow> [] | Inr (v, y) \<Rightarrow> calls_made h (k v) y))"

definition hook_calls :: "lanes_env \<Rightarrow> 'v body \<Rightarrow> 'v cell list option \<Rightarrow> nat \<Rightarrow> 'v call list" where
  "hook_calls le b cells fr = calls_made (case cells of Some (c # cs) \<Rightarrow> oy_update le | _ \<Rightarrow> fS_mount) b
     \<lparr>rc_current = cells, rc_cells = [], rc_at = 0, rc_lanes = 0, rc_flags = 0, rc_effects = [], rc_fresh = fr\<rparr>"

text \<open>Those among them that are effects: kind, function and dependencies.\<close>

type_synonym 'v effect_call = "effect_kind \<times> 'v \<times> 'v list option"

fun effect_call :: "'v call \<Rightarrow> 'v effect_call list" where
  "effect_call (CallEffect k f d) = [(k, f, d)]"
| "effect_call c = []"

definition effect_calls :: "'v call list \<Rightarrow> 'v effect_call list" where
  "effect_calls cs = concat (map effect_call cs)"

text \<open>
  What each of these calls finds from the render before: the instance of its effect and the
  dependencies given then; in a first render a new instance and none.
\<close>

definition effects_before :: "'v cell list option \<Rightarrow> nat \<Rightarrow> nat \<Rightarrow> (nat \<times> 'v list option) list" where
  "effects_before cells fr n = (case cells of
     None \<Rightarrow> map (\<lambda>i. (i, None)) [fr..<fr + n]
   | Some cs \<Rightarrow> map (\<lambda>e. (ef_inst e, ef_deps e)) (effs cs))"

text \<open>Dependencies given both times that agree as far as both lists go.\<close>

definition same_deps :: "'v list option \<Rightarrow> 'v list option \<Rightarrow> bool" where
  "same_deps d od = (case (d, od) of
     (Some new, Some old) \<Rightarrow> take (length old) new = take (length new) old
   | _ \<Rightarrow> False)"

text \<open>The effects of one kind that have to run: instance and function, in the order of the calls.\<close>

definition to_run :: "effect_kind \<Rightarrow> (nat \<times> 'v list option) list \<Rightarrow> 'v effect_call list \<Rightarrow> (nat \<times> 'v) list" where
  "to_run kind before calls = map (\<lambda>((i, od), (k, f, d)). (i, f))
     (filter (\<lambda>((i, od), (k, f, d)). k = kind \<and> \<not> same_deps d od) (zip before calls))"

fun kind_tag :: "effect_kind \<Rightarrow> 32 word" where
  "kind_tag Insertion = 2"
| "kind_tag Layout = 4"
| "kind_tag Passive = 8"

definition effect_for :: "(nat \<times> 'v list option) \<times> 'v effect_call \<Rightarrow> 'v effect \<Rightarrow> bool" where
  "effect_for = (\<lambda>((i, od), (k, f, d)) e. ef_inst e = i \<and> ef_create e = f \<and>
     ef_tag e = (if same_deps d od then kind_tag k else 1 OR kind_tag k))"

lemma runs_tagged:
  assumes "list_all2 effect_for (zip before calls) es"
  shows "map run_of (filter (\<lambda>e. ef_tag e = 3) es) = to_run Insertion before calls"
    "map run_of (filter (\<lambda>e. ef_tag e = 5) es) = to_run Layout before calls"
    "map run_of (filter (\<lambda>e. ef_tag e = 9) es) = to_run Passive before calls"
proof -
  have "map run_of (filter (\<lambda>e. ef_tag e = 1 OR kind_tag kind) es) = to_run kind before calls" for kind
    using assms unfolding to_run_def
  proof (induction rule: list_all2_induct)
    case (Cons p ps e es)
    obtain i od k f d where p: "p = ((i, od), (k, f, d))" by (metis prod_cases3 surj_pair)
    have "ef_tag e = 1 OR kind_tag kind \<longleftrightarrow> k = kind \<and> \<not> same_deps d od"
      using Cons(1) by (cases k; cases kind) (auto simp: p effect_for_def)
    then show ?case using Cons p by (auto simp: effect_for_def)
  qed simp
  from this [of Insertion] this [of Layout] this [of Passive]
  show "map run_of (filter (\<lambda>e. ef_tag e = 3) es) = to_run Insertion before calls"
    "map run_of (filter (\<lambda>e. ef_tag e = 5) es) = to_run Layout before calls"
    "map run_of (filter (\<lambda>e. ef_tag e = 9) es) = to_run Passive before calls" by simp_all
qed

text \<open>In a first render every effect call pushes a marked effect with a new instance.\<close>

definition first_effect :: "'v effect_call \<Rightarrow> 'v effect \<Rightarrow> bool" where
  "first_effect = (\<lambda>(k, f, d) e. ef_create e = f \<and> ef_tag e = 1 OR kind_tag k)"

lemma mount_pushes:
  assumes "fS_mount c x = Inr (v, x')"
  shows "\<exists>es. rc_effects x' = rc_effects x @ es \<and> list_all2 first_effect (effect_call c) es \<and>
    map ef_inst es = [rc_fresh x..<rc_fresh x'] \<and> rc_fresh x \<le> rc_fresh x'"
proof (cases c)
  case (CallEffect k f d)
  then show ?thesis using assms
    by (cases k) (auto simp: Ps_mountEffect_def gc_pushEffect_def mr_mountCell_def Let_def first_effect_def)
qed (use assms in \<open>auto simp: mr_mountCell_def sg_mountState_def\<close>)

lemma mount_run_pushes:
  "run_body fS_mount b x = Inr x' \<Longrightarrow> \<exists>es. rc_effects x' = rc_effects x @ es \<and>
     list_all2 first_effect (effect_calls (calls_made fS_mount b x)) es \<and>
     map ef_inst es = [rc_fresh x..<rc_fresh x'] \<and> rc_fresh x \<le> rc_fresh x'"
proof (induction b arbitrary: x)
  case (Call c k)
  then obtain v y where y: "fS_mount c x = Inr (v, y)" "run_body fS_mount (k v) y = Inr x'" by (auto simp: bindR_eq_Inr)
  obtain es where es: "rc_effects y = rc_effects x @ es" "list_all2 first_effect (effect_call c) es"
    "map ef_inst es = [rc_fresh x..<rc_fresh y]" "rc_fresh x \<le> rc_fresh y"
    using mount_pushes [OF y(1)] by blast
  obtain fs where fs: "rc_effects x' = rc_effects y @ fs"
    "list_all2 first_effect (effect_calls (calls_made fS_mount (k v) y)) fs"
    "map ef_inst fs = [rc_fresh y..<rc_fresh x']" "rc_fresh y \<le> rc_fresh x'"
    using Call.IH [OF _ y(2)] by blast
  have "[rc_fresh x..<rc_fresh y] @ [rc_fresh y..<rc_fresh x'] = [rc_fresh x..<rc_fresh x']"
    using es(4) fs(4) upt_add_eq_append [of "rc_fresh x" "rc_fresh y" "rc_fresh x' - rc_fresh y"] by simp
  then show ?case using y(1) es fs
    by (intro exI [of _ "es @ fs"]) (simp add: effect_calls_def list_all2_appendI)
qed (simp add: effect_calls_def)

text \<open>In a later one every effect call pushes an effect of its kind, marked or not.\<close>

definition later_effect :: "'v effect_call \<Rightarrow> 'v effect \<Rightarrow> bool" where
  "later_effect = (\<lambda>(k, f, d) e. ef_create e = f \<and> ef_deps e = d \<and> (ef_tag e = kind_tag k \<or> ef_tag e = 1 OR kind_tag k))"

lemma Hn_effects: "Hn_nextCell x = Inr (c, y) \<Longrightarrow> rc_effects y = rc_effects x"
  by (auto simp: Hn_nextCell_def Let_def split: option.splits if_splits)

lemma update_pushes:
  assumes "oy_update le c x = Inr (v, x')"
  shows "\<exists>es. rc_effects x' = rc_effects x @ es \<and> list_all2 later_effect (effect_call c) es"
proof -
  obtain a y where y: "Hn_nextCell x = Inr (a, y)"
    using assms by (cases c) (auto simp: l_updateReducer_def uS_updateMemo_def gg_updateRef_def ks_updateEffect_def bindR_eq_Inr)
  note e = Hn_effects [OF y]
  show ?thesis
  proof (cases a)
    case (StateCell l q)
    then have "effect_call c = [] \<and> rc_effects x' = rc_effects y"
      using assms y by (cases c)
        (auto simp: l_updateReducer_def uS_updateMemo_def gg_updateRef_def ks_updateEffect_def bindR_eq_Inr put_cell_def)
    then show ?thesis using e by simp
  next
    case (MemoCell w d)
    then have "effect_call c = [] \<and> rc_effects x' = rc_effects y"
      using assms y by (cases c)
        (auto simp: l_updateReducer_def uS_updateMemo_def gg_updateRef_def ks_updateEffect_def put_cell_def split: option.splits if_splits)
    then show ?thesis using e by simp
  next
    case (RefCell w)
    then have "effect_call c = [] \<and> rc_effects x' = rc_effects y"
      using assms y by (cases c)
        (auto simp: l_updateReducer_def uS_updateMemo_def gg_updateRef_def ks_updateEffect_def)
    then show ?thesis using e by simp
  next
    case (EffectCell w)
    then obtain k f d where c: "c = CallEffect k f d"
      using assms y by (cases c) (auto simp: l_updateReducer_def uS_updateMemo_def gg_updateRef_def)
    have t: "snd (update_flags k) = kind_tag k" by (cases k) simp_all
    show ?thesis using assms y e EffectCell
      by (auto simp: c ks_updateEffect_def gc_pushEffect_def Let_def put_cell_def t later_effect_def split: if_splits)
  qed
qed

lemma update_run_pushes:
  "run_body (oy_update le) b x = Inr x' \<Longrightarrow> \<exists>es. rc_effects x' = rc_effects x @ es \<and>
     list_all2 later_effect (effect_calls (calls_made (oy_update le) b x)) es"
proof (induction b arbitrary: x)
  case (Call c k)
  then obtain v y where y: "oy_update le c x = Inr (v, y)" "run_body (oy_update le) (k v) y = Inr x'" by (auto simp: bindR_eq_Inr)
  obtain es where es: "rc_effects y = rc_effects x @ es" "list_all2 later_effect (effect_call c) es"
    using update_pushes [OF y(1)] by blast
  obtain fs where fs: "rc_effects x' = rc_effects y @ fs"
    "list_all2 later_effect (effect_calls (calls_made (oy_update le) (k v) y)) fs"
    using Call.IH [OF _ y(2)] by blast
  show ?case using y(1) es fs by (intro exI [of _ "es @ fs"]) (simp add: effect_calls_def list_all2_appendI)
qed (simp add: effect_calls_def)

lemma same_deps_Su: "same_deps (Some d) od = Su_sameDeps d od"
proof -
  have "list_all (\<lambda>(x, y). x = y) (zip l old) = (take (length old) l = take (length l) old)" for l old :: "'a list"
  proof (induction l arbitrary: old)
    case (Cons a l)
    then show ?case by (cases old) simp_all
  qed simp
  then show ?thesis by (simp add: same_deps_def Su_sameDeps_def split: option.split)
qed

lemma kept_same_deps: "kept old e = same_deps (ef_deps e) (ef_deps old)"
  by (cases "ef_deps e") (simp_all add: kept_def same_deps_Su, simp add: same_deps_def)

lemma kind_tag_odd: "kind_tag k AND 1 = 0" "(1 OR kind_tag k) AND 1 \<noteq> 0"
  by (cases k; simp)+

text \<open>The effects a render pushes are the ones its calls ask for.\<close>

lemma render_pushes:
  assumes "Ud_renderWithHooks le b cells fr = Inr x" "b \<noteq> Done" "cells \<noteq> Some []"
    and "distinct (map ef_inst (cell_effs cells))" "\<forall>e \<in> set (cell_effs cells). ef_inst e < fr"
  defines "calls \<equiv> effect_calls (hook_calls le b cells fr)"
  shows "length (effects_before cells fr (length calls)) = length calls \<and>
    list_all2 effect_for (zip (effects_before cells fr (length calls)) calls) (rc_effects x)"
proof (cases cells)
  case None
  have "run_body fS_mount b \<lparr>rc_current = cells, rc_cells = [], rc_at = 0, rc_lanes = 0, rc_flags = 0, rc_effects = [], rc_fresh = fr\<rparr> = Inr x"
    using assms(1) None by (simp add: Ud_renderWithHooks_def)
  from mount_run_pushes [OF this]
  have l: "list_all2 first_effect calls (rc_effects x)" "map ef_inst (rc_effects x) = [fr..<rc_fresh x]"
    using None by (simp_all add: calls_def hook_calls_def)
  have n: "length calls = length (rc_effects x)" using l(1) by (rule list_all2_lengthD)
  have "length (rc_effects x) = rc_fresh x - fr" using l(2) by (metis length_map length_upt)
  then have i: "ef_inst (rc_effects x ! i) = fr + i" if "i < length calls" for i
    using l(2) that n by (metis add.commute length_map nth_map nth_upt less_diff_conv)
  show ?thesis using l(1) i None
    by (auto simp: list_all2_conv_all_nth effects_before_def effect_for_def first_effect_def same_deps_def split: prod.splits option.splits)
next
  case (Some cs)
  then obtain c cs' where cs: "cs = c # cs'" using assms(3) by (cases cs) auto
  have "run_body (oy_update le) b \<lparr>rc_current = cells, rc_cells = [], rc_at = 0, rc_lanes = 0, rc_flags = 0, rc_effects = [], rc_fresh = fr\<rparr> = Inr x"
    using assms(1) Some cs by (auto simp: Ud_renderWithHooks_def Let_def bindR_eq_Inr split: if_splits)
  from update_run_pushes [OF this]
  have l: "list_all2 later_effect calls (rc_effects x)" using Some cs by (simp add: calls_def hook_calls_def)
  have nx: "list_all2 next_effect (effs cs) (rc_effects x)"
    using render_effects [OF assms(1-5)] Some by (simp add: cell_effs_def)
  have "effect_for ((ef_inst (effs cs ! i), ef_deps (effs cs ! i)), calls ! i) (rc_effects x ! i)" if "i < length calls" for i
  proof -
    obtain k f d where c: "calls ! i = (k, f, d)" by (metis prod_cases3)
    have "later_effect (k, f, d) (rc_effects x ! i)" using l that c by (auto simp: list_all2_conv_all_nth)
    moreover have "next_effect (effs cs ! i) (rc_effects x ! i)" using nx l that by (auto simp: list_all2_conv_all_nth)
    ultimately show ?thesis using kind_tag_odd [of k]
      by (auto simp: c effect_for_def later_effect_def next_effect_def kept_same_deps)
  qed
  then show ?thesis using l nx Some by (auto simp: list_all2_conv_all_nth effects_before_def)
qed

lemma commit_then_flush:
  assumes "never_throws en" "\<forall>e \<in> set (rc_effects x). tag_ok (ef_tag e) \<and> flagged (rc_flags x) e"
  shows "creations (cf_fx (commit_render en x c)) = creations (cf_fx (BS_flushPassive en c)) @
      map run_of (tagged 3 (rc_effects x) @ tagged 5 (rc_effects x))"
    "creations (cf_fx (BS_flushPassive en (commit_render en x c))) = creations (cf_fx (commit_render en x c)) @
      map run_of (tagged 9 (rc_effects x))"
  using tagged_unflagged [OF assms(2)]
  by (simp_all add: BS_flushPassive_def commit_render_def phase_defs Let_def pi_creations [OF assms(1)])

text \<open>
  C15. The effects that run after a render are those of its calls whose dependencies changed, that have
  none given, or that are made for the first time.  When no effect throws, the commit creates such effects
  of the insertion kind and then those of the layout kind, and no passive one; the flush that follows
  creates the passive ones.  Each is created once, with the function given in this render, in the order
  of the calls and on the instance that the same call had before.
\<close>

theorem changed_effects_run:
  assumes "cf_reach en c" "b \<noteq> Done" "Ud_renderWithHooks le b (cf_cells c) (cf_fresh c) = Inr x" "never_throws en"
  shows "let calls = effect_calls (hook_calls le b (cf_cells c) (cf_fresh c));
             before = effects_before (cf_cells c) (cf_fresh c) (length calls);
             c' = commit_render en x c in
      length before = length calls \<and>
      creations (cf_fx c') = creations (cf_fx (BS_flushPassive en c)) @ to_run Insertion before calls @ to_run Layout before calls \<and>
      creations (cf_fx (BS_flushPassive en c')) = creations (cf_fx c') @ to_run Passive before calls"
proof -
  have i: "cf_inv c" using assms(1) by (rule cf_reach_inv)
  then have ne: "cf_cells c \<noteq> Some []" by (simp add: cf_inv_def)
  have r: "\<forall>e \<in> set (rc_effects x). tag_ok (ef_tag e) \<and> flagged (rc_flags x) e"
    using render_effects [OF assms(3,2) ne cf_inv_cells [OF i]] by blast
  then have t: "\<forall>e \<in> set (rc_effects x). tag_ok (ef_tag e)" by blast
  have p: "length (effects_before (cf_cells c) (cf_fresh c) (length (effect_calls (hook_calls le b (cf_cells c) (cf_fresh c))))) =
        length (effect_calls (hook_calls le b (cf_cells c) (cf_fresh c))) \<and>
      list_all2 effect_for (zip (effects_before (cf_cells c) (cf_fresh c) (length (effect_calls (hook_calls le b (cf_cells c) (cf_fresh c)))))
        (effect_calls (hook_calls le b (cf_cells c) (cf_fresh c)))) (rc_effects x)"
    by (rule render_pushes [OF assms(3,2) ne cf_inv_cells [OF i]])
  show ?thesis
    using commit_then_flush [OF assms(4) r, of c] runs_tagged [OF conjunct2 [OF p]] conjunct1 [OF p]
    unfolding tagged_exact [OF t] Let_def by simp
qed

text \<open>A component with effects of all kinds, rendered twice; the second time some dependencies are others.\<close>

definition kinds_body :: "int \<Rightarrow> int body" where
  "kinds_body d = line [CallEffect Passive 5 (Some [d]), CallEffect Layout 6 (Some [d]), CallEffect Layout 7 (Some [0]), CallEffect Insertion 8 None]"

definition fx_cell :: "32 word \<Rightarrow> int \<Rightarrow> int list option \<Rightarrow> nat \<Rightarrow> int effect" where
  "fx_cell t f d i = \<lparr>ef_tag = t, ef_create = f, ef_deps = d, ef_inst = i\<rparr>"

definition kinds_first_effects :: "int effect list" where
  "kinds_first_effects = [fx_cell 9 5 (Some [1]) 0, fx_cell 5 6 (Some [1]) 1, fx_cell 5 7 (Some [0]) 2, fx_cell 3 8 None 3]"

definition kinds_second_effects :: "int effect list" where
  "kinds_second_effects = [fx_cell 9 5 (Some [2]) 0, fx_cell 5 6 (Some [2]) 1, fx_cell 4 7 (Some [0]) 2, fx_cell 3 8 None 3]"

lemmas hook_eval = Ud_renderWithHooks_def Ps_mountEffect_def gc_pushEffect_def mr_mountCell_def ks_updateEffect_def
  Hn_nextCell_def Jt_cell_def put_cell_def Su_sameDeps_def Xp_fewer_def kinds_body_def fx_cell_def
  kinds_first_effects_def kinds_second_effects_def Let_def

lemma kinds_renders:
  "\<exists>x. Ud_renderWithHooks demo_lanes (kinds_body 1) None 0 = Inr x \<and> rc_cells x = map EffectCell kinds_first_effects \<and>
     rc_effects x = kinds_first_effects \<and> rc_flags x = 12584964 \<and> rc_fresh x = 4"
  "\<exists>x. Ud_renderWithHooks demo_lanes (kinds_body 2) (Some (map EffectCell kinds_first_effects)) 4 = Inr x \<and>
     rc_effects x = kinds_second_effects \<and> rc_flags x = 2052"
  by (simp_all add: hook_eval)

theorem changed_effects_run_witness:
  "\<exists>c x. cf_reach demo_fx_env c \<and> Ud_renderWithHooks demo_lanes (kinds_body 2) (cf_cells c) (cf_fresh c) = Inr x \<and>
     creations (cf_fx (commit_render demo_fx_env x c)) = [(3, 8), (1, 6), (2, 7), (0, 5)] @ [(3, 8), (1, 6)] \<and>
     creations (cf_fx (BS_flushPassive demo_fx_env (commit_render demo_fx_env x c))) =
       [(3, 8), (1, 6), (2, 7), (0, 5)] @ [(3, 8), (1, 6)] @ [(0, 5)]"
proof -
  have b: "kinds_body d \<noteq> Done" for d by (simp add: kinds_body_def)
  have n: "never_throws demo_fx_env" by (simp add: never_throws_def demo_fx_env_def)
  obtain x where x: "Ud_renderWithHooks demo_lanes (kinds_body 1) None 0 = Inr x"
    "rc_cells x = map EffectCell kinds_first_effects" "rc_fresh x = 4"
    using kinds_renders(1) by blast
  define c where "c = commit_render demo_fx_env x cf_start"
  have one: "Ud_renderWithHooks demo_lanes (kinds_body 1) (cf_cells cf_start) (cf_fresh (cf_start :: int cfiber)) = Inr x"
    using x(1) by (simp add: cf_start_def)
  have c: "cf_reach demo_fx_env c" unfolding c_def by (rule cf_reach.commit [OF cf_reach.start b one])
  have cells: "cf_cells c = Some (map EffectCell kinds_first_effects)" "cf_fresh c = 4"
    using x by (simp_all add: c_def commit_render_def Let_def)
  obtain y where y: "Ud_renderWithHooks demo_lanes (kinds_body 2) (cf_cells c) (cf_fresh c) = Inr y"
    using kinds_renders(2) cells by auto
  have first: "effect_calls (hook_calls demo_lanes (kinds_body 1) (cf_cells cf_start) (cf_fresh (cf_start :: int cfiber))) =
       [(Passive, 5, Some [1]), (Layout, 6, Some [1]), (Layout, 7, Some [0]), (Insertion, 8, None)]"
    by (simp add: cf_start_def hook_calls_def effect_calls_def hook_eval)
  have second: "effect_calls (hook_calls demo_lanes (kinds_body 2) (cf_cells c) (cf_fresh c)) =
       [(Passive, 5, Some [2]), (Layout, 6, Some [2]), (Layout, 7, Some [0]), (Insertion, 8, None)]"
    by (simp add: cells hook_calls_def effect_calls_def hook_eval)
  have four: "length [p, q, r, s] = 4" for p q r s :: "effect_kind \<times> int \<times> int list option" by simp
  have start: "creations (cf_fx (BS_flushPassive demo_fx_env (cf_start :: int cfiber))) = []"
    by (simp add: BS_flushPassive_def cf_start_def creations_def phase_defs)
  have before: "effects_before (cf_cells (cf_start :: int cfiber)) (cf_fresh (cf_start :: int cfiber)) 4 = [(0, None), (1, None), (2, None), (3, None)]"
    "effects_before (cf_cells c) (cf_fresh c) 4 = [(0, Some [1]), (1, Some [1]), (2, Some [0]), (3, None)]"
    by (simp add: cf_start_def effects_before_def upt_rec, simp add: cells effects_before_def kinds_first_effects_def fx_cell_def)
  have "creations (cf_fx (BS_flushPassive demo_fx_env c)) = [(3, 8), (1, 6), (2, 7), (0, 5)]"
    using changed_effects_run [OF cf_reach.start b one n, unfolded Let_def first four before] start
    by (simp add: to_run_def same_deps_def c_def)
  with changed_effects_run [OF c b y n, unfolded Let_def second four before] c y show ?thesis
    by (intro exI [of _ c] exI [of _ y]) (simp add: to_run_def same_deps_def)
qed

end
