(* ===== verification/Poll_Hooks.thy ===== *)
theory Poll_Hooks
  imports Hooks_Effects Admin_Poll
begin

text \<open>
  The polling hook on React's hooks (\<open>src/internal/admin/dist/index-DxrWcVFD.js\<close>, \<open>es\<close> as a sequence of hook calls): the
  model of polling in \<open>Admin_Poll\<close>, where a render with other arguments replaces the interval at once, is
  what the cells, dependencies and effects of \<open>React_Hooks\<close> and \<open>Hooks_Effects\<close> make of the calls.
\<close>

unbundle bit_operations_syntax

section \<open>The hook as calls\<close>

text \<open>
  The values that the hook hands to React: fetchers and periods, the closure \<open>b\<close>, which a render makes anew from
  its fetcher, the effect, and its clean-up function.
\<close>

datatype pv = PNull | PTrue | PUndef | PF nat | PT nat | PB nat nat | PEff pv nat | PClear | PData nat

definition es_body :: "nat \<Rightarrow> nat \<Rightarrow> nat \<Rightarrow> pv body" where
  "es_body e t r =
     Call (CallState PNull) (\<lambda>a. Call (CallState PTrue) (\<lambda>c. Call (CallState PNull) (\<lambda>h. Call (CallRef PUndef) (\<lambda>g.
     Call (CallMemo (PB e r) (Some [PF e])) (\<lambda>b. let b = (case b of Some b \<Rightarrow> b | None \<Rightarrow> PUndef) in
     Call (CallEffect Passive (PEff b t) (Some [b, PT t])) (\<lambda>u. Done))))))"

definition es_env :: "pv fx_env" where
  "es_env = \<lparr>fe_create = (\<lambda>log f. Inr (Some PClear)), fe_destroy = (\<lambda>log d. None)\<rparr>"

text \<open>What an effect that React runs, or a clean-up function it calls, does to the intervals and calls.\<close>

fun fx_apply :: "pv fx_event \<Rightarrow> 'v es_state \<Rightarrow> 'v es_state" where
  "fx_apply (Created i (PEff (PB f r) t) d) s = es_effect (s\<lparr>es_fetcher := f, es_period := t\<rparr>)"
| "fx_apply (Destroyed i d) s = clear_interval s"
| "fx_apply e s = s"

text \<open>A page: the fiber of the component that polls, and the state of its polling.\<close>

record 'v page =
  pg_fiber :: "pv cfiber"
  pg_poll :: "'v es_state"

definition react :: "pv cfiber \<Rightarrow> 'v page \<Rightarrow> 'v page" where
  "react c p = \<lparr>pg_fiber = c, pg_poll = fold fx_apply (drop (length (fx_log (cf_fx (pg_fiber p)))) (fx_log (cf_fx c))) (pg_poll p)\<rparr>"

definition page_render :: "lanes_env \<Rightarrow> nat \<Rightarrow> nat \<Rightarrow> nat \<Rightarrow> 'v page \<Rightarrow> 'v page" where
  "page_render le f t r p = (case Ud_renderWithHooks le (es_body f t r) (cf_cells (pg_fiber p)) (cf_fresh (pg_fiber p)) of
     Inl e \<Rightarrow> p | Inr x \<Rightarrow> react (BS_flushPassive es_env (commit_render es_env x (pg_fiber p))) p)"

datatype 'v page_event =
    PRender lanes_env nat nat nat \<comment> \<open>a render with this fetcher and period, committed\<close>
  | PQueues "pv hook \<Rightarrow> pv hqueue \<Rightarrow> pv hook \<times> pv hqueue" \<comment> \<open>states set, renders abandoned\<close>
  | PHost "'v es_event" \<comment> \<open>a tick, a refresh or an answer\<close>

fun page_step :: "'v page_event \<Rightarrow> 'v page \<Rightarrow> 'v page" where
  "page_step (PRender le f t r) p = page_render le f t r p"
| "page_step (PQueues g) p = p\<lparr>pg_fiber := (pg_fiber p)\<lparr>cf_cells := map_option (map (requeue g)) (cf_cells (pg_fiber p))\<rparr>\<rparr>"
| "page_step (PHost e) p = p\<lparr>pg_poll := es_step e (pg_poll p)\<rparr>"

definition page_mount :: "nat \<Rightarrow> lanes_env \<Rightarrow> nat \<Rightarrow> nat \<Rightarrow> nat \<Rightarrow> 'v page" where
  "page_mount k le f t r = page_render le f t r \<lparr>pg_fiber = cf_start, pg_poll = \<lparr>es_data = None, es_loading = True, es_error = None,
     es_interval = None, es_fetcher = f, es_period = t, es_mounted = True, h_timers = [], h_inflight = [], h_next = k\<rparr>\<rparr>"

definition page_unmount :: "'v page \<Rightarrow> 'v page" where
  "page_unmount p = (let p = react (commit_deletion es_env (pg_fiber p)) p in p\<lparr>pg_poll := (pg_poll p)\<lparr>es_mounted := False\<rparr>\<rparr>)"

section \<open>Simulation\<close>

fun poll_event :: "'v page_event \<Rightarrow> 'v es_event list" where
  "poll_event (PRender le f t r) = [Render f t]"
| "poll_event (PQueues g) = []"
| "poll_event (PHost e) = [e]"

text \<open>The fiber after a render with these arguments, its effects run.\<close>

definition polling :: "nat \<Rightarrow> nat \<Rightarrow> pv cfiber \<Rightarrow> bool" where
  "polling f t c \<longleftrightarrow> (\<exists>l1 q1 l2 q2 l3 q3 g r e tag.
     cf_cells c = Some [StateCell l1 q1, StateCell l2 q2, StateCell l3 q3, RefCell g, MemoCell (PB f r) (Some [PF f]),
       EffectCell \<lparr>ef_tag = e, ef_create = PEff (PB f r) t, ef_deps = Some [PB f r, PT t], ef_inst = 0\<rparr>] \<and>
     cf_effects c = [\<lparr>ef_tag = tag, ef_create = PEff (PB f r) t, ef_deps = Some [PB f r, PT t], ef_inst = 0\<rparr>] \<and> (tag = 8 \<or> tag = 9) \<and>
     cf_passive c = 0 \<and> cf_fresh c = 1 \<and> fx_destroy (cf_fx c) 0 = Some PClear)"

lemma page_mount_ok:
  "polling f t (pg_fiber (page_mount k le f t r)) \<and> pg_poll (page_mount k le f t r) = es_mount k f t"
  by (simp add: page_mount_def page_render_def Ud_renderWithHooks_def Let_def es_body_def cf_start_def sg_mountState_def mr_mountCell_def
      Ps_mountEffect_def gc_pushEffect_def react_def commit_render_def BS_flushPassive_def phase_defs es_env_def polling_def es_mount_def)


text \<open>The cells and effects that a later render makes.\<close>

lemma es_body_update:
  assumes "\<not> le_thenable le" and "cs = [StateCell l1 q1, StateCell l2 q2, StateCell l3 q3, RefCell g, MemoCell (PB f0 r0) (Some [PF f0]),
      EffectCell \<lparr>ef_tag = e0, ef_create = PEff (PB f0 r0) t0, ef_deps = Some [PB f0 r0, PT t0], ef_inst = 0\<rparr>]"
    and b: "b = (if f = f0 then PB f0 r0 else PB f r)"
    and e: "e = \<lparr>ef_tag = (if f = f0 \<and> t = t0 then 8 else 9), ef_create = PEff b t, ef_deps = Some [b, PT t], ef_inst = 0\<rparr>"
  shows "\<exists>x l1 q1 l2 q2 l3 q3. Ud_renderWithHooks le (es_body f t r) (Some cs) fr = Inr x \<and> rc_effects x = [e] \<and> rc_fresh x = fr \<and>
    rc_flags x = (if f = f0 \<and> t = t0 then 0 else 2048) \<and>
    rc_cells x = [StateCell l1 q1, StateCell l2 q2, StateCell l3 q3, RefCell g, MemoCell b (Some [PF f]), EffectCell e]"
proof -
  have th: "le_thenable le = False" using assms(1) by simp
  have "\<exists>l' us q' sk ch. Zp_updateReducer Ol_basicReducer (le_xl le) (le_wt le) (le_no le) False l q = Inr (l', us, q', sk, ch)" for l :: "pv hook" and q
    using Zp_never_throws [of Ol_basicReducer "le_xl le" "le_wt le" "le_no le" l q] by (metis prod_cases5)
  then obtain l1' u1 q1' s1 c1 l2' u2 q2' s2 c2 l3' u3 q3' s3 c3 where
    "Zp_updateReducer Ol_basicReducer (le_xl le) (le_wt le) (le_no le) False l1 q1 = Inr (l1', u1, q1', s1, c1)"
    "Zp_updateReducer Ol_basicReducer (le_xl le) (le_wt le) (le_no le) False l2 q2 = Inr (l2', u2, q2', s2, c2)"
    "Zp_updateReducer Ol_basicReducer (le_xl le) (le_wt le) (le_no le) False l3 q3 = Inr (l3', u3, q3', s3, c3)" by metis
  then show ?thesis using th b e assms(2)
    by (cases "f = f0"; cases "t = t0")
      (simp_all add: Ud_renderWithHooks_def es_body_def Let_def l_updateReducer_def Hn_nextCell_def put_cell_def gg_updateRef_def uS_updateMemo_def
        ks_updateEffect_def Jt_cell_def Su_sameDeps_def gc_pushEffect_def Xp_fewer_def)
qed

lemma page_render_step:
  assumes "polling f0 t0 (pg_fiber p)" "\<not> le_thenable le" "es_fetcher (pg_poll p) = f0" "es_period (pg_poll p) = t0"
  shows "polling f t (pg_fiber (page_render le f t r p)) \<and> pg_poll (page_render le f t r p) = es_render f t (pg_poll p)"
proof -
  obtain l1 q1 l2 q2 l3 q3 g r0 e0 tag where c: "cf_cells (pg_fiber p) = Some [StateCell l1 q1, StateCell l2 q2, StateCell l3 q3, RefCell g,
        MemoCell (PB f0 r0) (Some [PF f0]), EffectCell \<lparr>ef_tag = e0, ef_create = PEff (PB f0 r0) t0, ef_deps = Some [PB f0 r0, PT t0], ef_inst = 0\<rparr>]"
      "cf_passive (pg_fiber p) = 0" "cf_fresh (pg_fiber p) = 1" "fx_destroy (cf_fx (pg_fiber p)) 0 = Some PClear"
    using assms(1) by (auto simp: polling_def)
  define b where "b = (if f = f0 then PB f0 r0 else PB f r)"
  define e where "e = \<lparr>ef_tag = (if f = f0 \<and> t = t0 then 8 else 9), ef_create = PEff b t, ef_deps = Some [b, PT t], ef_inst = 0\<rparr>"
  obtain x l1' q1' l2' q2' l3' q3' where x: "Ud_renderWithHooks le (es_body f t r) (cf_cells (pg_fiber p)) (cf_fresh (pg_fiber p)) = Inr x"
      "rc_effects x = [e]" "rc_fresh x = 1" "rc_flags x = (if f = f0 \<and> t = t0 then 0 else 2048)"
      "rc_cells x = [StateCell l1' q1', StateCell l2' q2', StateCell l3' q3', RefCell g, MemoCell b (Some [PF f]), EffectCell e]"
    using es_body_update [OF assms(2) refl b_def e_def, where ?l1.0 = l1 and ?q1.0 = q1 and ?l2.0 = l2 and ?q2.0 = q2 and ?l3.0 = l3
        and ?q3.0 = q3 and g = g and ?e0.0 = e0 and fr = 1] unfolding c by blast
  show ?thesis
  proof (cases "f = f0 \<and> t = t0")
    case True
    then show ?thesis using x c(2-4) assms(3,4)
      by (simp add: page_render_def react_def commit_render_def BS_flushPassive_def phase_defs polling_def e_def b_def es_render_def Let_def)
  next
    case False
    then have "pg_fiber (page_render le f t r p) = BS_flushPassive es_env (commit_render es_env x (pg_fiber p))"
      "fx_log (cf_fx (pg_fiber (page_render le f t r p))) = fx_log (cf_fx (pg_fiber p)) @ [Destroyed 0 PClear, Created 0 (PEff b t) (Some PClear)]"
      using x c(2-4) by (simp_all add: page_render_def react_def commit_render_def BS_flushPassive_def phase_defs e_def es_env_def Let_def)
    moreover have "\<exists>r. b = PB f r" by (simp add: b_def)
    ultimately show ?thesis using x c(2-4) False assms(3,4)
      by (auto simp: page_render_def react_def commit_render_def BS_flushPassive_def phase_defs polling_def e_def es_env_def es_render_def Let_def
          clear_interval_def)
  qed
qed

fun page_event_ok :: "'v page_event \<Rightarrow> bool" where
  "page_event_ok (PRender le f t r) \<longleftrightarrow> \<not> le_thenable le"
| "page_event_ok (PQueues g) \<longleftrightarrow> True"
| "page_event_ok (PHost e) \<longleftrightarrow> (case e of Render f t \<Rightarrow> False | Unmount \<Rightarrow> False | _ \<Rightarrow> True)"

lemma es_step_args:
  "page_event_ok (PHost e) \<Longrightarrow> es_fetcher (es_step e s) = es_fetcher s \<and> es_period (es_step e s) = es_period s"
  by (cases e) (auto simp: b_start_def b_settle_def Let_def split: option.splits sum.splits)

lemma es_render_args: "es_fetcher (es_render f t s) = f \<and> es_period (es_render f t s) = t"
  by (simp add: es_render_def es_effect_def set_interval_def b_start_def)

lemma page_step_ok:
  assumes "polling (es_fetcher (pg_poll p)) (es_period (pg_poll p)) (pg_fiber p)" "page_event_ok e"
  shows "pg_poll (page_step e p) = fold es_step (poll_event e) (pg_poll p) \<and>
    polling (es_fetcher (pg_poll (page_step e p))) (es_period (pg_poll (page_step e p))) (pg_fiber (page_step e p))"
proof (cases e)
  case (PRender le f t r)
  then show ?thesis using page_render_step [OF assms(1), of le f t r] assms(2) by (simp add: es_render_args)
next
  case (PQueues g)
  then show ?thesis using assms(1) by (auto simp: polling_def)
next
  case (PHost h)
  then show ?thesis using assms es_step_args [of h "pg_poll p"] by simp
qed

lemma page_run:
  "polling (es_fetcher (pg_poll p)) (es_period (pg_poll p)) (pg_fiber p) \<Longrightarrow> \<forall>e \<in> set evs. page_event_ok e \<Longrightarrow>
   pg_poll (fold page_step evs p) = fold es_step (concat (map poll_event evs)) (pg_poll p) \<and>
   polling (es_fetcher (pg_poll (fold page_step evs p))) (es_period (pg_poll (fold page_step evs p))) (pg_fiber (fold page_step evs p))"
proof (induction evs arbitrary: p)
  case (Cons e evs)
  have e: "pg_poll (page_step e p) = fold es_step (poll_event e) (pg_poll p)"
      "polling (es_fetcher (pg_poll (page_step e p))) (es_period (pg_poll (page_step e p))) (pg_fiber (page_step e p))"
    using page_step_ok [OF Cons.prems(1), of e] Cons.prems(2) by (metis list.set_intros(1))+
  from Cons.IH [OF e(2)] Cons.prems(2) show ?case by (auto simp: e(1))
qed simp

lemma page_unmount_ok: "polling f t (pg_fiber p) \<Longrightarrow> pg_poll (page_unmount p) = es_unmount (pg_poll p)"
  by (auto simp: polling_def page_unmount_def react_def commit_deletion_def BS_flushPassive_def phase_defs y_passiveDeletion_def Rl_deletion_def
      es_env_def es_unmount_def Let_def)

text \<open>
  C12. React runs the polling hook as the model of polling says: over any sequence of committed renders with
  whatever fetchers and periods, of state changes and abandoned renders, ticks, refreshes and answers, the
  calls that React makes of the hook's effect and clean-up function lead to the same intervals, requests and data
  as the model, and so they do when the page is removed.
\<close>

theorem poll_runs_on_hooks:
  fixes evs :: "'v page_event list"
  assumes "\<forall>e \<in> set evs. page_event_ok e"
  shows "pg_poll (fold page_step evs (page_mount k le f t r)) = fold es_step (concat (map poll_event evs)) (es_mount k f t) \<and>
    pg_poll (page_unmount (fold page_step evs (page_mount k le f t r))) = es_unmount (fold es_step (concat (map poll_event evs)) (es_mount k f t))"
proof -
  define p :: "'v page" where "p = page_mount k le f t r"
  have m: "polling f t (pg_fiber p)" "pg_poll p = es_mount k f t" by (simp_all add: page_mount_ok p_def)
  then have "polling (es_fetcher (pg_poll p)) (es_period (pg_poll p)) (pg_fiber p)"
    by (simp add: es_mount_def es_effect_def set_interval_def b_start_def)
  from page_run [OF this assms] show ?thesis unfolding p_def [symmetric] m(2) [symmetric] using page_unmount_ok by metis
qed

definition demo_page_events :: "nat page_event list" where
  "demo_page_events = [PRender demo_lanes 1 5000 2, PHost Refresh, PRender demo_lanes 3 5000 3]"

theorem poll_runs_on_hooks_witness:
  "h_timers (pg_poll (fold page_step demo_page_events (page_mount 0 demo_lanes 1 5000 1))) = [(4, 3, 5000)]"
proof -
  have "\<forall>e \<in> set demo_page_events. page_event_ok e" by (simp add: demo_lanes_def demo_page_events_def)
  then have "pg_poll (fold page_step demo_page_events (page_mount 0 demo_lanes 1 5000 1)) =
      fold es_step (concat (map poll_event demo_page_events)) (es_mount 0 1 5000)"
    using poll_runs_on_hooks [of demo_page_events 0 demo_lanes 1 5000 1] by blast
  also have "h_timers \<dots> = [(4, 3, 5000)]"
    by (simp add: demo_page_events_def es_mount_def es_effect_def set_interval_def b_start_def es_render_def clear_interval_def)
  finally show ?thesis .
qed

end
