(* ===== verification/Decimal.thy ===== *)
theory Decimal
  imports Js_Number
begin

text \<open>
  The decimal arithmetic behind the axes of the charts (\<open>src/internal/admin/dist/index-DxrWcVFD.js\<close>,
  the functions around \<open>Ke\<close>, \<open>GB\<close>, \<open>XB\<close> and \<open>xn\<close>).  A decimal is a sign, an exponent and an array
  of words in base \<open>10 ^ 7\<close>, the most significant first.  The words are exact integers; quotients are
  the rounded quotients of doubles, of which the program takes the integral part.  Operands are
  decimals (the constructor copies them), the precision and the flag \<open>kn\<close>, which asks for rounded
  results, are arguments.
\<close>

section \<open>Decimals\<close>

definition Kr :: int where
  "Kr = 10000000"

record decimal =
  d_s :: int
  d_e :: int
  d_d :: "int list"

datatype dec_error = ExponentRange int

definition quot :: "int \<Rightarrow> int \<Rightarrow> int" where
  "quot y k = \<lfloor>fl (of_int y / of_int k)\<rfloor>"

text \<open>
  The number of digits of a word.  The loop divides a double by ten; as no quotient of a word is
  closer to ten than a millionth without reaching it, the integral parts decide.
\<close>

function ndig :: "int \<Rightarrow> int" where
  "ndig n = (if n \<ge> 10 then ndig (n div 10) + 1 else 1)"
  by pat_completeness auto
termination by (relation "measure nat") auto

declare ndig.simps [simp del]

definition Rr_exponent :: "decimal \<Rightarrow> int" where
  "Rr_exponent e = d_e e * 7 + ndig (hd (d_d e)) - 1"

definition dec_zero :: decimal where
  "dec_zero = \<lparr>d_s = 0, d_e = 0, d_d = [0]\<rparr>"

definition strip_zeros :: "int list \<Rightarrow> int list" where
  "strip_zeros S = rev (dropWhile (\<lambda>w. w = 0) (rev S))"

text \<open>\<open>comparedTo\<close>.\<close>

fun cmp_words :: "int list \<Rightarrow> int list \<Rightarrow> bool \<Rightarrow> int" where
  "cmp_words (x # xs) (y # ys) neg = (if x \<noteq> y then (if (x > y) \<noteq> neg then 1 else -1) else cmp_words xs ys neg)"
| "cmp_words [] [] neg = 0"
| "cmp_words (x # xs) [] neg = (if True \<noteq> neg then 1 else -1)"
| "cmp_words [] (y # ys) neg = (if False \<noteq> neg then 1 else -1)"

definition Ke_cmp :: "decimal \<Rightarrow> decimal \<Rightarrow> int" where
  "Ke_cmp s e =
     (if d_s s \<noteq> d_s e then (if d_s s \<noteq> 0 then d_s s else - d_s e)
      else if d_e s \<noteq> d_e e then (if (d_e s > d_e e) \<noteq> (d_s s < 0) then 1 else -1)
      else cmp_words (d_d s) (d_d e) (d_s s < 0))"

definition Ke_abs :: "decimal \<Rightarrow> decimal" where
  "Ke_abs e = (if d_s e \<noteq> 0 then e\<lparr>d_s := 1\<rparr> else e)"

definition Ke_neg :: "decimal \<Rightarrow> decimal" where
  "Ke_neg e = e\<lparr>d_s := - d_s e\<rparr>"

definition Ke_eq :: "decimal \<Rightarrow> decimal \<Rightarrow> bool" where "Ke_eq s e = (Ke_cmp s e = 0)"
definition Ke_gt :: "decimal \<Rightarrow> decimal \<Rightarrow> bool" where "Ke_gt s e = (Ke_cmp s e > 0)"
definition Ke_gte :: "decimal \<Rightarrow> decimal \<Rightarrow> bool" where "Ke_gte s e = (Ke_cmp s e \<ge> 0)"
definition Ke_lt :: "decimal \<Rightarrow> decimal \<Rightarrow> bool" where "Ke_lt s e = (Ke_cmp s e < 0)"
definition Ke_lte :: "decimal \<Rightarrow> decimal \<Rightarrow> bool" where "Ke_lte s e = (Ke_cmp s e < 1)"
definition Ke_isint :: "decimal \<Rightarrow> bool" where "Ke_isint e = (d_e e > int (length (d_d e)) - 2)"
definition Ke_isneg :: "decimal \<Rightarrow> bool" where "Ke_isneg e = (d_s e < 0)"
definition Ke_ispos :: "decimal \<Rightarrow> bool" where "Ke_ispos e = (d_s e > 0)"
definition Ke_isZero :: "decimal \<Rightarrow> bool" where "Ke_isZero e = (d_s e = 0)"

section \<open>Rounding\<close>

text \<open>
  \<open>xn\<close>: round to \<open>t\<close> significant digits with the mode \<open>a\<close>, or cut off when there is no mode.
  \<open>xn_place\<close> finds the word \<open>O\<close> that is cut and, in it, the digits: \<open>i\<close> of seven are kept, which are
  the first \<open>c\<close> of the \<open>h\<close> digits of the word \<open>b\<close>.
\<close>

definition jrem :: "int \<Rightarrow> int \<Rightarrow> int" where
  "jrem a b = (if a < 0 then - ((- a) mod b) else a mod b)"

record place =
  pl_O :: nat
  pl_i :: int
  pl_c :: int
  pl_b :: int
  pl_h :: int

definition xn_place :: "int list \<Rightarrow> int \<Rightarrow> place option" where
  "xn_place S t =
     (let h = ndig (hd S); i = t - h in
      if i < 0 then Some \<lparr>pl_O = 0, pl_i = i + 7, pl_c = t, pl_b = hd S, pl_h = h\<rparr>
      else let O' = nat ((i + 7) div 7) in
        if O' \<ge> length S then None
        else let b = S ! O'; h = ndig b; i = i mod 7 in
          Some \<lparr>pl_O = O', pl_i = i, pl_c = i - 7 + h, pl_b = b, pl_h = h\<rparr>)"

definition xn_up :: "decimal \<Rightarrow> int \<Rightarrow> place \<Rightarrow> int \<Rightarrow> bool" where
  "xn_up e t p a =
     (let S = d_d e; b = pl_b p; s = 10 ^ nat (pl_h p - pl_c p - 1); y = quot b s mod 10;
          g = (t < 0 \<or> Suc (pl_O p) < length S \<or> b mod s \<noteq> 0);
          left = (if pl_i p > 0 then (if pl_c p > 0 then quot b (10 ^ nat (pl_h p - pl_c p)) else 0) else S ! (pl_O p - 1))
      in if a < 4 then (y \<noteq> 0 \<or> g) \<and> (a = 0 \<or> a = (if d_s e < 0 then 3 else 2))
         else y > 5 \<or> y = 5 \<and> (a = 4 \<or> g \<or> a = 6 \<and> odd (left mod 10) \<or> a = (if d_s e < 0 then 8 else 7)))"

fun xn_carry :: "nat \<Rightarrow> int \<Rightarrow> int list \<Rightarrow> int \<Rightarrow> int list \<times> int" where
  "xn_carry 0 s S e = (let v = S ! 0 + s in if v = Kr then (S[0 := 1], e + 1) else (S[0 := v], e))"
| "xn_carry (Suc O') s S e =
     (let v = S ! Suc O' + s in if v \<noteq> Kr then (S[Suc O' := v], e) else xn_carry O' 1 (S[Suc O' := 0]) e)"

definition WO :: int where
  "WO = 9007199254740991 div 7"

definition xn_cut :: "int list \<Rightarrow> place \<Rightarrow> int list \<times> int \<times> nat" where
  "xn_cut S p =
     (if pl_i p = 0 then (take (pl_O p) S, 1, pl_O p - 1)
      else let s = 10 ^ nat (7 - pl_i p) in
        (take (pl_O p) S @ [if pl_c p > 0 then quot (pl_b p) (10 ^ nat (pl_h p - pl_c p)) mod 10 ^ nat (pl_c p) * s else 0], s, pl_O p))"

definition xn_round :: "bool \<Rightarrow> decimal \<Rightarrow> int \<Rightarrow> int option \<Rightarrow> (dec_error, decimal) res" where
  "xn_round kn e t a =
     (case xn_place (d_d e) t of
        None \<Rightarrow> Inr e
      | Some p \<Rightarrow>
          (let g = (case a of None \<Rightarrow> False | Some a \<Rightarrow> xn_up e t p a) in
           if t < 1 \<or> hd (d_d e) = 0 then
             (if g then let t = t - Rr_exponent e - 1 in
                Inr (e\<lparr>d_d := [10 ^ nat (jrem (7 - jrem t 7) 7)], d_e := \<lfloor>fl (of_int (- t) / 7)\<rfloor>\<rparr>)
              else Inr dec_zero)
           else
             let (S, s, O') = xn_cut (d_d e) p;
                 (S, ex) = (if g then xn_carry O' s S (d_e e) else (S, d_e e));
                 r = e\<lparr>d_d := strip_zeros S, d_e := ex\<rparr>
             in if kn \<and> (ex > WO \<or> ex < - WO) then Inl (ExponentRange (Rr_exponent r)) else Inr r))"

section \<open>Addition\<close>

definition ceil7 :: "nat \<Rightarrow> nat" where
  "ceil7 S = (S + 6) div 7"

text \<open>The shorter operand's words are added to the longer one, from the right, with the carry.\<close>

fun GB_loop :: "nat \<Rightarrow> int list \<Rightarrow> int list \<Rightarrow> int \<Rightarrow> int list \<times> int" where
  "GB_loop 0 g b a = (g, a)"
| "GB_loop (Suc s) g b a = (let v = g ! s + b ! s + a in GB_loop s (g[s := v mod Kr]) b (quot v Kr))"

text \<open>
  Zeros are put in front of the operand with the smaller exponent; when the gap exceeds the limit
  only its first word is kept, behind that many zeros.
\<close>

definition pad_words :: "nat \<Rightarrow> nat \<Rightarrow> int list \<Rightarrow> int list" where
  "pad_words gap lm i = (if gap > lm then replicate lm 0 @ take 1 i else replicate gap 0 @ i)"

definition finish :: "bool \<Rightarrow> nat \<Rightarrow> decimal \<Rightarrow> (dec_error, decimal) res" where
  "finish kn S t = (if kn then xn_round kn t (int S) None else Inr t)"

definition GB_add :: "bool \<Rightarrow> nat \<Rightarrow> decimal \<Rightarrow> decimal \<Rightarrow> (dec_error, decimal) res" where
  "GB_add kn S e t =
     (if d_s e = 0 \<or> d_s t = 0 then finish kn S (if d_s t \<noteq> 0 then t else e)
      else
        let g = d_d e; b = d_d t; gap = nat \<bar>d_e e - d_e t\<bar>;
            g1 = (if d_e e < d_e t then pad_words gap (max (ceil7 S) (length b) + 1) g else g);
            b1 = (if d_e e > d_e t then pad_words gap (max (ceil7 S) (length g) + 1) b else b);
            (x, y) = (if length g1 < length b1 then (b1, g1) else (g1, b1));
            (r, a) = GB_loop (length y) x y 0;
            c = max (d_e e) (d_e t);
            (r, c) = (if a \<noteq> 0 then (a # r, c + 1) else (r, c))
        in finish kn S (t\<lparr>d_d := strip_zeros r, d_e := c\<rparr>))"

section \<open>Subtraction\<close>

text \<open>Whether the words of the first operand are smaller.\<close>

fun words_less :: "int list \<Rightarrow> int list \<Rightarrow> bool" where
  "words_less (x # xs) (y # ys) = (if x \<noteq> y then x < y else words_less xs ys)"
| "words_less [] ys = (ys \<noteq> [])"
| "words_less (x # xs) [] = False"

text \<open>Borrow from the words left of \<open>c\<close>: zeros become \<open>Kr - 1\<close> up to a word that is not.\<close>

fun XB_borrow :: "nat \<Rightarrow> int list \<Rightarrow> int list" where
  "XB_borrow 0 g = g[0 := g ! 0 - 1]"
| "XB_borrow (Suc s) g = (if g ! s = 0 then XB_borrow s (g[s := Kr - 1]) else g[s := g ! s - 1])"

definition XB_word :: "nat \<Rightarrow> int list \<Rightarrow> int list \<Rightarrow> int list" where
  "XB_word c g S =
     (let g1 = (if g ! c < S ! c then let g2 = XB_borrow c g in g2[c := g2 ! c + Kr] else g) in g1[c := g1 ! c - S ! c])"

fun XB_loop :: "nat \<Rightarrow> nat \<Rightarrow> int list \<Rightarrow> int list \<Rightarrow> int list" where
  "XB_loop h 0 g S = g"
| "XB_loop h (Suc c) g S = (if Suc c > h then XB_loop h c (XB_word c g S) S else g)"

definition XB_sub :: "bool \<Rightarrow> nat \<Rightarrow> decimal \<Rightarrow> decimal \<Rightarrow> (dec_error, decimal) res" where
  "XB_sub kn w e t =
     (if d_s e = 0 \<or> d_s t = 0 then finish kn w (if d_s t \<noteq> 0 then t\<lparr>d_s := - d_s t\<rparr> else e)
      else
        let g = d_d e; S = d_d t; gap = nat \<bar>d_e e - d_e t\<bar>;
            less = (if d_e e = d_e t then words_less g S else d_e e < d_e t);
            lm = max (ceil7 w) (length (if d_e e < d_e t then S else g)) + 2;
            h = min gap lm;
            g1 = (if d_e e < d_e t then pad_words gap lm g else g);
            S1 = (if d_e e > d_e t then pad_words gap lm S else S);
            (x, y) = (if less then (S1, g1) else (g1, S1));
            s = (if less then - d_s t else d_s t);
            r = strip_zeros (XB_loop h (length y) (x @ replicate (length y - length x) 0) y);
            r' = dropWhile (\<lambda>w. w = 0) r;
            i = max (d_e e) (d_e t) - int (length r - length r')
        in if r' \<noteq> [] then finish kn w (t\<lparr>d_s := s, d_d := r', d_e := i\<rparr>) else Inr dec_zero)"

definition Ke_plus :: "bool \<Rightarrow> nat \<Rightarrow> decimal \<Rightarrow> decimal \<Rightarrow> (dec_error, decimal) res" where
  "Ke_plus kn S t e = (if d_s t = d_s e then GB_add kn S t e else XB_sub kn S t (e\<lparr>d_s := - d_s e\<rparr>))"

definition Ke_minus :: "bool \<Rightarrow> nat \<Rightarrow> decimal \<Rightarrow> decimal \<Rightarrow> (dec_error, decimal) res" where
  "Ke_minus kn S t e = (if d_s t = d_s e then XB_sub kn S t e else GB_add kn S t (e\<lparr>d_s := - d_s e\<rparr>))"

section \<open>Multiplication\<close>

text \<open>Row \<open>i\<close>: the word \<open>wi\<close> times the words of \<open>E\<close>, from the right, added into the result.\<close>

fun tm_row :: "int \<Rightarrow> int list \<Rightarrow> nat \<Rightarrow> nat \<Rightarrow> int list \<Rightarrow> int \<Rightarrow> int list \<times> int" where
  "tm_row wi E i 0 s t = (s, t)"
| "tm_row wi E i (Suc k) s t =
     (let c = Suc k + i; y = s ! c + wi * E ! k + t in tm_row wi E i k (s[c := y mod Kr]) (quot y Kr))"

fun tm_rows :: "int list \<Rightarrow> int list \<Rightarrow> nat \<Rightarrow> int list \<Rightarrow> int \<Rightarrow> int list \<times> int" where
  "tm_rows E w 0 s t = (s, t)"
| "tm_rows E w (Suc i) s t =
     (let (s, t) = tm_row (w ! i) E i (length E) s 0 in tm_rows E w i (s[i := (s ! i + t) mod Kr]) t)"

definition Ke_times :: "bool \<Rightarrow> nat \<Rightarrow> decimal \<Rightarrow> decimal \<Rightarrow> (dec_error, decimal) res" where
  "Ke_times kn S O' e =
     (if d_s O' = 0 \<or> d_s e = 0 then Inr dec_zero
      else
        let (E, w) = (if length (d_d O') < length (d_d e) then (d_d e, d_d O') else (d_d O', d_d e));
            (s, t) = tm_rows E w (length w) (replicate (length E + length w) 0) 0;
            s = strip_zeros s; a = d_e O' + d_e e;
            (s, a) = (if t \<noteq> 0 then (s, a + 1) else (tl s, a))
        in finish kn S \<lparr>d_s = d_s e * d_s O', d_e = a, d_d = s\<rparr>)"

section \<open>Values\<close>

abbreviation kr :: rat where
  "kr \<equiv> of_int Kr"

fun frac_of :: "int list \<Rightarrow> rat" where
  "frac_of [] = 0"
| "frac_of (d # ds) = of_int d + frac_of ds / kr"

definition dec_val :: "decimal \<Rightarrow> rat" where
  "dec_val x = of_int (d_s x) * frac_of (d_d x) * kr powi d_e x"

definition word :: "int \<Rightarrow> bool" where
  "word w \<longleftrightarrow> 0 \<le> w \<and> w < Kr"

definition words :: "int list \<Rightarrow> bool" where
  "words S \<longleftrightarrow> list_all word S"

definition dec_ok :: "decimal \<Rightarrow> bool" where
  "dec_ok x \<longleftrightarrow> x = dec_zero \<or>
     (d_s x = 1 \<or> d_s x = -1) \<and> words (d_d x) \<and> d_d x \<noteq> [] \<and> hd (d_d x) \<noteq> 0 \<and> last (d_d x) \<noteq> 0"

end
