(* ===== verification/Decimal_Values.thy ===== *)
theory Decimal_Values
  imports Decimal
begin

text \<open>
  The value of a list of words, what padding, cutting and updating do to it, and the two loops that
  work on words alone: the multiplication and the cut of \<open>xn\<close>.
\<close>

section \<open>Words and values\<close>

lemma Kr_pos [simp]: "0 < Kr" "Kr \<noteq> 0" "0 \<le> Kr" "(0::rat) < kr" "kr \<noteq> 0" "1 < Kr"
  by (simp_all add: Kr_def)

text \<open>The integral part of the rounded quotient is the quotient.\<close>

lemma quot_div:
  assumes "0 \<le> y" "y < 2 ^ 53" "0 < k"
  shows "quot y k = y div k"
proof -
  let ?x = "of_int y / of_int k :: rat"
  have fx: "\<lfloor>?x\<rfloor> = y div k" by (rule floor_divide_of_int_eq)
  have "y \<le> k * (y div k) + (k - 1)" using assms(3) pos_mod_bound [of k y] mult_div_mod_eq [of k y] by linarith
  then have "of_int y \<le> (of_int (k * (y div k) + (k - 1)) :: rat)" by (simp only: of_int_le_iff)
  moreover have "of_int y / 2 ^ 53 < (1 :: rat)"
  proof -
    have "of_int y < (of_int (2 ^ 53) :: rat)" using assms(2) by (simp only: of_int_less_iff)
    then show ?thesis by simp
  qed
  ultimately have "of_int y + of_int y / 2 ^ 53 < of_int k * (of_int (y div k) + 1 :: rat)" by (simp add: algebra_simps)
  then have "?x + ?x / 2 ^ 53 < of_int (\<lfloor>?x\<rfloor> + 1)"
    using assms(3) by (simp add: fx field_simps)
  moreover have "y div k \<le> y" using assms(1,3) zdiv_mono2 [of y 1 k] by simp
  then have "\<lfloor>?x\<rfloor> \<le> 2 ^ 53" using assms by (simp add: fx)
  moreover have "0 \<le> ?x" using assms by simp
  ultimately show ?thesis using floor_fl [of ?x] by (simp add: quot_def fx)
qed

lemma frac_of_append: "frac_of (xs @ ys) = frac_of xs + frac_of ys / kr ^ length xs"
  by (induction xs) (simp_all add: field_simps)

lemma frac_of_zeros [simp]: "frac_of (replicate n 0) = 0"
  by (induction n) simp_all

lemma frac_of_pad: "frac_of (replicate n 0 @ xs) = frac_of xs / kr ^ n"
  by (simp add: frac_of_append)

lemma frac_of_pad_right [simp]: "frac_of (xs @ replicate n 0) = frac_of xs"
  by (simp add: frac_of_append)

lemma strip_zeros_split: "\<exists>n. S = strip_zeros S @ replicate n 0"
proof -
  have "rev S = takeWhile (\<lambda>w. w = 0) (rev S) @ dropWhile (\<lambda>w. w = 0) (rev S)" by simp
  moreover have "takeWhile (\<lambda>w. w = 0) (rev S) = replicate (length (takeWhile (\<lambda>w. w = 0) (rev S))) 0"
    by (metis (mono_tags, lifting) map_replicate_const map_idI set_takeWhileD)
  ultimately have "S = strip_zeros S @ rev (replicate (length (takeWhile (\<lambda>w. w = 0) (rev S))) 0)"
    unfolding strip_zeros_def by (metis rev_append rev_rev_ident)
  then show ?thesis by auto
qed

lemma frac_of_strip [simp]: "frac_of (strip_zeros S) = frac_of S"
  using strip_zeros_split [of S] by (metis frac_of_pad_right)

lemma strip_zeros_words: "words S \<Longrightarrow> words (strip_zeros S)"
  using strip_zeros_split [of S] by (metis words_def list_all_append)

lemma strip_zeros_last: "strip_zeros S \<noteq> [] \<Longrightarrow> last (strip_zeros S) \<noteq> 0"
proof -
  assume "strip_zeros S \<noteq> []"
  then have "dropWhile (\<lambda>w. w = 0) (rev S) \<noteq> []" by (simp add: strip_zeros_def)
  from hd_dropWhile [OF this] show ?thesis by (simp add: strip_zeros_def last_rev)
qed

lemma strip_zeros_hd: "S \<noteq> [] \<Longrightarrow> hd S \<noteq> 0 \<Longrightarrow> strip_zeros S \<noteq> [] \<and> hd (strip_zeros S) = hd S"
proof -
  assume a: "S \<noteq> []" "hd S \<noteq> 0"
  obtain n where n: "S = strip_zeros S @ replicate n 0" using strip_zeros_split by blast
  show ?thesis
  proof (cases "strip_zeros S = []")
    case True
    then show ?thesis using n a by (cases n) auto
  next
    case False
    then show ?thesis using n by (metis hd_append2)
  qed
qed

lemma frac_of_update:
  "i < length xs \<Longrightarrow> frac_of (xs[i := v]) = frac_of xs + of_int (v - xs ! i) / kr ^ i"
proof (induction xs arbitrary: i)
  case (Cons x xs)
  show ?case
  proof (cases i)
    case (Suc j)
    then have "frac_of (xs[j := v]) = frac_of xs + of_int (v - xs ! j) / kr ^ j" using Cons by simp
    then show ?thesis using Suc by (simp add: add_divide_distrib mult.commute)
  qed simp
qed simp

lemma words_simps [simp]: "words []" "words (x # xs) \<longleftrightarrow> word x \<and> words xs" "words (xs @ ys) \<longleftrightarrow> words xs \<and> words ys"
  "words (replicate n 0)"
  by (auto simp: words_def word_def list_all_iff)

lemma words_nth: "words xs \<Longrightarrow> i < length xs \<Longrightarrow> 0 \<le> xs ! i \<and> xs ! i < Kr"
  by (auto simp: words_def word_def list_all_length)

lemma words_update: "words xs \<Longrightarrow> word v \<Longrightarrow> words (xs[i := v])"
  by (auto simp: words_def list_all_iff dest: set_update_subset_insert [THEN subsetD])

lemma frac_of_bounds: "words xs \<Longrightarrow> 0 \<le> frac_of xs \<and> frac_of xs < kr"
proof (induction xs)
  case (Cons x xs)
  then have a: "frac_of xs / kr < 1" "0 \<le> frac_of xs / kr" by simp_all
  have "of_int x \<le> (of_int (Kr - 1) :: rat)" using Cons.prems unfolding of_int_le_iff by (simp add: word_def)
  then have "of_int x + frac_of xs / kr < kr" using a(1) unfolding of_int_diff of_int_1 by linarith
  moreover have "0 \<le> (of_int x :: rat)" using Cons.prems by (simp add: word_def)
  ultimately show ?case using a by simp
qed simp

lemma frac_of_ge_hd: "words xs \<Longrightarrow> xs \<noteq> [] \<Longrightarrow> of_int (hd xs) \<le> frac_of xs"
  by (cases xs) (auto simp: frac_of_bounds)

lemma word_mod [simp]: "word (y mod Kr)"
  by (simp add: word_def)

section \<open>Multiplication\<close>

lemma word_div:
  assumes "0 \<le> x" "x < Kr * Kr"
  shows "word (x div Kr)"
proof -
  have "\<not> Kr \<le> x div Kr"
  proof
    assume "Kr \<le> x div Kr"
    then have "Kr * Kr \<le> Kr * (x div Kr)" by (intro mult_left_mono) auto
    also have "\<dots> \<le> x" using mult_div_mod_eq [of Kr x] pos_mod_sign [OF Kr_pos(1), of x] by linarith
    finally show False using assms(2) by simp
  qed
  then show ?thesis using assms(1) by (simp add: word_def pos_imp_zdiv_nonneg_iff)
qed

lemma carry_bound:
  assumes "word a" "word b" "word c" "word t"
  shows "0 \<le> a + b * c + t" "a + b * c + t < Kr * Kr" "quot (a + b * c + t) Kr = (a + b * c + t) div Kr"
    "word ((a + b * c + t) div Kr)"
proof -
  have "b * c \<le> (Kr - 1) * (Kr - 1)" using assms by (intro mult_mono) (auto simp: word_def)
  then show u: "a + b * c + t < Kr * Kr" using assms by (simp add: word_def Kr_def)
  show z: "0 \<le> a + b * c + t" using assms by (simp add: word_def)
  have "a + b * c + t < 2 ^ 53" using u by (simp add: Kr_def)
  then show q: "quot (a + b * c + t) Kr = (a + b * c + t) div Kr" using quot_div z by simp
  show "word ((a + b * c + t) div Kr)"
    by (rule word_div [OF z u])
qed

lemma quot_mod: "of_int (y mod Kr) + of_int (y div Kr) * kr = (of_int y :: rat)"
  by (metis mod_mult_div_eq mult.commute of_int_add of_int_mult add.commute)

lemma tm_row_spec:
  assumes "words s" "words E" "k \<le> length E" "k + i < length s" "word wi" "word t" "tm_row wi E i k s t = (s', t')"
  shows "words s' \<and> word t' \<and> length s' = length s \<and> (\<forall>j \<le> i. s' ! j = s ! j) \<and>
    frac_of s' + of_int t' / kr ^ i = frac_of s + of_int t / kr ^ (k + i) + of_int wi * frac_of (take k E) / kr ^ Suc i"
  using assms
proof (induction k arbitrary: s t)
  case (Suc k)
  let ?c = "Suc k + i"
  let ?y = "s ! ?c + wi * E ! k + t"
  have w: "word (s ! ?c)" "word (E ! k)" using Suc.prems words_nth [of s ?c] words_nth [of E k] by (auto simp: word_def)
  note cb = carry_bound [OF w(1) Suc.prems(5) w(2) Suc.prems(6)]
  have r: "tm_row wi E i k (s[?c := ?y mod Kr]) (?y div Kr) = (s', t')" using Suc.prems(7) cb(3) by (simp add: Let_def)
  have "words s' \<and> word t' \<and> length s' = length (s[?c := ?y mod Kr]) \<and> (\<forall>j \<le> i. s' ! j = s[?c := ?y mod Kr] ! j) \<and>
    frac_of s' + of_int t' / kr ^ i = frac_of (s[?c := ?y mod Kr]) + of_int (?y div Kr) / kr ^ (k + i) + of_int wi * frac_of (take k E) / kr ^ Suc i"
    using Suc.prems cb(4) by (intro Suc.IH [OF _ _ _ _ _ _ r]) (auto intro: words_update)
  moreover have "frac_of (s[?c := ?y mod Kr]) + of_int (?y div Kr) / kr ^ (k + i) =
      frac_of s + of_int t / kr ^ ?c + of_int wi * of_int (E ! k) / kr ^ ?c"
  proof -
    have "of_int (?y div Kr) / kr ^ (k + i) = of_int (?y div Kr) * kr / kr ^ ?c" by simp
    then have "of_int (?y mod Kr) / kr ^ ?c + of_int (?y div Kr) / kr ^ (k + i) = of_int ?y / kr ^ ?c"
      using quot_mod [of ?y] by (simp only: add_divide_distrib [symmetric])
    moreover have "frac_of (s[?c := ?y mod Kr]) = frac_of s + of_int (?y mod Kr - s ! ?c) / kr ^ ?c"
      using Suc.prems by (intro frac_of_update) simp
    ultimately show ?thesis by (simp add: add_divide_distrib diff_divide_distrib)
  qed
  moreover have "frac_of (take (Suc k) E) = frac_of (take k E) + of_int (E ! k) / kr ^ k"
    using Suc.prems by (simp add: take_Suc_conv_app_nth frac_of_append)
  ultimately show ?case by (simp add: distrib_left add_divide_distrib power_add mult_ac)
qed auto

lemma tm_rows_spec:
  assumes "words s" "words E" "words w" "i \<le> length w" "length s = length E + length w" "E \<noteq> []" "word t"
    "\<forall>j < i. s ! j = 0" "i = 0 \<longrightarrow> s ! 0 = t" "tm_rows E w i s t = (s', t')"
  shows "words s' \<and> length s' = length s \<and> s' ! 0 = t' \<and> frac_of s' = frac_of s + frac_of (take i w) * frac_of E / kr"
  using assms
proof (induction i arbitrary: s t)
  case (Suc i)
  obtain s1 t1 where r: "tm_row (w ! i) E i (length E) s 0 = (s1, t1)" by (cases "tm_row (w ! i) E i (length E) s 0")
  have "word (w ! i)" using Suc.prems words_nth [of w i] by (simp add: word_def)
  then have s1: "words s1" "word t1" "length s1 = length s" "\<forall>j \<le> i. s1 ! j = s ! j"
    "frac_of s1 + of_int t1 / kr ^ i = frac_of s + of_int (w ! i) * frac_of E / kr ^ Suc i"
    using tm_row_spec [OF Suc.prems(1,2) _ _ _ _ r] Suc.prems by (auto simp: word_def)
  have z: "s1 ! i = 0" "i < length s1" using s1 Suc.prems(4,5,8) by auto
  have m: "(s1 ! i + t1) mod Kr = t1" using s1(2) z by (simp add: word_def)
  let ?s = "s1[i := t1]"
  have f: "frac_of ?s = frac_of s1 + of_int t1 / kr ^ i" using frac_of_update [OF z(2), of t1] z(1) by simp
  have "tm_rows E w i ?s t1 = (s', t')" using Suc.prems(10) r m by simp
  then have "words s' \<and> length s' = length ?s \<and> s' ! 0 = t' \<and> frac_of s' = frac_of ?s + frac_of (take i w) * frac_of E / kr"
    using Suc.prems s1 z by (intro Suc.IH [of ?s t1]) (auto intro: words_update)
  moreover have "frac_of (take (Suc i) w) = frac_of (take i w) + of_int (w ! i) / kr ^ i"
    using Suc.prems(4) by (simp add: take_Suc_conv_app_nth frac_of_append)
  ultimately show ?case using s1(3,5) f by (simp add: distrib_right add_divide_distrib)
qed auto

lemma strip_zeros_Cons: "strip_zeros v \<noteq> [] \<Longrightarrow> strip_zeros (x # v) = x # strip_zeros v"
proof -
  assume "strip_zeros v \<noteq> []"
  then obtain y where "y \<in> set (rev v)" "y \<noteq> 0" by (auto simp: strip_zeros_def)
  then have "dropWhile (\<lambda>w. w = 0) (rev v @ [x]) = dropWhile (\<lambda>w. w = 0) (rev v) @ [x]" by (rule dropWhile_append1)
  then show ?thesis by (simp add: strip_zeros_def)
qed

lemma frac_ge1_hd:
  assumes "words v" "1 \<le> frac_of v"
  shows "v \<noteq> [] \<and> hd v \<noteq> 0"
proof (cases v)
  case (Cons a u)
  then have "frac_of u / kr < 1" using assms(1) frac_of_bounds [of u] by simp
  then show ?thesis using assms(2) Cons by auto
qed (use assms in simp)

lemma hd_frac_ge1: "words v \<Longrightarrow> v \<noteq> [] \<Longrightarrow> hd v \<noteq> 0 \<Longrightarrow> 1 \<le> frac_of v"
proof -
  assume a: "words v" "v \<noteq> []" "hd v \<noteq> 0"
  then have "1 \<le> hd v" using words_nth [of v 0] by (auto simp: hd_conv_nth)
  then have "1 \<le> (of_int (hd v) :: rat)" by simp
  then show ?thesis using frac_of_ge_hd [OF a(1,2)] by linarith
qed

lemma strip_zeros_ok:
  assumes "words v" "1 \<le> frac_of v"
  shows "words (strip_zeros v) \<and> strip_zeros v \<noteq> [] \<and> hd (strip_zeros v) \<noteq> 0 \<and> last (strip_zeros v) \<noteq> 0"
  using frac_ge1_hd [OF assms] strip_zeros_hd [of v] strip_zeros_words [OF assms(1)] strip_zeros_last [of v] by auto

lemma dec_ok_nz: "dec_ok x \<Longrightarrow> d_s x \<noteq> 0 \<Longrightarrow> (d_s x = 1 \<or> d_s x = -1) \<and> words (d_d x) \<and> d_d x \<noteq> [] \<and> hd (d_d x) \<noteq> 0 \<and> last (d_d x) \<noteq> 0"
  by (auto simp: dec_ok_def dec_zero_def)

lemma dec_ok_z: "dec_ok x \<Longrightarrow> d_s x = 0 \<longleftrightarrow> x = dec_zero"
  by (auto simp: dec_ok_def dec_zero_def)

lemma dec_val_zero [simp]: "dec_val dec_zero = 0" "d_s dec_zero = 0" "dec_ok dec_zero"
  by (simp_all add: dec_val_def dec_zero_def dec_ok_def)

lemma Ke_times_exact:
  assumes "dec_ok x" "dec_ok y"
  shows "\<exists>z. Ke_times kn S x y = (if d_s x = 0 \<or> d_s y = 0 then Inr dec_zero else finish kn S z) \<and>
    dec_ok z \<and> dec_val z = dec_val x * dec_val y \<and> \<bar>d_e z\<bar> \<le> \<bar>d_e x\<bar> + \<bar>d_e y\<bar> + 1"
proof (cases "d_s x = 0 \<or> d_s y = 0")
  case True
  then have "dec_val x * dec_val y = 0" by (auto simp: dec_val_def)
  then show ?thesis using True by (intro exI [of _ dec_zero]) (simp add: Ke_times_def, simp add: dec_zero_def)
next
  case False
  obtain E w where E: "(E, w) = (if length (d_d x) < length (d_d y) then (d_d y, d_d x) else (d_d x, d_d y))"
    by (cases "length (d_d x) < length (d_d y)") auto
  obtain s t where st: "tm_rows E w (length w) (replicate (length E + length w) 0) 0 = (s, t)"
    by (cases "tm_rows E w (length w) (replicate (length E + length w) 0) 0")
  note nx = dec_ok_nz [OF assms(1)] and ny = dec_ok_nz [OF assms(2)]
  have ew: "words E" "words w" "E \<noteq> []" "w \<noteq> []" "frac_of w * frac_of E = frac_of (d_d x) * frac_of (d_d y)"
    "hd E \<noteq> 0" "hd w \<noteq> 0"
    using nx ny False E by (auto simp: mult.commute split: if_splits)
  have s: "words s \<and> length s = length E + length w \<and> s ! 0 = t \<and> frac_of s = frac_of (d_d x) * frac_of (d_d y) / kr"
    using tm_rows_spec [OF _ ew(1,2) _ _ ew(3) _ _ _ st] ew(4,5) by (simp add: word_def)
  have "1 \<le> frac_of w" "1 \<le> frac_of E" using hd_frac_ge1 ew by auto
  then have "1 \<le> frac_of w * frac_of E" by (metis mult_mono mult_1 zero_le_one order_trans)
  then have pos: "1 / kr \<le> frac_of s" using s ew(5) by (simp add: divide_right_mono)
  obtain u v where s0: "s = u # v" using s ew(3) by (cases s) auto
  then have u: "u = t" "words v" "word t" using s by auto
  define z where "z = \<lparr>d_s = d_s y * d_s x, d_e = (if t \<noteq> 0 then d_e x + d_e y + 1 else d_e x + d_e y),
    d_d = (if t \<noteq> 0 then strip_zeros s else tl (strip_zeros s))\<rparr>"
  have eq: "Ke_times kn S x y = finish kn S z"
    using False E st by (auto simp: Ke_times_def z_def Let_def split: if_splits)
  have d: "words (d_d z) \<and> d_d z \<noteq> [] \<and> hd (d_d z) \<noteq> 0 \<and> last (d_d z) \<noteq> 0 \<and>
      frac_of (d_d z) = frac_of s * (if t \<noteq> 0 then 1 else kr)"
  proof (cases "t = 0")
    case True
    then have "frac_of v = frac_of s * kr" using s0 u by simp
    moreover from this have "1 \<le> frac_of v" using pos by (simp add: divide_le_eq)
    ultimately show ?thesis
      using True strip_zeros_ok [OF u(2)] strip_zeros_Cons [of v u] by (simp add: z_def s0)
  next
    case False
    then have "1 \<le> frac_of s" using hd_frac_ge1 [of s] s s0 u by auto
    then show ?thesis using False strip_zeros_ok [of s] s by (simp add: z_def)
  qed
  moreover have "d_s z = 1 \<or> d_s z = -1" using nx ny False by (auto simp: z_def)
  moreover have "dec_val z = dec_val x * dec_val y"
    using d s by (simp add: dec_val_def power_int_add) (simp add: z_def power_int_add)
  moreover have "\<bar>d_e z\<bar> \<le> \<bar>d_e x\<bar> + \<bar>d_e y\<bar> + 1" by (auto simp: z_def)
  ultimately show ?thesis using eq False by (auto simp: dec_ok_def)
qed

section \<open>Cutting off\<close>

lemma ndig_bounds: "0 \<le> n \<Longrightarrow> 1 \<le> ndig n \<and> n < 10 ^ nat (ndig n) \<and> (1 \<le> n \<longrightarrow> 10 ^ nat (ndig n - 1) \<le> n)"
proof (induction n rule: ndig.induct)
  case (1 n)
  show ?case
  proof (cases "10 \<le> n")
    case True
    let ?k = "ndig (n div 10)"
    have ih: "1 \<le> ?k" "n div 10 < 10 ^ nat ?k" "10 ^ nat (?k - 1) \<le> n div 10" using 1 True by simp_all
    have "nat (?k + 1) = Suc (nat ?k)" "nat ?k = Suc (nat (?k - 1))" using ih(1) by simp_all
    moreover have "n < 10 * 10 ^ nat ?k" "10 * 10 ^ nat (?k - 1) \<le> n" using ih(2,3) by linarith+
    ultimately show ?thesis using ih(1) True ndig.simps [of n] by simp
  qed (use 1 ndig.simps [of n] in simp)
qed

lemma ndig_word:
  assumes "word n" shows "1 \<le> ndig n \<and> ndig n \<le> 7"
proof -
  have b: "1 \<le> ndig n" "1 \<le> n \<longrightarrow> 10 ^ nat (ndig n - 1) \<le> n" using ndig_bounds [of n] assms by (auto simp: word_def)
  have "\<not> 7 < ndig n"
  proof
    assume a: "7 < ndig n"
    then have "1 \<le> n" using ndig.simps [of n] by (auto split: if_splits)
    then have "10 ^ nat (ndig n - 1) \<le> n" using b by simp
    moreover have "(10::int) ^ 7 \<le> 10 ^ nat (ndig n - 1)" using a by (intro power_increasing) auto
    ultimately show False using assms by (simp add: word_def Kr_def)
  qed
  then show ?thesis using b by simp
qed

lemma int_frac: "\<exists>n. frac_of A * kr ^ length A = kr * of_int n"
proof (induction A rule: rev_induct)
  case (snoc a A)
  then obtain n where "frac_of A * kr ^ length A = kr * of_int n" by blast
  then have "frac_of (A @ [a]) * kr ^ length (A @ [a]) = kr * of_int (Kr * n + a)"
    by (simp add: frac_of_append distrib_right mult_ac) (simp add: algebra_simps)
  then show ?case by blast
qed (simp add: exI [of _ 0])

lemma floor_digits:
  fixes b :: int and \<beta> :: rat
  assumes "0 \<le> \<beta>" "\<beta> < 1"
  shows "\<lfloor>(of_int b + \<beta>) / 10 ^ r\<rfloor> = b div 10 ^ r"
proof -
  let ?k = "10 ^ r :: int"
  have k: "(10 ^ r :: rat) = of_int ?k" "0 < ?k" by simp_all
  have d: "?k * (b div ?k) + b mod ?k = b" "0 \<le> b mod ?k" "b mod ?k \<le> ?k - 1"
    using mult_div_mod_eq [of ?k b] pos_mod_sign [OF k(2), of b] pos_mod_bound [OF k(2), of b] by linarith+
  have "(of_int b :: rat) = of_int ?k * of_int (b div ?k) + of_int (b mod ?k)" by (metis d(1) of_int_add of_int_mult)
  moreover have "(of_int (b mod ?k) :: rat) \<le> of_int ?k - 1" "(0::rat) \<le> of_int (b mod ?k)"
    using d(2,3) by (metis of_int_le_iff of_int_diff of_int_1) (use d(2) in simp)
  ultimately have "of_int ?k * of_int (b div ?k) \<le> of_int b + \<beta>" "of_int b + \<beta> < of_int ?k * of_int (b div ?k) + of_int ?k"
    using assms by linarith+
  then show ?thesis
    unfolding k(1) by (intro floor_unique) (use k(2) in \<open>simp_all add: field_simps\<close>)
qed

text \<open>Cutting a fraction inside the word after the words \<open>A\<close>, \<open>r\<close> digits from its end.\<close>

lemma floor_cut:
  assumes "words (A @ b # B)" "r \<le> 7"
  shows "of_int \<lfloor>frac_of (A @ b # B) * kr ^ length A / 10 ^ r\<rfloor> * 10 ^ r / kr ^ length A =
    frac_of (A @ [b div 10 ^ r * 10 ^ r])"
proof -
  obtain n where n: "frac_of A * kr ^ length A = kr * of_int n" using int_frac by blast
  have "kr = 10 ^ (7 - r) * 10 ^ r" using assms(2) by (simp add: Kr_def flip: power_add)
  then have kn: "kr * of_int n / 10 ^ r = of_int (10 ^ (7 - r) * n)" by simp
  let ?\<beta> = "frac_of B / kr"
  have \<beta>: "0 \<le> ?\<beta>" "?\<beta> < 1" using assms(1) frac_of_bounds [of B] by simp_all
  have "frac_of (A @ b # B) * kr ^ length A = kr * of_int n + (of_int b + ?\<beta>)"
    using n by (simp add: frac_of_append distrib_right [of "frac_of A"])
  then have "frac_of (A @ b # B) * kr ^ length A / 10 ^ r = of_int (10 ^ (7 - r) * n) + (of_int b + ?\<beta>) / 10 ^ r"
    by (simp only: add_divide_distrib kn)
  then have "\<lfloor>frac_of (A @ b # B) * kr ^ length A / 10 ^ r\<rfloor> = 10 ^ (7 - r) * n + b div 10 ^ r"
    using floor_add_int [of "(of_int b + ?\<beta>) / 10 ^ r" "10 ^ (7 - r) * n"] floor_digits [OF \<beta>, of b r] by (simp only: add.commute)
  then have "of_int \<lfloor>frac_of (A @ b # B) * kr ^ length A / 10 ^ r\<rfloor> * 10 ^ r = (kr * of_int n + of_int (b div 10 ^ r * 10 ^ r) :: rat)"
    using kn by (auto simp: distrib_right field_simps)
  moreover have "frac_of A = kr * of_int n / kr ^ length A" using n by (simp add: eq_divide_eq)
  ultimately show ?thesis by (simp add: frac_of_append add_divide_distrib)
qed

lemma div_less_mult:
  fixes x k q :: int
  assumes "0 < k" "x < k * q"
  shows "x div k < q"
proof (rule ccontr)
  assume "\<not> x div k < q"
  then have "k * q \<le> k * (x div k)" using assms(1) by (intro mult_left_mono) auto
  also have "\<dots> \<le> x" using mult_div_mod_eq [of k x] pos_mod_sign [OF assms(1), of x] by linarith
  finally show False using assms(2) by simp
qed

lemma cut_word:
  assumes "word b" "h = ndig b" "h - c = 7 - i" "0 < i" "i < 7"
  shows "(if c > 0 then quot b (10 ^ nat (h - c)) mod 10 ^ nat c * 10 ^ nat (7 - i) else 0) = b div 10 ^ nat (7 - i) * 10 ^ nat (7 - i)"
proof -
  have b: "0 \<le> b" "b < 2 ^ 53" using assms(1) by (auto simp: word_def Kr_def)
  have h: "1 \<le> h" "b < 10 ^ nat h" using ndig_bounds [OF b(1)] assms(2) by auto
  show ?thesis
  proof (cases "c > 0")
    case True
    have "nat h = nat (h - c) + nat c" using True assms(3-5) by simp
    then have "b < 10 ^ nat (h - c) * 10 ^ nat c" using h(2) by (simp add: power_add)
    then have "b div 10 ^ nat (h - c) < 10 ^ nat c" by (intro div_less_mult) simp_all
    moreover have "0 \<le> b div 10 ^ nat (h - c)" using b(1) by (simp add: pos_imp_zdiv_nonneg_iff)
    ultimately have "quot b (10 ^ nat (h - c)) mod 10 ^ nat c = b div 10 ^ nat (h - c)" using quot_div [OF b] by simp
    then show ?thesis using True assms(3) by simp
  next
    case False
    then have "nat h \<le> nat (7 - i)" using assms(3) by simp
    then have "(10::int) ^ nat h \<le> 10 ^ nat (7 - i)" by (intro power_increasing) auto
    then have "b < 10 ^ nat (7 - i)" using h(2) by linarith
    then show ?thesis using False b by simp
  qed
qed

text \<open>The place that \<open>xn\<close> finds, and what is left of the words when they are cut there.\<close>

lemma xn_place_cut:
  assumes "words S" "S \<noteq> []" "1 \<le> t" "m = t - ndig (hd S)" "xn_place S t = Some p"
  shows "words (fst (xn_cut S p)) \<and> frac_of (fst (xn_cut S p)) * 10 powi m = of_int \<lfloor>frac_of S * 10 powi m\<rfloor>"
proof -
  have hS: "word (hd S)" using assms(1,2) by (cases S) auto
  define r where "r = nat (7 - pl_i p)"
  have p: "pl_O p < length S \<and> pl_b p = S ! pl_O p \<and> pl_h p = ndig (pl_b p) \<and> pl_h p - pl_c p = 7 - pl_i p \<and>
      0 \<le> pl_i p \<and> pl_i p < 7 \<and> 10 powi m = kr ^ pl_O p / 10 ^ r"
  proof (cases "m < 0")
    case True
    then have "p = \<lparr>pl_O = 0, pl_i = m + 7, pl_c = t, pl_b = hd S, pl_h = ndig (hd S)\<rparr>"
      using assms(4,5) by (simp add: xn_place_def Let_def)
    moreover have "0 < m + 7" "m + 7 < 7" using ndig_word [OF hS] assms(3,4) True by simp_all
    ultimately show ?thesis
      using assms(2,4) True by (simp add: hd_conv_nth r_def power_int_def field_simps)
  next
    case False
    then have pp: "p = \<lparr>pl_O = nat ((m + 7) div 7), pl_i = m mod 7, pl_c = m mod 7 - 7 + ndig (S ! nat ((m + 7) div 7)),
        pl_b = S ! nat ((m + 7) div 7), pl_h = ndig (S ! nat ((m + 7) div 7))\<rparr>" "nat ((m + 7) div 7) < length S"
      using assms(4,5) by (auto simp: xn_place_def Let_def split: if_splits)
    have "7 * (m div 7) + m mod 7 = m" "0 \<le> m div 7" "m mod 7 < 7" using False by (simp_all add: pos_imp_zdiv_nonneg_iff)
    then have "nat m + nat (7 - m mod 7) = 7 * nat (m div 7 + 1)" using False by linarith
    then have "nat m + r = 7 * nat ((m + 7) div 7)" using pp(1) by (simp add: r_def)
    then have "(10::rat) ^ nat m * 10 ^ r = kr ^ nat ((m + 7) div 7)"
      by (simp add: Kr_def power_mult flip: power_add)
    then show ?thesis using pp False by (simp add: power_int_def field_simps)
  qed
  let ?O = "pl_O p"
  have wb: "word (pl_b p)" using p words_nth [OF assms(1), of ?O] by (simp add: word_def)
  have S: "take ?O S @ pl_b p # drop (Suc ?O) S = S" using p by (simp add: Cons_nth_drop_Suc)
  have r: "r \<le> 7" using p unfolding r_def by linarith
  have v: "fst (xn_cut S p) = (if pl_i p = 0 then take ?O S else take ?O S @ [pl_b p div 10 ^ r * 10 ^ r])"
  proof (cases "pl_i p = 0")
    case False
    then have "(if pl_c p > 0 then quot (pl_b p) (10 ^ nat (pl_h p - pl_c p)) mod 10 ^ nat (pl_c p) * 10 ^ r else 0) =
        pl_b p div 10 ^ r * 10 ^ r"
      unfolding r_def using p by (intro cut_word [OF wb]) auto
    then show ?thesis using False unfolding xn_cut_def Let_def r_def by (simp only: fst_conv if_False)
  qed (simp add: xn_cut_def)
  have "pl_i p = 0 \<Longrightarrow> pl_b p div 10 ^ r = 0" using wb by (simp add: r_def word_def Kr_def)
  then have f: "frac_of (fst (xn_cut S p)) = frac_of (take ?O S @ [pl_b p div 10 ^ r * 10 ^ r])"
    using v by (auto simp: frac_of_append)
  have fc: "of_int \<lfloor>frac_of S * kr ^ ?O / 10 ^ r\<rfloor> * 10 ^ r / kr ^ ?O = frac_of (fst (xn_cut S p))"
    using floor_cut [of "take ?O S" "pl_b p" "drop (Suc ?O) S" r, unfolded S, OF assms(1) r] p unfolding f by simp
  have "words (take ?O S)" using assms(1) by (metis append_take_drop_id words_simps(3))
  moreover have "word (pl_b p div 10 ^ r * 10 ^ r)"
  proof -
    have "0 \<le> pl_b p mod 10 ^ r" by simp
    then have "pl_b p div 10 ^ r * 10 ^ r \<le> pl_b p" using div_mult_mod_eq [of "pl_b p" "10 ^ r"] by linarith
    moreover have "0 \<le> pl_b p div 10 ^ r" using wb by (simp add: word_def pos_imp_zdiv_nonneg_iff)
    ultimately show ?thesis using wb by (simp add: word_def)
  qed
  ultimately have "words (fst (xn_cut S p))" using v by simp
  moreover have "frac_of (fst (xn_cut S p)) * 10 powi m = of_int \<lfloor>frac_of S * 10 powi m\<rfloor>"
    using p unfolding fc [symmetric] by simp
  ultimately show ?thesis ..
qed

lemma Rr_hd: "Rr_exponent x + 1 - t = 7 * d_e x - (t - ndig (hd (d_d x)))"
  by (simp add: Rr_exponent_def)

lemma kr_powi: "kr powi e = 10 powi (7 * e)"
proof -
  have "kr = 10 powi 7" by (simp add: Kr_def)
  then show ?thesis by (simp only: power_int_mult)
qed

lemma whole_digits:
  assumes "S \<noteq> []" "7 * (int (length S) - 1) \<le> m"
  shows "of_int \<lfloor>frac_of S * 10 powi m\<rfloor> = frac_of S * (10 powi m :: rat)"
proof -
  obtain n where n: "frac_of S * kr ^ length S = kr * of_int n" using int_frac by blast
  obtain k where k: "m = 7 * (int (length S) - 1) + int k" using assms(2) zle_iff_zadd by blast
  have "(10 :: rat) powi m = kr ^ length S / kr * 10 ^ k"
    unfolding k using assms(1) by (simp add: power_int_add right_diff_distrib power_int_diff kr_powi [symmetric]) (simp add: Kr_def)
  then have "frac_of S * 10 powi m = (frac_of S * kr ^ length S) / kr * 10 ^ k" by simp
  also have "\<dots> = of_int (n * 10 ^ k)" by (simp add: n)
  finally show ?thesis by simp
qed

lemma xn_round_cut:
  assumes "dec_ok x" "d_s x \<noteq> 0" "1 \<le> t"
  defines "m \<equiv> t - ndig (hd (d_d x))"
  shows "\<exists>r. dec_ok r \<and> d_s r = d_s x \<and> d_e r = d_e x \<and> frac_of (d_d r) * 10 powi m = of_int \<lfloor>frac_of (d_d x) * 10 powi m\<rfloor> \<and>
    xn_round kn x t None =
      (if kn \<and> \<bar>d_e x\<bar> > WO \<and> xn_place (d_d x) t \<noteq> None then Inl (ExponentRange (Rr_exponent r)) else Inr r)"
proof -
  note x = dec_ok_nz [OF assms(1,2)]
  show ?thesis
  proof (cases "xn_place (d_d x) t")
    case None
    then have "0 \<le> m" "length (d_d x) \<le> nat ((m + 7) div 7)"
      by (auto simp: xn_place_def m_def Let_def not_less split: if_splits)
    then have w: "of_int \<lfloor>frac_of (d_d x) * 10 powi m\<rfloor> = frac_of (d_d x) * (10 powi m :: rat)"
      using x by (intro whole_digits) auto
    show ?thesis
    proof (intro exI conjI)
      show "frac_of (d_d x) * 10 powi m = of_int \<lfloor>frac_of (d_d x) * 10 powi m\<rfloor>" by (rule w [symmetric])
    qed (use None assms(1) in \<open>simp_all add: xn_round_def\<close>)
  next
    case (Some p)
    define r where "r = x\<lparr>d_d := strip_zeros (fst (xn_cut (d_d x) p))\<rparr>"
    have c: "words (fst (xn_cut (d_d x) p))" "frac_of (fst (xn_cut (d_d x) p)) * 10 powi m = of_int \<lfloor>frac_of (d_d x) * 10 powi m\<rfloor>"
      using xn_place_cut [OF _ _ assms(3) _ Some] x by (auto simp: m_def)
    have "1 \<le> frac_of (fst (xn_cut (d_d x) p))"
    proof -
      let ?h = "ndig (hd (d_d x))"
      have "1 \<le> hd (d_d x)" using x words_nth [of "d_d x" 0] by (auto simp: hd_conv_nth)
      then have h: "1 \<le> ?h" "10 ^ nat (?h - 1) \<le> hd (d_d x)" using ndig_bounds [of "hd (d_d x)"] by simp_all
      then have "10 ^ nat (?h - 1) \<le> (of_int (hd (d_d x)) :: rat)" by (metis of_int_le_iff of_int_power of_int_numeral)
      also have "\<dots> \<le> frac_of (d_d x)" using x by (intro frac_of_ge_hd) auto
      finally have "10 powi (?h - 1) \<le> frac_of (d_d x)" using h(1) by (simp add: power_int_def)
      then have "10 powi (?h - 1) * 10 powi m \<le> frac_of (d_d x) * 10 powi m" by (intro mult_right_mono) auto
      moreover have "10 powi (?h - 1) * 10 powi m = (of_int (10 ^ nat (t - 1)) :: rat)"
      proof -
        have "(10 :: rat) powi (?h - 1) * 10 powi m = 10 powi (?h - 1 + m)" by (rule power_int_add [symmetric]) simp
        also have "?h - 1 + m = t - 1" by (simp add: m_def)
        finally show ?thesis using assms(3) by (simp add: power_int_def)
      qed
      ultimately have "10 ^ nat (t - 1) \<le> \<lfloor>frac_of (d_d x) * 10 powi m\<rfloor>" by (simp add: le_floor_iff)
      then have "of_int (10 ^ nat (t - 1)) \<le> frac_of (fst (xn_cut (d_d x) p)) * 10 powi m" unfolding c(2) of_int_le_iff .
      then have "10 powi (?h - 1) \<le> frac_of (fst (xn_cut (d_d x) p))"
        unfolding \<open>10 powi (?h - 1) * 10 powi m = (of_int (10 ^ nat (t - 1)) :: rat)\<close> [symmetric] by simp
      moreover have "(1 :: rat) \<le> 10 powi (?h - 1)" using h(1) by (simp add: one_le_power_int)
      ultimately show ?thesis by linarith
    qed
    from strip_zeros_ok [OF c(1) this] have "dec_ok r" using x by (simp add: dec_ok_def r_def)
    moreover have "\<not> (t < 1 \<or> hd (d_d x) = 0)" using assms(3) x by simp
    then have "xn_round kn x t None = (if kn \<and> \<bar>d_e x\<bar> > WO then Inl (ExponentRange (Rr_exponent r)) else Inr r)"
      using Some by (auto simp: xn_round_def r_def Let_def split: prod.splits)
    ultimately show ?thesis using c(2) Some by (intro exI [of _ r]) (simp add: r_def)
  qed
qed

end
