(* ===== verification/Decimal_Correct.thy ===== *)
theory Decimal_Correct
  imports Decimal_Values
begin

text \<open>
  The decimal operations compute with the values of their operands: comparison, sum, difference and
  product, the last three cut off at the precision.
\<close>

section \<open>Comparison\<close>

lemma frac_pos: "words xs \<Longrightarrow> xs \<noteq> [] \<Longrightarrow> last xs \<noteq> 0 \<Longrightarrow> 0 < frac_of xs"
proof (induction xs)
  case (Cons x xs)
  show ?case
  proof (cases "xs = []")
    case True
    then show ?thesis using Cons.prems by (simp add: word_def)
  next
    case False
    then have "0 < frac_of xs / kr" using Cons by simp
    then show ?thesis using Cons.prems by (simp add: word_def add_nonneg_pos)
  qed
qed simp

lemma frac_less_first:
  assumes "words (x # xs)" "words (y # ys)" "x < y"
  shows "frac_of (x # xs) < frac_of (y # ys)"
proof -
  have "of_int x + 1 \<le> (of_int y :: rat)" using assms(3) by (metis of_int_le_iff of_int_add of_int_1 zless_imp_add1_zle)
  moreover have "frac_of xs / kr < 1" "0 \<le> frac_of ys / kr" using frac_of_bounds [of xs] frac_of_bounds [of ys] assms by simp_all
  ultimately show ?thesis unfolding frac_of.simps by linarith
qed

definition sign_int :: "rat \<Rightarrow> int" where
  "sign_int v = (if v < 0 then -1 else if v = 0 then 0 else 1)"

lemma cmp_words_spec:
  assumes "words xs" "words ys" "xs \<noteq> [] \<longrightarrow> last xs \<noteq> 0" "ys \<noteq> [] \<longrightarrow> last ys \<noteq> 0"
  shows "cmp_words xs ys neg = (if neg then -1 else 1) * sign_int (frac_of xs - frac_of ys)"
  using assms
proof (induction xs ys neg rule: cmp_words.induct)
  case (1 x xs y ys neg)
  show ?case
  proof (cases "x = y")
    case True
    have "cmp_words xs ys neg = (if neg then -1 else 1) * sign_int (frac_of xs - frac_of ys)"
      using 1 True by (simp split: if_splits)
    moreover have "sign_int (frac_of (x # xs) - frac_of (y # ys)) = sign_int (frac_of xs - frac_of ys)"
      using True by (simp add: sign_int_def divide_strict_right_mono_neg divide_less_cancel) (simp add: Kr_def)
    ultimately show ?thesis using True by simp
  next
    case False
    then show ?thesis
      using frac_less_first [OF 1(2,3)] frac_less_first [OF 1(3,2)] by (cases "x < y") (auto simp: sign_int_def)
  qed
next
  case (3 x xs neg)
  then have "0 < frac_of (x # xs)" by (intro frac_pos) auto
  then show ?case by (simp add: sign_int_def)
next
  case (4 y ys neg)
  then have "0 < frac_of (y # ys)" by (intro frac_pos) auto
  then show ?case by (simp add: sign_int_def)
qed (simp add: sign_int_def)

lemma dec_frac: "dec_ok x \<Longrightarrow> d_s x \<noteq> 0 \<Longrightarrow> 1 \<le> frac_of (d_d x) \<and> frac_of (d_d x) < kr"
  using dec_ok_nz [of x] hd_frac_ge1 [of "d_d x"] frac_of_bounds [of "d_d x"] by blast

lemma exponent_less:
  assumes "dec_ok x" "dec_ok y" "d_s x \<noteq> 0" "d_s y \<noteq> 0" "d_e x < d_e y"
  shows "frac_of (d_d x) * kr powi d_e x < frac_of (d_d y) * kr powi d_e y"
proof -
  have "frac_of (d_d x) * kr powi d_e x < kr * kr powi d_e x" using dec_frac [OF assms(1,3)] by simp
  also have "\<dots> = kr powi (1 + d_e x)" by (subst power_int_add) simp_all
  also have "\<dots> \<le> kr powi d_e y" using assms(5) by (intro power_int_increasing) (auto simp: Kr_def)
  also have "\<dots> \<le> frac_of (d_d y) * kr powi d_e y" using dec_frac [OF assms(2,4)] by simp
  finally show ?thesis .
qed

lemma sign_int_scale: "0 < k \<Longrightarrow> sign_int (v * k) = sign_int v"
  by (simp add: sign_int_def mult_less_0_iff)

lemma dec_val_sign: "dec_ok x \<Longrightarrow> sign_int (dec_val x) = d_s x"
proof (cases "d_s x = 0")
  case False
  assume ok: "dec_ok x"
  have "0 < frac_of (d_d x) * kr powi d_e x" using dec_frac [OF ok False] by simp
  then show ?thesis using dec_ok_nz [OF ok False] by (auto simp: dec_val_def sign_int_def mult.assoc)
qed (simp add: dec_val_def sign_int_def)

lemma Ke_cmp_spec:
  assumes "dec_ok x" "dec_ok y"
  shows "Ke_cmp x y = sign_int (dec_val x - dec_val y)"
proof (cases "d_s x = d_s y")
  case False
  have "sign_int (dec_val x) = d_s x" "sign_int (dec_val y) = d_s y" using assms dec_val_sign by auto
  then show ?thesis using False unfolding Ke_cmp_def by (auto simp: sign_int_def split: if_splits)
next
  case s: True
  show ?thesis
  proof (cases "d_s x = 0")
    case True
    then show ?thesis using s assms dec_ok_z by (simp add: Ke_cmp_def dec_zero_def sign_int_def)
  next
    case False
    note nx = dec_ok_nz [OF assms(1) False] and ny = dec_ok_nz [OF assms(2)]
    let ?X = "frac_of (d_d x) * kr powi d_e x" and ?Y = "frac_of (d_d y) * kr powi d_e y"
    have v: "dec_val x - dec_val y = of_int (d_s x) * (?X - ?Y)" using s by (simp add: dec_val_def right_diff_distrib mult.assoc)
    have "Ke_cmp x y = (if d_s x < 0 then -1 else 1) * sign_int (?X - ?Y)"
    proof (cases "d_e x = d_e y")
      case True
      have "sign_int (?X - ?Y) = sign_int (frac_of (d_d x) - frac_of (d_d y))"
        using sign_int_scale [of "kr powi d_e y" "frac_of (d_d x) - frac_of (d_d y)"] True by (simp add: left_diff_distrib)
      then show ?thesis using s True nx ny False by (simp add: Ke_cmp_def cmp_words_spec)
    next
      case ne: False
      then show ?thesis
        using s exponent_less [OF assms] exponent_less [OF assms(2,1)] False
        by (cases "d_e x < d_e y") (auto simp: Ke_cmp_def sign_int_def)
    qed
    also have "\<dots> = sign_int (dec_val x - dec_val y)" unfolding v using nx by (auto simp: sign_int_def)
    finally show ?thesis .
  qed
qed

section \<open>Addition\<close>

lemma GB_loop_spec:
  assumes "words g" "words b" "s \<le> length b" "s \<le> length g" "0 \<le> a" "a \<le> 1" "GB_loop s g b a = (g', a')"
  shows "words g' \<and> 0 \<le> a' \<and> a' \<le> 1 \<and> length g' = length g \<and>
    frac_of g' + of_int a' * kr = frac_of g + frac_of (take s b) + of_int a * kr / kr ^ s"
  using assms
proof (induction s arbitrary: g a)
  case (Suc s)
  let ?v = "g ! s + b ! s + a"
  have w: "0 \<le> g ! s" "g ! s < Kr" "0 \<le> b ! s" "b ! s < Kr" using Suc.prems words_nth [of g s] words_nth [of b s] by auto
  have v: "0 \<le> ?v" "?v < Kr * 2" using w Suc.prems by auto
  then have q: "quot ?v Kr = ?v div Kr" by (intro quot_div) (auto simp: Kr_def)
  have c: "0 \<le> ?v div Kr" "?v div Kr < 2" using v div_less_mult [of Kr ?v 2] by (simp_all add: pos_imp_zdiv_nonneg_iff)
  have r: "GB_loop s (g[s := ?v mod Kr]) b (?v div Kr) = (g', a')" using Suc.prems(7) q by (simp add: Let_def)
  have "words g' \<and> 0 \<le> a' \<and> a' \<le> 1 \<and> length g' = length (g[s := ?v mod Kr]) \<and>
    frac_of g' + of_int a' * kr = frac_of (g[s := ?v mod Kr]) + frac_of (take s b) + of_int (?v div Kr) * kr / kr ^ s"
    using Suc.prems c by (intro Suc.IH [OF _ _ _ _ _ _ r]) (auto intro: words_update)
  moreover have "frac_of (g[s := ?v mod Kr]) = frac_of g + of_int (?v mod Kr - g ! s) / kr ^ s"
    using Suc.prems by (intro frac_of_update) simp
  moreover have "of_int (?v mod Kr) / kr ^ s + of_int (?v div Kr) * kr / kr ^ s = of_int ?v / kr ^ s"
    using quot_mod [of ?v] by (simp only: add_divide_distrib [symmetric])
  moreover have "frac_of (take (Suc s) b) = frac_of (take s b) + of_int (b ! s) / kr ^ s"
    using Suc.prems by (simp add: take_Suc_conv_app_nth frac_of_append)
  ultimately show ?case by (simp add: add_divide_distrib diff_divide_distrib)
qed auto

text \<open>The operand with the smaller exponent is not cut off.\<close>

definition close :: "nat \<Rightarrow> nat \<Rightarrow> decimal \<Rightarrow> decimal \<Rightarrow> bool" where
  "close k S x y \<longleftrightarrow> nat \<bar>d_e x - d_e y\<bar> \<le> max (ceil7 S) (length (d_d (if d_e x < d_e y then y else x))) + k"

lemma pad_words_close: "gap \<le> lm \<Longrightarrow> pad_words gap lm i = replicate gap 0 @ i"
  by (simp add: pad_words_def)

lemma align:
  assumes "e \<le> c"
  shows "frac_of (replicate (nat (c - e)) 0 @ ds) * kr powi c = frac_of ds * kr powi e"
proof -
  have "kr powi c = kr powi e * kr ^ nat (c - e)"
    using assms power_int_add [of kr e "c - e"] by (simp add: power_int_def)
  then show ?thesis by (simp add: frac_of_pad)
qed

text \<open>Both operands with the larger exponent.\<close>

definition left_words :: "decimal \<Rightarrow> decimal \<Rightarrow> int list" where
  "left_words x y = replicate (nat (max (d_e x) (d_e y) - d_e x)) 0 @ d_d x"

lemma left_words_spec:
  assumes "dec_ok x" "d_s x \<noteq> 0"
  shows "words (left_words x y)" "frac_of (left_words x y) * kr powi max (d_e x) (d_e y) = frac_of (d_d x) * kr powi d_e x"
    "0 < frac_of (left_words x y)" "d_e y \<le> d_e x \<Longrightarrow> left_words x y = d_d x"
proof -
  show "words (left_words x y)" using dec_ok_nz [OF assms] by (simp add: left_words_def)
  show "frac_of (left_words x y) * kr powi max (d_e x) (d_e y) = frac_of (d_d x) * kr powi d_e x"
    unfolding left_words_def by (rule align) simp
  show "0 < frac_of (left_words x y)" using dec_frac [OF assms] by (simp add: left_words_def frac_of_pad)
  show "d_e y \<le> d_e x \<Longrightarrow> left_words x y = d_d x" by (simp add: left_words_def)
qed

lemma GB_add_exact:
  assumes "dec_ok x" "dec_ok y" "d_s x = d_s y" "d_s x \<noteq> 0" "close 1 S x y"
  shows "\<exists>z. GB_add kn S x y = finish kn S z \<and> dec_ok z \<and> d_s z = d_s x \<and> dec_val z = dec_val x + dec_val y \<and> \<bar>d_e z\<bar> \<le> max \<bar>d_e x\<bar> \<bar>d_e y\<bar> + 1"
proof -
  have ny: "d_s y \<noteq> 0" using assms(3,4) by simp
  let ?g = "left_words x y" and ?b = "left_words y x"
  note g = left_words_spec [OF assms(1,4), of y] and b = left_words_spec [OF assms(2) ny, of x]
  define u v where "u = (if length ?g < length ?b then ?b else ?g)" and "v = (if length ?g < length ?b then ?g else ?b)"
  have uv: "words u" "words v" "length v \<le> length u" "frac_of u + frac_of v = frac_of ?g + frac_of ?b"
    using g b by (auto simp: u_def v_def)
  obtain r a where ra: "GB_loop (length v) u v 0 = (r, a)" by (cases "GB_loop (length v) u v 0")
  have r: "words r" "0 \<le> a" "a \<le> 1" "frac_of r + of_int a * kr = frac_of ?g + frac_of ?b"
    using GB_loop_spec [OF uv(1,2) _ uv(3) _ _ ra] uv(4) by auto
  define z where "z = y\<lparr>d_d := strip_zeros (if a \<noteq> 0 then a # r else r), d_e := max (d_e x) (d_e y) + (if a \<noteq> 0 then 1 else 0)\<rparr>"
  have pg: "(if d_e x < d_e y then pad_words (nat \<bar>d_e x - d_e y\<bar>) (max (ceil7 S) (length (d_d y)) + 1) (d_d x) else d_d x) = ?g"
    "(if d_e x > d_e y then pad_words (nat \<bar>d_e x - d_e y\<bar>) (max (ceil7 S) (length (d_d x)) + 1) (d_d y) else d_d y) = ?b"
    using assms(5) by (auto simp: close_def left_words_def pad_words_close max_def split: if_splits)
  have eq: "GB_add kn S x y = finish kn S z"
    using assms(4) ny ra unfolding GB_add_def Let_def pg by (auto simp: z_def u_def v_def split: if_splits)
  have "1 \<le> frac_of ?g + frac_of ?b"
    using g b dec_frac [OF assms(1,4)] dec_frac [OF assms(2) ny] by (cases "d_e y \<le> d_e x") auto
  then have "1 \<le> frac_of (if a \<noteq> 0 then a # r else r)" "words (if a \<noteq> 0 then a # r else r)"
    using r frac_of_bounds [OF r(1)] by (auto simp: word_def Kr_def)
  from strip_zeros_ok [OF this(2,1)] have "dec_ok z" using dec_ok_nz [OF assms(2) ny] by (simp add: dec_ok_def z_def)
  moreover have "frac_of (d_d z) * kr powi d_e z = (frac_of ?g + frac_of ?b) * kr powi max (d_e x) (d_e y)"
    using r(4) by (auto simp: z_def power_int_add distrib_right field_simps)
  then have "dec_val z = dec_val x + dec_val y"
    using g(2) b(2) assms(3) by (simp add: dec_val_def z_def distrib_right distrib_left max.commute mult.assoc)
  ultimately show ?thesis using eq assms(3) by (intro exI [of _ z]) (auto simp: z_def)
qed

section \<open>Subtraction\<close>

lemma XB_borrow_spec:
  assumes "words g" "c \<le> length g" "\<exists>j < c. g ! j \<noteq> 0"
  shows "words (XB_borrow c g) \<and> length (XB_borrow c g) = length g \<and> (\<forall>j \<ge> c. XB_borrow c g ! j = g ! j) \<and>
    frac_of (XB_borrow c g) = frac_of g - kr / kr ^ c"
  using assms
proof (induction c arbitrary: g)
  case (Suc s)
  have s: "s < length g" using Suc.prems by simp
  show ?case
  proof (cases "g ! s = 0")
    case True
    let ?g = "g[s := Kr - 1]"
    obtain j where j: "j < Suc s" "g ! j \<noteq> 0" using Suc.prems(3) by blast
    with True have "j < s" by (metis less_Suc_eq)
    then have "\<exists>j < s. ?g ! j \<noteq> 0" using j by (intro exI [of _ j]) simp
    moreover have "words ?g" using Suc.prems(1) by (intro words_update) (simp_all add: word_def)
    ultimately have ih: "words (XB_borrow s ?g)" "length (XB_borrow s ?g) = length ?g" "\<forall>j \<ge> s. XB_borrow s ?g ! j = ?g ! j"
      "frac_of (XB_borrow s ?g) = frac_of ?g - kr / kr ^ s"
      using Suc.IH [of ?g] s by auto
    have "frac_of ?g = frac_of g + (kr - 1) / kr ^ s" using frac_of_update [OF s, of "Kr - 1"] True by simp
    then have "frac_of (XB_borrow s ?g) = frac_of g - 1 / kr ^ s" using ih(4) by (simp add: diff_divide_distrib)
    then show ?thesis using True ih by simp
  next
    case False
    then have "word (g ! s - 1)" using words_nth [OF Suc.prems(1) s] by (simp add: word_def)
    moreover have "frac_of (g[s := g ! s - 1]) = frac_of g - 1 / kr ^ s" using frac_of_update [OF s, of "g ! s - 1"] by simp
    ultimately show ?thesis using False Suc.prems(1) by (simp add: words_update)
  qed
qed simp

lemma left_nonzero:
  assumes "words g" "words S" "c < length g" "c < length S" "g ! c < S ! c" "frac_of (take (Suc c) S) \<le> frac_of g"
  shows "\<exists>j < c. g ! j \<noteq> 0"
proof (rule ccontr)
  assume "\<not> (\<exists>j < c. g ! j \<noteq> 0)"
  then have "take c g = replicate c 0" using assms(3) by (intro nth_equalityI) auto
  then have gsplit: "g = replicate c 0 @ g ! c # drop (Suc c) g" using assms(3) by (metis id_take_nth_drop)
  then have fg: "frac_of g = frac_of (g ! c # drop (Suc c) g) / kr ^ c" by (metis frac_of_pad)
  have wd: "words (drop (Suc c) g)" using assms(1) by (metis append_take_drop_id words_simps(3))
  have wg: "word (g ! c)" "word (S ! c)" using assms words_nth by (auto simp: word_def)
  have "frac_of (g ! c # drop (Suc c) g) < frac_of [S ! c]" using wd wg assms(5) by (intro frac_less_first) auto
  then have "frac_of g < of_int (S ! c) / kr ^ c" unfolding fg by (simp add: divide_strict_right_mono)
  also have "\<dots> \<le> frac_of (take (Suc c) S)"
  proof -
    have "words (take c S)" using assms(2) by (metis append_take_drop_id words_simps(3))
    then show ?thesis using assms(4) frac_of_bounds [of "take c S"] by (simp add: take_Suc_conv_app_nth frac_of_append)
  qed
  finally show False using assms(6) by simp
qed

lemma XB_word_spec:
  assumes "words g" "words S" "c < length g" "c < length S" "frac_of (take (Suc c) S) \<le> frac_of g"
  shows "words (XB_word c g S) \<and> length (XB_word c g S) = length g \<and> frac_of (XB_word c g S) = frac_of g - of_int (S ! c) / kr ^ c"
proof (cases "g ! c < S ! c")
  case True
  let ?g = "XB_borrow c g"
  have b: "words ?g" "length ?g = length g" "?g ! c = g ! c" "frac_of ?g = frac_of g - kr / kr ^ c"
    using XB_borrow_spec [OF assms(1) _ left_nonzero [OF assms(1-4) True assms(5)]] assms(3) by auto
  have e: "XB_word c g S = ?g[c := g ! c + Kr - S ! c]" using True b assms(3) by (simp add: XB_word_def Let_def)
  have "word (g ! c + Kr - S ! c)" using True words_nth [OF assms(1,3)] words_nth [OF assms(2,4)] by (simp add: word_def)
  moreover have "frac_of (?g[c := g ! c + Kr - S ! c]) = frac_of ?g + of_int (g ! c + Kr - S ! c - g ! c) / kr ^ c"
    using frac_of_update [of c ?g] b assms(3) by simp
  ultimately show ?thesis using b e by (simp add: words_update diff_divide_distrib)
next
  case False
  then have "word (g ! c - S ! c)" using words_nth [OF assms(1,3)] words_nth [OF assms(2,4)] by (simp add: word_def)
  then show ?thesis
    using False assms frac_of_update [OF assms(3), of "g ! c - S ! c"] by (simp add: XB_word_def words_update)
qed

lemma XB_loop_spec:
  assumes "words g" "words S" "c \<le> length g" "c \<le> length S" "\<forall>j < h. j < c \<longrightarrow> S ! j = 0" "frac_of (take c S) \<le> frac_of g"
  shows "words (XB_loop h c g S) \<and> length (XB_loop h c g S) = length g \<and> frac_of (XB_loop h c g S) = frac_of g - frac_of (take c S)"
  using assms
proof (induction c arbitrary: g)
  case (Suc c)
  show ?case
  proof (cases "Suc c > h")
    case True
    let ?g = "XB_word c g S"
    have w: "words ?g" "length ?g = length g" "frac_of ?g = frac_of g - of_int (S ! c) / kr ^ c"
      using XB_word_spec [of g S c] Suc.prems by auto
    have t: "frac_of (take (Suc c) S) = frac_of (take c S) + of_int (S ! c) / kr ^ c"
      using Suc.prems by (simp add: take_Suc_conv_app_nth frac_of_append)
    have "words (XB_loop h c ?g S) \<and> length (XB_loop h c ?g S) = length ?g \<and> frac_of (XB_loop h c ?g S) = frac_of ?g - frac_of (take c S)"
      using Suc.prems w t by (intro Suc.IH) auto
    then show ?thesis using True w t by simp
  next
    case False
    then have "take (Suc c) S = replicate (Suc c) 0" using Suc.prems by (intro nth_equalityI) (auto simp: nth_Cons')
    then show ?thesis using False Suc.prems by (simp del: replicate_Suc)
  qed
qed simp

lemma words_less_spec:
  assumes "words xs" "words ys"
  shows "if words_less xs ys then frac_of xs \<le> frac_of ys else frac_of ys \<le> frac_of xs"
  using assms
proof (induction xs ys rule: words_less.induct)
  case (1 x xs y ys)
  show ?case
  proof (cases "x = y")
    case True
    then show ?thesis using 1 by (auto simp: divide_right_mono split: if_splits)
  next
    case False
    then show ?thesis using frac_less_first [OF 1(2,3)] frac_less_first [OF 1(3,2)] by auto
  qed
qed (auto dest: frac_of_bounds simp: frac_of_bounds add_nonneg_nonneg word_def)

lemma XB_sub_exact:
  assumes "dec_ok x" "dec_ok y" "d_s x = d_s y" "d_s x \<noteq> 0" "close 2 S x y"
  shows "\<exists>z. XB_sub kn S x y = (if dec_val x = dec_val y then Inr dec_zero else finish kn S z) \<and> dec_ok z \<and> dec_val z = dec_val x - dec_val y \<and>
    d_e z \<le> max \<bar>d_e x\<bar> \<bar>d_e y\<bar> \<and> - \<bar>d_e x\<bar> - \<bar>d_e y\<bar> - int (length (d_d x)) - int (length (d_d y)) \<le> d_e z"
proof -
  have ny: "d_s y \<noteq> 0" using assms(3,4) by simp
  let ?g = "left_words x y" and ?b = "left_words y x"
  let ?gap = "nat \<bar>d_e x - d_e y\<bar>"
  note g = left_words_spec [OF assms(1,4), of y] and b = left_words_spec [OF assms(2) ny, of x]
  have b2: "frac_of ?b * kr powi max (d_e x) (d_e y) = frac_of (d_d y) * kr powi d_e y" using b(2) by (simp only: max.commute)
  define less where "less = (if d_e x = d_e y then words_less (d_d x) (d_d y) else d_e x < d_e y)"
  define u v where "u = (if less then ?b else ?g)" and "v = (if less then ?g else ?b)"
  have w: "words u" "words v" using g b by (auto simp: u_def v_def)
  have le: "frac_of v \<le> frac_of u"
  proof (cases "d_e x = d_e y")
    case True
    then show ?thesis
      using words_less_spec [of "d_d x" "d_d y"] dec_ok_nz [OF assms(1,4)] dec_ok_nz [OF assms(2) ny]
      by (simp add: u_def v_def less_def left_words_def split: if_splits)
  next
    case False
    have p: "0 < kr powi max (d_e x) (d_e y)" by simp
    have "frac_of v * kr powi max (d_e x) (d_e y) < frac_of u * kr powi max (d_e x) (d_e y)"
    proof (cases less)
      case True
      then have "d_e x < d_e y" using False by (simp add: less_def)
      then show ?thesis unfolding u_def v_def if_P [OF True] g(2) b2 by (rule exponent_less [OF assms(1,2,4) ny])
    next
      case nless: False
      then have "d_e y < d_e x" using False by (simp add: less_def split: if_splits)
      then show ?thesis unfolding u_def v_def if_not_P [OF nless] g(2) b2 by (rule exponent_less [OF assms(2,1) ny assms(4)])
    qed
    then show ?thesis using p by (simp add: mult_less_cancel_right)
  qed
  define u' where "u' = u @ replicate (length v - length u) 0"
  have h0: "\<forall>j < ?gap. j < length v \<longrightarrow> v ! j = 0"
    by (auto simp: v_def less_def left_words_def nth_append max_def split: if_splits)
  define L where "L = XB_loop ?gap (length v) u' v"
  have L: "words L" "frac_of L = frac_of u - frac_of v" "length L = max (length u) (length v)"
    using XB_loop_spec [of u' v "length v" ?gap] w le h0 by (auto simp: L_def u'_def)
  define r where "r = strip_zeros L"
  define r' where "r' = dropWhile (\<lambda>w. w = 0) r"
  have tk: "takeWhile (\<lambda>w. w = 0) r = replicate (length r - length r') 0"
  proof -
    have "length (takeWhile (\<lambda>w. w = 0) r) = length r - length r'"
      unfolding r'_def by (metis add_diff_cancel_right' length_append takeWhile_dropWhile_id)
    then show ?thesis by (metis (mono_tags, lifting) map_replicate_const map_idI set_takeWhileD)
  qed
  have rr: "r = replicate (length r - length r') 0 @ r'" using tk by (metis r'_def takeWhile_dropWhile_id)
  then have fr: "frac_of r' / kr ^ (length r - length r') = frac_of u - frac_of v"
    by (metis frac_of_pad frac_of_strip L(2) r_def)
  let ?c = "max (d_e x) (d_e y)"
  define z where "z = (if r' = [] then dec_zero else y\<lparr>d_s := (if less then - d_s y else d_s y), d_d := r', d_e := ?c - int (length r - length r')\<rparr>)"
  have pg: "(if d_e x < d_e y then pad_words ?gap (max (ceil7 S) (length (if d_e x < d_e y then d_d y else d_d x)) + 2) (d_d x) else d_d x) = ?g"
    "(if d_e x > d_e y then pad_words ?gap (max (ceil7 S) (length (if d_e x < d_e y then d_d y else d_d x)) + 2) (d_d y) else d_d y) = ?b"
    "min ?gap (max (ceil7 S) (length (if d_e x < d_e y then d_d y else d_d x)) + 2) = ?gap"
    using assms(5) by (auto simp: close_def left_words_def pad_words_close max_def split: if_splits)
  have uv: "(if less then (?b, ?g) else (?g, ?b)) = (u, v)" by (simp add: u_def v_def)
  have "XB_sub kn S x y = (if r' \<noteq> [] then finish kn S z else Inr dec_zero)"
    unfolding XB_sub_def Let_def pg less_def [symmetric] uv prod.case u'_def [symmetric] L_def [symmetric] r_def [symmetric]
      r'_def [symmetric] z_def
    using assms(4) ny by simp
  moreover have val: "dec_val z = dec_val x - dec_val y"
  proof -
    have "frac_of r' * kr powi (?c - int (length r - length r')) = (frac_of u - frac_of v) * kr powi ?c"
      unfolding fr [symmetric] by (simp add: power_int_diff)
    also have "\<dots> = (if less then -1 else 1) * (frac_of (d_d x) * kr powi d_e x - frac_of (d_d y) * kr powi d_e y)"
      using g(2) b(2) by (simp add: u_def v_def left_diff_distrib max.commute)
    finally show ?thesis using assms(3) by (cases less) (auto simp: z_def dec_val_def right_diff_distrib mult.assoc)
  qed
  moreover have ok: "dec_ok z"
  proof (cases "r' = []")
    case False
    have "words r'" using strip_zeros_words [OF L(1)] rr by (metis r_def words_simps(3))
    moreover have "hd r' \<noteq> 0" using hd_dropWhile [OF False [unfolded r'_def]] by (simp add: r'_def)
    moreover have "last r' \<noteq> 0" using False strip_zeros_last [of L] rr by (metis append_is_Nil_conv last_appendR r_def)
    ultimately show ?thesis using False dec_ok_nz [OF assms(2) ny] by (auto simp: dec_ok_def z_def)
  qed (simp add: z_def)
  moreover have "r' = [] \<longleftrightarrow> dec_val x = dec_val y"
    using val ok dec_val_sign [OF ok] dec_ok_nz [OF assms(2) ny] by (auto simp: z_def sign_int_def split: if_splits)
  moreover have "d_e z \<le> max \<bar>d_e x\<bar> \<bar>d_e y\<bar> \<and> - \<bar>d_e x\<bar> - \<bar>d_e y\<bar> - int (length (d_d x)) - int (length (d_d y)) \<le> d_e z"
  proof -
    have "length r \<le> length L" using strip_zeros_split [of L] by (metis r_def length_append le_add1)
    also have "\<dots> \<le> max (length ?g) (length ?b)" using L(3) by (auto simp: u_def v_def)
    finally have "int (length r) \<le> max (max (d_e x) (d_e y) - d_e x + int (length (d_d x))) (max (d_e x) (d_e y) - d_e y + int (length (d_d y)))"
      by (auto simp: left_words_def)
    then show ?thesis by (auto simp: z_def dec_zero_def)
  qed
  ultimately show ?thesis by (intro exI [of _ z]) (auto simp: z_def dec_zero_def)
qed

section \<open>Rounded results\<close>

text \<open>
  \<open>is_trunc t v w\<close>: \<open>w\<close> is \<open>v\<close> cut off after its \<open>t\<close>-th significant decimal digit, counted from the
  position \<open>k\<close> of its first digit.
\<close>

definition is_trunc :: "nat \<Rightarrow> rat \<Rightarrow> rat \<Rightarrow> bool" where
  "is_trunc t v w \<longleftrightarrow> v = 0 \<and> w = 0 \<or>
     (\<exists>k. 10 powi k \<le> \<bar>v\<bar> \<and> \<bar>v\<bar> < 10 powi (k + 1) \<and>
        (let u = 10 powi (k + 1 - int t) in w = of_int (sign_int v) * of_int \<lfloor>\<bar>v\<bar> / u\<rfloor> * u))"

lemma dec_abs: "dec_ok x \<Longrightarrow> d_s x \<noteq> 0 \<Longrightarrow> \<bar>dec_val x\<bar> = frac_of (d_d x) * kr powi d_e x"
  using dec_ok_nz [of x] dec_frac [of x] by (auto simp: dec_val_def abs_mult)

lemma Rr_spec:
  assumes "dec_ok x" "d_s x \<noteq> 0"
  shows "10 powi Rr_exponent x \<le> \<bar>dec_val x\<bar> \<and> \<bar>dec_val x\<bar> < 10 powi (Rr_exponent x + 1)"
proof -
  note x = dec_ok_nz [OF assms]
  let ?h = "ndig (hd (d_d x))"
  obtain a S where S: "d_d x = a # S" using x by (cases "d_d x") auto
  then have a: "1 \<le> a" "words S" using x by (auto simp: word_def)
  have h: "1 \<le> ?h" "10 ^ nat (?h - 1) \<le> a" "a < 10 ^ nat ?h" using ndig_bounds [of a] a S by simp_all
  have "10 powi (?h - 1) = (of_int (10 ^ nat (?h - 1)) :: rat)" using h(1) by (simp add: power_int_def)
  also have "\<dots> \<le> of_int a" using h(2) by (simp only: of_int_le_iff)
  finally have lo: "10 powi (?h - 1) \<le> frac_of (d_d x)" using S frac_of_bounds [OF a(2)] by (simp add: add_increasing2)
  have "of_int a + 1 \<le> (of_int (10 ^ nat ?h) :: rat)" using h(3) by (metis of_int_le_iff of_int_add of_int_1 zless_imp_add1_zle)
  moreover have "of_int (10 ^ nat ?h) = (10 powi ?h :: rat)" using h(1) by (simp add: power_int_def)
  moreover have "frac_of S / kr < 1" using frac_of_bounds [OF a(2)] by simp
  ultimately have hi: "frac_of (d_d x) < 10 powi ?h" unfolding S frac_of.simps by linarith
  have "Rr_exponent x = (?h - 1) + 7 * d_e x" "Rr_exponent x + 1 = ?h + 7 * d_e x" by (simp_all add: Rr_exponent_def)
  then have "10 powi Rr_exponent x = 10 powi (?h - 1) * kr powi d_e x" "10 powi (Rr_exponent x + 1) = 10 powi ?h * kr powi d_e x"
    by (simp_all only: kr_powi) (simp_all add: power_int_add)
  then show ?thesis using lo hi by (simp add: dec_abs [OF assms])
qed

lemma finish_trunc:
  assumes "dec_ok z" "1 \<le> S" "\<bar>d_e z\<bar> \<le> WO"
  shows "\<exists>r. finish True S z = Inr r \<and> dec_ok r \<and> is_trunc S (dec_val z) (dec_val r)"
proof (cases "d_s z = 0")
  case True
  then have z: "z = dec_zero" using dec_ok_z [OF assms(1)] by simp
  have "ndig 0 = 1" by (simp add: ndig.simps)
  then have "xn_round True dec_zero (int S) None = Inr dec_zero"
    using assms(2) by (simp add: xn_round_def xn_place_def dec_zero_def Let_def)
  then show ?thesis using z by (simp add: finish_def is_trunc_def)
next
  case False
  let ?m = "int S - ndig (hd (d_d z))"
  obtain r where r: "dec_ok r" "d_s r = d_s z" "d_e r = d_e z" "frac_of (d_d r) * 10 powi ?m = of_int \<lfloor>frac_of (d_d z) * 10 powi ?m\<rfloor>"
    "xn_round True z (int S) None = Inr r"
    using xn_round_cut [OF assms(1) False, of "int S" True] assms(2,3) by (auto split: if_splits)
  let ?u = "10 powi (Rr_exponent z + 1 - int S) :: rat"
  have u: "?u = kr powi d_e z / 10 powi ?m" unfolding Rr_hd kr_powi by (simp add: power_int_diff)
  have "\<bar>dec_val z\<bar> / ?u = frac_of (d_d z) * 10 powi ?m" unfolding u dec_abs [OF assms(1) False] by simp
  then have "of_int \<lfloor>\<bar>dec_val z\<bar> / ?u\<rfloor> * ?u = frac_of (d_d r) * 10 powi ?m * ?u" using r(4) by (simp only:)
  also have "\<dots> = frac_of (d_d r) * kr powi d_e z" unfolding u by simp
  finally have "of_int \<lfloor>\<bar>dec_val z\<bar> / ?u\<rfloor> * ?u = frac_of (d_d r) * kr powi d_e z" .
  then have "dec_val r = of_int (sign_int (dec_val z)) * of_int \<lfloor>\<bar>dec_val z\<bar> / ?u\<rfloor> * ?u"
    using r(2,3) unfolding dec_val_sign [OF assms(1)] dec_val_def [of r] by (simp add: mult.assoc)
  then have "is_trunc S (dec_val z) (dec_val r)" using Rr_spec [OF assms(1) False] by (auto simp: is_trunc_def Let_def)
  then show ?thesis using r(1,5) by (simp add: finish_def)
qed

text \<open>The exponents and lengths are far from the limit of the exponents.\<close>

definition small :: "decimal \<Rightarrow> decimal \<Rightarrow> bool" where
  "small x y \<longleftrightarrow> \<bar>d_e x\<bar> + \<bar>d_e y\<bar> + int (length (d_d x)) + int (length (d_d y)) < WO"

lemma close_mono: "close 1 S x y \<Longrightarrow> close 2 S x y"
  by (simp add: close_def)

lemma dec_ok_neg: "dec_ok x \<Longrightarrow> dec_ok (x\<lparr>d_s := - d_s x\<rparr>) \<and> dec_val (x\<lparr>d_s := - d_s x\<rparr>) = - dec_val x"
  by (auto simp: dec_ok_def dec_val_def dec_zero_def)

lemma close_small_sign [simp]: "close k S x (y\<lparr>d_s := s\<rparr>) = close k S x y" "small x (y\<lparr>d_s := s\<rparr>) = small x y"
  by (simp_all add: close_def small_def)

lemma GB_add_trunc:
  assumes "dec_ok x" "dec_ok y" "1 \<le> S" "close 1 S x y" "small x y" "d_s x = d_s y \<or> d_s x = 0 \<or> d_s y = 0"
  shows "\<exists>r. GB_add True S x y = Inr r \<and> dec_ok r \<and> is_trunc S (dec_val x + dec_val y) (dec_val r)"
proof (cases "d_s x = 0 \<or> d_s y = 0")
  case True
  let ?z = "if d_s y \<noteq> 0 then y else x"
  have "GB_add True S x y = finish True S ?z" using True by (simp add: GB_add_def)
  moreover have "dec_val ?z = dec_val x + dec_val y" using True by (auto simp: dec_val_def)
  ultimately show ?thesis using finish_trunc [of ?z S] assms by (auto simp: small_def)
next
  case False
  then obtain z where z: "GB_add True S x y = finish True S z" "dec_ok z" "dec_val z = dec_val x + dec_val y" "\<bar>d_e z\<bar> \<le> max \<bar>d_e x\<bar> \<bar>d_e y\<bar> + 1"
    using GB_add_exact [of x y S True] assms by blast
  then show ?thesis using finish_trunc [of z S] assms(3,5) by (auto simp: small_def)
qed

lemma XB_sub_trunc:
  assumes "dec_ok x" "dec_ok y" "1 \<le> S" "close 2 S x y" "small x y" "d_s x = d_s y \<or> d_s x = 0 \<or> d_s y = 0"
  shows "\<exists>r. XB_sub True S x y = Inr r \<and> dec_ok r \<and> is_trunc S (dec_val x - dec_val y) (dec_val r)"
proof (cases "d_s x = 0 \<or> d_s y = 0")
  case True
  let ?z = "if d_s y \<noteq> 0 then y\<lparr>d_s := - d_s y\<rparr> else x"
  have "XB_sub True S x y = finish True S ?z" using True by (simp add: XB_sub_def)
  moreover have "dec_val ?z = dec_val x - dec_val y" using True by (auto simp: dec_val_def)
  moreover have "dec_ok ?z" using assms(1,2) dec_ok_neg by auto
  ultimately show ?thesis using finish_trunc [of ?z S] assms(3,5) by (auto simp: small_def)
next
  case False
  then obtain z where z: "XB_sub True S x y = (if dec_val x = dec_val y then Inr dec_zero else finish True S z)" "dec_ok z"
      "dec_val z = dec_val x - dec_val y" "d_e z \<le> max \<bar>d_e x\<bar> \<bar>d_e y\<bar>"
      "- \<bar>d_e x\<bar> - \<bar>d_e y\<bar> - int (length (d_d x)) - int (length (d_d y)) \<le> d_e z"
    using XB_sub_exact [of x y S True] assms by blast
  then have "\<bar>d_e z\<bar> \<le> WO" using assms(5) by (auto simp: small_def)
  then show ?thesis using finish_trunc [OF z(2) assms(3)] z(1,3) by (auto simp: is_trunc_def)
qed

section \<open>The operations are the operations\<close>

text \<open>
  Comparing two decimals gives the sign of the difference of their values, and the six predicates
  on them are the comparisons of the values.
\<close>

theorem decimal_comparison:
  assumes "dec_ok x" "dec_ok y"
  shows "Ke_cmp x y = sign_int (dec_val x - dec_val y) \<and>
    (Ke_eq x y \<longleftrightarrow> dec_val x = dec_val y) \<and> (Ke_lt x y \<longleftrightarrow> dec_val x < dec_val y) \<and> (Ke_lte x y \<longleftrightarrow> dec_val x \<le> dec_val y) \<and>
    (Ke_gt x y \<longleftrightarrow> dec_val y < dec_val x) \<and> (Ke_gte x y \<longleftrightarrow> dec_val y \<le> dec_val x)"
  unfolding Ke_eq_def Ke_lt_def Ke_lte_def Ke_gt_def Ke_gte_def Ke_cmp_spec [OF assms] by (auto simp: sign_int_def)

text \<open>Two demonstration values, 1234567.9999999 and -0.0000001.\<close>

definition demo_x :: decimal where "demo_x = \<lparr>d_s = 1, d_e = 0, d_d = [1234567, 9999999]\<rparr>"
definition demo_y :: decimal where "demo_y = \<lparr>d_s = -1, d_e = -1, d_d = [1]\<rparr>"

lemma demo_ok: "dec_ok demo_x" "dec_ok demo_y" "small demo_x demo_y" "close 1 20 demo_x demo_y"
  by (simp_all add: demo_x_def demo_y_def dec_ok_def word_def Kr_def small_def close_def WO_def)

theorem decimal_comparison_witness: "Ke_gt demo_x demo_y \<and> dec_val demo_y < dec_val demo_x"
  using decimal_comparison [OF demo_ok(1,2)] by (simp add: demo_x_def demo_y_def dec_val_def Kr_def)

text \<open>
  The product of two decimals is the exact product of their values, cut off after the
  significant digits that the precision allows, and is in normal form again.
\<close>

theorem decimal_times:
  assumes "dec_ok x" "dec_ok y" "1 \<le> S" "small x y"
  shows "\<exists>r. Ke_times True S x y = Inr r \<and> dec_ok r \<and> is_trunc S (dec_val x * dec_val y) (dec_val r)"
proof -
  obtain z where z: "Ke_times True S x y = (if d_s x = 0 \<or> d_s y = 0 then Inr dec_zero else finish True S z)" "dec_ok z"
      "dec_val z = dec_val x * dec_val y" "\<bar>d_e z\<bar> \<le> \<bar>d_e x\<bar> + \<bar>d_e y\<bar> + 1"
    using Ke_times_exact [OF assms(1,2), of True S] by blast
  show ?thesis
  proof (cases "d_s x = 0 \<or> d_s y = 0")
    case True
    then have "dec_val x * dec_val y = 0" by (auto simp: dec_val_def)
    then show ?thesis using z(1) True by (simp add: is_trunc_def)
  next
    case False
    have "0 < length (d_d x)" "0 < length (d_d y)" using dec_ok_nz [OF assms(1)] dec_ok_nz [OF assms(2)] False by auto
    then have "\<bar>d_e z\<bar> \<le> WO" using z(4) assms(4) by (simp add: small_def)
    then show ?thesis using finish_trunc [OF z(2) assms(3)] z(1,3) False by simp
  qed
qed

theorem decimal_times_witness:
  "\<exists>r. Ke_times True 20 demo_x demo_y = Inr r \<and> dec_ok r \<and> is_trunc 20 (dec_val demo_x * dec_val demo_y) (dec_val r)"
  by (rule decimal_times [OF demo_ok(1,2) _ demo_ok(3)]) simp

text \<open>
  C35. Sum and difference of two decimals whose exponents are not farther apart than the precision are
  the exact ones, cut off after the significant digits that the precision allows, in normal form.
\<close>

theorem decimal_plus_minus:
  assumes "dec_ok x" "dec_ok y" "1 \<le> S" "close 1 S x y" "small x y"
  shows "(\<exists>r. Ke_plus True S x y = Inr r \<and> dec_ok r \<and> is_trunc S (dec_val x + dec_val y) (dec_val r)) \<and>
    (\<exists>r. Ke_minus True S x y = Inr r \<and> dec_ok r \<and> is_trunc S (dec_val x - dec_val y) (dec_val r))"
proof -
  let ?n = "y\<lparr>d_s := - d_s y\<rparr>"
  have n: "dec_ok ?n" "dec_val ?n = - dec_val y" using dec_ok_neg [OF assms(2)] by auto
  have c: "close 2 S x y" using close_mono [OF assms(4)] .
  have s: "d_s x \<noteq> d_s y \<Longrightarrow> d_s x = d_s ?n \<or> d_s x = 0 \<or> d_s ?n = 0"
    using assms(1,2) by (auto simp: dec_ok_def dec_zero_def)
  show ?thesis
  proof (cases "d_s x = d_s y")
    case True
    then show ?thesis
      using GB_add_trunc [OF assms] XB_sub_trunc [OF assms(1-3) c assms(5)] by (simp add: Ke_plus_def Ke_minus_def)
  next
    case False
    then show ?thesis
      using GB_add_trunc [OF assms(1) n(1) assms(3)] XB_sub_trunc [OF assms(1) n(1) assms(3)] s c n assms(4,5)
      by (simp add: Ke_plus_def Ke_minus_def)
  qed
qed

theorem decimal_plus_minus_witness:
  "\<exists>r. Ke_plus True 20 demo_x demo_y = Inr r \<and> dec_ok r \<and> is_trunc 20 (dec_val demo_x + dec_val demo_y) (dec_val r)"
  using decimal_plus_minus [OF demo_ok(1,2) _ demo_ok(4,3)] by simp

end
