(* ===== verification/Lodash_Cache.thy ===== *)
theory Lodash_Cache
  imports Js_Prelude
begin

text \<open>
  The caches of lodash that the chart library uses (\<open>src/internal/admin/dist/index-DxrWcVFD.js\<close>, \<open>IP\<close> to \<open>s9\<close> and
  \<open>rY\<close> to \<open>N8\<close>): \<open>Hash\<close>, \<open>ListCache\<close>, \<open>MapCache\<close>, \<open>Stack\<close>, \<open>SetCache\<close>, and \<open>memoize\<close> on top of them.  A value is
  primitive or a reference to an object; numbers are integers here, printed without exponent when they are
  property names, and NaN.  The browser has \<open>Object.create\<close> and \<open>Map\<close>, so the branches for engines without them are
  left out; \<open>Map\<close> compares keys like \<open>vM\<close>.
\<close>

section \<open>Values and keys\<close>

datatype jval = VUndef | VNull | VBool bool | VNum int | VNaN | VStr string | VSym nat | VRef nat

text \<open>\<open>===\<close> and \<open>vM\<close>, which also takes NaN for equal to itself.\<close>

definition strict_eq :: "jval \<Rightarrow> jval \<Rightarrow> bool" where
  "strict_eq a b \<longleftrightarrow> a = b \<and> a \<noteq> VNaN"

definition vM_eq :: "jval \<Rightarrow> jval \<Rightarrow> bool" where
  "vM_eq t a \<longleftrightarrow> strict_eq t a \<or> \<not> strict_eq t t \<and> \<not> strict_eq a a"

lemma vM_eq_iff [simp]: "vM_eq a b \<longleftrightarrow> a = b"
  by (auto simp: vM_eq_def strict_eq_def)

text \<open>Property names: strings and symbols.\<close>

datatype pkey = NStr string | NSym nat

fun to_prop :: "jval \<Rightarrow> pkey" where
  "to_prop (VStr s) = NStr s"
| "to_prop (VSym n) = NSym n"
| "to_prop VNull = NStr ''null''"
| "to_prop VUndef = NStr ''undefined''"
| "to_prop (VBool b) = NStr (if b then ''true'' else ''false'')"
| "to_prop (VNum n) = NStr (int_str n)"
| "to_prop VNaN = NStr ''NaN''"
| "to_prop (VRef n) = NStr ''[object Object]''"

definition sentinel :: jval where
  "sentinel = VStr ''__lodash_hash_undefined__''"

section \<open>Hash\<close>

record hash =
  hs_data :: "pkey \<rightharpoonup> jval"
  hs_size :: int

definition IP_clear :: hash where
  "IP_clear = \<lparr>hs_data = Map.empty, hs_size = 0\<rparr>"

definition KP_has :: "hash \<Rightarrow> jval \<Rightarrow> bool" where
  "KP_has h k \<longleftrightarrow> (case hs_data h (to_prop k) of None \<Rightarrow> False | Some v \<Rightarrow> v \<noteq> VUndef)"

definition QP_delete :: "jval \<Rightarrow> hash \<Rightarrow> hash \<times> bool" where
  "QP_delete k h =
     (if KP_has h k then (h\<lparr>hs_data := (hs_data h)(to_prop k := None), hs_size := hs_size h - 1\<rparr>, True) else (h, False))"

definition ZP_get :: "hash \<Rightarrow> jval \<Rightarrow> jval" where
  "ZP_get h k = (case hs_data h (to_prop k) of None \<Rightarrow> VUndef | Some y \<Rightarrow> if y = sentinel then VUndef else y)"

definition JP_set :: "jval \<Rightarrow> jval \<Rightarrow> hash \<Rightarrow> hash" where
  "JP_set k v h = h\<lparr>hs_size := hs_size h + (if KP_has h k then 0 else 1),
     hs_data := (hs_data h)(to_prop k \<mapsto> (if v = VUndef then sentinel else v))\<rparr>"

section \<open>ListCache\<close>

record listcache =
  lc_data :: "(jval \<times> jval) list"
  lc_size :: int

definition WP_clear :: listcache where
  "WP_clear = \<lparr>lc_data = [], lc_size = 0\<rparr>"

text \<open>\<open>D_\<close> counts down from the length; -1 is none.\<close>

fun D_loop :: "(jval \<times> jval) list \<Rightarrow> jval \<Rightarrow> nat \<Rightarrow> nat option" where
  "D_loop a i 0 = None"
| "D_loop a i (Suc c) = (if vM_eq (fst (a ! c)) i then Some c else D_loop a i c)"

definition D_indexOf :: "(jval \<times> jval) list \<Rightarrow> jval \<Rightarrow> nat option" where
  "D_indexOf a i = D_loop a i (length a)"

definition e9_delete :: "jval \<Rightarrow> listcache \<Rightarrow> listcache \<times> bool" where
  "e9_delete k l =
     (case D_indexOf (lc_data l) k of None \<Rightarrow> (l, False)
      | Some h \<Rightarrow>
          (l\<lparr>lc_data := (if h = length (lc_data l) - 1 then butlast (lc_data l) else take h (lc_data l) @ drop (Suc h) (lc_data l)),
             lc_size := lc_size l - 1\<rparr>, True))"

definition t9_get :: "listcache \<Rightarrow> jval \<Rightarrow> jval" where
  "t9_get l k = (case D_indexOf (lc_data l) k of None \<Rightarrow> VUndef | Some c \<Rightarrow> snd (lc_data l ! c))"

definition n9_has :: "listcache \<Rightarrow> jval \<Rightarrow> bool" where
  "n9_has l k \<longleftrightarrow> D_indexOf (lc_data l) k \<noteq> None"

definition r9_set :: "jval \<Rightarrow> jval \<Rightarrow> listcache \<Rightarrow> listcache" where
  "r9_set k v l =
     (case D_indexOf (lc_data l) k of
        None \<Rightarrow> l\<lparr>lc_size := lc_size l + 1, lc_data := lc_data l @ [(k, v)]\<rparr>
      | Some s \<Rightarrow> l\<lparr>lc_data := (lc_data l)[s := (fst (lc_data l ! s), v)]\<rparr>)"

section \<open>MapCache\<close>

text \<open>The browser's \<open>Map\<close>: entries in the order of insertion, found by \<open>vM\<close>.\<close>

definition map_set :: "jval \<Rightarrow> jval \<Rightarrow> (jval \<times> jval) list \<Rightarrow> (jval \<times> jval) list" where
  "map_set k v m = (if k \<in> fst ` set m then map (\<lambda>(k', v'). if k' = k then (k', v) else (k', v')) m else m @ [(k, v)])"

definition map_delete :: "jval \<Rightarrow> (jval \<times> jval) list \<Rightarrow> (jval \<times> jval) list" where
  "map_delete k m = filter (\<lambda>(k', v). k' \<noteq> k) m"

record mapcache =
  mc_size :: int
  mc_hash :: hash
  mc_map :: "(jval \<times> jval) list"
  mc_string :: hash

definition a9_clear :: mapcache where
  "a9_clear = \<lparr>mc_size = 0, mc_hash = IP_clear, mc_map = [], mc_string = IP_clear\<rparr>"

fun i9_isKeyable :: "jval \<Rightarrow> bool" where
  "i9_isKeyable (VStr s) \<longleftrightarrow> s \<noteq> ''__proto__''"
| "i9_isKeyable (VNum n) = True"
| "i9_isKeyable VNaN = True"
| "i9_isKeyable (VSym n) = True"
| "i9_isKeyable (VBool b) = True"
| "i9_isKeyable VNull = True"
| "i9_isKeyable k = False"

datatype part = InString | InHash | InMap

definition z_getMapData :: "jval \<Rightarrow> part" where
  "z_getMapData k = (if i9_isKeyable k then (case k of VStr s \<Rightarrow> InString | _ \<Rightarrow> InHash) else InMap)"

definition l9_delete :: "jval \<Rightarrow> mapcache \<Rightarrow> mapcache \<times> bool" where
  "l9_delete k m =
     (let (m, i) = (case z_getMapData k of
          InString \<Rightarrow> (let (h, i) = QP_delete k (mc_string m) in (m\<lparr>mc_string := h\<rparr>, i))
        | InHash \<Rightarrow> (let (h, i) = QP_delete k (mc_hash m) in (m\<lparr>mc_hash := h\<rparr>, i))
        | InMap \<Rightarrow> (m\<lparr>mc_map := map_delete k (mc_map m)\<rparr>, k \<in> fst ` set (mc_map m)))
      in (m\<lparr>mc_size := mc_size m - (if i then 1 else 0)\<rparr>, i))"

definition u9_get :: "mapcache \<Rightarrow> jval \<Rightarrow> jval" where
  "u9_get m k = (case z_getMapData k of InString \<Rightarrow> ZP_get (mc_string m) k | InHash \<Rightarrow> ZP_get (mc_hash m) k
     | InMap \<Rightarrow> (case map_of (mc_map m) k of None \<Rightarrow> VUndef | Some v \<Rightarrow> v))"

definition o9_has :: "mapcache \<Rightarrow> jval \<Rightarrow> bool" where
  "o9_has m k \<longleftrightarrow> (case z_getMapData k of InString \<Rightarrow> KP_has (mc_string m) k | InHash \<Rightarrow> KP_has (mc_hash m) k
     | InMap \<Rightarrow> map_of (mc_map m) k \<noteq> None)"

definition c9_set :: "jval \<Rightarrow> jval \<Rightarrow> mapcache \<Rightarrow> mapcache" where
  "c9_set k v m = (case z_getMapData k of
       InString \<Rightarrow> (let c = JP_set k v (mc_string m) in
         m\<lparr>mc_string := c, mc_size := mc_size m + (if hs_size c = hs_size (mc_string m) then 0 else 1)\<rparr>)
     | InHash \<Rightarrow> (let c = JP_set k v (mc_hash m) in
         m\<lparr>mc_hash := c, mc_size := mc_size m + (if hs_size c = hs_size (mc_hash m) then 0 else 1)\<rparr>)
     | InMap \<Rightarrow> (let c = map_set k v (mc_map m) in
         m\<lparr>mc_map := c, mc_size := mc_size m + (if length c = length (mc_map m) then 0 else 1)\<rparr>))"

text \<open>The constructor with entries.\<close>

definition bM_new :: "(jval \<times> jval) list \<Rightarrow> mapcache" where
  "bM_new h = fold (\<lambda>(k, v). c9_set k v) h a9_clear"

section \<open>Stack and SetCache\<close>

datatype stack_data = SList listcache | SMap mapcache

record stack =
  st_data :: stack_data
  st_size :: int

definition rY_clear :: stack where
  "rY_clear = \<lparr>st_data = SList WP_clear, st_size = 0\<rparr>"

definition aY_delete :: "jval \<Rightarrow> stack \<Rightarrow> stack \<times> bool" where
  "aY_delete k s = (case st_data s of
       SList l \<Rightarrow> (let (l, i) = e9_delete k l in (\<lparr>st_data = SList l, st_size = lc_size l\<rparr>, i))
     | SMap m \<Rightarrow> (let (m, i) = l9_delete k m in (\<lparr>st_data = SMap m, st_size = mc_size m\<rparr>, i)))"

definition iY_get :: "stack \<Rightarrow> jval \<Rightarrow> jval" where
  "iY_get s k = (case st_data s of SList l \<Rightarrow> t9_get l k | SMap m \<Rightarrow> u9_get m k)"

definition lY_has :: "stack \<Rightarrow> jval \<Rightarrow> bool" where
  "lY_has s k = (case st_data s of SList l \<Rightarrow> n9_has l k | SMap m \<Rightarrow> o9_has m k)"

text \<open>\<open>uY\<close> pushes without looking for the key, and changes to a \<open>MapCache\<close> when the list is full.\<close>

definition uY_set :: "jval \<Rightarrow> jval \<Rightarrow> stack \<Rightarrow> stack" where
  "uY_set k v s = (case st_data s of
       SList l \<Rightarrow>
         if length (lc_data l) < 199
         then (let l = l\<lparr>lc_data := lc_data l @ [(k, v)], lc_size := lc_size l + 1\<rparr> in \<lparr>st_data = SList l, st_size = lc_size l\<rparr>)
         else (let m = c9_set k v (bM_new (lc_data l)) in \<lparr>st_data = SMap m, st_size = mc_size m\<rparr>)
     | SMap m \<Rightarrow> (let m = c9_set k v m in \<lparr>st_data = SMap m, st_size = mc_size m\<rparr>))"

definition oY_add :: "jval \<Rightarrow> mapcache \<Rightarrow> mapcache" where
  "oY_add k m = c9_set k sentinel m"

definition cY_has :: "mapcache \<Rightarrow> jval \<Rightarrow> bool" where
  "cY_has m k = o9_has m k"

definition N8_new :: "jval list \<Rightarrow> mapcache" where
  "N8_new ks = fold oY_add ks a9_clear"

section \<open>Memoizing\<close>

text \<open>
  \<open>u8\<close> without a resolver: the first argument is the key.  The cache is an argument, as \<open>memoize.Cache\<close> is
  in the code; the function may throw, and then nothing is stored.
\<close>

definition u8_call :: "('c \<Rightarrow> jval \<Rightarrow> bool) \<Rightarrow> ('c \<Rightarrow> jval \<Rightarrow> jval) \<Rightarrow> (jval \<Rightarrow> jval \<Rightarrow> 'c \<Rightarrow> 'c) \<Rightarrow>
    (jval \<Rightarrow> (string, jval) res) \<Rightarrow> jval \<Rightarrow> 'c \<Rightarrow> (string, jval) res \<times> 'c" where
  "u8_call hasf getf setf f y g =
     (if hasf g y then (Inr (getf g y), g)
      else case f y of Inl e \<Rightarrow> (Inl e, g) | Inr b \<Rightarrow> (Inr b, setf y b g))"

text \<open>\<open>s9\<close>, \<open>memoizeCapped\<close>: its resolver empties a cache of 500 entries before the key is looked up.\<close>

definition s9_call :: "(jval \<Rightarrow> (string, jval) res) \<Rightarrow> jval \<Rightarrow> mapcache \<Rightarrow> (string, jval) res \<times> mapcache" where
  "s9_call f h s = u8_call o9_has u9_get c9_set f h (if mc_size s = 500 then a9_clear else s)"


section \<open>What a cache promises\<close>

text \<open>
  The interface of a cache, for the keys it accepts: it is a finite map with a size.  A value that the
  cache cannot keep apart from \<open>undefined\<close> is not \<open>okv\<close>; its key is present all the same.
\<close>

locale cache =
  fixes emptyc :: 'c
    and getf :: "'c \<Rightarrow> jval \<Rightarrow> jval"
    and hasf :: "'c \<Rightarrow> jval \<Rightarrow> bool"
    and setf :: "jval \<Rightarrow> jval \<Rightarrow> 'c \<Rightarrow> 'c"
    and delf :: "jval \<Rightarrow> 'c \<Rightarrow> 'c \<times> bool"
    and sizef :: "'c \<Rightarrow> int"
    and key :: "jval \<Rightarrow> bool"
    and okv :: "jval \<Rightarrow> jval \<Rightarrow> bool"
    and inv :: "'c \<Rightarrow> bool"
    and lookup :: "'c \<Rightarrow> jval \<Rightarrow> jval option"
  assumes empty_law: "inv emptyc" "lookup emptyc = Map.empty"
    and inv_set: "inv c \<Longrightarrow> key k \<Longrightarrow> inv (setf k v c)"
    and lookup_set: "inv c \<Longrightarrow> key k \<Longrightarrow> \<exists>v'. lookup (setf k v c) = (lookup c)(k \<mapsto> v') \<and> (okv k v \<longrightarrow> v' = v)"
    and inv_del: "inv c \<Longrightarrow> key k \<Longrightarrow> inv (fst (delf k c))"
    and lookup_del: "inv c \<Longrightarrow> key k \<Longrightarrow> lookup (fst (delf k c)) = (lookup c)(k := None)"
    and del_result: "inv c \<Longrightarrow> key k \<Longrightarrow> snd (delf k c) \<longleftrightarrow> lookup c k \<noteq> None"
    and get_lookup: "inv c \<Longrightarrow> key k \<Longrightarrow> getf c k = (case lookup c k of None \<Rightarrow> VUndef | Some v \<Rightarrow> v)"
    and has_lookup: "inv c \<Longrightarrow> key k \<Longrightarrow> hasf c k \<longleftrightarrow> lookup c k \<noteq> None"
    and size_lookup: "inv c \<Longrightarrow> finite (dom (lookup c)) \<and> sizef c = int (card (dom (lookup c)))"
begin

lemma lookup_set_ok: "inv c \<Longrightarrow> key k \<Longrightarrow> okv k v \<Longrightarrow> lookup (setf k v c) = (lookup c)(k \<mapsto> v)"
  using lookup_set by blast

lemma dom_set: "inv c \<Longrightarrow> key k \<Longrightarrow> dom (lookup (setf k v c)) = insert k (dom (lookup c))"
  using lookup_set [of c k v] by auto

lemma size_set: "inv c \<Longrightarrow> key k \<Longrightarrow> sizef (setf k v c) = sizef c + (if lookup c k = None then 1 else 0)"
  using size_lookup [of c] size_lookup [OF inv_set, of c k v] by (auto simp: dom_set insert_absorb domIff)

lemma inv_sets: "inv c \<Longrightarrow> \<forall>e \<in> set es. key (fst e) \<Longrightarrow> inv (fold (\<lambda>(k, v). setf k v) es c)"
  by (induction es arbitrary: c) (auto simp: inv_set)

lemma lookup_sets:
  "inv c \<Longrightarrow> \<forall>e \<in> set es. key (fst e) \<and> okv (fst e) (snd e) \<Longrightarrow>
     lookup (fold (\<lambda>(k, v). setf k v) es c) = lookup c ++ map_of (rev es)"
proof (induction es arbitrary: c)
  case (Cons e es)
  then show ?case by (cases e) (simp add: inv_set lookup_set_ok fun_eq_iff map_add_def split: option.split)
qed simp

text \<open>A memoized function: everything in the cache is a result of the function.\<close>

definition remembers :: "(jval \<Rightarrow> (string, jval) res) \<Rightarrow> 'c \<Rightarrow> bool" where
  "remembers f c \<longleftrightarrow> inv c \<and> (\<forall>k v. lookup c k = Some v \<longrightarrow> f k = Inr v)"

lemma remembers_empty: "remembers f emptyc"
  by (simp add: remembers_def empty_law)

lemma memo_call:
  assumes "remembers f c" "key k" "\<forall>v. f k = Inr v \<longrightarrow> okv k v"
  shows "fst (u8_call hasf getf setf f k c) = f k \<and> remembers f (snd (u8_call hasf getf setf f k c)) \<and>
    sizef (snd (u8_call hasf getf setf f k c)) \<le> sizef c + 1"
proof (cases "lookup c k")
  case None
  then show ?thesis using assms
    by (auto simp: u8_call_def remembers_def has_lookup inv_set lookup_set_ok size_set split: sum.split)
next
  case (Some v)
  then show ?thesis using assms by (auto simp: u8_call_def remembers_def has_lookup get_lookup)
qed

end

section \<open>ListCache is a cache\<close>

lemma D_loop_spec:
  "D_loop a i n = None \<longleftrightarrow> (\<forall>c < n. fst (a ! c) \<noteq> i)"
  "D_loop a i n = Some c \<Longrightarrow> c < n \<and> fst (a ! c) = i \<and> (\<forall>d. c < d \<and> d < n \<longrightarrow> fst (a ! d) \<noteq> i)"
  by (induction n) (auto simp: less_Suc_eq split: if_splits)

definition list_inv :: "listcache \<Rightarrow> bool" where
  "list_inv l \<longleftrightarrow> distinct (map fst (lc_data l)) \<and> lc_size l = int (length (lc_data l))"

lemma D_indexOf_distinct:
  assumes "distinct (map fst a)"
  shows "D_indexOf a k = None \<longleftrightarrow> map_of a k = None" "D_indexOf a k = Some c \<Longrightarrow> c < length a \<and> fst (a ! c) = k \<and> map_of a k = Some (snd (a ! c))"
proof -
  show "D_indexOf a k = None \<longleftrightarrow> map_of a k = None"
    by (simp add: D_indexOf_def D_loop_spec(1) map_of_eq_None_iff flip: set_map) (metis in_set_conv_nth length_map nth_map)
  show "c < length a \<and> fst (a ! c) = k \<and> map_of a k = Some (snd (a ! c))" if "D_indexOf a k = Some c"
    using D_loop_spec(2) [of a k "length a" c] that assms
    by (auto simp: D_indexOf_def intro!: map_of_is_SomeI)
qed

lemma head_fresh: "distinct (map fst (e # a)) \<Longrightarrow> d < length a \<Longrightarrow> fst (a ! d) \<noteq> fst e"
  by (metis distinct.simps(2) length_map list.simps(9) nth_map nth_mem)

lemma map_fst_update: "y < length xs \<Longrightarrow> (map fst xs)[y := fst (xs ! y)] = map fst xs"
  by (metis list_update_id nth_map)

lemma map_of_update:
  assumes "distinct (map fst a)" "c < length a"
  shows "map_of (a[c := (fst (a ! c), v)]) = (map_of a)(fst (a ! c) \<mapsto> v)"
  using assms
proof (induction a arbitrary: c)
  case (Cons e a)
  show ?case
  proof (cases c)
    case (Suc d)
    then have "fst (a ! d) \<noteq> fst e" using Cons.prems head_fresh [of e a d] by simp
    then show ?thesis using Suc Cons by (cases e) (auto simp: fun_eq_iff)
  qed (cases e; auto simp: fun_eq_iff)
qed simp

lemma map_of_remove:
  assumes "distinct (map fst a)" "c < length a"
  shows "map_of (take c a @ drop (Suc c) a) = (map_of a)(fst (a ! c) := None)"
  using assms
proof (induction a arbitrary: c)
  case (Cons e a)
  show ?case
  proof (cases c)
    case 0
    then show ?thesis using Cons.prems by (cases e) (auto simp: fun_eq_iff map_of_eq_None_iff)
  next
    case (Suc d)
    then have "fst (a ! d) \<noteq> fst e" using Cons.prems head_fresh [of e a d] by simp
    then show ?thesis using Suc Cons by (cases e) (auto simp: fun_eq_iff)
  qed
qed simp

lemma e9_delete_spec:
  "e9_delete k l = (case D_indexOf (lc_data l) k of None \<Rightarrow> (l, False)
     | Some h \<Rightarrow> (l\<lparr>lc_data := take h (lc_data l) @ drop (Suc h) (lc_data l), lc_size := lc_size l - 1\<rparr>, True))"
  using D_loop_spec(2) [of "lc_data l" k "length (lc_data l)"]
  by (auto simp: e9_delete_def D_indexOf_def butlast_conv_take split: option.split)

lemma distinct_remove: "distinct xs \<Longrightarrow> distinct (take c xs @ drop (Suc c) xs)"
  using set_take_disj_set_drop_if_distinct [of xs c "Suc c"] by (simp add: distinct_append)

lemma list_size:
  assumes "list_inv l"
  shows "finite (dom (map_of (lc_data l))) \<and> lc_size l = int (card (dom (map_of (lc_data l))))"
  using assms by (simp add: list_inv_def finite_dom_map_of dom_map_of_conv_image_fst distinct_card flip: set_map)

interpretation lc: cache WP_clear t9_get n9_has r9_set e9_delete lc_size "\<lambda>k. True" "\<lambda>k v. True" list_inv "\<lambda>l. map_of (lc_data l)"
proof
  show "list_inv WP_clear" "map_of (lc_data WP_clear) = Map.empty" by (simp_all add: list_inv_def WP_clear_def)
next
  fix c k v assume c: "list_inv c"
  then have d: "distinct (map fst (lc_data c))" by (simp add: list_inv_def)
  show "list_inv (r9_set k v c)"
    using c D_indexOf_distinct [OF d, of k]
    by (auto simp: list_inv_def r9_set_def map_update map_fst_update map_of_eq_None_iff split: option.splits)
  show "\<exists>v'. map_of (lc_data (r9_set k v c)) = (map_of (lc_data c))(k \<mapsto> v') \<and> (True \<longrightarrow> v' = v)"
  proof (cases "D_indexOf (lc_data c) k")
    case None
    then have "map_of (lc_data c) k = None" using D_indexOf_distinct(1) [OF d, of k] by simp
    then show ?thesis using None by (auto simp: r9_set_def map_add_def fun_eq_iff split: option.splits)
  next
    case (Some s)
    then show ?thesis using D_indexOf_distinct(2) [OF d, of k s] map_of_update [OF d, of s v] by (simp add: r9_set_def)
  qed
  show "list_inv (fst (e9_delete k c))"
    using c D_indexOf_distinct [OF d, of k] distinct_remove [OF d]
    by (auto simp: list_inv_def e9_delete_spec take_map drop_map split: option.splits)
  show "map_of (lc_data (fst (e9_delete k c))) = (map_of (lc_data c))(k := None)"
    using D_indexOf_distinct [OF d, of k] map_of_remove [OF d]
    by (auto simp: e9_delete_spec fun_upd_idem simp del: map_of_append split: option.splits)
  show "snd (e9_delete k c) \<longleftrightarrow> map_of (lc_data c) k \<noteq> None" "n9_has c k \<longleftrightarrow> map_of (lc_data c) k \<noteq> None"
    "t9_get c k = (case map_of (lc_data c) k of None \<Rightarrow> VUndef | Some v \<Rightarrow> v)"
    using D_indexOf_distinct [OF d, of k] by (auto simp: e9_delete_spec n9_has_def t9_get_def split: option.splits)
  show "finite (dom (map_of (lc_data c))) \<and> lc_size c = int (card (dom (map_of (lc_data c))))" using c by (rule list_size)
qed

section \<open>Hash is a cache\<close>

definition hash_lookup :: "(jval \<Rightarrow> bool) \<Rightarrow> hash \<Rightarrow> jval \<Rightarrow> jval option" where
  "hash_lookup key h k = (if key k then map_option (\<lambda>v. if v = sentinel then VUndef else v) (hs_data h (to_prop k)) else None)"

definition hash_inv :: "(jval \<Rightarrow> bool) \<Rightarrow> hash \<Rightarrow> bool" where
  "hash_inv key h \<longleftrightarrow> (\<forall>n. hs_data h n \<noteq> Some VUndef) \<and> dom (hs_data h) \<subseteq> to_prop ` Collect key \<and>
     finite (dom (hs_data h)) \<and> hs_size h = int (card (dom (hs_data h)))"

lemma KP_has_inv: "hash_inv key h \<Longrightarrow> KP_has h k \<longleftrightarrow> hs_data h (to_prop k) \<noteq> None"
  by (auto simp: KP_has_def hash_inv_def split: option.splits)

lemma hash_size:
  assumes "hash_inv key h" "inj_on to_prop (Collect key)"
  shows "finite (dom (hash_lookup key h)) \<and> hs_size h = int (card (dom (hash_lookup key h)))"
proof -
  have "to_prop ` dom (hash_lookup key h) = dom (hs_data h)"
    using assms(1) by (fastforce simp: hash_inv_def hash_lookup_def split: if_splits)
  moreover have "inj_on to_prop (dom (hash_lookup key h))"
    using assms(2) by (rule inj_on_subset) (auto simp: hash_lookup_def split: if_splits)
  ultimately show ?thesis using assms(1) by (metis card_image finite_imageD hash_inv_def)
qed

lemma hash_set:
  assumes "hash_inv key h" "key k"
  shows "hash_inv key (JP_set k v h)"
  using assms KP_has_inv [OF assms(1), of k]
  by (auto simp: hash_inv_def JP_set_def sentinel_def insert_absorb domIff)

lemma hash_delete:
  assumes "hash_inv key h"
  shows "hash_inv key (fst (QP_delete k h))"
proof (cases "KP_has h k")
  case True
  then have "to_prop k \<in> dom (hs_data h)" using KP_has_inv [OF assms, of k] by auto
  then show ?thesis using assms True card_gt_0_iff [of "dom (hs_data h)"] by (auto simp: hash_inv_def QP_delete_def card_Diff_singleton of_nat_diff)
qed (simp add: QP_delete_def assms)

lemma hash_cache:
  assumes "inj_on to_prop (Collect key)"
  shows "cache IP_clear ZP_get KP_has JP_set QP_delete hs_size key (\<lambda>k v. v \<noteq> sentinel) (hash_inv key) (hash_lookup key)"
proof
  show "hash_inv key IP_clear" "hash_lookup key IP_clear = Map.empty" by (auto simp: hash_inv_def hash_lookup_def IP_clear_def)
next
  fix c k v assume c: "hash_inv key c" and k: "key k"
  have other: "to_prop k' = to_prop k \<longleftrightarrow> k' = k" if "key k'" for k' using assms that k by (auto simp: inj_on_def)
  show "hash_inv key (JP_set k v c)" "hash_inv key (fst (QP_delete k c))" using c k by (simp_all add: hash_set hash_delete)
  show "\<exists>v'. hash_lookup key (JP_set k v c) = (hash_lookup key c)(k \<mapsto> v') \<and> (v \<noteq> sentinel \<longrightarrow> v' = v)"
    using k other by (intro exI [of _ "if v = sentinel then VUndef else v"]) (auto simp: hash_lookup_def JP_set_def fun_eq_iff sentinel_def)
  show "hash_lookup key (fst (QP_delete k c)) = (hash_lookup key c)(k := None)"
    using k other KP_has_inv [OF c, of k] by (auto simp: hash_lookup_def QP_delete_def fun_eq_iff)
  show "snd (QP_delete k c) \<longleftrightarrow> hash_lookup key c k \<noteq> None" "KP_has c k \<longleftrightarrow> hash_lookup key c k \<noteq> None"
    using k KP_has_inv [OF c, of k] by (auto simp: hash_lookup_def QP_delete_def)
  show "ZP_get c k = (case hash_lookup key c k of None \<Rightarrow> VUndef | Some v \<Rightarrow> v)"
    using k by (auto simp: hash_lookup_def ZP_get_def split: option.splits)
qed (use hash_size assms in blast)

text \<open>Property names tell the keys of each of the two hashes of a \<open>MapCache\<close> apart.\<close>

fun digits_val :: "nat \<Rightarrow> string \<Rightarrow> nat" where
  "digits_val a [] = a"
| "digits_val a (c # cs) = digits_val (10 * a + (of_char c - 48)) cs"

lemma digits_val_append: "digits_val a (xs @ ys) = digits_val (digits_val a xs) ys"
  by (induction xs arbitrary: a) simp_all

lemma digits_val_nat_str: "digits_val 0 (nat_str n) = n"
proof (induction n rule: nat_str.induct)
  case (1 n)
  then show ?case by (subst nat_str.simps) (simp add: digits_val_append of_char_of)
qed

lemma nat_str_digit: "\<exists>d < (10::nat). \<exists>cs. nat_str n = char_of (48 + d) # cs"
proof (induction n rule: nat_str.induct)
  case (1 n)
  then show ?case by (subst nat_str.simps) (cases "n < 10", auto)
qed

lemma nat_str_head: "\<exists>d cs. nat_str n = d # cs \<and> 48 \<le> (of_char d :: nat) \<and> (of_char d :: nat) < 58"
  using nat_str_digit [of n] by (auto simp: of_char_of)

lemma int_str_inj: "int_str a = int_str b \<Longrightarrow> a = b"
proof -
  assume e: "int_str a = int_str b"
  have m: "nat_str n \<noteq> CHR ''-'' # cs" for n cs using nat_str_head [of n] by auto
  have "digits_val 0 (nat_str n) = digits_val 0 (nat_str k) \<Longrightarrow> n = k" for n k by (simp add: digits_val_nat_str)
  then have "nat_str n = nat_str k \<Longrightarrow> n = k" for n k by metis
  then show "a = b" using e m m [symmetric] by (fastforce simp: int_str_def split: if_splits)
qed

lemma int_str_head: "int_str a = c # cs \<Longrightarrow> c \<noteq> CHR ''n'' \<and> c \<noteq> CHR ''t'' \<and> c \<noteq> CHR ''f'' \<and> c \<noteq> CHR ''N''"
  using nat_str_head [of "nat a"] nat_str_head [of "nat (- a)"] by (auto simp: int_str_def split: if_splits)

lemma int_str_no_word:
  "int_str a \<noteq> ''null''" "int_str a \<noteq> ''NaN''" "int_str a \<noteq> ''true''" "int_str a \<noteq> ''false''"
  using int_str_head [of a] by blast+

definition string_key :: "jval \<Rightarrow> bool" where
  "string_key k \<longleftrightarrow> z_getMapData k = InString"

definition plain_key :: "jval \<Rightarrow> bool" where
  "plain_key k \<longleftrightarrow> z_getMapData k = InHash"

lemma string_key_inj: "inj_on to_prop (Collect string_key)"
  by (rule inj_onI) (auto simp: string_key_def z_getMapData_def split: if_splits jval.splits)

lemma plain_key_cases: "plain_key k \<Longrightarrow> k = VNull \<or> k = VNaN \<or> (\<exists>b. k = VBool b) \<or> (\<exists>n. k = VNum n) \<or> (\<exists>n. k = VSym n)"
  by (cases k) (auto simp: plain_key_def z_getMapData_def split: if_splits)

lemma plain_key_inj: "inj_on to_prop (Collect plain_key)"
proof (rule inj_onI)
  fix a b assume "a \<in> Collect plain_key" "b \<in> Collect plain_key" and e: "to_prop a = to_prop b"
  then have "plain_key a" "plain_key b" by simp_all
  then show "a = b"
    using e by (elim plain_key_cases [THEN disjE] disjE exE; simp add: int_str_no_word int_str_no_word [symmetric] split: if_splits; blast dest: int_str_inj)
qed

interpretation hstr: cache IP_clear ZP_get KP_has JP_set QP_delete hs_size string_key "\<lambda>k v. v \<noteq> sentinel" "hash_inv string_key" "hash_lookup string_key"
  by (rule hash_cache [OF string_key_inj])

interpretation hplain: cache IP_clear ZP_get KP_has JP_set QP_delete hs_size plain_key "\<lambda>k v. v \<noteq> sentinel" "hash_inv plain_key" "hash_lookup plain_key"
  by (rule hash_cache [OF plain_key_inj])

section \<open>MapCache is a cache\<close>

definition mc_lookup :: "mapcache \<Rightarrow> jval \<Rightarrow> jval option" where
  "mc_lookup m k = (case z_getMapData k of InString \<Rightarrow> hash_lookup string_key (mc_string m) k
     | InHash \<Rightarrow> hash_lookup plain_key (mc_hash m) k | InMap \<Rightarrow> map_of (mc_map m) k)"

definition mc_inv :: "mapcache \<Rightarrow> bool" where
  "mc_inv m \<longleftrightarrow> hash_inv string_key (mc_string m) \<and> hash_inv plain_key (mc_hash m) \<and> distinct (map fst (mc_map m)) \<and>
     (\<forall>e \<in> set (mc_map m). z_getMapData (fst e) = InMap) \<and>
     mc_size m = hs_size (mc_string m) + hs_size (mc_hash m) + int (length (mc_map m))"

lemma map_of_overwrite: "k \<in> fst ` set m \<Longrightarrow> map_of (map (\<lambda>(k', v'). if k' = k then (k', v) else (k', v')) m) = (map_of m)(k \<mapsto> v)"
proof (induction m)
  case (Cons e m)
  have "k \<notin> fst ` set m \<Longrightarrow> map (\<lambda>(k', v'). if k' = k then (k', v) else (k', v')) m = m" by (intro map_idI) (auto simp: image_iff)
  then show ?case using Cons by (cases e; cases "k \<in> fst ` set m") (auto simp: fun_eq_iff)
qed simp

lemma map_set_spec:
  "map_of (map_set k v m) = (map_of m)(k \<mapsto> v)" "fst ` set (map_set k v m) = insert k (fst ` set m)"
  "distinct (map fst m) \<Longrightarrow> distinct (map fst (map_set k v m))"
  "length (map_set k v m) = length m + (if k \<in> fst ` set m then 0 else 1)"
proof -
  have f: "map fst (map (\<lambda>(k', v'). if k' = k then (k', v) else (k', v')) m) = map fst m" by (auto intro!: map_cong)
  show "map_of (map_set k v m) = (map_of m)(k \<mapsto> v)"
  proof (cases "k \<in> fst ` set m")
    case False
    then have "map_of m k = None" by (simp add: map_of_eq_None_iff)
    then show ?thesis using False by (simp add: map_set_def fun_eq_iff map_add_def split: option.split)
  qed (simp add: map_set_def map_of_overwrite)
  have "fst ` set (map (\<lambda>(k', v'). if k' = k then (k', v) else (k', v')) m) = fst ` set m" using arg_cong [OF f, of set] by (simp only: set_map)
  then show "fst ` set (map_set k v m) = insert k (fst ` set m)"
    by (cases "k \<in> fst ` set m") (simp_all only: map_set_def if_True if_False, auto)
  show "distinct (map fst m) \<Longrightarrow> distinct (map fst (map_set k v m))"
    by (cases "k \<in> fst ` set m") (simp_all only: map_set_def if_True if_False f, auto)
  show "length (map_set k v m) = length m + (if k \<in> fst ` set m then 0 else 1)" by (simp add: map_set_def)
qed

lemma map_delete_spec:
  "map_of (map_delete k m) = (map_of m)(k := None)" "distinct (map fst m) \<Longrightarrow> distinct (map fst (map_delete k m))"
  "set (map_delete k m) \<subseteq> set m"
  "distinct (map fst m) \<Longrightarrow> int (length (map_delete k m)) = int (length m) - (if k \<in> fst ` set m then 1 else 0)"
proof -
  show "map_of (map_delete k m) = (map_of m)(k := None)" by (induction m) (auto simp: map_delete_def fun_eq_iff)
  show d: "distinct (map fst m) \<Longrightarrow> distinct (map fst (map_delete k m))" by (simp add: map_delete_def distinct_map_filter)
  show "set (map_delete k m) \<subseteq> set m" by (auto simp: map_delete_def)
  have "k \<notin> fst ` set m \<Longrightarrow> map_delete k m = m" for m by (auto simp: map_delete_def filter_id_conv image_iff)
  then show "distinct (map fst m) \<Longrightarrow> int (length (map_delete k m)) = int (length m) - (if k \<in> fst ` set m then 1 else 0)"
  proof (induction m)
    case (Cons e m)
    show ?case
    proof (cases "fst e = k")
      case True
      then have "k \<notin> fst ` set m" using Cons.prems by auto
      then have "map_delete k m = m" by (rule Cons.prems(2))
      then show ?thesis using True by (cases e) (simp add: map_delete_def)
    next
      case False
      have "int (length (map_delete k m)) = int (length m) - (if k \<in> fst ` set m then 1 else 0)" using Cons by simp
      then show ?thesis using False by (cases e) (auto simp: map_delete_def)
    qed
  qed (simp add: map_delete_def)
qed

lemma hash_size_delete: "hs_size (fst (QP_delete k h)) = hs_size h - (if snd (QP_delete k h) then 1 else 0)"
  by (simp add: QP_delete_def)

lemma hash_lookup_other: "\<not> key k \<Longrightarrow> hash_lookup key h k = None"
  by (simp add: hash_lookup_def)

lemma mc_dom:
  assumes "mc_inv m"
  shows "dom (mc_lookup m) = dom (hash_lookup string_key (mc_string m)) \<union> dom (hash_lookup plain_key (mc_hash m)) \<union> fst ` set (mc_map m)"
    "dom (hash_lookup string_key (mc_string m)) \<inter> dom (hash_lookup plain_key (mc_hash m)) = {}"
    "(dom (hash_lookup string_key (mc_string m)) \<union> dom (hash_lookup plain_key (mc_hash m))) \<inter> fst ` set (mc_map m) = {}"
proof -
  have s: "z_getMapData k = InString" if "k \<in> dom (hash_lookup string_key h)" for k h
    using that by (auto simp: hash_lookup_def string_key_def split: if_splits)
  have p: "z_getMapData k = InHash" if "k \<in> dom (hash_lookup plain_key h)" for k h
    using that by (auto simp: hash_lookup_def plain_key_def split: if_splits)
  have i: "z_getMapData k = InMap" if "k \<in> fst ` set (mc_map m)" for k using that assms by (auto simp: mc_inv_def)
  have "k \<in> dom (mc_lookup m) \<longleftrightarrow>
      k \<in> dom (hash_lookup string_key (mc_string m)) \<union> dom (hash_lookup plain_key (mc_hash m)) \<union> fst ` set (mc_map m)" for k
    using s [of k "mc_string m"] p [of k "mc_hash m"] i [of k] map_of_eq_None_iff [of "mc_map m" k]
    by (cases "z_getMapData k") (simp_all add: mc_lookup_def domIff, blast+)
  then show "dom (mc_lookup m) = dom (hash_lookup string_key (mc_string m)) \<union> dom (hash_lookup plain_key (mc_hash m)) \<union> fst ` set (mc_map m)" by blast
  show "dom (hash_lookup string_key (mc_string m)) \<inter> dom (hash_lookup plain_key (mc_hash m)) = {}" using s p by fastforce
  show "(dom (hash_lookup string_key (mc_string m)) \<union> dom (hash_lookup plain_key (mc_hash m))) \<inter> fst ` set (mc_map m) = {}"
  proof (rule equals0I, elim IntE UnE)
    fix k assume "k \<in> fst ` set (mc_map m)" "k \<in> dom (hash_lookup string_key (mc_string m))"
    then show False using s [of k] i [of k] by simp
  next
    fix k assume "k \<in> fst ` set (mc_map m)" "k \<in> dom (hash_lookup plain_key (mc_hash m))"
    then show False using p [of k] i [of k] by simp
  qed
qed

lemma mc_size_lookup:
  assumes "mc_inv m"
  shows "finite (dom (mc_lookup m)) \<and> mc_size m = int (card (dom (mc_lookup m)))"
proof -
  have "card (fst ` set (mc_map m)) = length (mc_map m)" using assms by (simp add: mc_inv_def distinct_card flip: set_map)
  then show ?thesis
    using assms mc_dom [OF assms] hash_size [OF _ string_key_inj, of "mc_string m"] hash_size [OF _ plain_key_inj, of "mc_hash m"]
    by (simp add: mc_inv_def card_Un_disjoint)
qed

definition mc_okv :: "jval \<Rightarrow> jval \<Rightarrow> bool" where
  "mc_okv k v \<longleftrightarrow> v \<noteq> sentinel \<or> z_getMapData k = InMap"

lemma part_key: "z_getMapData k = InString \<Longrightarrow> string_key k" "z_getMapData k = InHash \<Longrightarrow> plain_key k"
  "z_getMapData k \<noteq> InString \<Longrightarrow> \<not> string_key k" "z_getMapData k \<noteq> InHash \<Longrightarrow> \<not> plain_key k"
  by (simp_all add: string_key_def plain_key_def)

lemma mc_set_inv: "mc_inv m \<Longrightarrow> mc_inv (c9_set k v m)"
proof (cases "z_getMapData k")
  case InString
  then show "mc_inv m \<Longrightarrow> mc_inv (c9_set k v m)" using hstr.size_set [of "mc_string m" k v] part_key(1) [of k]
    by (auto simp: mc_inv_def c9_set_def Let_def hash_set)
next
  case InHash
  then show "mc_inv m \<Longrightarrow> mc_inv (c9_set k v m)" using hplain.size_set [of "mc_hash m" k v] part_key(2) [of k]
    by (auto simp: mc_inv_def c9_set_def Let_def hash_set)
next
  case InMap
  have "\<forall>e \<in> set (map_set k v (mc_map m)). z_getMapData (fst e) = InMap" if "mc_inv m"
    using that InMap map_set_spec(2) [of k v "mc_map m"] by (fastforce simp: mc_inv_def image_iff)
  then show "mc_inv m \<Longrightarrow> mc_inv (c9_set k v m)" using InMap map_set_spec(3) [of "mc_map m" k v] map_set_spec(4) [of k v "mc_map m"]
    by (auto simp: mc_inv_def c9_set_def Let_def)
qed

lemma mc_delete_inv: "mc_inv m \<Longrightarrow> mc_inv (fst (l9_delete k m))"
proof (cases "z_getMapData k")
  case InMap
  then show "mc_inv m \<Longrightarrow> mc_inv (fst (l9_delete k m))"
    using map_delete_spec(2,4) [of "mc_map m" k] map_delete_spec(3) [of k "mc_map m"] by (auto simp: mc_inv_def l9_delete_def Let_def)
qed (auto simp: mc_inv_def l9_delete_def Let_def hash_delete hash_size_delete case_prod_beta)

interpretation mc: cache a9_clear u9_get o9_has c9_set l9_delete mc_size "\<lambda>k. True" mc_okv mc_inv mc_lookup
proof
  show "mc_inv a9_clear" by (simp add: mc_inv_def a9_clear_def hstr.empty_law hplain.empty_law IP_clear_def [symmetric]) (simp add: IP_clear_def)
  show "mc_lookup a9_clear = Map.empty" by (auto simp: mc_lookup_def a9_clear_def hstr.empty_law hplain.empty_law fun_eq_iff split: part.split)
next
  fix c k v assume c: "mc_inv c"
  then have i: "hash_inv string_key (mc_string c)" "hash_inv plain_key (mc_hash c)" by (simp_all add: mc_inv_def)
  note laws = i part_key hash_lookup_other mc_lookup_def
  show "mc_inv (c9_set k v c)" "mc_inv (fst (l9_delete k c))" using c by (simp_all add: mc_set_inv mc_delete_inv)
  show "finite (dom (mc_lookup c)) \<and> mc_size c = int (card (dom (mc_lookup c)))" using c by (rule mc_size_lookup)
  show "\<exists>v'. mc_lookup (c9_set k v c) = (mc_lookup c)(k \<mapsto> v') \<and> (mc_okv k v \<longrightarrow> v' = v)"
  proof (cases "z_getMapData k")
    case InString
    then obtain v' where "hash_lookup string_key (JP_set k v (mc_string c)) = (hash_lookup string_key (mc_string c))(k \<mapsto> v')" "v \<noteq> sentinel \<longrightarrow> v' = v"
      using hstr.lookup_set [OF i(1)] part_key(1) by blast
    then show ?thesis using InString by (auto simp: c9_set_def Let_def mc_lookup_def mc_okv_def fun_eq_iff split: part.splits)
  next
    case InHash
    then obtain v' where "hash_lookup plain_key (JP_set k v (mc_hash c)) = (hash_lookup plain_key (mc_hash c))(k \<mapsto> v')" "v \<noteq> sentinel \<longrightarrow> v' = v"
      using hplain.lookup_set [OF i(2)] part_key(2) by blast
    then show ?thesis using InHash by (auto simp: c9_set_def Let_def mc_lookup_def mc_okv_def fun_eq_iff split: part.splits)
  next
    case InMap
    then show ?thesis by (auto simp: c9_set_def Let_def mc_lookup_def map_set_spec(1) fun_eq_iff split: part.splits)
  qed
  show "mc_lookup (fst (l9_delete k c)) = (mc_lookup c)(k := None)"
    using hstr.lookup_del [OF i(1), of k] hplain.lookup_del [OF i(2), of k] part_key(1,2) [of k]
    by (cases "z_getMapData k") (auto simp: l9_delete_def mc_lookup_def map_delete_spec(1) fun_eq_iff case_prod_beta split: part.splits)
  show "snd (l9_delete k c) \<longleftrightarrow> mc_lookup c k \<noteq> None"
    using hstr.del_result [OF i(1), of k] hplain.del_result [OF i(2), of k] part_key(1,2) [of k]
    by (cases "z_getMapData k") (auto simp: l9_delete_def mc_lookup_def case_prod_beta map_of_eq_None_iff)
  show "o9_has c k \<longleftrightarrow> mc_lookup c k \<noteq> None"
    using hstr.has_lookup [OF i(1), of k] hplain.has_lookup [OF i(2), of k] part_key(1,2) [of k]
    by (cases "z_getMapData k") (auto simp: o9_has_def mc_lookup_def)
  show "u9_get c k = (case mc_lookup c k of None \<Rightarrow> VUndef | Some v \<Rightarrow> v)"
    using hstr.get_lookup [OF i(1), of k] hplain.get_lookup [OF i(2), of k] part_key(1,2) [of k]
    by (cases "z_getMapData k") (auto simp: u9_get_def mc_lookup_def)
qed

section \<open>What the chart library gets\<close>

datatype cop = CSet jval jval | CDelete jval | CClear

fun mc_op :: "cop \<Rightarrow> mapcache \<Rightarrow> mapcache" where
  "mc_op (CSet k v) m = c9_set k v m"
| "mc_op (CDelete k) m = fst (l9_delete k m)"
| "mc_op CClear m = a9_clear"

fun spec_op :: "cop \<Rightarrow> (jval \<rightharpoonup> jval) \<Rightarrow> (jval \<rightharpoonup> jval)" where
  "spec_op (CSet k v) m = m(k \<mapsto> v)"
| "spec_op (CDelete k) m = m(k := None)"
| "spec_op CClear m = Map.empty"

fun cop_ok :: "cop \<Rightarrow> bool" where
  "cop_ok (CSet k v) = mc_okv k v"
| "cop_ok _ = True"

lemma mc_run:
  "mc_inv m \<Longrightarrow> \<forall>x \<in> set ops. cop_ok x \<Longrightarrow> mc_inv (fold mc_op ops m) \<and> mc_lookup (fold mc_op ops m) = fold spec_op ops (mc_lookup m)"
proof (induction ops arbitrary: m)
  case (Cons x ops)
  have "mc_inv (mc_op x m) \<and> mc_lookup (mc_op x m) = spec_op x (mc_lookup m)"
    using Cons.prems by (cases x) (simp_all add: mc.inv_set mc.lookup_set_ok mc.inv_del mc.lookup_del mc.empty_law)
  then show ?case using Cons by simp
qed simp

text \<open>
  C39. A \<open>MapCache\<close> is a map: after any sequence of insertions, removals and clearings, with keys of all kinds
  mixed, it contains exactly the keys that were inserted and not removed, returns the last value of each,
  and knows their number; in spite of keys being spread over three stores and turned into property names.
  Only the string that stands for \<open>undefined\<close> cannot be kept as the value of a primitive key.
\<close>

theorem mapcache_is_a_map:
  assumes "\<forall>x \<in> set ops. cop_ok x"
  shows "u9_get (fold mc_op ops a9_clear) k = (case fold spec_op ops Map.empty k of None \<Rightarrow> VUndef | Some v \<Rightarrow> v) \<and>
    (o9_has (fold mc_op ops a9_clear) k \<longleftrightarrow> fold spec_op ops Map.empty k \<noteq> None) \<and>
    mc_size (fold mc_op ops a9_clear) = int (card (dom (fold spec_op ops Map.empty)))"
proof -
  have r: "mc_inv (fold mc_op ops a9_clear)" "mc_lookup (fold mc_op ops a9_clear) = fold spec_op ops Map.empty"
    using mc_run [OF mc.empty_law(1) assms] by (simp_all add: mc.empty_law)
  show ?thesis using mc.get_lookup [OF r(1)] mc.has_lookup [OF r(1)] mc.size_lookup [OF r(1)] by (simp add: r(2))
qed

theorem mapcache_is_a_map_witness:
  "u9_get (fold mc_op [CSet (VNum 1) VNull, CSet (VStr ''1'') (VBool True), CSet (VRef 1) VUndef, CDelete (VNum 1)] a9_clear) (VStr ''1'') = VBool True"
  using mapcache_is_a_map [of "[CSet (VNum 1) VNull, CSet (VStr ''1'') (VBool True), CSet (VRef 1) VUndef, CDelete (VNum 1)]" "VStr ''1''"]
  by (simp add: mc_okv_def sentinel_def)

fun s9_calls :: "(jval \<Rightarrow> (string, jval) res) \<Rightarrow> jval list \<Rightarrow> mapcache \<Rightarrow> (string, jval) res list \<times> mapcache" where
  "s9_calls f [] m = ([], m)"
| "s9_calls f (k # ks) m = (let (r, m) = s9_call f k m; (rs, m) = s9_calls f ks m in (r # rs, m))"

lemma s9_call_ok:
  assumes "mc.remembers f m" "mc_size m \<le> 500" "\<forall>k. f k \<noteq> Inr sentinel"
  shows "fst (s9_call f k m) = f k \<and> mc.remembers f (snd (s9_call f k m)) \<and> mc_size (snd (s9_call f k m)) \<le> 500"
proof -
  let ?m = "if mc_size m = 500 then a9_clear else m"
  have "mc_size a9_clear = 0" by (simp add: a9_clear_def)
  then have "mc.remembers f ?m" "mc_size ?m < 500" using assms(1,2) by (auto simp: mc.remembers_empty)
  then show ?thesis using mc.memo_call [of f ?m k] assms(3) by (auto simp: s9_call_def mc_okv_def)
qed

text \<open>
  Memoizing is transparent and bounded: whatever arguments a function memoized by \<open>memoizeCapped\<close> is called
  with, each call gives what the function itself gives, exceptions included, and the cache never holds
  more than 500 entries.
\<close>

theorem memoize_capped_transparent:
  assumes "\<forall>k. f k \<noteq> Inr sentinel"
  shows "fst (s9_calls f ks a9_clear) = map f ks \<and> mc_size (snd (s9_calls f ks a9_clear)) \<le> 500"
proof -
  have "fst (s9_calls f ks m) = map f ks \<and> mc_size (snd (s9_calls f ks m)) \<le> 500" if "mc.remembers f m" "mc_size m \<le> 500" for m
    using that
  proof (induction ks arbitrary: m)
    case (Cons k ks)
    then show ?case using s9_call_ok [OF Cons.prems assms, of k] by (simp add: case_prod_beta Let_def)
  qed simp
  from this [OF mc.remembers_empty] show ?thesis by (simp add: a9_clear_def)
qed

theorem memoize_capped_transparent_witness:
  "fst (s9_calls (\<lambda>k. if k = VNull then Inl ''TypeError'' else Inr (VRef 7)) [VStr ''a'', VNull, VStr ''a''] a9_clear) =
     [Inr (VRef 7), Inl ''TypeError'', Inr (VRef 7)]"
  using memoize_capped_transparent [of "\<lambda>k. if k = VNull then Inl ''TypeError'' else Inr (VRef 7)" "[VStr ''a'', VNull, VStr ''a'']"]
  by (simp add: sentinel_def)

section \<open>The stack\<close>

lemma D_loop_rev: "n \<le> length a \<Longrightarrow> map_option (\<lambda>c. snd (a ! c)) (D_loop a k n) = map_of (rev (take n a)) k"
proof (induction n)
  case (Suc n)
  then show ?case by (cases "a ! n") (simp add: take_Suc_conv_app_nth)
qed simp

definition stack_lookup :: "stack \<Rightarrow> jval \<Rightarrow> jval option" where
  "stack_lookup s = (case st_data s of SList l \<Rightarrow> map_of (rev (lc_data l)) | SMap m \<Rightarrow> mc_lookup m)"

definition stack_inv :: "stack \<Rightarrow> bool" where
  "stack_inv s \<longleftrightarrow> (case st_data s of SList l \<Rightarrow> \<forall>e \<in> set (lc_data l). mc_okv (fst e) (snd e) | SMap m \<Rightarrow> mc_inv m)"

lemma stack_get: "stack_inv s \<Longrightarrow> iY_get s k = (case stack_lookup s k of None \<Rightarrow> VUndef | Some v \<Rightarrow> v)"
  using D_loop_rev [of "length a" a k for a]
  by (auto simp: iY_get_def stack_lookup_def stack_inv_def mc.get_lookup t9_get_def D_indexOf_def split: stack_data.splits option.splits)
     (metis option.distinct(1) option.map_disc_iff option.simps(9) option.inject order_refl take_all)+

lemma stack_set:
  assumes "stack_inv s" "mc_okv k v"
  shows "stack_inv (uY_set k v s) \<and> stack_lookup (uY_set k v s) = (stack_lookup s)(k \<mapsto> v)"
proof (cases "st_data s")
  case (SList l)
  have n: "mc_inv (bM_new (lc_data l))" "mc_lookup (bM_new (lc_data l)) = map_of (rev (lc_data l))"
    using mc.inv_sets [OF mc.empty_law(1)] mc.lookup_sets [OF mc.empty_law(1), of "lc_data l"] assms(1) SList
    by (simp_all add: bM_new_def stack_inv_def mc.empty_law)
  show ?thesis using SList assms n by (auto simp: uY_set_def stack_inv_def stack_lookup_def Let_def mc.inv_set mc.lookup_set_ok)
next
  case (SMap m)
  then show ?thesis using assms by (simp add: uY_set_def stack_inv_def stack_lookup_def Let_def mc.inv_set mc.lookup_set_ok)
qed

text \<open>
  A \<open>Stack\<close> finds the last value: however many entries are pushed, the same key among them or not, a
  lookup gives the value pushed last for the key, before and after the change from the list to the hash at
  200 entries.
\<close>

theorem stack_finds_last:
  assumes "\<forall>e \<in> set es. mc_okv (fst e) (snd e)"
  shows "iY_get (fold (\<lambda>(k, v). uY_set k v) es rY_clear) k = (case map_of (rev es) k of None \<Rightarrow> VUndef | Some v \<Rightarrow> v)"
proof -
  have "stack_inv (fold (\<lambda>(k, v). uY_set k v) es rY_clear) \<and> stack_lookup (fold (\<lambda>(k, v). uY_set k v) es rY_clear) = map_of (rev es)"
    using assms
  proof (induction es rule: rev_induct)
    case Nil
    then show ?case by (simp add: rY_clear_def stack_inv_def stack_lookup_def WP_clear_def)
  next
    case (snoc e es)
    then show ?case using stack_set [of "fold (\<lambda>(k, v). uY_set k v) es rY_clear" "fst e" "snd e"] by (cases e) simp
  qed
  then show ?thesis using stack_get by simp
qed

theorem stack_finds_last_witness:
  "iY_get (fold (\<lambda>(k, v). uY_set k v) [(VRef 1, VRef 2), (VRef 2, VRef 1), (VRef 1, VRef 3)] rY_clear) (VRef 1) = VRef 3"
  using stack_finds_last [of "[(VRef 1, VRef 2), (VRef 2, VRef 1), (VRef 1, VRef 3)]" "VRef 1"] by (simp add: mc_okv_def sentinel_def)

end
