(* ===== verification/Lodash_Path.thy ===== *)
theory Lodash_Path
  imports Js_Prelude
begin

text \<open>
  Reading a property by its path with lodash (\<open>src/internal/admin/dist/index-DxrWcVFD.js\<close>, \<open>yM\<close>, \<open>f9\<close>, \<open>c8\<close>, \<open>xM\<close>, \<open>s8\<close>),
  as the charts do with their data keys.  The regular expressions are written out as scanners.  Objects are
  those of the program that uses the library: \<open>prop\<close> is property access and \<open>inop\<close> the operator \<open>in\<close>.
\<close>

section \<open>Splitting a path\<close>

abbreviation dot_c :: char where "dot_c \<equiv> CHR ''.''"
abbreviation open_c :: char where "open_c \<equiv> CHR ''[''"
abbreviation close_c :: char where "close_c \<equiv> CHR '']''"
abbreviation bsl :: char where "bsl \<equiv> CHR 0x5C"

definition special :: "char \<Rightarrow> bool" where
  "special c \<longleftrightarrow> c = dot_c \<or> c = open_c \<or> c = close_c"

definition is_quote :: "char \<Rightarrow> bool" where
  "is_quote c \<longleftrightarrow> c = CHR 0x22 \<or> c = CHR 0x27"

definition is_digit :: "char \<Rightarrow> bool" where
  "is_digit c \<longleftrightarrow> 48 \<le> (of_char c :: nat) \<and> (of_char c :: nat) \<le> 57"

definition line_end :: "char \<Rightarrow> bool" where
  "line_end c \<longleftrightarrow> c = CHR 0x0A \<or> c = CHR 0x0D"

text \<open>The rest of \<open>[-?\d+(\.\d+)?]\<close> after the bracket: the number and what follows the closing bracket.\<close>

definition f9_unsigned :: "string \<Rightarrow> (string \<times> string) option" where
  "f9_unsigned s =
     (let ds = takeWhile is_digit s in
      if ds = [] then None
      else case dropWhile is_digit s of [] \<Rightarrow> None
        | c # s3 \<Rightarrow>
            if c = close_c then Some (ds, s3)
            else if c = dot_c \<and> takeWhile is_digit s3 \<noteq> [] then
              (case dropWhile is_digit s3 of [] \<Rightarrow> None
               | d # s4 \<Rightarrow> if d = close_c then Some (ds @ dot_c # takeWhile is_digit s3, s4) else None)
            else None)"

definition f9_number :: "string \<Rightarrow> (string \<times> string) option" where
  "f9_number s = (case s of [] \<Rightarrow> None
     | c # r \<Rightarrow> if c = CHR ''-'' then map_option (\<lambda>(t, r'). (c # t, r')) (f9_unsigned r) else f9_unsigned s)"

text \<open>The rest of a quoted key after its quote.\<close>

fun f9_quoted :: "char \<Rightarrow> string \<Rightarrow> (string \<times> string) option" where
  "f9_quoted q [] = None"
| "f9_quoted q (c # s) =
     (if c = q then (case s of [] \<Rightarrow> None | d # r \<Rightarrow> if d = close_c then Some ([], r) else None)
      else if c = bsl then
        (case s of [] \<Rightarrow> None
         | d # r \<Rightarrow> if line_end d then None else map_option (\<lambda>(b, r'). (c # d # b, r')) (f9_quoted q r))
      else map_option (\<lambda>(b, r'). (c # b, r')) (f9_quoted q s))"

text \<open>\<open>b.replace(/\\(\\)?/g, "$1")\<close>.\<close>

fun f9_unescape :: "string \<Rightarrow> string" where
  "f9_unescape [] = []"
| "f9_unescape (c # s) =
     (if c = bsl then (case s of [] \<Rightarrow> [] | d # r \<Rightarrow> if d = bsl then bsl # f9_unescape r else f9_unescape s)
      else c # f9_unescape s)"

definition f9_bracket :: "string \<Rightarrow> (string \<times> string) option" where
  "f9_bracket s =
     (case f9_number s of Some x \<Rightarrow> Some x
      | None \<Rightarrow> (case s of [] \<Rightarrow> None
          | q # r \<Rightarrow> if is_quote q then map_option (\<lambda>(b, r'). (f9_unescape b, r')) (f9_quoted q r) else None))"

text \<open>The empty match of \<open>(?=(?:\.|\[\])(?:\.|\[\]|$))\<close>.\<close>

definition sep :: "string \<Rightarrow> string option" where
  "sep s = (case s of [] \<Rightarrow> None | c # r \<Rightarrow> if c = dot_c then Some r
     else if c = open_c then (case r of [] \<Rightarrow> None | d # r' \<Rightarrow> if d = close_c then Some r' else None) else None)"

definition f9_empty :: "string \<Rightarrow> bool" where
  "f9_empty s \<longleftrightarrow> (case sep s of None \<Rightarrow> False | Some r \<Rightarrow> r = [] \<or> sep r \<noteq> None)"

lemma f9_quoted_length: "f9_quoted q s = Some (b, r) \<Longrightarrow> length r < length s"
  by (induction q s arbitrary: b r rule: f9_quoted.induct) (fastforce split: if_splits list.splits)+

lemma dropWhile_Cons_length: "dropWhile P xs = c # ys \<Longrightarrow> length ys < length xs"
  by (metis length_Cons length_dropWhile_le less_le_trans lessI)

lemma f9_unsigned_length: "f9_unsigned s = Some (b, r) \<Longrightarrow> length r < length s"
  by (auto simp: f9_unsigned_def Let_def split: if_splits list.splits dest!: dropWhile_Cons_length)

lemma f9_number_length: "f9_number s = Some (b, r) \<Longrightarrow> length r < length s"
  by (auto simp: f9_number_def split: if_splits list.splits dest!: f9_unsigned_length)

lemma f9_bracket_length: "f9_bracket s = Some (b, r) \<Longrightarrow> length r < length s"
  by (auto simp: f9_bracket_def split: option.splits list.splits if_splits dest: f9_number_length f9_quoted_length)


text \<open>The calls of the replacer, from left to right; after an empty match the search goes on one character later.\<close>

function f9_scan :: "string \<Rightarrow> string list" where
  "f9_scan [] = []"
| "f9_scan (c # s) =
     (if \<not> special c then (c # takeWhile (\<lambda>x. \<not> special x) s) # f9_scan (dropWhile (\<lambda>x. \<not> special x) s)
      else case (if c = open_c then f9_bracket s else None) of
        Some (t, r) \<Rightarrow> t # f9_scan r
      | None \<Rightarrow> (if f9_empty (c # s) then [[]] else []) @ f9_scan s)"
  by pat_completeness auto
termination
  by (relation "measure length") (auto simp: le_imp_less_Suc length_dropWhile_le split: if_splits dest!: f9_bracket_length)

definition f9_stringToPath :: "string \<Rightarrow> string list" where
  "f9_stringToPath c = (if take 1 c = [dot_c] then [[]] else []) @ f9_scan c"

section \<open>Reading\<close>

definition word_c :: "char \<Rightarrow> bool" where
  "word_c c \<longleftrightarrow> is_digit c \<or> 65 \<le> (of_char c :: nat) \<and> (of_char c :: nat) \<le> 90 \<or> 97 \<le> (of_char c :: nat) \<and> (of_char c :: nat) \<le> 122 \<or> c = CHR ''_''"

text \<open>The test of \<open>/\.|\[(?:[^[\]]*|(["'])(?:(?!\1)[^\\]|\\.)*?\1)\]/\<close>.\<close>

definition yM_bracket :: "string \<Rightarrow> bool" where
  "yM_bracket s \<longleftrightarrow> take 1 (dropWhile (\<lambda>c. c \<noteq> open_c \<and> c \<noteq> close_c) s) = [close_c] \<or>
     (case s of [] \<Rightarrow> False | q # r \<Rightarrow> is_quote q \<and> f9_quoted q r \<noteq> None)"

fun yM_deep :: "string \<Rightarrow> bool" where
  "yM_deep [] = False"
| "yM_deep (c # s) \<longleftrightarrow> c = dot_c \<or> c = open_c \<and> yM_bracket s \<or> yM_deep s"

datatype 'o jv = Undef | Null | Val 'o

text \<open>A path is a string, an array of property names, or another primitive, given by its property name.\<close>

datatype gpath = GStr string | GArr "string list" | GPrim string

definition yM_isKey :: "('o \<Rightarrow> string \<Rightarrow> bool) \<Rightarrow> gpath \<Rightarrow> 'o jv \<Rightarrow> bool" where
  "yM_isKey inop p h = (case p of GArr ks \<Rightarrow> False | GPrim k \<Rightarrow> True
     | GStr s \<Rightarrow> list_all word_c s \<or> \<not> yM_deep s \<or> (case h of Val o' \<Rightarrow> inop o' s | _ \<Rightarrow> False))"

definition c8_castPath :: "('o \<Rightarrow> string \<Rightarrow> bool) \<Rightarrow> gpath \<Rightarrow> 'o jv \<Rightarrow> string list" where
  "c8_castPath inop p h = (case p of GArr ks \<Rightarrow> ks
     | GPrim k \<Rightarrow> [k]
     | GStr s \<Rightarrow> if yM_isKey inop p h then [s] else f9_stringToPath s)"

text \<open>The loop of \<open>xM\<close> and its result, undefined when the loop ends early or the path is empty.\<close>

fun xM_loop :: "('o \<Rightarrow> string \<Rightarrow> 'o jv) \<Rightarrow> 'o jv \<Rightarrow> string list \<Rightarrow> 'o jv" where
  "xM_loop prop i [] = i"
| "xM_loop prop i (k # ks) = (case i of Val o' \<Rightarrow> xM_loop prop (prop o' k) ks | _ \<Rightarrow> Undef)"

definition xM_baseGet :: "('o \<Rightarrow> string \<Rightarrow> 'o jv) \<Rightarrow> ('o \<Rightarrow> string \<Rightarrow> bool) \<Rightarrow> 'o jv \<Rightarrow> gpath \<Rightarrow> 'o jv" where
  "xM_baseGet prop inop i c = (let c = c8_castPath inop c i in if c = [] then Undef else xM_loop prop i c)"

definition s8_get :: "('o \<Rightarrow> string \<Rightarrow> 'o jv) \<Rightarrow> ('o \<Rightarrow> string \<Rightarrow> bool) \<Rightarrow> 'o jv \<Rightarrow> gpath \<Rightarrow> 'o jv \<Rightarrow> 'o jv" where
  "s8_get prop inop a i c =
     (let s = (case a of Val o' \<Rightarrow> xM_baseGet prop inop a i | _ \<Rightarrow> Undef) in case s of Undef \<Rightarrow> c | _ \<Rightarrow> s)"

section \<open>Printing a path\<close>

text \<open>A path as it is written in JavaScript: plain names after dots, any other name quoted in brackets.\<close>

definition plain :: "string \<Rightarrow> bool" where
  "plain n \<longleftrightarrow> n \<noteq> [] \<and> list_all (\<lambda>c. \<not> special c) n"

fun escape :: "string \<Rightarrow> string" where
  "escape [] = []"
| "escape (c # s) = (if c = CHR 0x22 \<or> c = bsl then bsl # c # escape s else c # escape s)"

definition step_str :: "string \<Rightarrow> string" where
  "step_str n = (if plain n then dot_c # n else open_c # CHR 0x22 # escape n @ [CHR 0x22, close_c])"

definition path_str :: "string list \<Rightarrow> string" where
  "path_str ns = (case ns of [] \<Rightarrow> [] | n # ns \<Rightarrow> (if plain n then n else step_str n) @ concat (map step_str ns))"

lemma quoted_escape: "f9_quoted (CHR 0x22) (escape n @ CHR 0x22 # close_c # r) = Some (escape n, r)"
  by (induction n) (simp_all add: line_end_def)

lemma unescape_escape: "f9_unescape (escape n) = n"
  by (induction n) simp_all

lemma bracket_step: "f9_bracket (CHR 0x22 # escape n @ CHR 0x22 # close_c # r) = Some (n, r)"
  by (simp add: f9_bracket_def f9_number_def f9_unsigned_def is_digit_def is_quote_def quoted_escape unescape_escape)

lemma step_special: "concat (map step_str ns) = [] \<or> special (hd (concat (map step_str ns)))"
  by (cases ns) (simp_all add: step_str_def special_def)

lemma scan_plain:
  assumes "plain n" "r = [] \<or> special (hd r)"
  shows "f9_scan (n @ r) = n # f9_scan r"
proof (cases n)
  case (Cons c s)
  have s: "\<not> special c" "\<forall>x \<in> set s. \<not> special x" using assms(1) Cons by (auto simp: plain_def list_all_iff)
  then have "takeWhile (\<lambda>x. \<not> special x) (s @ r) = s" "dropWhile (\<lambda>x. \<not> special x) (s @ r) = r"
    using assms(2) by (cases r; simp)+
  then show ?thesis using Cons s by simp
qed (use assms in \<open>simp add: plain_def\<close>)

lemma scan_dot: "plain n \<Longrightarrow> f9_scan (dot_c # n @ r) = f9_scan (n @ r)"
  by (cases n) (auto simp: plain_def f9_empty_def sep_def special_def)

lemma scan_steps: "f9_scan (concat (map step_str ns)) = ns"
proof (induction ns)
  case (Cons n ns)
  show ?case
  proof (cases "plain n")
    case True
    then have "step_str n = dot_c # n" by (simp add: step_str_def)
    then show ?thesis using Cons scan_plain [OF True step_special] scan_dot [OF True] by (simp del: f9_scan.simps(2))
  next
    case False
    then have "step_str n @ concat (map step_str ns) = open_c # CHR 0x22 # escape n @ CHR 0x22 # close_c # concat (map step_str ns)"
      by (simp add: step_str_def)
    then show ?thesis using Cons bracket_step [of n "concat (map step_str ns)"] by (simp add: special_def)
  qed
qed simp

lemma plain_no_dot: "plain n \<Longrightarrow> take 1 (n @ r) \<noteq> [dot_c]"
  by (cases n) (auto simp: plain_def special_def)

text \<open>
  Splitting undoes printing: every list of names, whatever characters they contain, is read back from the
  path that writes plain names after dots and quotes the others in brackets.
\<close>

theorem path_roundtrip: "f9_stringToPath (path_str ns) = ns"
proof (cases ns)
  case (Cons n ms)
  show ?thesis
  proof (cases "plain n")
    case True
    then show ?thesis using Cons scan_plain [OF True step_special, of ms] plain_no_dot [OF True] by (simp add: path_str_def f9_stringToPath_def scan_steps)
  next
    case False
    then show ?thesis using Cons scan_steps [of ns] by (simp add: path_str_def f9_stringToPath_def step_str_def)
  qed
qed (simp add: path_str_def f9_stringToPath_def)


section \<open>Reading by a printed path\<close>

lemma deep_suffix: "yM_deep r \<Longrightarrow> yM_deep (s @ r)"
  by (induction s) auto

lemma step_deep: "yM_deep (step_str n @ r) \<and> \<not> list_all word_c (step_str n @ r)"
proof (cases "plain n")
  case True
  then show ?thesis by (simp add: step_str_def word_c_def is_digit_def)
next
  case False
  have "f9_quoted (CHR 0x22) (escape n @ CHR 0x22 # close_c # r) \<noteq> None" by (simp add: quoted_escape)
  then show ?thesis using False by (simp add: step_str_def yM_bracket_def is_quote_def word_c_def is_digit_def)
qed

text \<open>A printed path of one plain name is a key; any other is split.\<close>

lemma cast_printed:
  assumes "ns \<noteq> []" "\<not> inop o' (path_str ns)"
  shows "c8_castPath inop (GStr (path_str ns)) (Val o') = ns"
proof -
  obtain n ms where ns: "ns = n # ms" using assms(1) by (cases ns) auto
  show ?thesis
  proof (cases "ms = [] \<and> plain n")
    case True
    then have "f9_stringToPath (path_str ns) = [path_str ns]" using ns path_roundtrip [of ns] by (simp add: path_str_def)
    then show ?thesis using path_roundtrip [of ns] by (simp add: c8_castPath_def)
  next
    case False
    have "yM_deep (path_str ns) \<and> \<not> list_all word_c (path_str ns)"
    proof (cases "plain n")
      case True
      then obtain m ks where "ms = m # ks" using False by (cases ms) auto
      then show ?thesis using True ns step_deep [of m "concat (map step_str ks)"] by (auto simp: path_str_def deep_suffix)
    next
      case False
      then show ?thesis using ns step_deep [of n "concat (map step_str ms)"] by (simp add: path_str_def)
    qed
    then show ?thesis using assms(2) path_roundtrip [of ns] by (simp add: c8_castPath_def yM_isKey_def)
  qed
qed

text \<open>
  The walk along some names: the values \<open>vs\<close> met on the way, each the property of the one before it, and
  undefined after undefined or null.
\<close>

definition walk :: "('o \<Rightarrow> string \<Rightarrow> 'o jv) \<Rightarrow> string list \<Rightarrow> 'o jv list \<Rightarrow> bool" where
  "walk prop ns vs \<longleftrightarrow> length vs = Suc (length ns) \<and>
     (\<forall>i < length ns. vs ! Suc i = (case vs ! i of Val x \<Rightarrow> prop x (ns ! i) | Null \<Rightarrow> Undef | Undef \<Rightarrow> Undef))"

lemma walk_Cons: "walk prop (n # ns) (v # vs) \<longleftrightarrow>
    walk prop ns vs \<and> hd vs = (case v of Val x \<Rightarrow> prop x n | Null \<Rightarrow> Undef | Undef \<Rightarrow> Undef)"
  by (cases vs) (auto simp: walk_def nth_Cons' All_less_Suc2 split: jv.splits)

lemma walk_stays: "walk prop ns vs \<Longrightarrow> hd vs = Undef \<Longrightarrow> last vs = Undef"
proof (induction ns arbitrary: vs)
  case Nil
  then show ?case by (cases vs) (auto simp: walk_def)
next
  case (Cons n ns)
  then obtain v ws where vs: "vs = v # ws" "ws \<noteq> []" by (cases vs; cases "tl vs") (auto simp: walk_def)
  then show ?case using Cons.IH [of ws] Cons.prems by (simp add: walk_Cons)
qed

lemma loop_walks: "walk prop ns vs \<Longrightarrow> xM_loop prop (hd vs) ns = last vs"
proof (induction ns arbitrary: vs)
  case Nil
  then show ?case by (cases vs) (auto simp: walk_def)
next
  case (Cons n ns)
  then obtain v ws where vs: "vs = v # ws" "ws \<noteq> []" by (cases vs; cases "tl vs") (auto simp: walk_def)
  then have w: "walk prop ns ws" "hd ws = (case v of Val x \<Rightarrow> prop x n | Null \<Rightarrow> Undef | Undef \<Rightarrow> Undef)"
    using Cons.prems by (simp_all add: walk_Cons)
  then show ?case using vs Cons.IH [OF w(1)] walk_stays [OF w(1)] by (cases v) simp_all
qed

lemma walk_exists: "\<exists>vs. walk prop ns vs \<and> hd vs = v"
proof (induction ns arbitrary: v)
  case Nil
  show ?case by (intro exI [of _ "[v]"]) (simp add: walk_def)
next
  case (Cons n ns)
  then obtain vs where "walk prop ns vs" "hd vs = (case v of Val x \<Rightarrow> prop x n | Null \<Rightarrow> Undef | Undef \<Rightarrow> Undef)" by blast
  then show ?case by (intro exI [of _ "v # vs"]) (simp add: walk_Cons)
qed

text \<open>
  C40. \<open>get\<close> reads what the path says.  The names of the path, given as a list or printed as a string, are
  walked from the object, each read from the value before it; the result is the last value, or the default
  when that is undefined, as it is once a name is read of null or undefined.  A property whose name is
  the whole string has precedence.
\<close>

theorem get_reads_path:
  assumes "ns \<noteq> []"
  shows "\<exists>vs. walk prop ns vs \<and> hd vs = Val o' \<and>
    s8_get prop inop (Val o') (GArr ns) d = (case last vs of Undef \<Rightarrow> d | v \<Rightarrow> v) \<and>
    s8_get prop inop (Val o') (GStr (path_str ns)) d =
      (case (if inop o' (path_str ns) then prop o' (path_str ns) else last vs) of Undef \<Rightarrow> d | v \<Rightarrow> v)"
proof -
  obtain vs where vs: "walk prop ns vs" "hd vs = Val o'" using walk_exists by blast
  then have l: "xM_loop prop (Val o') ns = last vs" using loop_walks by fastforce
  have "s8_get prop inop (Val o') (GArr ns) d = (case last vs of Undef \<Rightarrow> d | v \<Rightarrow> v)"
    using assms l by (simp add: s8_get_def xM_baseGet_def c8_castPath_def Let_def split: jv.split)
  moreover have "s8_get prop inop (Val o') (GStr (path_str ns)) d =
      (case (if inop o' (path_str ns) then prop o' (path_str ns) else last vs) of Undef \<Rightarrow> d | v \<Rightarrow> v)"
  proof (cases "inop o' (path_str ns)")
    case True
    then have "c8_castPath inop (GStr (path_str ns)) (Val o') = [path_str ns]" by (simp add: c8_castPath_def yM_isKey_def)
    then show ?thesis using True by (simp add: s8_get_def xM_baseGet_def Let_def split: jv.split)
  next
    case False
    then show ?thesis using cast_printed [OF assms, of inop o'] assms l by (simp add: s8_get_def xM_baseGet_def Let_def split: jv.split)
  qed
  ultimately show ?thesis using vs by blast
qed

text \<open>Objects of one kind: association lists.\<close>

datatype tree = Leaf int | Node "(string \<times> tree) list"

fun tree_prop :: "tree \<Rightarrow> string \<Rightarrow> tree jv" where
  "tree_prop (Leaf i) k = Undef"
| "tree_prop (Node es) k = (case map_of es k of None \<Rightarrow> Undef | Some t \<Rightarrow> Val t)"

definition tree_in :: "tree \<Rightarrow> string \<Rightarrow> bool" where
  "tree_in t k \<longleftrightarrow> tree_prop t k \<noteq> Undef"

theorem get_reads_path_witness:
  "s8_get tree_prop tree_in (Val (Node [(''a'', Node [(''b.c'', Leaf 3)])])) (GStr (path_str [''a'', ''b.c''])) Null = Val (Leaf 3)"
proof -
  let ?o = "Node [(''a'', Node [(''b.c'', Leaf 3)])]"
  have "path_str [''a'', ''b.c''] \<noteq> ''a''" by (simp add: path_str_def step_str_def plain_def special_def)
  then have i: "\<not> tree_in ?o (path_str [''a'', ''b.c''])" by (simp add: tree_in_def)
  obtain vs where vs: "walk tree_prop [''a'', ''b.c''] vs" "hd vs = Val ?o"
    "s8_get tree_prop tree_in (Val ?o) (GStr (path_str [''a'', ''b.c''])) Null = (case last vs of Undef \<Rightarrow> Null | v \<Rightarrow> v)"
    using get_reads_path [of "[''a'', ''b.c'']" tree_prop ?o tree_in Null] i by auto
  obtain x y z where "vs = [x, y, z]" using vs(1) by (auto simp: walk_def length_Suc_conv)
  then have "last vs = Val (Leaf 3)" using vs(1,2) by (simp add: walk_Cons)
  then show ?thesis using vs(3) by simp
qed

end
