(* ===== verification/Admin_Entry.thy ===== *)
theory Admin_Entry
  imports Js_Prelude
begin

text \<open>
  The entry points of the bundle: \<open>src/internal/admin/dist/index.js\<close>, the script of the page, with the
  preloading of modules for browsers that have none and the mounting of the dashboard, and
  \<open>index2.js\<close>, the function \<open>mountOJSAdmin\<close> for pages that embed it.  Elements are identified by
  numbers; \<open>fetch\<close> is recorded, and the answers, which are thrown away, are left out.
\<close>

section \<open>Preloading\<close>

record dom_node =
  dn_tagName :: string
  dn_rel :: string
  dn_href :: string
  dn_integrity :: string
  dn_referrerPolicy :: string
  dn_crossOrigin :: "string option"
  dn_ep :: bool

record fetch_options =
  fo_integrity :: "string option"
  fo_referrerPolicy :: "string option"
  fo_credentials :: string

definition n_fetchOptions :: "dom_node \<Rightarrow> fetch_options" where
  "n_fetchOptions e =
     \<lparr>fo_integrity = (if dn_integrity e \<noteq> [] then Some (dn_integrity e) else None),
      fo_referrerPolicy = (if dn_referrerPolicy e \<noteq> [] then Some (dn_referrerPolicy e) else None),
      fo_credentials =
        (if dn_crossOrigin e = Some ''use-credentials'' then ''include''
         else if dn_crossOrigin e = Some ''anonymous'' then ''omit'' else ''same-origin'')\<rparr>"

record preload =
  pl_nodes :: "nat \<Rightarrow> dom_node"
  pl_fetched :: "(string \<times> fetch_options) list"

definition s_processPreload :: "nat \<Rightarrow> preload \<Rightarrow> preload" where
  "s_processPreload i st =
     (let e = pl_nodes st i in
      if dn_ep e then st
      else
        let e = e\<lparr>dn_ep := True\<rparr> in
        st\<lparr>pl_nodes := (pl_nodes st)(i := e), pl_fetched := pl_fetched st @ [(dn_href e, n_fetchOptions e)]\<rparr>)"

definition is_preload :: "dom_node \<Rightarrow> bool" where
  "is_preload e \<longleftrightarrow> dn_tagName e = ''LINK'' \<and> dn_rel e = ''modulepreload''"

text \<open>The \<open>MutationObserver\<close>: one batch of records, each with its type and the nodes that were added.\<close>

record mutation =
  mu_type :: string
  mu_addedNodes :: "nat list"

fun added_step :: "nat list \<Rightarrow> preload \<Rightarrow> preload" where
  "added_step [] st = st"
| "added_step (o' # os) st = added_step os (if is_preload (pl_nodes st o') then s_processPreload o' st else st)"

fun observer_callback :: "mutation list \<Rightarrow> preload \<Rightarrow> preload" where
  "observer_callback [] st = st"
| "observer_callback (r # rs) st =
     observer_callback rs (if mu_type r = ''childList'' then added_step (mu_addedNodes r) st else st)"

text \<open>
  The script: \<open>supported\<close> says whether the browser preloads modules itself, \<open>doc\<close> are the elements of the
  document, in order, and \<open>batches\<close> what the observer is later called with.
\<close>

definition preload_run :: "bool \<Rightarrow> nat list \<Rightarrow> mutation list list \<Rightarrow> preload \<Rightarrow> preload" where
  "preload_run supported doc batches st =
     (if supported then st
      else fold observer_callback batches (fold s_processPreload (filter (\<lambda>i. is_preload (pl_nodes st i)) doc) st))"

section \<open>Mounting\<close>

record admin_props =
  ap_baseUrl :: string
  ap_basename :: string

record mount_options =
  mo_baseUrl :: "string option"
  mo_basename :: "string option"

definition entry_props :: admin_props where
  "entry_props = \<lparr>ap_baseUrl = '''', ap_basename = ''/ojs/admin''\<rparr>"

definition m_mountProps :: "mount_options option \<Rightarrow> admin_props" where
  "m_mountProps e =
     (let e = (case e of None \<Rightarrow> \<lparr>mo_baseUrl = None, mo_basename = None\<rparr> | Some e \<Rightarrow> e) in
      \<lparr>ap_baseUrl = dflt '''' (mo_baseUrl e), ap_basename = dflt ''/ojs/admin'' (mo_basename e)\<rparr>)"

section \<open>Each module is fetched once\<close>

definition nub :: "'a list \<Rightarrow> 'a list" where
  "nub xs = rev (remdups (rev xs))"

lemma nub_Nil [simp]: "nub [] = []"
  by (simp add: nub_def)

lemma nub_snoc: "nub (xs @ [x]) = (if x \<in> set xs then nub xs else nub xs @ [x])"
  by (simp add: nub_def)

text \<open>The state when the links \<open>is\<close> have been processed, in this order, some of them again.\<close>

definition preloaded :: "(nat \<Rightarrow> dom_node) \<Rightarrow> nat list \<Rightarrow> preload" where
  "preloaded nd is = \<lparr>pl_nodes = (\<lambda>i. if i \<in> set is then (nd i)\<lparr>dn_ep := True\<rparr> else nd i),
     pl_fetched = map (\<lambda>i. (dn_href (nd i), n_fetchOptions (nd i))) (nub is)\<rparr>"

lemma fetchOptions_ep [simp]: "n_fetchOptions (e\<lparr>dn_ep := b\<rparr>) = n_fetchOptions e"
  by (simp add: n_fetchOptions_def)

lemma is_preload_preloaded [simp]: "is_preload (pl_nodes (preloaded nd is) i) = is_preload (nd i)"
  by (simp add: preloaded_def is_preload_def)

lemma process_preloaded:
  assumes "\<forall>i. \<not> dn_ep (nd i)"
  shows "s_processPreload i (preloaded nd is) = preloaded nd (is @ [i])"
  using assms by (auto simp: s_processPreload_def preloaded_def Let_def nub_snoc)

lemma process_all_preloaded:
  "\<forall>i. \<not> dn_ep (nd i) \<Longrightarrow> fold s_processPreload js (preloaded nd is) = preloaded nd (is @ js)"
  by (induction js arbitrary: "is") (simp_all add: process_preloaded)

lemma added_preloaded:
  "\<forall>i. \<not> dn_ep (nd i) \<Longrightarrow> added_step js (preloaded nd is) = preloaded nd (is @ filter (\<lambda>i. is_preload (nd i)) js)"
  by (induction js arbitrary: "is") (simp_all add: process_preloaded)

definition added_links :: "(nat \<Rightarrow> dom_node) \<Rightarrow> mutation list \<Rightarrow> nat list" where
  "added_links nd rs = filter (\<lambda>i. is_preload (nd i)) (concat (map mu_addedNodes (filter (\<lambda>r. mu_type r = ''childList'') rs)))"

lemma observer_preloaded:
  "\<forall>i. \<not> dn_ep (nd i) \<Longrightarrow> observer_callback rs (preloaded nd is) = preloaded nd (is @ added_links nd rs)"
  by (induction rs arbitrary: "is") (simp_all add: added_preloaded added_links_def)

lemma batches_preloaded:
  "\<forall>i. \<not> dn_ep (nd i) \<Longrightarrow> fold observer_callback bs (preloaded nd is) = preloaded nd (is @ concat (map (added_links nd) bs))"
  by (induction bs arbitrary: "is") (simp_all add: observer_preloaded)

lemma preloaded_start: "\<lparr>pl_nodes = nd, pl_fetched = []\<rparr> = preloaded nd []"
  by (simp add: preloaded_def nub_def)

text \<open>
  The modules that are fetched are those of the preload links of the document and of the links that
  are added to it later, in the order they appear and each once, however often a link is moved or
  reported; nothing is fetched when the browser preloads modules itself.
\<close>

theorem modules_fetched_once:
  assumes "\<forall>i. \<not> dn_ep (nd i)"
  shows "pl_fetched (preload_run supported doc batches \<lparr>pl_nodes = nd, pl_fetched = []\<rparr>) =
    (if supported then []
     else map (\<lambda>i. (dn_href (nd i), n_fetchOptions (nd i)))
            (nub (filter (\<lambda>i. is_preload (nd i)) doc @ concat (map (added_links nd) batches))))"
  using assms
  by (simp add: preload_run_def preloaded_start process_all_preloaded batches_preloaded) (simp add: preloaded_def)

theorem modules_fetched_once_witness:
  "let link = \<lparr>dn_tagName = ''LINK'', dn_rel = ''modulepreload'', dn_href = ''/a.js'', dn_integrity = '''', dn_referrerPolicy = '''',
         dn_crossOrigin = Some ''anonymous'', dn_ep = False\<rparr>;
       nd = (\<lambda>i::nat. link\<lparr>dn_tagName := if i < 2 then ''LINK'' else ''DIV''\<rparr>) in
   pl_fetched (preload_run False [0, 2] [[\<lparr>mu_type = ''childList'', mu_addedNodes = [1, 0, 2]\<rparr>], [\<lparr>mu_type = ''childList'', mu_addedNodes = [1]\<rparr>]]
     \<lparr>pl_nodes = nd, pl_fetched = []\<rparr>) = replicate 2 (''/a.js'', \<lparr>fo_integrity = None, fo_referrerPolicy = None, fo_credentials = ''omit''\<rparr>)"
  unfolding Let_def
  by (subst modules_fetched_once) (simp_all add: added_links_def is_preload_def nub_def n_fetchOptions_def numeral_2_eq_2)

lemma mount_defaults: "m_mountProps None = entry_props"
  by (simp add: m_mountProps_def entry_props_def)

end
