(* ===== verification/Spec2Isabelle.thy ===== *)
theory Spec2Isabelle
  imports Admin_Routes Router_History Root_List Event_Emitter Admin_Client Admin_Pages Reconcile_Correct React_Updates Poll_Hooks Decimal_Correct Lodash_Cache Lodash_Path Admin_Entry
begin

text \<open>
  Verification library for the admin dashboard of the OJS backend for NATS.

  \<^bold>\<open>The program.\<close>  The backend is a Go server; \<open>src/internal/server/server.go\<close> mounts, next to the
  job API, an admin API and the admin dashboard, a single-page application whose program is the
  bundle \<open>src/internal/admin/dist/index-DxrWcVFD.js\<close>.  The bundle holds the dashboard's own code (its
  pages and components, a polling hook, a client of the admin API) together with the libraries that
  run it: React with its scheduler, the router, and the chart library with its event emitter and
  its decimal arithmetic.  The bundle is minified; a definition has the name of the function it
  translates as a prefix (\<open>bl_processUpdateQueue\<close> is \<open>bl\<close>, \<open>dq_resolveTo\<close> is \<open>$q\<close>), followed by
  what it does.

  \<^bold>\<open>How the parts interact.\<close>  The address bar drives everything: the history object tells the router
  the location, the router chooses the page, React reconciles what the page returns with what is on
  the screen, in the lanes and at the time its scheduler decides.  A page polls the admin API through
  the client and sends the requests that its buttons stand for; the intervals of polling are set and
  cleared by effects that React runs (\<open>Poll_Hooks\<close>).  The root theory states the property that spans
  history, router and pages: the page on the screen is the page of the address bar.

  \<^bold>\<open>Conventions.\<close>  JavaScript strings are lists of bytes.  An exception is a value of a sum type, and
  each early return is a branch.  Objects are records, tagged values datatypes.  Bit sets are 32-bit
  words.  Numbers are integers where the program only counts; quotients of doubles are rational
  numbers rounded by \<open>fl\<close> to 53 binary digits.  Functions of the platform (\<open>fetch\<close>, timers, the
  clock, the session history, cloning of states, resolving of URLs, random keys) are arguments or
  events of the environment.

  \<^bold>\<open>Theories.\<close>
  \<^item> \<open>Js_Prelude\<close>, \<open>Js_Uri\<close>, \<open>Js_Number\<close>: the parts of the language that the code uses: strings,
    percent-encoding of URI components and of query strings, doubles.
  \<^item> \<open>Router_Paths\<close>, \<open>Router_Match\<close>, \<open>Router_Render\<close>, \<open>Router_History\<close>, \<open>Admin_Routes\<close>: the router.
    Paths and links (\<open>Pb\<close>, \<open>dv\<close>, \<open>$q\<close>, \<open>D7\<close>, \<open>rs\<close>, \<open>e8\<close>), compiling and ranking of route patterns
    (\<open>h7\<close>, \<open>Bq\<close>, \<open>r7\<close>, \<open>d7\<close>, \<open>n7\<close>), nesting of matches (\<open>k7\<close>, \<open>Qq\<close>, \<open>F7\<close>), the browser history
    (\<open>F$\<close>, \<open>e7\<close>, \<open>z7\<close>, \<open>OP\<close>) and the routes of the dashboard (\<open>Gre\<close>).  Proved: the best-ranked
    matching branch is chosen, no tree of well-formed patterns throws, the dashboard shows the page its address
    names, \<open>navigate\<close> gets there, back and forward undo and redo a push, and the listener is told
    the distance of a traversal as long as no push was refused and no fragment link followed.
  \<^item> \<open>Sched_Heap\<close>, \<open>Scheduler\<close>: React's scheduler.  The array heap is an interpretation of the locale
    \<open>priority_queue\<close>; the scheduler is a state machine over calls of its interface, messages and
    timeouts, whose invariant gives: no lost wake-up, no callback before its time or after its
    cancellation (except that a callback which cancels its own task and returns a continuation is
    called again), and return of the work loop.
  \<^item> \<open>React_Lanes\<close>, \<open>Root_Schedule\<close>, \<open>Root_List\<close>, \<open>React_Updates\<close>, \<open>React_Reconcile\<close>,
    \<open>Reconcile_Correct\<close>: React's priorities as bit sets, the task of a root and the list of roots that
    wait for their turn (\<open>Nl\<close>, \<open>e0\<close>, \<open>wu\<close>, \<open>lh\<close>), the update queue of a component and the
    reconciliation of children.  Proved: progress and expiry of lanes, that each waiting root has
    its own live task or is flushed, that the flush ends when work makes progress, no update lost or reordered
    over any sequence of committed and abandoned renders, and that reconciling shows the new
    children, keeps each old fiber or deletes it, and keeps the fibers of keyed children.
  \<^item> \<open>React_Hooks\<close>, \<open>Hooks_Correct\<close>, \<open>Hooks_Effects\<close>: the cells of a component's hooks (\<open>mr\<close>, \<open>Hn\<close>, \<open>Ud\<close>,
    the tables \<open>fS\<close> and \<open>oy\<close>), the queue of a state hook (\<open>Zp\<close>, \<open>xu\<close>, \<open>Ua\<close>, \<open>za\<close>) and the running of effects
    when a render is committed (\<open>pi\<close>, \<open>Va\<close>), a step relation over the lives of a component.  Proved: the state becomes that
    of all updates in the order they were dispatched, the early bail-out of \<open>setState\<close> skips only
    renders without effect, cells keep their number and kinds or the render fails, exactly the
    effects with changed dependencies run, and each clean-up function is called once, before its
    effect runs again or when the component is removed, even when effects throw.
  \<^item> \<open>Event_Emitter\<close>: the emitter of the chart library, an interpretation of the locale
    \<open>listener_store\<close>; \<open>emit\<close> refines calling a list of listeners.
  \<^item> \<open>Decimal\<close>, \<open>Decimal_Values\<close>, \<open>Decimal_Correct\<close>: the decimal arithmetic of the axes; the words are
    mapped to rational values, and comparison, sum, difference and product are those of the values,
    cut off at the precision.
  \<^item> \<open>Lodash_Cache\<close>, \<open>Lodash_Path\<close>: the part of lodash by which the charts read their data: its caches,
    which are interpretations of the locale \<open>cache\<close>, with \<open>memoize\<close> as a client, and \<open>get\<close>, whose
    regular expressions are scanners.  Proved: a \<open>MapCache\<close> is a map, memoizing is transparent and
    bounded, a printed path is read back, and \<open>get\<close> returns the value at the end of
    the walk along the names of its path, or the default where the walk stops.
  \<^item> \<open>Admin_Client\<close>: the methods of the API client (\<open>n8\<close>) and the admin routes that the server
    registers; locale \<open>api_invariant\<close>.  Proved: which requests the server serves and which not,
    that identifiers survive the URL, and how a request settles.
  \<^item> \<open>Admin_Format\<close>, \<open>Admin_Poll\<close>, \<open>Admin_Elements\<close>, \<open>Admin_Styles\<close>, \<open>Admin_Views\<close>, \<open>Admin_Pages\<close>: the
    dashboard.  Formatters (\<open>rl\<close>, \<open>kb\<close>, \<open>pM\<close>) with their rounding; the polling hook (\<open>es\<close>) as a
    state machine over renders, ticks and answers in any order; every component as a function to a
    tree of elements, with its class names; the handlers of the pages, split where they wait for an
    answer.  Proved: what the buttons offer and send (those of the job panel for the job it shows,
    unless it goes from one job to another before the first is answered), that the polled data is
    that of the last answer, the text of the whole dashboard in terms of those answers, that
    confirmation precedes a request, the text and the targets of the page controls.
  \<^item> \<open>Poll_Hooks\<close>: the polling hook as the calls of React hooks that it consists of; the runs of its effect by
    React refine the model of \<open>Admin_Poll\<close>.
  \<^item> \<open>Admin_Entry\<close>: the entry points \<open>index.js\<close> and \<open>index2.js\<close>, which preload the modules, each once,
    and mount the dashboard.

  \<^bold>\<open>Loops and bounds.\<close>  Loops are structural recursions or recursions with a measure.  The work loop
  of the scheduler and the flush of synchronous work, which need not end, take fuel, and properties
  state that enough of it gives a result.  Arithmetic is exact only where a lemma bounds it
  (\<open>quot_div\<close>, \<open>floor_fl\<close>): words below \<open>10 ^ 7\<close> and counts below \<open>2 ^ 53\<close>.

  \<^bold>\<open>Not modelled.\<close>  The rest of React (rendering of fibers, updates during a render and the
  less common hooks, hiding of subtrees, hydration, the DOM), the drawing of the chart library, the
  rest of the utility library and the animation it uses, the data-router half of the
  router, division, roots and printing of decimals: third-party code that the dashboard reaches only
  through the parts above, or not at all.  The Go backend is not modelled except for the admin
  routes that the requests are compared with.
\<close>

section \<open>The address and the page\<close>

text \<open>The page and the embedding function mount the dashboard under the same base path.\<close>

lemma mounted_at_basename: "ap_basename entry_props = Gre_basename" "ap_basename (m_mountProps None) = Gre_basename"
  by (simp_all add: entry_props_def mount_defaults Gre_basename_def)

text \<open>
  C1. The page on the screen is the page of the address bar: after the dashboard is mounted, whatever
  is pushed, replaced, traversed, refused by the window or followed as a fragment link, in whatever
  order, rendering the router's location succeeds and shows the layout around the page that the
  address of the current history entry names, or nothing when that address names none.
\<close>

theorem dashboard_follows_history:
  "let o' = fold (OP_step br) es (OP_mount w) in
   \<exists>r. Gre_render (loc_pathname (op_location o')) enc = Inr r \<and>
    map_option rd_elements r =
      (case J7_Router Gre_basename (fp_pathname (en_url (wi_entry (hi_window (op_history o'))))) of
         None \<Rightarrow> None
       | Some s \<Rightarrow> map_option (\<lambda>pg. [PLayout, pg]) (page_spec (p7_decodePath s)))"
  using OP_run_follows [of br es w] Gre_render_page [of "loc_pathname (op_location (fold (OP_step br) es (OP_mount w)))" enc]
  by (simp add: Let_def)

end
